(* ===== verification/NtPrelude.thy ===== *)
theory NtPrelude
  imports Main "HOL-Library.Word" "HOL-Library.Monad_Syntax"
begin

unbundle bit_operations_syntax

text \<open>
  The prelude of the development: the machine types, the memory model and the lemmas
  every component shares.

  A C object that the code addresses through a pointer is a list of bytes, and an access
  is an option: \<open>None\<close> stands for an access outside the object, which C leaves
  undefined. A function whose result is \<open>Some r\<close> therefore returned \<open>r\<close> and touched only
  memory it was given. Error codes the code returns are ordinary values inside the
  \<open>Some\<close>.
\<close>

named_theorems mem_simps \<open>reading back what was written\<close>
named_theorems len_simps \<open>lengths of the buffers operations return\<close>
named_theorems eval_simps \<open>equations that evaluate closed terms\<close>

type_synonym byte = "8 word"
type_synonym u16 = "16 word"
type_synonym u32 = "32 word"
type_synonym u64 = "64 word"
type_synonym bytes = "byte list"

lemma unat_bound: "unat (w :: 'a::len word) < 2 ^ LENGTH('a)"
  by (rule unsigned_less)

lemma word_of_nat_unat: "of_nat (unat (w :: 'a::len word)) = w"
  by simp

text \<open>Facts about a single byte can be checked on all of them.\<close>

lemma byte_exhaust:
  assumes "list_all (\<lambda>n. P (of_nat n)) [0..<256]"
  shows "P (b :: byte)"
proof -
  have "unat b \<in> set [0..<256]" using unat_bound [of b] by simp
  then have "P (of_nat (unat b))" using assms by (simp only: list_all_iff)
  then show ?thesis by simp
qed

lemma small_byte:
  assumes "list_all (\<lambda>n. P (of_nat n)) [0..<Suc n]" and "unat b \<le> n"
  shows "P (b :: byte)"
proof -
  have "unat b \<in> set [0..<Suc n]" using assms(2) by (simp only: set_upt atLeastLessThan_iff) simp
  then have "P (of_nat (unat b))" using assms(1) by (simp only: list_all_iff)
  then show ?thesis by simp
qed
lemma bit_less_exp: "w < 2 ^ n \<Longrightarrow> bit (w :: 'a::len word) i \<Longrightarrow> i < n"
  using less_mask_eq [of w n] by (metis bit_and_iff bit_mask_iff)

lemma small_cases:
  assumes "unat (d :: 'a::len word) < 16"
  shows "d = 0 \<or> d = 1 \<or> d = 2 \<or> d = 3 \<or> d = 4 \<or> d = 5 \<or> d = 6 \<or> d = 7 \<or>
         d = 8 \<or> d = 9 \<or> d = 10 \<or> d = 11 \<or> d = 12 \<or> d = 13 \<or> d = 14 \<or> d = 15"
proof -
  have "unat d \<in> set [0..<16]" using assms by simp
  then have "d \<in> set (map of_nat [0..<16])"
    by (metis image_eqI list.set_map word_of_nat_unat)
  moreover have "[0..<16] = [0, 1, 2, 3, 4, 5, 6, 7, 8, 9, 10, 11, 12, 13, 14, 15]" by code_simp
  ultimately show ?thesis by simp
qed

lemma unat_of_nat_small: "n < 2 ^ LENGTH('a) \<Longrightarrow> unat (of_nat n :: 'a::len word) = n"
  by (simp add: unat_of_nat)

lemma and_not_mask: "(w :: 'a::len word) AND NOT (mask n) = push_bit n (drop_bit n w)"
  by (rule bit_word_eqI) (auto simp: bit_simps)

lemma unat_and_not_mask: "unat ((w :: 'a::len word) AND NOT (mask n)) = unat w div 2 ^ n * 2 ^ n"
proof -
  have le: "unat w div 2 ^ n * 2 ^ n < 2 ^ LENGTH('a)"
    using unat_bound [of w] div_times_less_eq_dividend [of "unat w" "2 ^ n"] by linarith
  have "unat (push_bit n (drop_bit n w)) = take_bit LENGTH('a) (push_bit n (unat w div 2 ^ n))"
    by (simp add: unsigned_push_bit_eq unat_drop_bit_eq drop_bit_nat_def)
  also have "\<dots> = unat w div 2 ^ n * 2 ^ n"
    using le by (simp add: push_bit_nat_def take_bit_nat_eq_self)
  finally show ?thesis by (simp only: and_not_mask)
qed

lemma unat_and_mask: "unat ((w :: 'a::len word) AND mask n) = unat w mod 2 ^ n"
  using unsigned_take_bit_eq [of n w]
  by (metis take_bit_eq_mask take_bit_nat_def)

lemma top_bit: "bit (w :: u64) 63 \<longleftrightarrow> 2 ^ 63 \<le> unat w"
proof -
  have "bit w 63 \<longleftrightarrow> odd (unat w div 2 ^ 63)" 
    using bit_unsigned_iff [where ?'a = nat, of w 63] by (simp add: bit_iff_odd)
  moreover have "unat w div 2 ^ 63 < 2" using unat_bound [of w] by (simp add: less_mult_imp_div_less)
  ultimately show ?thesis by (auto simp: div_eq_0_iff less_2_cases_iff)
qed

text \<open>A step that gives a result has a first part that does.\<close>

lemma bindE: "Option.bind m f = Some y \<Longrightarrow> (\<And>x. m = Some x \<Longrightarrow> f x = Some y \<Longrightarrow> P) \<Longrightarrow> P"
  by (auto simp: bind_eq_Some_conv)

section \<open>Accesses to a buffer\<close>

definition rd :: "'a list \<Rightarrow> nat \<Rightarrow> 'a option" where
  "rd xs i = (if i < length xs then Some (xs ! i) else None)"

definition wr :: "'a list \<Rightarrow> nat \<Rightarrow> 'a \<Rightarrow> 'a list option" where
  "wr xs i v = (if i < length xs then Some (xs[i := v]) else None)"

definition peek :: "'a list \<Rightarrow> nat \<Rightarrow> nat \<Rightarrow> 'a list option" where
  "peek xs off n = (if off + n \<le> length xs then Some (take n (drop off xs)) else None)"

definition poke :: "'a list \<Rightarrow> nat \<Rightarrow> 'a list \<Rightarrow> 'a list option" where
  "poke xs off ys =
     (if off + length ys \<le> length xs
      then Some (take off xs @ ys @ drop (off + length ys) xs) else None)"

lemma length_chunk [len_simps]: "p + n \<le> length m \<Longrightarrow> length (take n (drop p m)) = n"
  by simp

lemma drop_exact: "length xs = n \<Longrightarrow> drop n (xs @ ys) = ys"
  by simp

lemma drop_overwrite:
  "length ys = n \<Longrightarrow> p \<le> length m \<Longrightarrow> p + n \<le> q \<Longrightarrow>
     drop q (take p m @ ys @ drop (p + n) m) = drop q m"
  by (simp add: min_def)

lemma rd_Some_iff [mem_simps]: "rd xs i = Some v \<longleftrightarrow> i < length xs \<and> xs ! i = v"
  by (auto simp: rd_def)

lemma rd_None_iff [mem_simps]: "rd xs i = None \<longleftrightarrow> length xs \<le> i"
  by (auto simp: rd_def)

lemma wr_Some_iff [mem_simps]: "wr xs i v = Some ys \<longleftrightarrow> i < length xs \<and> ys = xs[i := v]"
  by (auto simp: wr_def)

lemma peek_Some_iff [mem_simps]:
  "peek xs off n = Some ys \<longleftrightarrow> off + n \<le> length xs \<and> ys = take n (drop off xs)"
  by (auto simp: peek_def)

lemma peek_length: "peek xs off n = Some ys \<Longrightarrow> length ys = n"
  by (auto simp: peek_def split: if_splits)

lemma poke_Some_iff [mem_simps]:
  "poke xs off ys = Some zs \<longleftrightarrow>
     off + length ys \<le> length xs \<and> zs = take off xs @ ys @ drop (off + length ys) xs"
  by (auto simp: poke_def)

lemma poke_length [len_simps]: "poke xs off ys = Some zs \<Longrightarrow> length zs = length xs"
  by (auto simp: poke_def split: if_splits)

lemma poke_nth:
  assumes "poke xs off ys = Some zs" and "i < length xs"
  shows "zs ! i = (if off \<le> i \<and> i < off + length ys then ys ! (i - off) else xs ! i)"
  using assms by (auto simp: poke_def nth_append min_def split: if_splits)

lemma peek_poke_same [mem_simps]:
  "poke xs off ys = Some zs \<Longrightarrow> peek zs off (length ys) = Some ys"
  by (auto simp: poke_def peek_def split: if_splits)

lemma peek_nth: "peek xs off n = Some ys \<Longrightarrow> i < n \<Longrightarrow> ys ! i = xs ! (off + i)"
  by (auto simp: peek_def split: if_splits)

lemma peek_poke_disjoint:
  assumes "poke xs off ys = Some zs" and "p + n \<le> off \<or> off + length ys \<le> p"
  shows "peek zs p n = peek xs p n"
proof (cases "p + n \<le> length xs")
  case True
  have len: "length zs = length xs" using assms(1) by (rule poke_length)
  have "take n (drop p zs) = take n (drop p xs)"
    using True len assms
    by (intro nth_equalityI) (auto simp: poke_nth)
  then show ?thesis using True len by (simp add: peek_def)
next
  case False
  then show ?thesis using poke_length [OF assms(1)] by (simp add: peek_def)
qed

lemma rd_poke_disjoint:
  "poke xs off ys = Some zs \<Longrightarrow> i < off \<or> off + length ys \<le> i \<Longrightarrow> rd zs i = rd xs i"
  by (auto simp: rd_def poke_length poke_nth)

section \<open>Loops that may not end\<close>

text \<open>
  A loop whose termination depends on its input is given by the function of one pass: \<open>None\<close>
  for a fault, \<open>Some (Inl s)\<close> to go round again, \<open>Some (Inr r)\<close> to leave. \<open>iterate n\<close> runs at
  most \<open>n\<close> passes, and the state it still has then is an explicit outcome.
\<close>

fun iterate :: "nat \<Rightarrow> ('s \<Rightarrow> ('s + 'r) option) \<Rightarrow> 's \<Rightarrow> ('s + 'r) option" where
  "iterate 0 f s = Some (Inl s)"
| "iterate (Suc n) f s =
     (case f s of None \<Rightarrow> None
      | Some (Inl s') \<Rightarrow> iterate n f s'
      | Some (Inr r) \<Rightarrow> Some (Inr r))"

definition returns :: "('s \<Rightarrow> ('s + 'r) option) \<Rightarrow> 's \<Rightarrow> bool" where
  "returns f s \<longleftrightarrow> (\<exists>n r. iterate n f s = Some (Inr r))"

lemma iterate_more: "iterate n f s = Some (Inr r) \<Longrightarrow> n \<le> m \<Longrightarrow> iterate m f s = Some (Inr r)"
proof (induction n arbitrary: m s)
  case 0
  then show ?case by simp
next
  case (Suc n)
  then show ?case by (cases m) (auto split: option.splits sum.splits)
qed

lemma iterate_fault: "f s = None \<Longrightarrow> iterate (Suc n) f s = None"
  by simp

lemma iterate_step: "f s = Some (Inl s') \<Longrightarrow> iterate (Suc n) f s = iterate n f s'"
  by simp

text \<open>A loop every pass of which decreases a measure leaves within that many passes.\<close>

lemma iterate_measure:
  assumes step: "\<And>s. I s \<Longrightarrow>
      case f s of None \<Rightarrow> \<not> ok | Some (Inl s') \<Rightarrow> I s' \<and> (m s' :: nat) < m s | Some (Inr r) \<Rightarrow> True"
    and "I s" and "m s < n" and ok
  shows "\<exists>r. iterate n f s = Some (Inr r)"
  using assms(2,3)
proof (induction n arbitrary: s)
  case 0
  then show ?case by simp
next
  case (Suc n)
  show ?case using step [OF Suc.prems(1)] Suc.IH Suc.prems \<open>ok\<close>
    by (auto split: option.splits sum.splits)
qed

lemma iterate_ends:
  assumes step: "\<And>s s'. I s \<Longrightarrow> f s = Some (Inl s') \<Longrightarrow> I s' \<and> (m s' :: nat) < m s"
    and "I s" and "m s < n"
  shows "iterate n f s = None \<or> (\<exists>r. iterate n f s = Some (Inr r))"
  using assms(2,3)
proof (induction n arbitrary: s)
  case 0
  then show ?case by simp
next
  case (Suc n)
  show ?case
  proof (cases "f s")
    case (Some q)
    then show ?thesis using step [OF Suc.prems(1)] Suc.IH Suc.prems(2) by (cases q) fastforce+
  qed simp
qed

text \<open>A result is the result of a pass from a state that satisfies the invariant.\<close>

lemma iterate_result:
  assumes "\<And>s s'. I s \<Longrightarrow> f s = Some (Inl s') \<Longrightarrow> I s'" and "I s" and "iterate n f s = Some (Inr r)"
  shows "\<exists>t. I t \<and> f t = Some (Inr r)"
  using assms(2,3)
proof (induction n arbitrary: s)
  case (Suc n)
  then show ?case using assms(1) by (auto split: option.splits sum.splits)
qed simp

text \<open>A pass that leads back to its own state never leaves.\<close>

lemma iterate_stuck: "f s = Some (Inl s) \<Longrightarrow> iterate n f s = Some (Inl s)"
  by (induction n) auto

lemma stuck_not_returns: "f s = Some (Inl s) \<Longrightarrow> \<not> returns f s"
  by (simp add: returns_def iterate_stuck)

section \<open>Little-endian integers\<close>

fun le_word :: "bytes \<Rightarrow> 'a::len word" where
  "le_word [] = 0"
| "le_word (b # bs) = ucast b OR push_bit 8 (le_word bs)"

fun le_bytes :: "nat \<Rightarrow> 'a::len word \<Rightarrow> bytes" where
  "le_bytes 0 w = []"
| "le_bytes (Suc n) w = ucast w # le_bytes n (drop_bit 8 w)"

lemma le_bytes_numeral [eval_simps]:
  "le_bytes (numeral k) w = ucast w # le_bytes (pred_numeral k) (drop_bit 8 w)"
  by (simp add: numeral_eq_Suc)

lemma le_bytes_length [simp, len_simps]: "length (le_bytes n w) = n"
  by (induction n arbitrary: w) auto

lemma le_bytes_nth: "i < n \<Longrightarrow> le_bytes n w ! i = ucast (drop_bit (8 * i) w)"
  by (induction n arbitrary: w i) (auto simp: less_Suc_eq_0_disj add.commute)

lemma bit_le_word:
  "bit (le_word bs :: 'a::len word) i \<longleftrightarrow>
     i < LENGTH('a) \<and> i div 8 < length bs \<and> bit (bs ! (i div 8)) (i mod 8)"
proof (induction bs arbitrary: i)
  case Nil
  then show ?case by simp
next
  case (Cons b bs)
  show ?case
  proof (cases "i < 8")
    case True
    then show ?thesis
      by (auto simp: bit_or_iff bit_push_bit_iff bit_ucast_iff dest: bit_imp_le_length)
  next
    case False
    then obtain j where i: "i = j + 8" by (metis add.commute le_Suc_ex linorder_not_less)
    have "\<not> bit b (j + 8)" by (auto dest: bit_imp_le_length)
    moreover have "(j + 8) div 8 = Suc (j div 8)" by simp
    ultimately show ?thesis
      using Cons.IH [of j]
      by (auto simp: i bit_or_iff bit_push_bit_iff bit_ucast_iff simp del: div_add_self2)
  qed
qed

lemma le_word_le_bytes:
  "LENGTH('a) = 8 * n \<Longrightarrow> le_word (le_bytes n (w :: 'a::len word)) = w"
proof (rule bit_word_eqI)
  fix i assume len: "LENGTH('a) = 8 * n" and i: "i < LENGTH('a)"
  then have "i div 8 < n" by (simp add: less_mult_imp_div_less mult.commute)
  moreover have "8 * (i div 8) + i mod 8 = i" by simp
  ultimately show "bit (le_word (le_bytes n w) :: 'a word) i = bit w i"
    using i by (simp add: bit_le_word le_bytes_nth bit_ucast_iff bit_drop_bit_eq)
qed

lemma le_bytes_le_word:
  "LENGTH('a) = 8 * length bs \<Longrightarrow> le_bytes (length bs) (le_word bs :: 'a::len word) = bs"
proof (rule nth_equalityI)
  fix i assume len: "LENGTH('a) = 8 * length bs"
    and i: "i < length (le_bytes (length bs) (le_word bs :: 'a word))"
  show "le_bytes (length bs) (le_word bs :: 'a word) ! i = bs ! i"
  proof (rule bit_word_eqI)
    fix j assume "j < LENGTH(8)"
    then have "j < 8" by simp
    moreover from this have "(8 * i + j) div 8 = i" "(8 * i + j) mod 8 = j" by auto
    moreover have "8 * i + j < LENGTH('a)" using len i \<open>j < 8\<close> by simp
    ultimately show "bit (le_bytes (length bs) (le_word bs :: 'a word) ! i) j = bit (bs ! i) j"
      using i by (simp add: le_bytes_nth bit_ucast_iff bit_drop_bit_eq bit_le_word)
  qed
qed simp

definition get16 :: "bytes \<Rightarrow> nat \<Rightarrow> u16 option" where
  "get16 m off = map_option le_word (peek m off 2)"

definition get32 :: "bytes \<Rightarrow> nat \<Rightarrow> u32 option" where
  "get32 m off = map_option le_word (peek m off 4)"

definition get64 :: "bytes \<Rightarrow> nat \<Rightarrow> u64 option" where
  "get64 m off = map_option le_word (peek m off 8)"

definition put16 :: "bytes \<Rightarrow> nat \<Rightarrow> u16 \<Rightarrow> bytes option" where
  "put16 m off v = poke m off (le_bytes 2 v)"

definition put32 :: "bytes \<Rightarrow> nat \<Rightarrow> u32 \<Rightarrow> bytes option" where
  "put32 m off v = poke m off (le_bytes 4 v)"

definition put64 :: "bytes \<Rightarrow> nat \<Rightarrow> u64 \<Rightarrow> bytes option" where
  "put64 m off v = poke m off (le_bytes 8 v)"

lemma get_put16 [mem_simps]: "put16 m off v = Some m' \<Longrightarrow> get16 m' off = Some v"
  using peek_poke_same [of m off "le_bytes 2 v" m']
  by (simp add: put16_def get16_def le_word_le_bytes)

lemma get_put32 [mem_simps]: "put32 m off v = Some m' \<Longrightarrow> get32 m' off = Some v"
  using peek_poke_same [of m off "le_bytes 4 v" m']
  by (simp add: put32_def get32_def le_word_le_bytes)

lemma get_put64 [mem_simps]: "put64 m off v = Some m' \<Longrightarrow> get64 m' off = Some v"
  using peek_poke_same [of m off "le_bytes 8 v" m']
  by (simp add: put64_def get64_def le_word_le_bytes)

section \<open>Interfaces: fixed-width field encodings\<close>

text \<open>
  What every reader and writer of an on-disk or in-memory field relies on: encoding and
  decoding are inverse and the width is fixed. The little-endian integers of each width
  are instances.
\<close>

locale field_codec =
  fixes width :: nat
    and enc :: "'v \<Rightarrow> bytes"
    and dec :: "bytes \<Rightarrow> 'v"
  assumes enc_width: "length (enc v) = width"
    and dec_enc: "dec (enc v) = v"
    and enc_dec: "length bs = width \<Longrightarrow> enc (dec bs) = bs"
begin

lemma enc_inj: "enc v = enc w \<Longrightarrow> v = w"
  using dec_enc by metis

lemma read_back:
  "poke m off (enc v) = Some m' \<Longrightarrow> map_option dec (peek m' off width) = Some v"
  using peek_poke_same [of m off "enc v" m'] by (simp add: enc_width dec_enc)

lemma write_same: "peek m off width = Some bs \<Longrightarrow> poke m off (enc (dec bs)) = Some m"
  by (auto simp: peek_def poke_def enc_width enc_dec split: if_splits)
     (metis add.commute append_take_drop_id drop_drop)

end

interpretation codec16: field_codec 2 "le_bytes 2 :: u16 \<Rightarrow> bytes" le_word
  using le_bytes_le_word [where 'a = 16] by unfold_locales (auto simp: le_word_le_bytes)

interpretation codec32: field_codec 4 "le_bytes 4 :: u32 \<Rightarrow> bytes" le_word
  using le_bytes_le_word [where 'a = 32] by unfold_locales (auto simp: le_word_le_bytes)

interpretation codec64: field_codec 8 "le_bytes 8 :: u64 \<Rightarrow> bytes" le_word
  using le_bytes_le_word [where 'a = 64] by unfold_locales (auto simp: le_word_le_bytes)

end
