(* ===== verification/Decomp.thy ===== *)
theory Decomp
  imports NtPrelude
begin

text \<open>
  What the two decompressors of \<^verbatim>\<open>libnt\<close> share: the copy of a match within the output, and the
  contract of a decompressor that is called twice, first with NULL for the length and then
  with a buffer of that length.
\<close>

text \<open>\<^verbatim>\<open>while (match_len--) *(out++) = *(copy++)\<close>, the same loop in both decompressors: one byte at
  a time, so that a match may overlap what it produces.\<close>

fun copy_match :: "nat \<Rightarrow> int \<Rightarrow> nat \<Rightarrow> bytes \<Rightarrow> bytes option" where
  "copy_match 0 copy out buf = Some buf"
| "copy_match (Suc n) copy out buf = do {
     v \<leftarrow> (if copy < 0 then None else rd buf (nat copy));
     buf \<leftarrow> wr buf out v;
     copy_match n (copy + 1) (Suc out) buf }"

lemma drop_more: "drop k b = drop k b' \<Longrightarrow> drop (k + n) b = drop (k + n) b'"
  by (metis add.commute drop_drop)

lemma copy_match_out:
  "copy_match n c o' b = Some b' \<Longrightarrow> o' \<le> length b \<Longrightarrow>
     length b' = length b \<and> o' + n \<le> length b \<and> drop (o' + n) b' = drop (o' + n) b"
proof (induction n arbitrary: c o' b)
  case (Suc n)
  obtain v b1 where v: "wr b o' v = Some b1" "copy_match n (c + 1) (Suc o') b1 = Some b'"
    using Suc.prems(1) by (auto split: Option.bind_splits if_splits)
  then have b1: "o' < length b" "b1 = b[o' := v]" by (auto simp: wr_Some_iff)
  then show ?case using Suc.IH [OF v(2)] by simp
qed simp

section \<open>The interface\<close>

text \<open>
  \<open>decompress data len buf\<close> is what a call returns, with the buffer it leaves. When a call with
  a buffer returns, the call with NULL returns the same length, and nothing was written behind
  that length.
\<close>

locale decompressor =
  fixes decompress :: "bytes \<Rightarrow> nat \<Rightarrow> bytes option \<Rightarrow> (int \<times> bytes option) option"
  assumes two_pass:
    "decompress data len (Some b) = Some (rc, ob) \<Longrightarrow> length b < 2 ^ 63 \<Longrightarrow>
       decompress data len None = Some (rc, None)
       \<and> (\<exists>b'. ob = Some b' \<and> length b' = length b
            \<and> (0 \<le> rc \<longrightarrow> nat rc \<le> length b \<and> drop (nat rc) b' = drop (nat rc) b))"
begin

lemma exact_buffer:
  assumes "decompress data len None = Some (n, None)" and "decompress data len (Some b) = Some (rc, ob)"
    and "0 \<le> n" and "length b = nat n" and "n < 2 ^ 63"
  shows "rc = n \<and> (\<exists>b'. ob = Some b' \<and> length b' = nat n)"
proof -
  have "length b < 2 ^ 63" using assms(3-5) by (simp add: nat_less_iff)
  from two_pass [OF assms(2) this] show ?thesis using assms by auto
qed

lemma too_small:
  assumes "decompress data len None = Some (n, None)" and "int (length b) < n" and "length b < 2 ^ 63"
  shows "decompress data len (Some b) = None"
proof (rule ccontr)
  assume "decompress data len (Some b) \<noteq> None"
  then obtain rc ob where "decompress data len (Some b) = Some (rc, ob)" by auto
  from two_pass [OF this assms(3)] show False using assms by auto
qed

end

end
