(* ===== verification/Lznt1.thy ===== *)
theory Lznt1
  imports Decomp
begin

text \<open>
  The LZNT1 decompressor of \<^verbatim>\<open>libnt/lznt1.c\<close> and \<^verbatim>\<open>include/lznt1.h\<close>.

  As in the Xpress decompressor, \<^verbatim>\<open>data\<close> is the memory from the compressed data on, \<^verbatim>\<open>len\<close> the
  length given, and the output buffer is \<open>None\<close> for NULL. Offsets are natural numbers: the ones
  that occur stay below \<open>len + 4096\<close>. \<^verbatim>\<open>split\<close> is an unsigned int that wraps below zero; shifting
  by the wrapped value is a fault.
\<close>

definition LZNT1_BLOCK_LEN :: "u16 \<Rightarrow> nat" where
  "LZNT1_BLOCK_LEN header = unat (header AND 0x0FFF) + 1"

definition LZNT1_BLOCK_COMPRESSED :: "u16 \<Rightarrow> bool" where
  "LZNT1_BLOCK_COMPRESSED header \<longleftrightarrow> header AND 0x8000 \<noteq> 0"

definition LZNT1_VALUE_LEN :: "u16 \<Rightarrow> nat \<Rightarrow> nat" where
  "LZNT1_VALUE_LEN tuple split = unat tuple mod 2 ^ split + 3"

definition LZNT1_VALUE_OFFSET :: "u16 \<Rightarrow> nat \<Rightarrow> nat" where
  "LZNT1_VALUE_OFFSET tuple split = unat tuple div 2 ^ split + 1"

record lznt1_state =
  lz_offset :: nat
  lz_buf :: "bytes option"
  lz_dest :: nat
  lz_out_len :: nat
  lz_split :: nat
  lz_threshold :: nat
  lz_tag_bit :: nat
  lz_tag :: nat

text \<open>
  \<^verbatim>\<open>while (block_out_len > next_threshold)\<close>. The threshold starts at 16 and is at most twice the
  output of one block, far from the width of its type.
\<close>

function update_split :: "nat \<Rightarrow> nat \<Rightarrow> nat \<Rightarrow> nat \<times> nat" where
  "update_split out_len split threshold =
     (if 0 < threshold \<and> out_len > threshold
      then update_split out_len ((split + 2 ^ 32 - 1) mod 2 ^ 32) (threshold * 2)
      else (split, threshold))"
  by pat_completeness auto
termination
  by (relation "measure (\<lambda>(out_len, _, threshold). out_len - threshold)") auto

declare update_split.simps [simp del]

text \<open>A compressed value: a length and an offset back into the output.\<close>

definition lznt1_copy :: "bytes \<Rightarrow> nat \<Rightarrow> lznt1_state \<Rightarrow> lznt1_state option" where
  "lznt1_copy data limit s =
     (if lz_split s \<ge> 31 then None
      else do {
        tuple \<leftarrow> get16 data (lz_offset s);
        let copy_len = LZNT1_VALUE_LEN tuple (lz_split s);
        let s = s\<lparr>lz_offset := lz_offset s + 2, lz_out_len := lz_out_len s + copy_len\<rparr>;
        case lz_buf s of
          None \<Rightarrow> Some s
        | Some buf \<Rightarrow> do {
            buf \<leftarrow> copy_match copy_len (int (lz_dest s) - int (LZNT1_VALUE_OFFSET tuple (lz_split s)))
                     (lz_dest s) buf;
            Some (s\<lparr>lz_buf := Some buf, lz_dest := lz_dest s + copy_len\<rparr>) } })"

text \<open>An uncompressed value. The source byte is only read when there is a buffer.\<close>

definition lznt1_literal :: "bytes \<Rightarrow> lznt1_state \<Rightarrow> lznt1_state option" where
  "lznt1_literal data s =
     (let s' = s\<lparr>lz_offset := lz_offset s + 1, lz_out_len := lz_out_len s + 1\<rparr>
      in case lz_buf s of
           None \<Rightarrow> Some s'
         | Some buf \<Rightarrow> do {
             v \<leftarrow> rd data (lz_offset s);
             buf \<leftarrow> wr buf (lz_dest s) v;
             Some (s'\<lparr>lz_buf := Some buf, lz_dest := Suc (lz_dest s)\<rparr>) })"

text \<open>One value of a block, from its tag to the move to the next.\<close>

definition lznt1_value ::
  "bytes \<Rightarrow> nat \<Rightarrow> lznt1_state \<Rightarrow> (lznt1_state + (int \<times> lznt1_state)) option" where
  "lznt1_value data limit s =
     (if lz_tag s mod 2 = 1 \<and> lz_offset s + 2 > limit then Some (Inr (-1, s))
      else do {
        s \<leftarrow> (if lz_tag s mod 2 = 1 then lznt1_copy data limit s else lznt1_literal data s);
        let (split, threshold) = update_split (lz_out_len s) (lz_split s) (lz_threshold s);
        Some (Inl (s\<lparr>lz_split := split, lz_threshold := threshold, lz_tag := lz_tag s div 2,
                     lz_tag_bit := (lz_tag_bit s + 1) mod 8\<rparr>)) })"

definition lznt1_block_pass ::
  "bytes \<Rightarrow> nat \<Rightarrow> lznt1_state \<Rightarrow> (lznt1_state + (int \<times> lznt1_state)) option" where
  "lznt1_block_pass data limit s =
     (if lz_offset s = limit then Some (Inr (int (lz_out_len s), s))
      else if lz_tag_bit s = 0 then do {
        tag \<leftarrow> rd data (lz_offset s);
        let s = s\<lparr>lz_tag := unat tag, lz_offset := lz_offset s + 1\<rparr>;
        if lz_offset s = limit then Some (Inr (int (lz_out_len s), s))
        else lznt1_value data limit s }
      else lznt1_value data limit s)"

definition lznt1_block ::
  "bytes \<Rightarrow> nat \<Rightarrow> nat \<Rightarrow> bytes option \<Rightarrow> nat \<Rightarrow> (lznt1_state + (int \<times> lznt1_state)) option" where
  "lznt1_block data limit offset buf dest =
     iterate (Suc (limit - offset)) (lznt1_block_pass data limit)
       \<lparr>lz_offset = offset, lz_buf = buf, lz_dest = dest, lz_out_len = 0, lz_split = 12,
        lz_threshold = 16, lz_tag_bit = 0, lz_tag = 0\<rparr>"

text \<open>The state of the outer loop: \<^verbatim>\<open>offset\<close>, \<^verbatim>\<open>out_len\<close> and the buffer.\<close>

definition lznt1_pass ::
  "bytes \<Rightarrow> nat \<Rightarrow> nat \<times> nat \<times> bytes option \<Rightarrow> ((nat \<times> nat \<times> bytes option) + (int \<times> bytes option)) option" where
  "lznt1_pass data len = (\<lambda>(offset, out_len, buf).
     if offset = len then Some (Inr (int out_len, buf))
     else do {
       stop \<leftarrow> (if offset + 1 = len then map_option (\<lambda>v. v = 0) (rd data offset) else Some False);
       if stop then Some (Inr (int out_len, buf))
       else if offset + 2 > len then Some (Inr (-1, buf))
       else do {
         header \<leftarrow> get16 data offset;
         let offset = offset + 2;
         let block_len = LZNT1_BLOCK_LEN header;
         if LZNT1_BLOCK_COMPRESSED header then do {
           r \<leftarrow> lznt1_block data (offset + block_len) offset buf out_len;
           case r of
             Inl _ \<Rightarrow> None
           | Inr (n, s) \<Rightarrow>
               if n < 0 then Some (Inr (n, lz_buf s))
               else Some (Inl (offset + block_len, out_len + nat n, lz_buf s)) }
         else if offset + block_len > len then Some (Inr (-1, buf))
         else do {
           buf \<leftarrow> (case buf of
                     None \<Rightarrow> Some None
                   | Some b \<Rightarrow> do {
                       d \<leftarrow> peek data offset block_len;
                       map_option Some (poke b out_len d) });
           Some (Inl (offset + block_len, out_len + block_len, buf)) } } })"

definition lznt1_decompress :: "bytes \<Rightarrow> nat \<Rightarrow> bytes option \<Rightarrow> (int \<times> bytes option) option" where
  "lznt1_decompress data len buf =
     (case iterate (Suc len) (lznt1_pass data len) (0, 0, buf) of
        Some (Inr r) \<Rightarrow> Some r
      | _ \<Rightarrow> None)"

section \<open>Both loops end\<close>

lemma lznt1_copy_offset:
  "lznt1_copy data limit s = Some s' \<Longrightarrow> lz_offset s' = lz_offset s + 2"
  by (auto simp: lznt1_copy_def Let_def split: if_splits Option.bind_splits option.splits)

lemma lznt1_literal_offset:
  "lznt1_literal data s = Some s' \<Longrightarrow> lz_offset s' = lz_offset s + 1"
  by (auto simp: lznt1_literal_def Let_def split: Option.bind_splits option.splits)

lemma lznt1_value_offset:
  "lznt1_value data limit s = Some (Inl s') \<Longrightarrow> lz_offset s < limit \<Longrightarrow>
     lz_offset s < lz_offset s' \<and> lz_offset s' \<le> limit"
  by (auto simp: lznt1_value_def Let_def split: if_splits Option.bind_splits prod.splits
      dest!: lznt1_copy_offset lznt1_literal_offset)

lemma lznt1_block_pass_offset:
  assumes "lz_offset s \<le> limit" and "lznt1_block_pass data limit s = Some (Inl s')"
  shows "lz_offset s' \<le> limit \<and> limit - lz_offset s' < limit - lz_offset s"
proof -
  obtain t where "lznt1_value data limit t = Some (Inl s')" "lz_offset s \<le> lz_offset t" "lz_offset t < limit"
    using assms by (auto simp: lznt1_block_pass_def Let_def split: if_splits Option.bind_splits)
  then show ?thesis using lznt1_value_offset by fastforce
qed

lemma lznt1_block_ends:
  assumes "offset \<le> limit"
  shows "lznt1_block data limit offset buf dest = None \<or> (\<exists>r. lznt1_block data limit offset buf dest = Some (Inr r))"
  unfolding lznt1_block_def
  by (rule iterate_ends [where I = "\<lambda>s. lz_offset s \<le> limit" and m = "\<lambda>s. limit - lz_offset s"])
     (use assms lznt1_block_pass_offset in auto)

lemma lznt1_pass_offset:
  "lznt1_pass data len (offset, n, b) = Some (Inl (offset', n', b')) \<Longrightarrow> offset < offset' \<and> offset + 2 \<le> len"
  by (auto simp: lznt1_pass_def Let_def LZNT1_BLOCK_LEN_def split: if_splits Option.bind_splits sum.splits prod.splits)

lemma lznt1_pass_ends:
  "iterate (Suc len) (lznt1_pass data len) (0, 0, b) = None
     \<or> (\<exists>r. iterate (Suc len) (lznt1_pass data len) (0, 0, b) = Some (Inr r))"
proof (rule iterate_ends [where I = "\<lambda>_. True" and m = "\<lambda>(offset, _, _). len - offset"])
  fix s s' assume "lznt1_pass data len s = Some (Inl s')"
  then show "True \<and> (case s' of (offset, _, _) \<Rightarrow> len - offset) < (case s of (offset, _, _) \<Rightarrow> len - offset)"
    using lznt1_pass_offset [of data len "fst s" "fst (snd s)" "snd (snd s)" "fst s'" "fst (snd s')" "snd (snd s')"]
    by (cases s; cases s') auto
qed auto

section \<open>The two passes agree\<close>

definition lz_erase :: "nat \<Rightarrow> lznt1_state \<Rightarrow> lznt1_state" where
  "lz_erase d s = s\<lparr>lz_buf := None, lz_dest := d\<rparr>"

definition lz_out_ok :: "bytes \<Rightarrow> nat \<Rightarrow> lznt1_state \<Rightarrow> bool" where
  "lz_out_ok b0 base s \<longleftrightarrow> lz_dest s = base + lz_out_len s \<and>
     (\<exists>b. lz_buf s = Some b \<and> length b = length b0 \<and> lz_dest s \<le> length b
          \<and> drop (lz_dest s) b = drop (lz_dest s) b0)"

lemma lznt1_copy_agree:
  assumes "lznt1_copy data limit s = Some s'"
  shows "lznt1_copy data limit (lz_erase d s) = Some (lz_erase d s')"
    and "lz_out_ok b0 base s \<Longrightarrow> lz_out_ok b0 base s'"
proof -
  obtain tuple where t: "get16 data (lz_offset s) = Some tuple" "\<not> lz_split s \<ge> 31"
    using assms by (cases "get16 data (lz_offset s)") (auto simp: lznt1_copy_def split: if_splits)
  show "lznt1_copy data limit (lz_erase d s) = Some (lz_erase d s')"
    using assms t by (auto simp: lznt1_copy_def lz_erase_def Let_def split: option.splits Option.bind_splits)
  assume ok: "lz_out_ok b0 base s"
  let ?n = "LZNT1_VALUE_LEN tuple (lz_split s)"
  obtain b where b: "lz_buf s = Some b" using ok by (auto simp: lz_out_ok_def)
  obtain d b' where cm: "copy_match ?n d (lz_dest s) b = Some b'"
    "s' = s\<lparr>lz_offset := lz_offset s + 2, lz_out_len := lz_out_len s + ?n, lz_buf := Some b',
            lz_dest := lz_dest s + ?n\<rparr>"
    using assms t b by (auto simp: lznt1_copy_def Let_def split: Option.bind_splits)
  have "lz_dest s \<le> length b" using ok b by (simp add: lz_out_ok_def)
  from copy_match_out [OF cm(1) this] show "lz_out_ok b0 base s'"
    using ok b cm(2) drop_more [of "lz_dest s" b b0 ?n] by (auto simp: lz_out_ok_def)
qed

lemma lznt1_literal_agree:
  assumes "lznt1_literal data s = Some s'"
  shows "lznt1_literal data (lz_erase d s) = Some (lz_erase d s')"
    and "lz_out_ok b0 base s \<Longrightarrow> lz_out_ok b0 base s'"
  using assms drop_more [of "lz_dest s" "the (lz_buf s)" b0 1]
  by (auto simp: lznt1_literal_def lz_erase_def lz_out_ok_def wr_Some_iff Let_def
      split: option.splits Option.bind_splits)

lemma lz_erase_simps [simp]:
  "lz_offset (lz_erase d s) = lz_offset s" "lz_out_len (lz_erase d s) = lz_out_len s"
  "lz_split (lz_erase d s) = lz_split s" "lz_threshold (lz_erase d s) = lz_threshold s"
  "lz_tag_bit (lz_erase d s) = lz_tag_bit s" "lz_tag (lz_erase d s) = lz_tag s"
  "lz_buf (lz_erase d s) = None"
  by (simp_all add: lz_erase_def)

lemma lz_out_ok_cong:
  "lz_out_ok b0 base s \<Longrightarrow> lz_buf s' = lz_buf s \<Longrightarrow> lz_dest s' = lz_dest s \<Longrightarrow> lz_out_len s' = lz_out_len s \<Longrightarrow>
     lz_out_ok b0 base s'"
  by (auto simp: lz_out_ok_def)

lemma lz_out_ok_update [simp]:
  "lz_out_ok b0 base (s\<lparr>lz_split := a, lz_threshold := t, lz_tag := c, lz_tag_bit := d\<rparr>) = lz_out_ok b0 base s"
  by (simp add: lz_out_ok_def)

definition lz_result :: "nat \<Rightarrow> (lznt1_state + (int \<times> lznt1_state)) \<Rightarrow> (lznt1_state + (int \<times> lznt1_state))" where
  "lz_result d = map_sum (lz_erase d) (map_prod id (lz_erase d))"

definition lz_result_ok :: "bytes \<Rightarrow> nat \<Rightarrow> (lznt1_state + (int \<times> lznt1_state)) \<Rightarrow> bool" where
  "lz_result_ok b0 base r \<longleftrightarrow>
     (case r of Inl s' \<Rightarrow> lz_out_ok b0 base s'
      | Inr (n, s') \<Rightarrow> lz_out_ok b0 base s' \<and> (n = -1 \<or> n = int (lz_out_len s')))"

lemma lznt1_value_agree:
  assumes "lznt1_value data limit s = Some r"
  shows "lznt1_value data limit (lz_erase d s) = Some (lz_result d r)"
    and "lz_out_ok b0 base s \<Longrightarrow> lz_result_ok b0 base r"
proof -
  show "lznt1_value data limit (lz_erase d s) = Some (lz_result d r)"
    using assms lznt1_copy_agree(1) [of data limit s] lznt1_literal_agree(1) [of data s]
    by (auto simp: lznt1_value_def lz_result_def Let_def lz_erase_def split: if_splits Option.bind_splits prod.splits)
  show "lz_result_ok b0 base r" if ok: "lz_out_ok b0 base s"
    using assms ok lznt1_copy_agree(2) [of data limit s _ b0 base] lznt1_literal_agree(2) [of data s _ b0 base]
    by (auto simp: lz_result_ok_def lznt1_value_def Let_def split: if_splits Option.bind_splits prod.splits)
qed

lemma lznt1_block_pass_agree:
  assumes "lznt1_block_pass data limit s = Some r"
  shows "lznt1_block_pass data limit (lz_erase d s) = Some (lz_result d r)"
    and "lz_out_ok b0 base s \<Longrightarrow> lz_result_ok b0 base r"
proof -
  let ?t = "\<lambda>tag. s\<lparr>lz_tag := unat tag, lz_offset := lz_offset s + 1\<rparr>"
  have e: "(lz_erase d s)\<lparr>lz_tag := unat tag, lz_offset := Suc (lz_offset s)\<rparr> = lz_erase d (?t tag)" for tag :: byte
    by (simp add: lz_erase_def)
  show "lznt1_block_pass data limit (lz_erase d s) = Some (lz_result d r)"
    using assms lznt1_value_agree(1)
    by (auto simp: lznt1_block_pass_def e Let_def lz_result_def split: if_splits Option.bind_splits)
  assume ok: "lz_out_ok b0 base s"
  have t: "lz_out_ok b0 base (?t tag)" for tag :: byte using ok by (rule lz_out_ok_cong) simp_all
  show "lz_result_ok b0 base r"
    using assms ok t lznt1_value_agree(2)
    by (fastforce simp: lznt1_block_pass_def lz_result_ok_def Let_def split: if_splits Option.bind_splits)
qed

lemma lznt1_block_agree:
  assumes "iterate n (lznt1_block_pass data limit) s = Some r"
  shows "iterate n (lznt1_block_pass data limit) (lz_erase d s) = Some (lz_result d r)"
    and "lz_out_ok b0 base s \<Longrightarrow> lz_result_ok b0 base r"
  using assms
proof (induction n arbitrary: s)
  case 0
  { case 1 then have "r = Inl s" by simp
    then show ?case by (simp add: lz_result_def)
  next
    case 2 then have "r = Inl s" by simp
    then show ?case using 2 by (simp add: lz_result_ok_def) }
next
  case (Suc n)
  { case 1
    then obtain q where q: "lznt1_block_pass data limit s = Some q" by (auto split: option.splits)
    show ?case
      using 1 Suc.IH(1) q lznt1_block_pass_agree(1) [OF q] by (cases q; cases r) (auto simp: lz_result_def)
  next
    case 2
    then obtain q where q: "lznt1_block_pass data limit s = Some q" by (auto split: option.splits)
    show ?case
      using 2 Suc.IH(2) q lznt1_block_pass_agree(2) [OF q, of b0 base] by (cases q) (auto simp: lz_result_ok_def) }
qed

text \<open>The outer loop, over the offset, the output length and the buffer.\<close>

definition lz_outer_ok :: "bytes \<Rightarrow> nat \<Rightarrow> bytes option \<Rightarrow> bool" where
  "lz_outer_ok b0 n ob \<longleftrightarrow> (\<exists>b. ob = Some b \<and> length b = length b0 \<and> n \<le> length b \<and> drop n b = drop n b0)"

definition lz_outer_erase ::
  "((nat \<times> nat \<times> bytes option) + (int \<times> bytes option)) \<Rightarrow> ((nat \<times> nat \<times> bytes option) + (int \<times> bytes option))" where
  "lz_outer_erase = map_sum (\<lambda>(i, n, _). (i, n, None)) (\<lambda>(rc, _). (rc, None))"

lemma lznt1_whole_block:
  assumes "lznt1_block data limit offset (Some b) n = Some (Inr (k, s))" and "lz_outer_ok b0 n (Some b)"
  shows "\<exists>s'. lznt1_block data limit offset None n = Some (Inr (k, s')) \<and> lz_buf s' = None"
    and "k = -1 \<and> (\<exists>j. lz_outer_ok b0 j (lz_buf s)) \<or> 0 \<le> k \<and> lz_outer_ok b0 (n + nat k) (lz_buf s)"
proof -
  let ?s = "\<lambda>b. \<lparr>lz_offset = offset, lz_buf = b, lz_dest = n, lz_out_len = 0, lz_split = 12,
        lz_threshold = 16, lz_tag_bit = 0, lz_tag = 0\<rparr>"
  have it: "iterate (Suc (limit - offset)) (lznt1_block_pass data limit) (?s (Some b)) = Some (Inr (k, s))"
    using assms(1) unfolding lznt1_block_def .
  have "lz_out_ok b0 n (?s (Some b))" using assms(2) by (auto simp: lz_out_ok_def lz_outer_ok_def)
  with lznt1_block_agree(2) [of "Suc (limit - offset)" data limit "?s (Some b)" "Inr (k, s)" b0 n] it
  have "lz_result_ok b0 n (Inr (k, s))" by blast
  then show "k = -1 \<and> (\<exists>j. lz_outer_ok b0 j (lz_buf s)) \<or> 0 \<le> k \<and> lz_outer_ok b0 (n + nat k) (lz_buf s)"
    by (auto simp: lz_result_ok_def lz_out_ok_def lz_outer_ok_def)
  have "lz_erase n (?s (Some b)) = ?s None" by (simp add: lz_erase_def)
  then show "\<exists>s'. lznt1_block data limit offset None n = Some (Inr (k, s')) \<and> lz_buf s' = None"
    using lznt1_block_agree(1) [OF it, of n] by (simp add: lznt1_block_def lz_result_def del: iterate.simps)
qed

lemma lznt1_pass_agree:
  assumes p: "lznt1_pass data len (i, n, Some b) = Some r" and ok: "lz_outer_ok b0 n (Some b)"
  shows "lznt1_pass data len (i, n, None) = Some (lz_outer_erase r)"
    and "case r of Inl (j, m, ob) \<Rightarrow> lz_outer_ok b0 m ob
         | Inr (rc, ob) \<Rightarrow> \<exists>m. lz_outer_ok b0 m ob \<and> (rc = -1 \<or> rc = int m)"
proof -
  have "lznt1_pass data len (i, n, None) = Some (lz_outer_erase r) \<and>
     (case r of Inl (j, m, ob) \<Rightarrow> lz_outer_ok b0 m ob
      | Inr (rc, ob) \<Rightarrow> \<exists>m. lz_outer_ok b0 m ob \<and> (rc = -1 \<or> rc = int m))"
  proof (cases "\<exists>h. get16 data i = Some h \<and> LZNT1_BLOCK_COMPRESSED h \<and> i + 2 \<le> len")
    case True
    then obtain h where h: "get16 data i = Some h" "LZNT1_BLOCK_COMPRESSED h" "i + 2 \<le> len" by blast
    let ?l = "i + 2 + LZNT1_BLOCK_LEN h"
    obtain k s where k: "lznt1_block data ?l (i + 2) (Some b) n = Some (Inr (k, s))"
      using p h by (auto simp: lznt1_pass_def Let_def split: if_splits Option.bind_splits sum.splits)
    from lznt1_whole_block [OF k ok] p h k show ?thesis
      by (auto simp: lznt1_pass_def Let_def lz_outer_erase_def split: if_splits)
  next
    case False
    then show ?thesis
      using p ok drop_more [of n b b0]
      by (auto simp: lznt1_pass_def Let_def lz_outer_erase_def lz_outer_ok_def poke_Some_iff peek_Some_iff
          split: if_splits Option.bind_splits)
  qed
  then show "lznt1_pass data len (i, n, None) = Some (lz_outer_erase r)"
    and "case r of Inl (j, m, ob) \<Rightarrow> lz_outer_ok b0 m ob
         | Inr (rc, ob) \<Rightarrow> \<exists>m. lz_outer_ok b0 m ob \<and> (rc = -1 \<or> rc = int m)" by auto
qed

lemma lznt1_iterate_agree:
  assumes "iterate m (lznt1_pass data len) (i, n, ob) = Some (Inr (rc, ob'))" and "lz_outer_ok b0 n ob"
  shows "iterate m (lznt1_pass data len) (i, n, None) = Some (Inr (rc, None))
    \<and> (\<exists>k. lz_outer_ok b0 k ob' \<and> (rc = -1 \<or> rc = int k))"
  using assms
proof (induction m arbitrary: i n ob)
  case 0
  then show ?case by simp
next
  case (Suc m)
  obtain b where b: "ob = Some b" using Suc.prems(2) by (auto simp: lz_outer_ok_def)
  obtain r where r: "lznt1_pass data len (i, n, Some b) = Some r"
    using Suc.prems(1) b by (auto split: option.splits)
  note a = lznt1_pass_agree [OF r Suc.prems(2) [unfolded b]]
  show ?case
  proof (cases r)
    case (Inl t)
    obtain j k c where t: "t = (j, k, c)" by (cases t)
    then show ?thesis using Suc.IH [of j k c] Suc.prems(1) a r b Inl by (simp add: lz_outer_erase_def)
  next
    case (Inr t)
    then show ?thesis using Suc.prems(1) a r b by (auto simp: lz_outer_erase_def)
  qed
qed

lemma lznt1_agree:
  assumes "lznt1_decompress data len (Some b) = Some (rc, ob)" and "length b < 2 ^ 63"
  shows "lznt1_decompress data len None = Some (rc, None)
    \<and> (\<exists>b'. ob = Some b' \<and> length b' = length b
         \<and> (0 \<le> rc \<longrightarrow> nat rc \<le> length b \<and> drop (nat rc) b' = drop (nat rc) b))"
proof -
  have it: "iterate (Suc len) (lznt1_pass data len) (0, 0, Some b) = Some (Inr (rc, ob))"
    using assms(1) by (auto simp: lznt1_decompress_def simp del: iterate.simps split: option.splits sum.splits)
  have "lz_outer_ok b 0 (Some b)" by (simp add: lz_outer_ok_def)
  from lznt1_iterate_agree [OF it this] show ?thesis
    by (auto simp: lznt1_decompress_def lz_outer_ok_def simp del: iterate.simps)
qed

interpretation lznt1: decompressor lznt1_decompress
  by unfold_locales (rule lznt1_agree)

section \<open>Stored blocks\<close>

text \<open>A block that is stored: its header, with the compression bit clear, and its bytes.\<close>

definition store_block :: "bytes \<Rightarrow> bytes" where
  "store_block c = le_bytes 2 (of_nat (length c - 1) :: u16) @ c"

lemma store_header:
  assumes "1 \<le> length c" and "length c \<le> 4096"
  shows "LZNT1_BLOCK_LEN (of_nat (length c - 1)) = length c"
    and "\<not> LZNT1_BLOCK_COMPRESSED (of_nat (length c - 1))"
proof -
  let ?w = "of_nat (length c - 1) :: u16"
  have u: "unat ?w = length c - 1" using assms(2) by (intro unat_of_nat_small) simp
  have m: "(0x0FFF :: u16) = mask 12" by (simp add: mask_eq_exp_minus_1)
  have "unat (?w AND 0x0FFF) = length c - 1"
    unfolding m unat_and_mask u using assms(2) by simp
  then show "LZNT1_BLOCK_LEN ?w = length c" using assms(1) by (simp add: LZNT1_BLOCK_LEN_def)
  have "?w < 2 ^ 12" using u assms by (simp add: word_less_nat_alt)
  note lt = bit_less_exp [OF this]
  have "?w AND 0x8000 = 0"
  proof (rule bit_word_eqI)
    fix n
    have "bit (0x8000 :: u16) n \<longrightarrow> 15 \<le> n"
      using bit_push_bit_iff [of 15 "1 :: u16" n] by simp
    then show "bit (?w AND 0x8000) n = bit (0 :: u16) n"
      using lt [of n] by (auto simp: bit_and_iff)
  qed
  then show "\<not> LZNT1_BLOCK_COMPRESSED ?w" by (simp add: LZNT1_BLOCK_COMPRESSED_def)
qed

lemma lznt1_stored_pass:
  assumes d: "drop i data = store_block c @ rest" "i \<le> length data" and c: "1 \<le> length c" "length c \<le> 4096"
    and len: "i + length c + 2 \<le> len"
  shows "lznt1_pass data len (i, n, None) = Some (Inl (i + 2 + length c, n + length c, None))"
    and "n + length c \<le> length b \<Longrightarrow> lznt1_pass data len (i, n, Some b) =
       Some (Inl (i + 2 + length c, n + length c, Some (take n b @ c @ drop (n + length c) b)))"
proof -
  have h2: "get16 data i = Some (of_nat (length c - 1))"
  proof -
    have "length (drop i data) = 2 + length c + length rest" unfolding d(1) by (simp add: store_block_def)
    then have "i + 2 \<le> length data" using d(2) by simp
    moreover have "take 2 (drop i data) = le_bytes 2 (of_nat (length c - 1) :: u16)"
      unfolding d(1) by (simp add: store_block_def)
    ultimately show ?thesis by (simp add: get16_def peek_def le_word_le_bytes)
  qed
  have body: "peek data (i + 2) (length c) = Some c"
  proof -
    have "drop (i + 2) data = drop 2 (drop i data)" by (simp only: drop_drop add.commute)
    then have "drop (i + 2) data = c @ rest" unfolding d(1) by (simp add: store_block_def)
    moreover have "length (drop i data) = 2 + length c + length rest" unfolding d(1) by (simp add: store_block_def)
    ultimately show ?thesis using d(2) by (simp add: peek_def)
  qed
  note h = h2 store_header [OF c]
  show "lznt1_pass data len (i, n, None) = Some (Inl (i + 2 + length c, n + length c, None))"
    using h c len by (simp add: lznt1_pass_def Let_def)
  show "lznt1_pass data len (i, n, Some b) =
      Some (Inl (i + 2 + length c, n + length c, Some (take n b @ c @ drop (n + length c) b)))"
    if "n + length c \<le> length b"
    using h c len body that by (simp add: lznt1_pass_def Let_def poke_def)
qed

lemma lznt1_stored_all:
  assumes "drop i data = concat (map store_block cs)" and "i \<le> length data"
    and "\<forall>c\<in>set cs. 1 \<le> length c \<and> length c \<le> 4096"
    and "n + length (concat cs) = length b"
  shows "iterate (Suc (length cs)) (lznt1_pass data (length data)) (i, n, Some b)
     = Some (Inr (int (length b), Some (take n b @ concat cs)))"
  using assms
proof (induction cs arbitrary: i n b)
  case Nil
  then have "i = length data" by simp
  then show ?case using Nil by (simp add: lznt1_pass_def)
next
  case (Cons c cs)
  have d: "drop i data = store_block c @ concat (map store_block cs)" using Cons.prems(1) by simp
  have c: "1 \<le> length c" "length c \<le> 4096" using Cons.prems(3) by auto
  let ?i = "i + 2 + length c"
  have "length (drop i data) = 2 + length c + length (concat (map store_block cs))"
    unfolding d by (simp add: store_block_def)
  then have len: "i + length c + 2 \<le> length data" using Cons.prems(2) by simp
  have "drop ?i data = drop (2 + length c) (drop i data)" by (simp only: drop_drop ac_simps)
  then have d': "drop ?i data = concat (map store_block cs)" unfolding d by (simp add: store_block_def)
  let ?b = "take n b @ c @ drop (n + length c) b"
  have b: "length ?b = length b" using Cons.prems(4) by simp
  have "iterate (Suc (length cs)) (lznt1_pass data (length data)) (?i, n + length c, Some ?b)
     = Some (Inr (int (length ?b), Some (take (n + length c) ?b @ concat cs)))"
    using Cons.prems len by (intro Cons.IH d') auto
  moreover have "take (n + length c) ?b = take n b @ c" using Cons.prems(4) by simp
  ultimately show ?case
    using lznt1_stored_pass(2) [OF d Cons.prems(2) c len, of n b] Cons.prems(4) b by simp
qed

section \<open>A compressed block at the end\<close>

text \<open>
  The length of a compressed block is not compared with the length of the data: a header at the
  very end of the data makes the decompressor read on.
\<close>

definition cut_block :: bytes where "cut_block = [0xFF, 0xBF]"

lemma cut_block_faults: "lznt1_decompress cut_block 2 None = None"
proof -
  have h: "get16 cut_block 0 = Some 0xBFFF" by code_simp
  have l: "LZNT1_BLOCK_LEN 0xBFFF = 4096" "LZNT1_BLOCK_COMPRESSED 0xBFFF"
    by (simp_all add: LZNT1_BLOCK_LEN_def LZNT1_BLOCK_COMPRESSED_def)
  have "lznt1_block_pass cut_block 4098 \<lparr>lz_offset = 2, lz_buf = None, lz_dest = 0, lz_out_len = 0, lz_split = 12,
        lz_threshold = 16, lz_tag_bit = 0, lz_tag = 0\<rparr> = None"
    by (simp add: lznt1_block_pass_def rd_def cut_block_def)
  then have "lznt1_block cut_block 4098 2 None 0 = None"
    unfolding lznt1_block_def iterate.simps(2) by simp
  then have "lznt1_pass cut_block 2 (0, 0, None) = None"
    using h l by (simp add: lznt1_pass_def Let_def flip: numeral_2_eq_2)
  then show ?thesis unfolding lznt1_decompress_def iterate.simps(2) by simp
qed

section \<open>Properties\<close>


definition three_bytes :: bytes where "three_bytes = concat (map store_block [[1, 2], [3]])"

lemma three_bytes_length: "lznt1_decompress three_bytes 7 None = Some (3, None)"
proof -
  have it: "iterate 3 (lznt1_pass three_bytes (length three_bytes)) (0, 0, Some [0, 0, 0])
      = Some (Inr (3, Some [1, 2, 3]))"
    using lznt1_stored_all [of 0 three_bytes "[[1, 2], [3]]" 0 "[0, 0, 0]"]
    by (simp add: three_bytes_def numeral_3_eq_3 del: iterate.simps)
  have l: "length three_bytes = 7" by (simp add: three_bytes_def store_block_def)
  have "iterate (Suc 7) (lznt1_pass three_bytes 7) (0, 0, Some [0, 0, 0]) = Some (Inr (3, Some [1, 2, 3]))"
    by (rule iterate_more [OF it [unfolded l]]) simp
  then have "lznt1_decompress three_bytes 7 (Some [0, 0, 0]) = Some (3, Some [1, 2, 3])"
    by (simp add: lznt1_decompress_def del: iterate.simps)
  from lznt1_agree [OF this] show ?thesis by simp
qed


text \<open>C11: data stored in blocks of at most 4096 bytes is decompressed to exactly the bytes of the
  blocks, and both calls return their number.\<close>

theorem lznt1_stored_roundtrip:
  assumes "\<forall>c\<in>set cs. 1 \<le> length c \<and> length c \<le> 4096" and "length b = length (concat cs)"
    and "length b < 2 ^ 63"
  shows "let data = concat (map store_block cs) in
     lznt1_decompress data (length data) (Some b) = Some (int (length b), Some (concat cs))
     \<and> lznt1_decompress data (length data) None = Some (int (length b), None)"
proof -
  let ?d = "concat (map store_block cs)"
  have it: "iterate (Suc (length cs)) (lznt1_pass ?d (length ?d)) (0, 0, Some b)
     = Some (Inr (int (length b), Some (concat cs)))"
    using lznt1_stored_all [of 0 ?d cs 0 b] assms by simp
  have "length cs \<le> length ?d" by (induction cs) (auto simp: store_block_def)
  then have "iterate (Suc (length ?d)) (lznt1_pass ?d (length ?d)) (0, 0, Some b)
     = Some (Inr (int (length b), Some (concat cs)))"
    by (intro iterate_more [OF it]) simp
  then have "lznt1_decompress ?d (length ?d) (Some b) = Some (int (length b), Some (concat cs))"
    by (simp add: lznt1_decompress_def del: iterate.simps)
  moreover from lznt1_agree [OF this assms(3)]
  have "lznt1_decompress ?d (length ?d) None = Some (int (length b), None)" by simp
  ultimately show ?thesis by simp
qed

lemma lznt1_stored_roundtrip_witness:
  "let data = concat (map store_block [[1, 2], [3]]) in
     lznt1_decompress data (length data) (Some [0, 0, 0]) = Some (int (length [0, 0, 0 :: byte]), Some (concat [[1, 2], [3]]))
     \<and> lznt1_decompress data (length data) None = Some (int (length [0, 0, 0 :: byte]), None)"
  by (rule lznt1_stored_roundtrip) simp_all

end
