(* ===== verification/Huffman.thy ===== *)
theory Huffman
  imports NtPrelude
begin

text \<open>
  The canonical Huffman decoder of \<^verbatim>\<open>libnt/huffman.c\<close> and \<^verbatim>\<open>include/huffman.h\<close>.

  The fields are natural numbers with the wrap-around of their C types written out where a
  value is stored. A \<^verbatim>\<open>raw\<close> pointer is an index into the alphabet's \<^verbatim>\<open>raw\<close> array; it is an
  integer because the adjusted pointer may lie before the array. An access outside the
  arrays is \<open>None\<close>.
\<close>

record huffman_symbols =
  sym_bits :: nat
  sym_shift :: nat
  sym_freq :: nat
  sym_start :: nat
  sym_raw :: int

record huffman_alphabet =
  alph_huf :: "huffman_symbols list"
  alph_lookup :: "nat list"
  alph_raw :: "u16 list"

definition HUFFMAN_BITS :: nat where "HUFFMAN_BITS = 16"
definition HUFFMAN_QL_BITS :: nat where "HUFFMAN_QL_BITS = 7"
definition HUFFMAN_QL_SHIFT :: nat where "HUFFMAN_QL_SHIFT = HUFFMAN_BITS - HUFFMAN_QL_BITS"

lemmas huffman_consts = HUFFMAN_BITS_def HUFFMAN_QL_BITS_def HUFFMAN_QL_SHIFT_def

text \<open>
  \<^verbatim>\<open>huffman_bin\<close>: the characters of a value, most significant bit first. \<^verbatim>\<open>1 << bits\<close> is an
  \<^verbatim>\<open>int\<close>, so more than 32 bits shift out of range; bit 31 is sign-extended.
\<close>

definition huffman_bin :: "u64 \<Rightarrow> nat \<Rightarrow> bytes option" where
  "huffman_bin v n =
     (if n \<le> 32 then
        Some (map (\<lambda>i. if v AND scast (push_bit i 1 :: u32) \<noteq> 0 then 0x31 else 0x30) (rev [0..<n]) @ [0])
      else None)"

definition clear_symbol :: huffman_symbols where
  "clear_symbol = \<lparr>sym_bits = 0, sym_shift = 0, sym_freq = 0, sym_start = 0, sym_raw = 0\<rparr>"

text \<open>Count the symbols of each length; the second result is \<^verbatim>\<open>empty\<close>.\<close>

fun count_lengths :: "bytes \<Rightarrow> huffman_symbols list \<Rightarrow> bool \<Rightarrow> (huffman_symbols list \<times> bool) option" where
  "count_lengths [] hs e = Some (hs, e)"
| "count_lengths (l # ls) hs e =
     (if l \<noteq> 0 then do {
        s \<leftarrow> rd hs (unat l - 1);
        count_lengths ls (hs[unat l - 1 := s\<lparr>sym_freq := (sym_freq s + 1) mod 2 ^ 16\<rparr>]) False }
      else count_lengths ls hs e)"

text \<open>Populate the symbol table: the status, the table and \<^verbatim>\<open>huf\<close> after the loop.\<close>

fun populate_symbols :: "nat list \<Rightarrow> huffman_symbols list \<Rightarrow> nat \<Rightarrow> nat \<Rightarrow> int \<times> huffman_symbols list \<times> nat" where
  "populate_symbols [] hs h cum_freq = (0, hs, h)"
| "populate_symbols (b # bs) hs h cum_freq =
     (let sy = hs ! (b - 1);
          sh = HUFFMAN_BITS - b;
          sy = sy\<lparr>sym_bits := b, sym_shift := sh, sym_start := (h * 2 ^ sh) mod 2 ^ 32,
                    sym_raw := int cum_freq\<rparr>;
          hs = hs[b - 1 := sy];
          h = (h + sym_freq sy) mod 2 ^ 32
      in if h > 2 ^ b then (-1, hs, h)
         else populate_symbols bs hs ((h * 2) mod 2 ^ 32) ((cum_freq + sym_freq sy) mod 2 ^ 32))"

text \<open>Populate the raw symbol table: \<^verbatim>\<open>*(sym->raw++) = raw\<close>.\<close>

fun populate_raw :: "nat \<Rightarrow> bytes \<Rightarrow> huffman_symbols list \<Rightarrow> u16 list \<Rightarrow> (huffman_symbols list \<times> u16 list) option" where
  "populate_raw r [] hs tab = Some (hs, tab)"
| "populate_raw r (l # ls) hs tab =
     (if l \<noteq> 0 then do {
        sy \<leftarrow> rd hs (unat l - 1);
        tab \<leftarrow> (if sym_raw sy < 0 then None else wr tab (nat (sym_raw sy)) (of_nat r));
        populate_raw (Suc r) ls (hs[unat l - 1 := sy\<lparr>sym_raw := sym_raw sy + 1\<rparr>]) tab }
      else populate_raw (Suc r) ls hs tab)"

function fill_lookup :: "nat \<Rightarrow> nat \<Rightarrow> nat list \<Rightarrow> nat list" where
  "fill_lookup prefix v lk =
     (if prefix < 2 ^ HUFFMAN_QL_BITS then fill_lookup (Suc prefix) v (lk[prefix := v]) else lk)"
  by pat_completeness auto
termination
  by (relation "measure (\<lambda>(p, _, _). 2 ^ HUFFMAN_QL_BITS - p)") auto

declare fill_lookup.simps [simp del]

fun adjust_symbols :: "nat list \<Rightarrow> huffman_symbols list \<Rightarrow> nat list \<Rightarrow> huffman_symbols list \<times> nat list" where
  "adjust_symbols [] hs lk = (hs, lk)"
| "adjust_symbols (b # bs) hs lk =
     (let sy = hs ! (b - 1);
          r = sym_raw sy - int (sym_freq sy);
          adjustment = sym_start sy div 2 ^ sym_shift sy;
          sy = sy\<lparr>sym_raw := r - int adjustment\<rparr>;
          hs = hs[b - 1 := sy];
          lk = fill_lookup (sym_start sy div 2 ^ HUFFMAN_QL_SHIFT) (b - 1) lk
      in adjust_symbols bs hs lk)"

definition huffman_alphabet ::
  "huffman_alphabet \<Rightarrow> bytes \<Rightarrow> nat \<Rightarrow> (huffman_alphabet \<times> int) option" where
  "huffman_alphabet alphabet lengths count = do {
     ls \<leftarrow> peek lengths 0 count;
     let hs = replicate HUFFMAN_BITS clear_symbol;
     (hs, e) \<leftarrow> count_lengths ls hs True;
     let hs = (if e then hs[0 := (hs ! 0)\<lparr>sym_freq := 2\<rparr>] else hs);
     let (rc, hs, h) = populate_symbols [1..<17] hs 0 0;
     if rc \<noteq> 0 then Some (alphabet\<lparr>alph_huf := hs\<rparr>, rc)
     else do {
       let complete = (h = 2 ^ 17);
       (hs, tab) \<leftarrow> populate_raw 0 ls hs (alph_raw alphabet);
       let (hs, lk) = adjust_symbols [1..<17] hs (alph_lookup alphabet);
       Some (\<lparr>alph_huf = hs, alph_lookup = lk, alph_raw = tab\<rparr>, if complete then 0 else -1) } }"

text \<open>\<^verbatim>\<open>while (huf < sym->start) sy--\<close>, from the symbol set at an index down.\<close>

fun sym_search :: "huffman_symbols list \<Rightarrow> nat \<Rightarrow> nat \<Rightarrow> huffman_symbols option" where
  "sym_search hs 0 h = (if h < sym_start (hs ! 0) then None else Some (hs ! 0))"
| "sym_search hs (Suc i) h = (if h < sym_start (hs ! Suc i) then sym_search hs i h else Some (hs ! Suc i))"

definition huffman_sym :: "huffman_alphabet \<Rightarrow> nat \<Rightarrow> huffman_symbols option" where
  "huffman_sym alphabet h = do {
     i \<leftarrow> rd (alph_lookup alphabet) (h div 2 ^ HUFFMAN_QL_SHIFT);
     if i < length (alph_huf alphabet) then sym_search (alph_huf alphabet) i h else None }"

definition huffman_len :: "huffman_symbols \<Rightarrow> nat" where
  "huffman_len sy = sym_bits sy"

definition huffman_raw :: "huffman_alphabet \<Rightarrow> huffman_symbols \<Rightarrow> nat \<Rightarrow> u16 option" where
  "huffman_raw alphabet sy h =
     (let i = sym_raw sy + int (h div 2 ^ sym_shift sy)
      in if i < 0 then None else rd (alph_raw alphabet) (nat i))"

section \<open>Canonical codes\<close>

text \<open>
  The code the decoder is to invert, over the symbol lengths alone. Index \<open>i\<close> stands for code
  length \<open>Suc i\<close>: how many symbols have it, the first code of it, and the position of its
  symbols in the list ordered by length and then by value. \<open>code_of\<close> is the code of a symbol.
\<close>

definition freqs :: "bytes \<Rightarrow> nat \<Rightarrow> nat" where
  "freqs ls i = length (filter (\<lambda>l. unat l = Suc i) ls)"

fun first_code :: "(nat \<Rightarrow> nat) \<Rightarrow> nat \<Rightarrow> nat" where
  "first_code f 0 = 0"
| "first_code f (Suc i) = (first_code f i + f i) * 2"

fun cum :: "(nat \<Rightarrow> nat) \<Rightarrow> nat \<Rightarrow> nat" where
  "cum f 0 = 0"
| "cum f (Suc i) = cum f i + f i"

definition code_of :: "bytes \<Rightarrow> nat \<Rightarrow> nat" where
  "code_of ls r = first_code (freqs ls) (unat (ls ! r) - 1) + freqs (take r ls) (unat (ls ! r) - 1)"

definition kraft :: "(nat \<Rightarrow> nat) \<Rightarrow> nat" where
  "kraft f = (\<Sum>i<16. f i * 2 ^ (15 - i))"

definition starts :: "(nat \<Rightarrow> nat) \<Rightarrow> nat \<Rightarrow> nat" where
  "starts f i = first_code f i * 2 ^ (15 - i)"

lemma map_upt_update: "j < n \<Longrightarrow> (map g [0..<n])[j := v] = map (g(j := v)) [0..<n]"
  by (rule nth_equalityI) (auto simp: nth_list_update)

lemma freqs_Cons: "freqs (l # ls) i = (if unat l = Suc i then 1 else 0) + freqs ls i"
  by (simp add: freqs_def)

lemma freqs_le: "freqs ls i \<le> length ls"
  by (simp add: freqs_def)

text \<open>Counting.\<close>

lemma count_lengths_eq:
  assumes "\<forall>l\<in>set ls. unat l \<le> 16" and "\<forall>i<16. g i + length ls < 2 ^ 16"
  shows "count_lengths ls (map (\<lambda>i. clear_symbol\<lparr>sym_freq := g i\<rparr>) [0..<16]) e =
     Some (map (\<lambda>i. clear_symbol\<lparr>sym_freq := g i + freqs ls i\<rparr>) [0..<16], e \<and> (\<forall>l\<in>set ls. l = 0))"
  using assms
proof (induction ls arbitrary: g e)
  case Nil
  then show ?case by (simp add: freqs_def)
next
  case (Cons l ls)
  show ?case
  proof (cases "l = 0")
    case True
    have "count_lengths ls (map (\<lambda>i. clear_symbol\<lparr>sym_freq := g i\<rparr>) [0..<16]) e =
     Some (map (\<lambda>i. clear_symbol\<lparr>sym_freq := g i + freqs ls i\<rparr>) [0..<16], e \<and> (\<forall>l\<in>set ls. l = 0))"
      using Cons.prems by (intro Cons.IH) auto
    then show ?thesis using True by (simp add: freqs_Cons)
  next
    case False
    let ?k = "unat l - 1"
    have pos: "0 < unat l" using False by (simp add: unat_gt_0)
    have k: "?k < 16" "unat l = Suc ?k" using pos Cons.prems(1) by auto
    let ?g = "g(?k := g ?k + 1)"
    have r: "rd (map (\<lambda>i. clear_symbol\<lparr>sym_freq := g i\<rparr>) [0..<16]) ?k = Some (clear_symbol\<lparr>sym_freq := g ?k\<rparr>)"
      using k by (simp add: rd_def)
    have m: "(g ?k + 1) mod 2 ^ 16 = g ?k + 1" using Cons.prems(2) [rule_format, OF k(1)] by simp
    have u: "(map (\<lambda>i. clear_symbol\<lparr>sym_freq := g i\<rparr>) [0..<16])
        [?k := clear_symbol\<lparr>sym_freq := g ?k + 1\<rparr>] = map (\<lambda>i. clear_symbol\<lparr>sym_freq := ?g i\<rparr>) [0..<16]"
      unfolding map_upt_update [OF k(1)] by (rule map_cong) auto
    have "count_lengths ls (map (\<lambda>i. clear_symbol\<lparr>sym_freq := ?g i\<rparr>) [0..<16]) False =
     Some (map (\<lambda>i. clear_symbol\<lparr>sym_freq := ?g i + freqs ls i\<rparr>) [0..<16], False \<and> (\<forall>l\<in>set ls. l = 0))"
      using Cons.prems by (intro Cons.IH) auto
    moreover have "map (\<lambda>i. clear_symbol\<lparr>sym_freq := ?g i + freqs ls i\<rparr>) [0..<16] =
        map (\<lambda>i. clear_symbol\<lparr>sym_freq := g i + freqs (l # ls) i\<rparr>) [0..<16]"
      using k(2) by (intro map_cong) (auto simp: freqs_Cons)
    ultimately show ?thesis using False r u m by simp
  qed
qed

text \<open>The symbol sets after the table is populated, and after the pointers are adjusted.\<close>

definition symbols_at :: "(nat \<Rightarrow> nat) \<Rightarrow> (nat \<Rightarrow> int) \<Rightarrow> nat \<Rightarrow> huffman_symbols" where
  "symbols_at f p i =
     \<lparr>sym_bits = Suc i, sym_shift = 15 - i, sym_freq = f i, sym_start = starts f i, sym_raw = p i\<rparr>"

lemma upt_Suc_Cons: "j < 16 \<Longrightarrow> [Suc j..<17] = Suc j # [Suc (Suc j)..<17]"
  by (simp add: upt_conv_Cons)

lemma first_code_bound:
  assumes "\<forall>i<n. first_code f i + f i \<le> 2 ^ Suc i"
  shows "first_code f n \<le> 2 ^ Suc n"
  using assms by (induction n) auto

lemma first_code_step:
  "first_code f i + f i \<le> 2 ^ Suc i \<Longrightarrow> first_code f (Suc i) \<le> 2 ^ Suc (Suc i)"
  by simp

lemma pow_le_65536: "i < 16 \<Longrightarrow> (2 :: nat) ^ Suc i \<le> 65536"
  using power_increasing [of "Suc i" 16 "2 :: nat"] by simp

lemma cum_bound: "\<forall>i<16. f i < 2 ^ 16 \<Longrightarrow> j \<le> 16 \<Longrightarrow> cum f j \<le> j * 65536"
proof (induction j)
  case (Suc j)
  then have "f j < 2 ^ 16" "cum f j \<le> j * 65536" by auto
  then show ?case by simp
qed simp

text \<open>
  One pass of the populating loop, with the wrap-around discharged: the checks of the passes
  before keep \<^verbatim>\<open>huf\<close> below \<open>2 ^ 17\<close>.
\<close>

lemma populate_step:
  assumes "j < 16" and "first_code f j \<le> 2 ^ Suc j" and "c \<le> j * 65536"
    and "g j = clear_symbol\<lparr>sym_freq := f j\<rparr>" and "f j < 2 ^ 16"
  shows "populate_symbols [Suc j..<17] (map g [0..<16]) (first_code f j) c =
     (let hs = map (g(j := symbols_at f (\<lambda>_. int c) j)) [0..<16]
      in if first_code f j + f j > 2 ^ Suc j then (-1, hs, first_code f j + f j)
         else populate_symbols [Suc (Suc j)..<17] hs (first_code f (Suc j)) (c + f j))"
proof -
  let ?h = "first_code f j"
  have h: "?h \<le> 65536" using assms(2) pow_le_65536 [OF assms(1)] by linarith
  have "?h * 2 ^ (15 - j) \<le> 2 ^ Suc j * 2 ^ (15 - j)" using assms(2) by (rule mult_right_mono) simp
  also have "(2 :: nat) ^ Suc j * 2 ^ (15 - j) = 2 ^ 16"
    using assms(1) by (simp flip: power_add power_Suc)
  finally have "?h * 2 ^ (15 - j) < 2 ^ 32" by simp
  then have m1: "(?h * 2 ^ (15 - j)) mod 2 ^ 32 = ?h * 2 ^ (15 - j)" by (rule mod_less)
  have m2: "(?h + f j) mod 2 ^ 32 = ?h + f j" using h assms(5) by (intro mod_less) simp
  have m3: "((?h + f j) * 2) mod 2 ^ 32 = (?h + f j) * 2" using h assms(5) by (intro mod_less) simp
  have "c + f j \<le> 16 * 65536 + 65536" using assms(1,3,5) by (intro add_mono) auto
  then have m4: "(c + f j) mod 2 ^ 32 = c + f j" by (intro mod_less) simp
  have upd: "(map g [0..<16])[j := v] = map (g(j := v)) [0..<16]" for v
    by (rule map_upt_update [OF assms(1)])
  have nth: "map g [0..<16] ! j = clear_symbol\<lparr>sym_freq := f j\<rparr>" using assms(1,4) by simp
  have sh: "HUFFMAN_BITS - Suc j = 15 - j" by (simp add: HUFFMAN_BITS_def)
  have fs: "sym_freq (symbols_at f (\<lambda>_. int c) j) = f j" by (simp add: symbols_at_def)
  have r: "clear_symbol\<lparr>sym_freq := f j, sym_bits := Suc j, sym_shift := 15 - j,
      sym_start := ?h * 2 ^ (15 - j), sym_raw := int c\<rparr> = symbols_at f (\<lambda>_. int c) j"
    by (simp add: symbols_at_def starts_def clear_symbol_def)
  show ?thesis
    unfolding upt_Suc_Cons [OF assms(1)] populate_symbols.simps Let_def diff_Suc_1 nth sh m1 r fs m2 m3 m4
      upd first_code.simps ..
qed

definition populated :: "(nat \<Rightarrow> nat) \<Rightarrow> huffman_symbols list" where
  "populated f = map (symbols_at f (\<lambda>i. int (cum f i))) [0..<16]"

text \<open>A length assignment that no prefix of the code overflows.\<close>

definition fits :: "(nat \<Rightarrow> nat) \<Rightarrow> bool" where
  "fits f \<longleftrightarrow> (\<forall>i<16. first_code f i + f i \<le> 2 ^ Suc i)"

definition partly_populated :: "(nat \<Rightarrow> nat) \<Rightarrow> nat \<Rightarrow> nat \<Rightarrow> huffman_symbols" where
  "partly_populated f j i =
     (if i < j then symbols_at f (\<lambda>i. int (cum f i)) i else clear_symbol\<lparr>sym_freq := f i\<rparr>)"

lemma partly_populated_step:
  "(partly_populated f j)(j := symbols_at f (\<lambda>_. int (cum f j)) j) = partly_populated f (Suc j)"
  by (rule ext) (auto simp: partly_populated_def symbols_at_def less_Suc_eq)

lemma populate_from:
  assumes f: "\<forall>i<16. f i < 2 ^ 16" and "j \<le> 16" and "\<forall>i<j. first_code f i + f i \<le> 2 ^ Suc i"
    and "res = populate_symbols [Suc j..<17] (map (partly_populated f j) [0..<16]) (first_code f j) (cum f j)"
  shows "(fits f \<longrightarrow> res = (0, populated f, first_code f 16)) \<and> (\<not> fits f \<longrightarrow> fst res = -1)"
  using assms(2-4)
proof (induction "16 - j" arbitrary: j)
  case 0
  then have "j = 16" by simp
  moreover have "map (partly_populated f 16) [0..<16] = populated f"
    unfolding populated_def by (rule map_cong) (auto simp: partly_populated_def)
  ultimately show ?case using "0.prems" by (simp add: fits_def)
next
  case (Suc n)
  then have j: "j < 16" by simp
  have g: "partly_populated f j j = clear_symbol\<lparr>sym_freq := f j\<rparr>" by (simp add: partly_populated_def)
  have fj: "f j < 2 ^ 16" using f j by blast
  note P = populate_step [of j f "cum f j" "partly_populated f j", OF j first_code_bound [OF Suc.prems(2)]
      cum_bound [OF f Suc.prems(1)] g fj, unfolded partly_populated_step Let_def, folded Suc.prems(3)]
  show ?case
  proof (cases "first_code f j + f j \<le> 2 ^ Suc j")
    case True
    then have le: "\<forall>i<Suc j. first_code f i + f i \<le> 2 ^ Suc i" using Suc.prems(2) by (auto simp: less_Suc_eq)
    have "res = populate_symbols [Suc (Suc j)..<17] (map (partly_populated f (Suc j)) [0..<16])
        (first_code f (Suc j)) (cum f (Suc j))"
      using P True by (simp only: cum.simps not_less [symmetric] if_False)
    moreover have "n = 16 - Suc j" "Suc j \<le> 16" using Suc.hyps(2) j by simp_all
    ultimately show ?thesis using Suc.hyps(1) [of "Suc j"] le by blast
  next
    case False
    then have "\<not> fits f" using j by (auto simp: fits_def)
    moreover have "fst res = -1" using P False by (simp only: not_le if_True fst_conv)
    ultimately show ?thesis by blast
  qed
qed

lemma populate_all:
  assumes f: "\<forall>i<16. f i < 2 ^ 16"
    and "res = populate_symbols [1..<17] (map (\<lambda>i. clear_symbol\<lparr>sym_freq := f i\<rparr>) [0..<16]) 0 0"
  shows "fits f \<Longrightarrow> res = (0, populated f, first_code f 16)" and "\<not> fits f \<Longrightarrow> fst res = -1"
proof -
  have "(\<lambda>i. clear_symbol\<lparr>sym_freq := f i\<rparr>) = partly_populated f 0"
    by (rule ext) (simp add: partly_populated_def)
  then have "(fits f \<longrightarrow> res = (0, populated f, first_code f 16)) \<and> (\<not> fits f \<longrightarrow> fst res = -1)"
    using populate_from [OF f, of 0 res] assms(2) by simp
  then show "fits f \<Longrightarrow> res = (0, populated f, first_code f 16)" and "\<not> fits f \<Longrightarrow> fst res = -1"
    by simp_all
qed

text \<open>The positions of the symbols of one length.\<close>

definition symbols_of :: "bytes \<Rightarrow> nat \<Rightarrow> nat list" where
  "symbols_of ls i = filter (\<lambda>r. unat (ls ! r) = Suc i) [0..<length ls]"

lemma symbols_of_snoc: "symbols_of (ls @ [l]) i = symbols_of ls i @ (if unat l = Suc i then [length ls] else [])"
  by (auto simp: symbols_of_def nth_append intro!: filter_cong)

lemma length_symbols_of: "length (symbols_of ls i) = freqs ls i"
  by (induction ls rule: rev_induct) (auto simp: symbols_of_snoc freqs_def, simp add: symbols_of_def)

lemma symbols_of_nth:
  "r < length ls \<Longrightarrow> unat (ls ! r) = Suc i \<Longrightarrow> symbols_of ls i ! freqs (take r ls) i = r \<and> freqs (take r ls) i < freqs ls i"
proof (induction ls rule: rev_induct)
  case (snoc l ls)
  show ?case
  proof (cases "r = length ls")
    case True
    then show ?thesis using snoc.prems
      by (simp add: symbols_of_snoc nth_append length_symbols_of) (simp add: freqs_def)
  next
    case False
    then have "r < length ls" using snoc.prems by simp
    then show ?thesis using snoc
      by (simp add: symbols_of_snoc nth_append length_symbols_of) (simp add: freqs_def)
  qed
qed simp

lemma cum_mono: "i < j \<Longrightarrow> cum f i + f i \<le> cum f j"
proof (induction j)
  case (Suc j)
  then show ?case by (cases "i = j") auto
qed simp

lemma cum_disjoint: "cum f i + k = cum f j + l \<Longrightarrow> k < f i \<Longrightarrow> l < f j \<Longrightarrow> i = j"
  using cum_mono [of i j f] cum_mono [of j i f] by (cases i j rule: linorder_cases) auto

text \<open>
  The raw symbol table after the first \<open>r\<close> symbols: the symbols of each length, in order, from
  the position of that length on.
\<close>

definition filled :: "bytes \<Rightarrow> nat \<Rightarrow> u16 list \<Rightarrow> bool" where
  "filled ls r tab \<longleftrightarrow> (\<forall>i<16. \<forall>k<freqs (take r ls) i.
     cum (freqs ls) i + k < length tab \<and> tab ! (cum (freqs ls) i + k) = of_nat (symbols_of ls i ! k))"

lemma freqs_take_Suc:
  "r < length ls \<Longrightarrow> freqs (take (Suc r) ls) i = freqs (take r ls) i + (if unat (ls ! r) = Suc i then 1 else 0)"
  by (simp add: take_Suc_conv_app_nth freqs_def)

lemma populate_raw_eq:
  assumes "r \<le> length ls" and "\<forall>l\<in>set ls. unat l \<le> 16" and "cum (freqs ls) 16 \<le> length tab"
    and "filled ls r tab"
  shows "\<exists>tab'. populate_raw r (drop r ls)
      (map (symbols_at f (\<lambda>i. int (cum (freqs ls) i + freqs (take r ls) i))) [0..<16]) tab
     = Some (map (symbols_at f (\<lambda>i. int (cum (freqs ls) i + freqs ls i))) [0..<16], tab')
       \<and> filled ls (length ls) tab' \<and> length tab' = length tab"
  using assms(1,3,4)
proof (induction "length ls - r" arbitrary: r tab)
  case 0
  then show ?case by simp
next
  case (Suc n)
  then have r: "r < length ls" by simp
  let ?p = "\<lambda>r i. int (cum (freqs ls) i + freqs (take r ls) i)"
  have dr: "drop r ls = ls ! r # drop (Suc r) ls" using r by (simp add: Cons_nth_drop_Suc)
  show ?case
  proof (cases "ls ! r = 0")
    case True
    then have e: "freqs (take (Suc r) ls) i = freqs (take r ls) i" for i
      using freqs_take_Suc [OF r] by simp
    then have "filled ls (Suc r) tab" using Suc.prems by (simp add: filled_def)
    then show ?thesis using Suc.hyps(1) [of "Suc r" tab] Suc.hyps(2) Suc.prems r True by (simp add: dr e)
  next
    case False
    let ?i = "unat (ls ! r) - 1"
    have "0 < unat (ls ! r)" "unat (ls ! r) \<le> 16"
      using False r assms(2) nth_mem by (auto simp: unat_gt_0)
    then have i: "?i < 16" "unat (ls ! r) = Suc ?i" by auto
    let ?k = "freqs (take r ls) ?i"
    have k: "?k < freqs ls ?i" "symbols_of ls ?i ! ?k = r" using symbols_of_nth [OF r i(2)] by auto
    have w: "cum (freqs ls) ?i + ?k < length tab"
      using cum_mono [OF i(1), of "freqs ls"] k(1) Suc.prems(2) by linarith
    let ?tab = "tab[cum (freqs ls) ?i + ?k := of_nat r]"
    have fr: "freqs (take r ls) j \<le> freqs ls j" for j
      unfolding freqs_def by (metis append_take_drop_id filter_append length_append le_add1)
    have "filled ls (Suc r) ?tab"
      unfolding filled_def
    proof (intro allI impI)
      fix j l assume j: "j < 16" and l: "l < freqs (take (Suc r) ls) j"
      show "cum (freqs ls) j + l < length ?tab \<and> ?tab ! (cum (freqs ls) j + l) = of_nat (symbols_of ls j ! l)"
      proof (cases "j = ?i \<and> l = ?k")
        case True
        then show ?thesis using w k by simp
      next
        case False
        then have l': "l < freqs (take r ls) j"
          using l i(2) by (auto simp: freqs_take_Suc [OF r] less_Suc_eq split: if_splits)
        have "cum (freqs ls) ?i + ?k \<noteq> cum (freqs ls) j + l"
          using cum_disjoint [of "freqs ls" ?i ?k j l] k(1) l' fr [of j] False by auto
        then show ?thesis using Suc.prems(3) j l' by (simp add: filled_def)
      qed
    qed
    moreover have "(map (symbols_at f (?p r)) [0..<16])[?i := (symbols_at f (?p r) ?i)\<lparr>sym_raw := ?p r ?i + 1\<rparr>]
        = map (symbols_at f (?p (Suc r))) [0..<16]"
      unfolding map_upt_update [OF i(1)]
      using i(2) by (intro map_cong) (auto simp: symbols_at_def freqs_take_Suc [OF r])
    moreover have "rd (map (symbols_at f (?p r)) [0..<16]) ?i = Some (symbols_at f (?p r) ?i)"
      using i by (simp add: rd_def)
    moreover have "sym_raw (symbols_at f (?p r) ?i) = int (cum (freqs ls) ?i + ?k)"
      by (simp add: symbols_at_def)
    moreover have "wr tab (cum (freqs ls) ?i + ?k) (of_nat r) = Some ?tab" using w by (simp add: wr_def)
    ultimately show ?thesis
      using Suc.hyps(1) [of "Suc r" ?tab] Suc.hyps(2) Suc.prems(2) r False
      unfolding dr populate_raw.simps by (simp del: of_nat_add)
  qed
qed

text \<open>Adjusting the pointers and filling the quick lookup table.\<close>

lemma fill_lookup_length [simp]: "length (fill_lookup p v lk) = length lk"
  by (induction p v lk rule: fill_lookup.induct) (subst fill_lookup.simps, simp)

lemma fill_lookup_nth:
  "length lk = 128 \<Longrightarrow> q < 128 \<Longrightarrow> fill_lookup p v lk ! q = (if p \<le> q then v else lk ! q)"
proof (induction p v lk rule: fill_lookup.induct)
  case (1 p v lk)
  then show ?case
    by (subst fill_lookup.simps) (auto simp: HUFFMAN_QL_BITS_def nth_list_update)
qed

fun last_start :: "(nat \<Rightarrow> nat) \<Rightarrow> nat \<Rightarrow> nat \<Rightarrow> nat" where
  "last_start f 0 p = 0"
| "last_start f (Suc i) p = (if starts f i div 512 \<le> p then i else last_start f i p)"

fun last_code :: "(nat \<Rightarrow> nat) \<Rightarrow> nat \<Rightarrow> nat \<Rightarrow> nat" where
  "last_code f 0 h = 0"
| "last_code f (Suc i) h = (if starts f i \<le> h then i else last_code f i h)"

lemma starts_0 [simp]: "starts f 0 = 0"
  by (simp add: starts_def)

lemma last_start_less: "0 < n \<Longrightarrow> last_start f n p < n"
  by (induction n) (auto, metis less_Suc_eq not_gr_zero starts_0 div_0 le0)

lemma last_code_less: "0 < n \<Longrightarrow> last_code f n h < n"
  by (induction n) (auto, metis less_Suc_eq not_gr_zero starts_0 le0)

lemma last_code_starts: "starts f (last_code f n h) \<le> h"
  by (induction n) auto

lemma last_code_greatest: "last_code f n h < j \<Longrightarrow> j < n \<Longrightarrow> h < starts f j"
  by (induction n) (auto simp: less_Suc_eq split: if_splits)

lemma last_code_unique:
  "starts f i \<le> h \<Longrightarrow> i < n \<Longrightarrow> \<forall>j. i < j \<and> j < n \<longrightarrow> h < starts f j \<Longrightarrow> last_code f n h = i"
  using last_code_greatest [of f n h i] last_code_starts [of f n h] last_code_less [of n f h]
  by (metis gr_zeroI linorder_neqE_nat not_less not_less_zero)

lemma last_code_lookup: "last_code f n h = last_code f (Suc (last_start f n (h div 512))) h"
proof (induction n)
  case (Suc n)
  show ?case
  proof (cases "starts f n div 512 \<le> h div 512")
    case False
    then have "\<not> starts f n \<le> h" using div_le_mono by blast
    then show ?thesis using False Suc by simp
  qed simp
qed simp

definition adjusted :: "(nat \<Rightarrow> nat) \<Rightarrow> (nat \<Rightarrow> int) \<Rightarrow> nat \<Rightarrow> nat \<Rightarrow> huffman_symbols" where
  "adjusted f q j i = symbols_at f (\<lambda>i. if i < j then q i - int (f i) - int (first_code f i) else q i) i"

lemma adjust_step:
  assumes "j < 16"
  shows "adjust_symbols [Suc j..<17] (map (adjusted f q j) [0..<16]) lk =
    adjust_symbols [Suc (Suc j)..<17] (map (adjusted f q (Suc j)) [0..<16])
      (fill_lookup (starts f j div 512) j lk)"
proof -
  let ?s = "adjusted f q j j"
  have nth: "map (adjusted f q j) [0..<16] ! j = ?s" using assms by simp
  have f: "sym_raw ?s = q j" "sym_freq ?s = f j" "sym_start ?s = starts f j" "sym_shift ?s = 15 - j"
    by (simp_all add: adjusted_def symbols_at_def)
  have a: "starts f j div 2 ^ (15 - j) = first_code f j" by (simp add: starts_def)
  have "(adjusted f q j)(j := ?s\<lparr>sym_raw := q j - int (f j) - int (first_code f j)\<rparr>) = adjusted f q (Suc j)"
    by (rule ext) (auto simp: adjusted_def symbols_at_def less_Suc_eq)
  then have u: "(map (adjusted f q j) [0..<16])[j := ?s\<lparr>sym_raw := q j - int (f j) - int (first_code f j)\<rparr>]
      = map (adjusted f q (Suc j)) [0..<16]"
    unfolding map_upt_update [OF assms] by simp
  have f2: "sym_start (?s\<lparr>sym_raw := x\<rparr>) = starts f j" for x by (simp add: f)
  have c: "2 ^ HUFFMAN_QL_SHIFT = (512 :: nat)" by (simp add: huffman_consts)
  show ?thesis
    unfolding upt_Suc_Cons [OF assms] adjust_symbols.simps Let_def diff_Suc_1 nth f f2 a u c ..
qed

lemma adjust_from:
  assumes "j \<le> 16" and "length lk = 128" and "\<forall>p<128. lk ! p = last_start f j p \<or> j = 0"
  shows "\<exists>lk'. adjust_symbols [Suc j..<17] (map (adjusted f q j) [0..<16]) lk =
      (map (adjusted f q 16) [0..<16], lk')
    \<and> length lk' = 128 \<and> (\<forall>p<128. lk' ! p = last_start f 16 p)"
  using assms
proof (induction "16 - j" arbitrary: j lk)
  case 0
  then show ?case by simp
next
  case (Suc n)
  then have j: "j < 16" by simp
  let ?lk = "fill_lookup (starts f j div 512) j lk"
  have "\<forall>p<128. ?lk ! p = last_start f (Suc j) p \<or> Suc j = 0"
    using Suc.prems(2,3) by (auto simp: fill_lookup_nth)
  then show ?case
    using Suc.hyps(1) [of "Suc j" ?lk] Suc.hyps(2) Suc.prems j by (simp add: adjust_step [OF j])
qed

lemma adjust_all:
  assumes "length lk = 128"
  shows "\<exists>lk'. adjust_symbols [1..<17] (map (symbols_at f q) [0..<16]) lk =
      (map (symbols_at f (\<lambda>i. q i - int (f i) - int (first_code f i))) [0..<16], lk')
    \<and> length lk' = 128 \<and> (\<forall>p<128. lk' ! p = last_start f 16 p)"
proof -
  have 1: "adjusted f q 0 = symbols_at f q" by (rule ext) (simp add: adjusted_def symbols_at_def)
  have 2: "map (adjusted f q 16) [0..<16] =
      map (symbols_at f (\<lambda>i. q i - int (f i) - int (first_code f i))) [0..<16]"
    by (rule map_cong) (auto simp: adjusted_def symbols_at_def)
  show ?thesis using adjust_from [of 0 lk f q, unfolded 1 2] assms by simp
qed

lemma sym_search_eq:
  "i < 16 \<Longrightarrow> sym_search (map (symbols_at f p) [0..<16]) i h = Some (symbols_at f p (last_code f (Suc i) h))"
  by (induction i) (auto simp: symbols_at_def)

section \<open>Kraft's equality\<close>

lemma first_code_sum: "first_code f n = (\<Sum>i<n. f i * 2 ^ (n - i))"
proof (induction n)
  case (Suc n)
  have "(\<Sum>i<n. f i * 2 ^ (Suc n - i)) = (\<Sum>i<n. f i * 2 ^ (n - i)) * 2"
    unfolding sum_distrib_right by (rule sum.cong) (auto simp: Suc_diff_le)
  then show ?case using Suc by simp
qed simp

lemma first_code_16: "first_code f 16 = 2 * kraft f"
proof -
  have "(\<Sum>i<16. f i * 2 ^ (16 - i)) = (\<Sum>i<16. 2 * (f i * 2 ^ (15 - i)))"
    by (rule sum.cong) (auto simp flip: power_Suc simp: Suc_diff_le [symmetric])
  then show ?thesis by (simp add: first_code_sum kraft_def sum_distrib_left)
qed

lemma kraft_fits:
  assumes "kraft f \<le> 2 ^ 16"
  shows "fits f"
  unfolding fits_def
proof (intro allI impI)
  fix i :: nat assume i: "i < 16"
  have e: "(2 :: nat) ^ (Suc i - j) * 2 ^ (15 - i) = 2 ^ (16 - j)" if "j \<le> i" for j
    using that i by (simp flip: power_add)
  have "first_code f (Suc i) * 2 ^ (15 - i) = (\<Sum>j<Suc i. f j * 2 ^ (16 - j))"
    unfolding first_code_sum sum_distrib_right
    by (rule sum.cong) (auto simp: mult.assoc e)
  also have "\<dots> \<le> (\<Sum>j<16. f j * 2 ^ (16 - j))"
    using i by (intro sum_mono2) auto
  also have "\<dots> = 2 * kraft f" using first_code_16 [of f] first_code_sum [of f 16] by simp
  also have "\<dots> \<le> 2 ^ Suc (Suc i) * 2 ^ (15 - i)"
    using assms i by (simp flip: power_add)
  finally have "first_code f (Suc i) \<le> 2 ^ Suc (Suc i)" by simp
  then show "first_code f i + f i \<le> 2 ^ Suc i" by simp
qed

section \<open>The alphabet is a decoder\<close>

text \<open>What \<^verbatim>\<open>huffman_alphabet\<close> leaves in a used alphabet.\<close>

definition decoder :: "bytes \<Rightarrow> huffman_alphabet \<Rightarrow> bool" where
  "decoder ls a \<longleftrightarrow>
     alph_huf a = map (symbols_at (freqs ls) (\<lambda>i. int (cum (freqs ls) i) - int (first_code (freqs ls) i))) [0..<16]
     \<and> length (alph_lookup a) = 128
     \<and> (\<forall>p<128. alph_lookup a ! p = last_start (freqs ls) 16 p)
     \<and> filled ls (length ls) (alph_raw a)"

lemma freqs_out: "\<forall>l\<in>set ls. unat l \<le> 16 \<Longrightarrow> 16 \<le> i \<Longrightarrow> freqs ls i = 0"
  by (auto simp: freqs_def filter_empty_conv)

lemma cum_freqs_le: "cum (freqs ls) n \<le> length ls"
proof (induction ls)
  case Nil
  show ?case by (induction n) (auto simp: freqs_def)
next
  case (Cons l ls)
  have "cum (freqs (l # ls)) n = cum (freqs ls) n + (if unat l \<noteq> 0 \<and> unat l \<le> n then 1 else 0)"
    by (induction n) (auto simp: freqs_Cons)
  then show ?case using Cons by simp
qed

lemma huffman_alphabet_result:
  assumes "count \<le> length lengths" and "count < 2 ^ 16" and ls: "ls = take count lengths"
    and "\<forall>l\<in>set ls. unat l \<le> 16" and "\<exists>l\<in>set ls. l \<noteq> 0"
    and "count \<le> length (alph_raw a)" and "length (alph_lookup a) = 128"
  shows "\<exists>a' rc. huffman_alphabet a lengths count = Some (a', rc)
    \<and> (rc = 0 \<longleftrightarrow> kraft (freqs ls) = 2 ^ 16) \<and> (fits (freqs ls) \<longrightarrow> decoder ls a')"
proof -
  let ?f = "freqs ls"
  have lenls: "length ls = count" using assms(1) ls by simp
  have peek: "peek lengths 0 count = Some ls" using assms(1) by (simp add: peek_def ls)
  have rep: "replicate HUFFMAN_BITS clear_symbol = map (\<lambda>i. clear_symbol\<lparr>sym_freq := 0\<rparr>) [0..<16]"
    by (simp add: HUFFMAN_BITS_def clear_symbol_def map_replicate_const)
  have cl: "count_lengths ls (replicate HUFFMAN_BITS clear_symbol) True
      = Some (map (\<lambda>i. clear_symbol\<lparr>sym_freq := ?f i\<rparr>) [0..<16], False)"
    unfolding rep using count_lengths_eq [of ls "\<lambda>_. 0" True] assms(2,4,5) lenls by auto
  have f: "\<forall>i<16. ?f i < 2 ^ 16" using freqs_le [of ls] assms(2) lenls by (metis le_less_trans)
  show ?thesis
  proof (cases "fits ?f")
    case False
    obtain hs h where p: "populate_symbols [1..<17] (map (\<lambda>i. clear_symbol\<lparr>sym_freq := ?f i\<rparr>) [0..<16]) 0 0
        = (-1, hs, h)"
      using populate_all(2) [OF f refl False] by (metis prod.exhaust_sel)
    moreover have "kraft ?f \<noteq> 2 ^ 16" using False kraft_fits [of ?f] by auto
    ultimately show ?thesis
      using False by (simp only: huffman_alphabet_def peek cl bind.bind_lunit prod.case Let_def if_False) simp
  next
    case True
    have p: "populate_symbols [1..<17] (map (\<lambda>i. clear_symbol\<lparr>sym_freq := ?f i\<rparr>) [0..<16]) 0 0
        = (0, populated ?f, first_code ?f 16)"
      using populate_all(1) [OF f refl True] .
    have fl0: "filled ls 0 (alph_raw a)" by (simp add: filled_def freqs_def)
    have cm: "cum ?f 16 \<le> length (alph_raw a)" using cum_freqs_le [of ls 16] assms(6) lenls by simp
    obtain tab where tab: "populate_raw 0 ls (populated ?f) (alph_raw a)
        = Some (map (symbols_at ?f (\<lambda>i. int (cum ?f i + ?f i))) [0..<16], tab)" "filled ls (length ls) tab"
      using populate_raw_eq [OF _ assms(4) cm fl0, of ?f]
      by (auto simp: populated_def) (simp add: freqs_def)
    obtain lk where lk: "adjust_symbols [1..<17] (map (symbols_at ?f (\<lambda>i. int (cum ?f i + ?f i))) [0..<16]) (alph_lookup a)
        = (map (symbols_at ?f (\<lambda>i. int (cum ?f i) - int (first_code ?f i))) [0..<16], lk)"
        "length lk = 128" "\<forall>p<128. lk ! p = last_start ?f 16 p"
      using adjust_all [OF assms(7), of ?f "\<lambda>i. int (cum ?f i + ?f i)"] by auto
    have k: "first_code ?f 16 = 2 ^ 17 \<longleftrightarrow> kraft ?f = 2 ^ 16" by (simp add: first_code_16)
    show ?thesis
      unfolding huffman_alphabet_def peek cl bind.bind_lunit prod.case Let_def if_False p tab lk k
      using tab(2) lk(2,3) by (simp add: decoder_def)
  qed
qed

text \<open>Each 16-bit look-ahead belongs to one code length.\<close>

lemma starts_Suc: "i < 15 \<Longrightarrow> starts f (Suc i) = (first_code f i + f i) * 2 ^ (15 - i)"
proof -
  assume i: "i < 15"
  have "(2 :: nat) * 2 ^ (15 - Suc i) = 2 ^ (15 - i)" using i by (simp flip: power_Suc add: Suc_diff_Suc)
  then show ?thesis by (simp only: starts_def first_code.simps mult.assoc)
qed

lemma starts_mono: "i < j \<Longrightarrow> j < 16 \<Longrightarrow> (first_code f i + f i) * 2 ^ (15 - i) \<le> starts f j"
proof (induction j)
  case (Suc j)
  show ?case
  proof (cases "i = j")
    case True
    then show ?thesis using Suc.prems by (simp add: starts_Suc)
  next
    case False
    then have "(first_code f i + f i) * 2 ^ (15 - i) \<le> starts f j" using Suc by simp
    also have "\<dots> \<le> starts f (Suc j)" using Suc.prems(2) by (simp add: starts_Suc) (simp add: starts_def)
    finally show ?thesis .
  qed
qed simp

lemma lookahead_offset:
  assumes "kraft f = 2 ^ 16" and "h < 2 ^ 16" and i: "i = last_code f 16 h"
  shows "first_code f i \<le> h div 2 ^ (15 - i) \<and> h div 2 ^ (15 - i) < first_code f i + f i \<and> i < 16"
proof -
  have i16: "i < 16" unfolding i by (intro last_code_less) simp
  have lo: "first_code f i * 2 ^ (15 - i) \<le> h"
    using last_code_starts [of f 16 h] unfolding i starts_def .
  have "h < (first_code f i + f i) * 2 ^ (15 - i)"
  proof (cases "i < 15")
    case True
    then show ?thesis using last_code_greatest [of f 16 h "Suc i"] i by (simp add: starts_Suc)
  next
    case False
    then have "i = 15" using i16 by simp
    moreover have "first_code f (Suc 15) = 2 ^ 17" using first_code_16 [of f] assms(1) by simp
    then have "first_code f 15 + f 15 = 2 ^ 16" unfolding first_code.simps by simp
    ultimately show ?thesis using assms(2) by simp
  qed
  then have "h div 2 ^ (15 - i) < first_code f i + f i" by (simp add: less_mult_imp_div_less)
  moreover have "first_code f i \<le> h div 2 ^ (15 - i)" using lo by (simp add: less_eq_div_iff_mult_less_eq)
  ultimately show ?thesis using i16 by blast
qed

lemma decoder_sym:
  assumes "decoder ls a" and "h < 2 ^ 16"
  shows "huffman_sym a h = Some (symbols_at (freqs ls) (\<lambda>i. int (cum (freqs ls) i) - int (first_code (freqs ls) i))
      (last_code (freqs ls) 16 h))"
proof -
  let ?f = "freqs ls" and ?p = "h div 512"
  have "?p < 128" using assms(2) by (simp add: less_mult_imp_div_less)
  then have "rd (alph_lookup a) ?p = Some (last_start ?f 16 ?p)"
    using assms(1) by (simp add: decoder_def rd_def)
  moreover have "last_start ?f 16 ?p < 16" by (rule last_start_less) simp
  moreover have "length (alph_huf a) = 16" using assms(1) by (simp add: decoder_def)
  ultimately show ?thesis
    using assms(1) last_code_lookup [of ?f 16 h]
    by (simp add: huffman_sym_def huffman_consts decoder_def sym_search_eq del: last_code.simps)
qed

lemma decoder_raw:
  assumes "decoder ls a" and "kraft (freqs ls) = 2 ^ 16" and "h < 2 ^ 16" and "i = last_code (freqs ls) 16 h"
  shows "huffman_raw a (symbols_at (freqs ls) (\<lambda>i. int (cum (freqs ls) i) - int (first_code (freqs ls) i)) i) h
    = Some (of_nat (symbols_of ls i ! (h div 2 ^ (15 - i) - first_code (freqs ls) i)))"
proof -
  let ?f = "freqs ls"
  let ?k = "h div 2 ^ (15 - i) - first_code ?f i"
  have o: "first_code ?f i \<le> h div 2 ^ (15 - i)" "?k < ?f i" "i < 16"
    using lookahead_offset [OF assms(2-4)] by auto
  obtain k where k: "h div 2 ^ (15 - i) = first_code ?f i + k" using o(1) le_Suc_ex by blast
  have "cum ?f i + k < length (alph_raw a) \<and> alph_raw a ! (cum ?f i + k) = of_nat (symbols_of ls i ! k)"
    using assms(1) o(2,3) k by (simp add: decoder_def filled_def)
  moreover have e: "int (cum ?f i) - int (first_code ?f i) + int (first_code ?f i + k) = int (cum ?f i + k)"
    by simp
  ultimately show ?thesis
    unfolding huffman_raw_def symbols_at_def huffman_symbols.simps k Let_def e
    by (simp add: rd_def del: of_nat_add)
qed

lemma symbols_of_mem:
  "k < freqs ls i \<Longrightarrow> symbols_of ls i ! k < length ls \<and> unat (ls ! (symbols_of ls i ! k)) = Suc i"
proof -
  assume "k < freqs ls i"
  then have "symbols_of ls i ! k \<in> set (symbols_of ls i)" by (simp add: length_symbols_of)
  moreover have "set (symbols_of ls i) = {r. r < length ls \<and> unat (ls ! r) = Suc i}"
    by (auto simp: symbols_of_def)
  ultimately show ?thesis by blast
qed

lemma symbols_of_rank: "k < freqs ls i \<Longrightarrow> freqs (take (symbols_of ls i ! k) ls) i = k"
proof -
  assume k: "k < freqs ls i"
  let ?r = "symbols_of ls i ! k"
  have "symbols_of ls i ! freqs (take ?r ls) i = ?r" "freqs (take ?r ls) i < freqs ls i"
    using symbols_of_mem [OF k] symbols_of_nth [of ?r ls i] by auto
  moreover have "distinct (symbols_of ls i)" by (simp add: symbols_of_def)
  ultimately show ?thesis using k by (simp add: nth_eq_iff_index_eq length_symbols_of)
qed

text \<open>The canonical code of a symbol is a prefix of the look-ahead.\<close>

definition coded_by :: "bytes \<Rightarrow> nat \<Rightarrow> nat \<Rightarrow> bool" where
  "coded_by ls r h \<longleftrightarrow> r < length ls \<and> ls ! r \<noteq> 0 \<and> h div 2 ^ (16 - unat (ls ! r)) = code_of ls r"

lemma coded_by_length:
  assumes "coded_by ls r h" and "unat (ls ! r) \<le> 16" and "unat (ls ! r) = Suc i"
  shows "last_code (freqs ls) 16 h = i"
    and "freqs (take r ls) i = h div 2 ^ (15 - i) - first_code (freqs ls) i"
proof -
  let ?f = "freqs ls"
  have r: "r < length ls" and h: "h div 2 ^ (15 - i) = first_code ?f i + freqs (take r ls) i"
    using assms by (auto simp: coded_by_def code_of_def)
  have rank: "freqs (take r ls) i < ?f i" using symbols_of_nth [OF r assms(3)] by simp
  show "freqs (take r ls) i = h div 2 ^ (15 - i) - first_code ?f i" using h by simp
  show "last_code ?f 16 h = i"
  proof (rule last_code_unique)
    show "starts ?f i \<le> h"
      using h by (simp add: starts_def flip: less_eq_div_iff_mult_less_eq)
    show "i < 16" using assms(2,3) by simp
    have "h div 2 ^ (15 - i) < first_code ?f i + ?f i" using h rank by simp
    then have "h < (first_code ?f i + ?f i) * 2 ^ (15 - i)"
      by (simp add: div_less_iff_less_mult)
    then show "\<forall>j. i < j \<and> j < 16 \<longrightarrow> h < starts ?f j"
      using starts_mono [of i _ ?f] by (meson less_le_trans)
  qed
qed

text \<open>Every look-ahead is decoded, to the symbol whose code it starts with.\<close>

lemma decoder_decodes:
  assumes d: "decoder ls a" "kraft (freqs ls) = 2 ^ 16" and h: "h < 2 ^ 16"
    and ls: "\<forall>l\<in>set ls. unat l \<le> 16"
  shows "\<exists>!r. coded_by ls r h"
    and "coded_by ls r h \<Longrightarrow> \<exists>s. huffman_sym a h = Some s \<and> huffman_len s = unat (ls ! r)
           \<and> huffman_raw a s h = Some (of_nat r)"
proof -
  let ?f = "freqs ls"
  let ?i = "last_code ?f 16 h"
  let ?k = "h div 2 ^ (15 - ?i) - first_code ?f ?i"
  let ?r = "symbols_of ls ?i ! ?k"
  have o: "first_code ?f ?i \<le> h div 2 ^ (15 - ?i)" "?k < ?f ?i" "?i < 16"
    using lookahead_offset [OF d(2) h refl] by auto
  have r: "?r < length ls" "unat (ls ! ?r) = Suc ?i" using symbols_of_mem [OF o(2)] by auto
  then have cr: "coded_by ls ?r h"
    using o by (auto simp: coded_by_def code_of_def symbols_of_rank [OF o(2)])
  have uniq: "q = ?r" if q: "coded_by ls q h" for q
  proof -
    have q': "q < length ls" "ls ! q \<noteq> 0" using q by (auto simp: coded_by_def)
    then have "0 < unat (ls ! q)" "unat (ls ! q) \<le> 16" using ls by (auto simp: unat_gt_0)
    then obtain i where i: "unat (ls ! q) = Suc i" "unat (ls ! q) \<le> 16" by (cases "unat (ls ! q)") auto
    have "?i = i" "freqs (take q ls) i = ?k" using coded_by_length [OF q i(2,1)] by auto
    then show "q = ?r" using symbols_of_nth [OF q'(1) i(1)] by auto
  qed
  show "\<exists>!r. coded_by ls r h" using cr uniq by blast
  show "\<exists>s. huffman_sym a h = Some s \<and> huffman_len s = unat (ls ! r) \<and> huffman_raw a s h = Some (of_nat r)"
    if "coded_by ls r h"
  proof -
    have "r = ?r" using uniq [OF that] .
    then show ?thesis
      using decoder_sym [OF d(1) h] decoder_raw [OF d h refl] r
      by (simp add: huffman_len_def symbols_at_def)
  qed
qed

section \<open>What holds of every alphabet\<close>

lemma populate_rc: "populate_symbols bs hs h c = (rc, hs', h') \<Longrightarrow> rc = 0 \<or> rc = -1"
  by (induction bs hs h c rule: populate_symbols.induct) (auto simp: Let_def split: if_splits)

lemma huffman_rc: "huffman_alphabet a l n = Some (a', rc) \<Longrightarrow> rc = 0 \<or> rc = -1"
  by (auto simp: huffman_alphabet_def Let_def dest: populate_rc
      split: Option.bind_splits prod.splits if_splits)

definition valid_bits :: "huffman_symbols list \<Rightarrow> bool" where
  "valid_bits hs \<longleftrightarrow> (\<forall>s\<in>set hs. 1 \<le> sym_bits s \<and> sym_bits s \<le> 16)"

lemma valid_bits_update: "valid_bits hs \<Longrightarrow> sym_bits s = sym_bits (hs ! i) \<Longrightarrow> i < length hs \<Longrightarrow> valid_bits (hs[i := s])"
  unfolding valid_bits_def by (metis in_set_conv_nth length_list_update nth_list_update)

lemma populate_bits:
  assumes "populate_symbols [Suc j..<17] hs h c = (0, hs', h')" and "length hs = 16"
    and "\<forall>i<j. sym_bits (hs ! i) = Suc i" and "j \<le> 16"
  shows "length hs' = 16 \<and> (\<forall>i<16. sym_bits (hs' ! i) = Suc i)"
  using assms
proof (induction "16 - j" arbitrary: j hs h c)
  case 0
  then show ?case by simp
next
  case (Suc n)
  then have j: "j < 16" by simp
  let ?sy = "(hs ! j)\<lparr>sym_bits := Suc j, sym_shift := HUFFMAN_BITS - Suc j,
    sym_start := (h * 2 ^ (HUFFMAN_BITS - Suc j)) mod 2 ^ 32, sym_raw := int c\<rparr>"
  obtain h2 c2 where p: "populate_symbols [Suc (Suc j)..<17] (hs[j := ?sy]) h2 c2 = (0, hs', h')"
    using Suc.prems(1) unfolding upt_Suc_Cons [OF j] by (auto simp: Let_def split: if_splits)
  show ?case
    using Suc.hyps(1) [OF _ p] Suc.hyps(2) Suc.prems j by (auto simp: nth_list_update less_Suc_eq)
qed

lemma count_lengths_length: "count_lengths ls hs e = Some (hs', e') \<Longrightarrow> length hs' = length hs"
  by (induction ls hs e rule: count_lengths.induct) (auto split: if_splits Option.bind_splits)

lemma populate_raw_bits:
  "populate_raw r ls hs tab = Some (hs', tab') \<Longrightarrow> valid_bits hs \<Longrightarrow> valid_bits hs' \<and> length hs' = length hs"
proof (induction r ls hs tab rule: populate_raw.induct)
  case (2 r l ls hs tab)
  then show ?case
    by (fastforce simp: rd_Some_iff intro!: valid_bits_update split: if_splits Option.bind_splits)
qed simp

lemma adjust_bits:
  "\<forall>b\<in>set bs. 1 \<le> b \<and> b \<le> length hs \<Longrightarrow> valid_bits hs \<Longrightarrow> valid_bits (fst (adjust_symbols bs hs lk))"
proof (induction bs hs lk rule: adjust_symbols.induct)
  case (2 b bs hs lk)
  have "valid_bits (hs[b - 1 := (hs ! (b - 1))\<lparr>sym_raw := x\<rparr>])" for x
    using "2.prems" by (intro valid_bits_update) auto
  then show ?case using 2 by (simp add: Let_def)
qed simp

lemma huffman_valid_bits:
  assumes "huffman_alphabet a l n = Some (a', 0)"
  shows "valid_bits (alph_huf a')"
proof -
  obtain hs0 e hs1 h hs2 tab where c: "count_lengths (take n l) (replicate HUFFMAN_BITS clear_symbol) True = Some (hs0, e)"
    and p: "populate_symbols [1..<17] (if e then hs0[0 := (hs0 ! 0)\<lparr>sym_freq := 2\<rparr>] else hs0) 0 0 = (0, hs1, h)"
    and r: "populate_raw 0 (take n l) hs1 (alph_raw a) = Some (hs2, tab)"
    and a': "alph_huf a' = fst (adjust_symbols [1..<17] hs2 (alph_lookup a))"
    using assms
    by (auto simp: huffman_alphabet_def Let_def peek_Some_iff split: Option.bind_splits prod.splits if_splits)
  have len: "length hs0 = 16" using count_lengths_length [OF c] by (simp add: HUFFMAN_BITS_def)
  have "length hs1 = 16 \<and> (\<forall>i<16. sym_bits (hs1 ! i) = Suc i)"
    using populate_bits [of 0 _ 0 0 hs1 h] p len by auto
  then have "valid_bits hs1" "length hs1 = 16" by (auto simp: valid_bits_def in_set_conv_nth)
  then show ?thesis
    unfolding a' using populate_raw_bits [OF r] by (intro adjust_bits) auto
qed

lemma sym_search_mem: "sym_search hs i h = Some s \<Longrightarrow> i < length hs \<Longrightarrow> s \<in> set hs"
  by (induction i) (auto split: if_splits)

lemma huffman_len_bounds:
  "valid_bits (alph_huf a) \<Longrightarrow> huffman_sym a h = Some s \<Longrightarrow> 1 \<le> huffman_len s \<and> huffman_len s \<le> 16"
  by (auto simp: huffman_sym_def huffman_len_def valid_bits_def split: Option.bind_splits if_splits
      dest!: sym_search_mem)

section \<open>The degenerate alphabet\<close>

definition two_codes :: "nat \<Rightarrow> nat" where
  "two_codes i = (if i = 0 then 2 else 0)"

lemma first_code_two: "0 < i \<Longrightarrow> first_code two_codes i = 2 ^ Suc i"
proof (induction i)
  case (Suc i)
  then show ?case by (cases i) (simp_all add: two_codes_def)
qed simp

lemma starts_two: "0 < i \<Longrightarrow> i < 16 \<Longrightarrow> starts two_codes i = 2 ^ 16"
  by (simp add: starts_def first_code_two flip: power_Suc power_add)

lemma fits_two: "fits two_codes"
  unfolding fits_def
proof (intro allI impI)
  fix i :: nat
  show "first_code two_codes i + two_codes i \<le> 2 ^ Suc i"
    by (cases "i = 0") (simp_all add: first_code_two two_codes_def)
qed

lemma last_code_two: "h < 2 ^ 16 \<Longrightarrow> last_code two_codes 16 h = 0"
  by (rule last_code_unique) (simp_all add: starts_two)

lemma populate_raw_zero: "\<forall>l\<in>set ls. l = 0 \<Longrightarrow> populate_raw r ls hs tab = Some (hs, tab)"
  by (induction ls arbitrary: r) auto

lemma huffman_degenerate:
  assumes "count \<le> length lengths" and "count < 2 ^ 16" and "\<forall>l\<in>set (take count lengths). l = 0"
    and "length (alph_lookup a) = 128"
  shows "\<exists>a'. huffman_alphabet a lengths count = Some (a', 0)
    \<and> (\<forall>h<2 ^ 16. \<exists>s. huffman_sym a' h = Some s \<and> huffman_len s = 1 \<and> huffman_raw a' s h = None)"
proof -
  let ?ls = "take count lengths"
  have lenls: "length ?ls = count" using assms(1) by simp
  have peek: "peek lengths 0 count = Some ?ls" using assms(1) by (simp add: peek_def)
  have rep: "replicate HUFFMAN_BITS clear_symbol = map (\<lambda>i. clear_symbol\<lparr>sym_freq := 0\<rparr>) [0..<16]"
    by (simp add: HUFFMAN_BITS_def clear_symbol_def map_replicate_const)
  have fr: "freqs ?ls i = 0" for i using assms(3) by (auto simp: freqs_def filter_empty_conv)
  have u16: "\<forall>l\<in>set ?ls. unat l \<le> 16" by (metis assms(3) unsigned_0 zero_le)
  have cl: "count_lengths ?ls (replicate HUFFMAN_BITS clear_symbol) True
      = Some (map (\<lambda>i. clear_symbol\<lparr>sym_freq := 0\<rparr>) [0..<16], True)"
    unfolding rep using u16 count_lengths_eq [of ?ls "\<lambda>_. 0" True] assms(2,3) lenls fr by auto
  have two: "(map (\<lambda>i. clear_symbol\<lparr>sym_freq := 0\<rparr>) [0..<16])
      [0 := (map (\<lambda>i. clear_symbol\<lparr>sym_freq := 0\<rparr>) [0..<16] ! 0)\<lparr>sym_freq := 2\<rparr>]
      = map (\<lambda>i. clear_symbol\<lparr>sym_freq := two_codes i\<rparr>) [0..<16]"
    by (subst map_upt_update) (auto simp: two_codes_def)
  have f: "\<forall>i<16. two_codes i < 2 ^ 16" by (simp add: two_codes_def)
  note p = populate_all(1) [OF f refl fits_two]
  note pr = populate_raw_zero [OF assms(3), of 0 "populated two_codes" "alph_raw a"]
  obtain lk where lk: "adjust_symbols [1..<17] (populated two_codes) (alph_lookup a)
      = (map (symbols_at two_codes (\<lambda>i. int (cum two_codes i) - int (two_codes i) - int (first_code two_codes i)))
           [0..<16], lk)"
      "length lk = 128" "\<forall>p<128. lk ! p = last_start two_codes 16 p"
    using adjust_all [OF assms(4), of two_codes "\<lambda>i. int (cum two_codes i)"] by (auto simp: populated_def)
  have k: "first_code two_codes 16 = 2 ^ 17" by (simp add: first_code_two)
  let ?q = "\<lambda>i. int (cum two_codes i) - int (two_codes i) - int (first_code two_codes i)"
  let ?a = "\<lparr>alph_huf = map (symbols_at two_codes ?q) [0..<16], alph_lookup = lk, alph_raw = alph_raw a\<rparr>"
  have "huffman_alphabet a lengths count = Some (?a, 0)"
    unfolding huffman_alphabet_def peek cl bind.bind_lunit prod.case Let_def if_True two p pr lk k by simp
  moreover have "huffman_sym ?a h = Some (symbols_at two_codes ?q 0)" if "h < 2 ^ 16" for h
  proof -
    have "h div 512 < 128" using that by (simp add: less_mult_imp_div_less)
    moreover have "last_start two_codes 16 (h div 512) < 16" by (rule last_start_less) simp
    ultimately show ?thesis
      using lk(2,3) last_code_lookup [of two_codes 16 h] last_code_two [OF that]
      by (simp add: huffman_sym_def huffman_consts rd_def sym_search_eq del: last_code.simps)
  qed
  moreover have "huffman_raw ?a (symbols_at two_codes ?q 0) h = None" if "h < 2 ^ 16" for h
  proof -
    have "h div 2 ^ 15 < 2" using that by (simp add: less_mult_imp_div_less)
    then show ?thesis by (simp add: huffman_raw_def symbols_at_def two_codes_def)
  qed
  ultimately show ?thesis by (auto simp: huffman_len_def symbols_at_def)
qed

text \<open>Nothing but symbols of the alphabet comes out of a valid one.\<close>

lemma huffman_raw_below:
  assumes a': "huffman_alphabet a lengths count = Some (a', 0)"
    and len: "count \<le> length lengths" "count < 2 ^ 16" "\<forall>l\<in>set (take count lengths). unat l \<le> 16"
    and room: "count \<le> length (alph_raw a)" "length (alph_lookup a) = 128"
    and h: "h < 2 ^ 16" "huffman_sym a' h = Some s" "huffman_raw a' s h = Some w"
  shows "unat w < count"
proof (cases "\<exists>l\<in>set (take count lengths). l \<noteq> 0")
  case True
  let ?ls = "take count lengths"
  have k: "kraft (freqs ?ls) = 2 ^ 16" and "fits (freqs ?ls) \<longrightarrow> decoder ?ls a'"
    using huffman_alphabet_result [OF len(1,2) refl len(3) True room] a' by auto
  then have d: "decoder ?ls a'" using kraft_fits [of "freqs ?ls"] by simp
  from decoder_decodes(1) [OF d k h(1) len(3)] obtain r where r: "coded_by ?ls r h" by blast
  have "w = of_nat r" using decoder_decodes(2) [OF d k h(1) len(3) r] h by auto
  moreover have "r < count" using r len(1) by (simp add: coded_by_def)
  ultimately show ?thesis using len(2) by (simp add: unat_of_nat_small)
next
  case False
  then have "\<forall>l\<in>set (take count lengths). l = 0" by blast
  from huffman_degenerate [OF len(1,2) this room(2)] show ?thesis using a' h by auto
qed

lemma populate_raw_length: "populate_raw r ls hs tab = Some (hs', tab') \<Longrightarrow> length tab' = length tab"
  by (induction r ls hs tab rule: populate_raw.induct) (auto simp: wr_Some_iff split: if_splits Option.bind_splits)

lemma adjust_lookup_length: "length (snd (adjust_symbols bs hs lk)) = length lk"
  by (induction bs hs lk rule: adjust_symbols.induct) (auto simp: Let_def)

lemma huffman_room:
  assumes "huffman_alphabet a l n = Some (a', 0)"
  shows "length (alph_raw a') = length (alph_raw a) \<and> length (alph_lookup a') = length (alph_lookup a)"
  using assms populate_raw_length adjust_lookup_length
  by (auto simp: huffman_alphabet_def Let_def split: Option.bind_splits prod.splits if_splits) (metis snd_conv)+

section \<open>Properties\<close>

text \<open>C4: for at most 65535 lengths of at most 16 bits, not all zero, \<^verbatim>\<open>huffman_alphabet\<close> returns 0
  exactly when the lengths fill the code space (Kraft's equality), and then every 16-bit
  look-ahead starts with the canonical code of exactly one symbol, which \<^verbatim>\<open>huffman_sym\<close>,
  \<^verbatim>\<open>huffman_len\<close> and \<^verbatim>\<open>huffman_raw\<close> find without leaving the tables.\<close>

theorem huffman_correct:
  assumes "count \<le> length lengths" and "count < 2 ^ 16" and "ls = take count lengths"
    and "\<forall>l\<in>set ls. unat l \<le> 16" and "\<exists>l\<in>set ls. l \<noteq> 0"
    and "count \<le> length (alph_raw a)" and "length (alph_lookup a) = 128"
  shows "\<exists>a' rc. huffman_alphabet a lengths count = Some (a', rc)
    \<and> (rc = 0 \<longleftrightarrow> kraft (freqs ls) = 2 ^ 16)
    \<and> (rc = 0 \<longrightarrow> (\<forall>h<2 ^ 16. \<exists>!r. coded_by ls r h
         \<and> (\<exists>s. huffman_sym a' h = Some s \<and> huffman_len s = unat (ls ! r)
              \<and> huffman_raw a' s h = Some (of_nat r))))"
proof -
  obtain a' rc where a': "huffman_alphabet a lengths count = Some (a', rc)"
    "rc = 0 \<longleftrightarrow> kraft (freqs ls) = 2 ^ 16" "fits (freqs ls) \<longrightarrow> decoder ls a'"
    using huffman_alphabet_result [OF assms] by blast
  have "\<exists>!r. coded_by ls r h \<and> (\<exists>s. huffman_sym a' h = Some s \<and> huffman_len s = unat (ls ! r)
              \<and> huffman_raw a' s h = Some (of_nat r))" if "rc = 0" "h < 2 ^ 16" for h
  proof -
    have k: "kraft (freqs ls) = 2 ^ 16" using a'(2) that by simp
    then have "decoder ls a'" using a'(3) kraft_fits [of "freqs ls"] by simp
    from decoder_decodes [OF this k that(2) assms(4)] show ?thesis by blast
  qed
  then show ?thesis using a' by blast
qed

text \<open>
  The alphabet with the four two-bit codes, for the symbols 1 to 4 of five.
\<close>

lemma huffman_correct_witness:
  "\<exists>a' r s. huffman_alphabet \<lparr>alph_huf = [], alph_lookup = replicate 128 0, alph_raw = [0, 0, 0, 0, 0]\<rparr>
       [0, 2, 2, 2, 2] 5 = Some (a', 0)
    \<and> coded_by [0, 2, 2, 2, 2] r 0x5000 \<and> huffman_sym a' 0x5000 = Some s \<and> huffman_len s = 2
    \<and> huffman_raw a' s 0x5000 = Some (of_nat r)"
proof -
  let ?ls = "[0, 2, 2, 2, 2] :: byte list"
  have f: "freqs ?ls i = (if i = 1 then 4 else 0)" for i by (auto simp: freqs_def)
  have "kraft (freqs ?ls) = (\<Sum>i<16. if i = 1 then 4 * 2 ^ (15 - i) else 0)"
    unfolding kraft_def f by (rule sum.cong) auto
  then have k: "kraft (freqs ?ls) = 2 ^ 16" by simp
  have "\<exists>a' rc. huffman_alphabet \<lparr>alph_huf = [], alph_lookup = replicate 128 0, alph_raw = [0, 0, 0, 0, 0]\<rparr>
       ?ls 5 = Some (a', rc) \<and> (rc = 0 \<longleftrightarrow> kraft (freqs ?ls) = 2 ^ 16)
     \<and> (rc = 0 \<longrightarrow> (\<forall>h<2 ^ 16. \<exists>!r. coded_by ?ls r h
         \<and> (\<exists>s. huffman_sym a' h = Some s \<and> huffman_len s = unat (?ls ! r)
              \<and> huffman_raw a' s h = Some (of_nat r))))"
    by (rule huffman_correct) simp_all
  then obtain a' where a': "huffman_alphabet \<lparr>alph_huf = [], alph_lookup = replicate 128 0, alph_raw = [0, 0, 0, 0, 0]\<rparr>
       ?ls 5 = Some (a', 0)" "\<forall>h<2 ^ 16. \<exists>!r. coded_by ?ls r h
         \<and> (\<exists>s. huffman_sym a' h = Some s \<and> huffman_len s = unat (?ls ! r)
              \<and> huffman_raw a' s h = Some (of_nat r))"
    using k by blast
  have "(0x5000 :: nat) < 2 ^ 16" by simp
  then obtain r s where r: "coded_by ?ls r 0x5000" "huffman_sym a' 0x5000 = Some s"
      "huffman_len s = unat (?ls ! r)" "huffman_raw a' s 0x5000 = Some (of_nat r)"
    using a'(2) by blast
  then have "r < 5" "?ls ! r \<noteq> 0" by (simp_all add: coded_by_def)
  moreover have "r = 0 \<or> r = 1 \<or> r = 2 \<or> r = 3 \<or> r = 4" using \<open>r < 5\<close> by arith
  ultimately have "unat (?ls ! r) = 2" by auto
  then show ?thesis using a'(1) r by auto
qed

text \<open>An alphabet of unused symbols. The comment in \<^verbatim>\<open>huffman_alphabet\<close> promises a trivial
  alphabet with two one-bit codes that callers can use without a special case. The function
  does return 0 and every look-ahead finds the one-bit set, but its symbols were never entered:
  its pointer lies two entries before the raw table, and every symbol is read from there.\<close>

theorem huffman_empty:
  assumes "count \<le> length lengths" and "count < 2 ^ 16" and "\<forall>l\<in>set (take count lengths). l = 0"
    and "length (alph_lookup a) = 128"
  shows "\<exists>a'. huffman_alphabet a lengths count = Some (a', 0)
    \<and> (\<forall>h<2 ^ 16. \<exists>s. huffman_sym a' h = Some s \<and> huffman_len s = 1 \<and> huffman_raw a' s h = None)"
  using assms by (rule huffman_degenerate)

lemma huffman_empty_witness:
  "\<exists>a' s. huffman_alphabet \<lparr>alph_huf = [], alph_lookup = replicate 128 0, alph_raw = [0, 0]\<rparr> [0, 0] 2 = Some (a', 0)
    \<and> huffman_sym a' 7 = Some s \<and> huffman_len s = 1 \<and> huffman_raw a' s 7 = None"
  using huffman_empty [of 2 "[0, 0]" "\<lparr>alph_huf = [], alph_lookup = replicate 128 0, alph_raw = [0, 0]\<rparr>"] by auto


end
