(* ===== verification/Xca.thy ===== *)
theory Xca
  imports Huffman Decomp
begin

text \<open>
  The Xpress (MS-XCA) decompressor of \<^verbatim>\<open>libnt/xca.c\<close> and \<^verbatim>\<open>include/xca.h\<close>.

  \<^verbatim>\<open>data\<close> is the memory the compressed data lies in, from its start on, and \<^verbatim>\<open>len\<close> the length
  given: the code reads the words it needs without comparing with the end, so a read may go past
  \<^verbatim>\<open>len\<close> and is a fault once it leaves the memory. \<^verbatim>\<open>src\<close> and \<^verbatim>\<open>out\<close> are offsets. The output
  buffer is \<open>None\<close> for the NULL of the pass that only computes the length. \<^verbatim>\<open>size_t\<close> is 64 bits
  wide (the EFI builds and \<^verbatim>\<open>utils/bmtool.c\<close>).
\<close>

definition XCA_CODES :: nat where "XCA_CODES = 512"
definition XCA_END_MARKER :: nat where "XCA_END_MARKER = 256"
definition XCA_BLOCK_SIZE :: nat where "XCA_BLOCK_SIZE = 64 * 1024"

definition xca_huf_len :: "bytes \<Rightarrow> nat \<Rightarrow> byte" where
  "xca_huf_len nibbles symbol = drop_bit (4 * (symbol mod 2)) (nibbles ! (symbol div 2)) AND 0x0F"

definition XCA_GET16 :: "bytes \<Rightarrow> nat \<Rightarrow> (u16 \<times> nat) option" where
  "XCA_GET16 data src = map_option (\<lambda>v. (v, src + 2)) (get16 data src)"

definition XCA_GET8 :: "bytes \<Rightarrow> nat \<Rightarrow> (byte \<times> nat) option" where
  "XCA_GET8 data src = map_option (\<lambda>v. (v, src + 1)) (rd data src)"

record xca_state =
  xs_src :: nat
  xs_buf :: "bytes option"
  xs_out :: nat
  xs_out_len :: "u64"
  xs_threshold :: "u64"
  xs_alphabet :: huffman_alphabet
  xs_accum :: u32
  xs_extra_bits :: int

text \<open>(Re)initialise the decompressor: a status to return, or the new state.\<close>

definition xca_init ::
  "bytes \<Rightarrow> nat \<Rightarrow> xca_state \<Rightarrow> (xca_state + int) option" where
  "xca_init data len s =
     (let lengths = xs_src s; src = lengths + XCA_CODES div 2
      in if src > len then Some (Inr (-1))
         else do {
           nibbles \<leftarrow> peek data lengths (XCA_CODES div 2);
           (alphabet, rc) \<leftarrow> huffman_alphabet (xs_alphabet s)
              (map (xca_huf_len nibbles) [0..<XCA_CODES]) XCA_CODES;
           if rc \<noteq> 0 then Some (Inr rc)
           else do {
             (hi, src) \<leftarrow> XCA_GET16 data src;
             (lo, src) \<leftarrow> XCA_GET16 data src;
             Some (Inl (s\<lparr>xs_src := src, xs_alphabet := alphabet,
                xs_accum := push_bit 16 (ucast hi) OR ucast lo, xs_extra_bits := 16,
                xs_threshold := xs_out_len s + of_nat XCA_BLOCK_SIZE\<rparr>)) } })"

text \<open>Take bits off the accumulator, and refill it from the stream.\<close>

definition xca_consume :: "bytes \<Rightarrow> nat \<Rightarrow> xca_state \<Rightarrow> xca_state option" where
  "xca_consume data bits s =
     (let accum = push_bit bits (xs_accum s); extra_bits = xs_extra_bits s - int bits
      in if extra_bits < 0 then do {
           (v, src) \<leftarrow> XCA_GET16 data (xs_src s);
           Some (s\<lparr>xs_src := src, xs_accum := accum OR push_bit (nat (- extra_bits)) (ucast v),
                   xs_extra_bits := extra_bits + 16\<rparr>) }
         else Some (s\<lparr>xs_accum := accum, xs_extra_bits := extra_bits\<rparr>))"

text \<open>The length of a match: its low nibble, with one or two extension steps.\<close>

definition xca_match_len :: "bytes \<Rightarrow> nat \<Rightarrow> nat \<Rightarrow> (nat \<times> nat) option" where
  "xca_match_len data raw src =
     (let match_len = raw mod 16
      in if match_len = 15 then do {
           (b, src) \<leftarrow> XCA_GET8 data src;
           if b = 0xFF then do {
             (w, src) \<leftarrow> XCA_GET16 data src;
             Some (unat w + 3, src) }
           else Some (unat b + 15 + 3, src) }
         else Some (match_len + 3, src))"

definition xca_literal :: "nat \<Rightarrow> xca_state \<Rightarrow> xca_state option" where
  "xca_literal raw s =
     (case xs_buf s of
        None \<Rightarrow> Some (s\<lparr>xs_out_len := xs_out_len s + 1\<rparr>)
      | Some buf \<Rightarrow> do {
          buf \<leftarrow> wr buf (xs_out s) (of_nat raw);
          Some (s\<lparr>xs_buf := Some buf, xs_out := Suc (xs_out s), xs_out_len := xs_out_len s + 1\<rparr>) })"

definition xca_match :: "bytes \<Rightarrow> nat \<Rightarrow> xca_state \<Rightarrow> xca_state option" where
  "xca_match data raw s = do {
     let match_offset_bits = raw div 16;
     (match_len, src) \<leftarrow> xca_match_len data raw (xs_src s);
     let s = s\<lparr>xs_src := src\<rparr>;
     let match_offset =
       (if match_offset_bits \<noteq> 0
        then unat (drop_bit (32 - match_offset_bits) (xs_accum s)) + 2 ^ match_offset_bits
        else 1);
     s \<leftarrow> xca_consume data match_offset_bits s;
     let s = s\<lparr>xs_out_len := xs_out_len s + of_nat match_len\<rparr>;
     case xs_buf s of
       None \<Rightarrow> Some s
     | Some buf \<Rightarrow> do {
         buf \<leftarrow> copy_match match_len (int (xs_out s) - int match_offset) (xs_out s) buf;
         Some (s\<lparr>xs_buf := Some buf, xs_out := xs_out s + match_len\<rparr>) } }"

text \<open>The body of the loop after the initialisation: the symbol and what it stands for.\<close>

definition xca_symbol ::
  "bytes \<Rightarrow> nat \<Rightarrow> xca_state \<Rightarrow> (xca_state + (int \<times> bytes option)) option" where
  "xca_symbol data len s = do {
     let huf = unat (drop_bit (32 - HUFFMAN_BITS) (xs_accum s));
     sy \<leftarrow> huffman_sym (xs_alphabet s) huf;
     raw \<leftarrow> huffman_raw (xs_alphabet s) sy huf;
     s \<leftarrow> xca_consume data (huffman_len sy) s;
     let raw = unat raw;
     if raw < XCA_END_MARKER then map_option Inl (xca_literal raw s)
     else if raw = XCA_END_MARKER \<and> xs_src s + 1 \<ge> len
       then Some (Inr (sint (xs_out_len s), xs_buf s))
     else map_option Inl (xca_match data (raw - XCA_END_MARKER) s) }"

definition xca_pass ::
  "bytes \<Rightarrow> nat \<Rightarrow> xca_state \<Rightarrow> (xca_state + (int \<times> bytes option)) option" where
  "xca_pass data len s =
     (if xs_src s < len then
        (if xs_out_len s \<ge> xs_threshold s then do {
           r \<leftarrow> xca_init data len s;
           case r of Inr rc \<Rightarrow> Some (Inr (rc, xs_buf s)) | Inl s \<Rightarrow> xca_symbol data len s }
         else xca_symbol data len s)
      else Some (Inr (if xs_src s = len then sint (xs_out_len s) else -1, xs_buf s)))"

text \<open>\<^verbatim>\<open>a\<close> is what the stack holds where \<^verbatim>\<open>xca.alphabet\<close> is placed.\<close>

definition xca_start :: "huffman_alphabet \<Rightarrow> bytes option \<Rightarrow> xca_state" where
  "xca_start a buf = \<lparr>xs_src = 0, xs_buf = buf, xs_out = 0, xs_out_len = 0, xs_threshold = 0,
     xs_alphabet = a, xs_accum = 0, xs_extra_bits = 0\<rparr>"

definition xca_decompress ::
  "nat \<Rightarrow> huffman_alphabet \<Rightarrow> bytes \<Rightarrow> nat \<Rightarrow> bytes option
     \<Rightarrow> (xca_state + (int \<times> bytes option)) option" where
  "xca_decompress fuel a data len buf = iterate fuel (xca_pass data len) (xca_start a buf)"

section \<open>The two passes agree\<close>

text \<open>Forget the output buffer, as if the decompressor had been called with NULL.\<close>

definition erase :: "xca_state \<Rightarrow> xca_state" where
  "erase s = s\<lparr>xs_buf := None, xs_out := 0\<rparr>"

definition erase_result :: "xca_state + (int \<times> bytes option) \<Rightarrow> xca_state + (int \<times> bytes option)" where
  "erase_result r = (case r of Inl s \<Rightarrow> Inl (erase s) | Inr (rc, _) \<Rightarrow> Inr (rc, None))"

lemma erase_simps [simp]:
  "xs_src (erase s) = xs_src s" "xs_buf (erase s) = None" "xs_out (erase s) = 0"
  "xs_out_len (erase s) = xs_out_len s" "xs_threshold (erase s) = xs_threshold s"
  "xs_alphabet (erase s) = xs_alphabet s" "xs_accum (erase s) = xs_accum s"
  "xs_extra_bits (erase s) = xs_extra_bits s"
  "erase_result (Inl s) = Inl (erase s)" "erase_result (Inr (rc, b)) = Inr (rc, None)"
  by (simp_all add: erase_def erase_result_def)

lemma xca_consume_erase: "xca_consume data n (erase s) = map_option erase (xca_consume data n s)"
  by (auto simp: xca_consume_def Let_def map_option_case erase_def split: Option.bind_splits option.splits)

lemma xca_init_erase:
  "xca_init data len s = Some r \<Longrightarrow> xca_init data len (erase s) = Some (map_sum erase id r)"
  by (auto simp: xca_init_def Let_def erase_def split: if_splits Option.bind_splits)

lemma xca_literal_erase: "xca_literal raw s = Some s' \<Longrightarrow> xca_literal raw (erase s) = Some (erase s')"
  by (auto simp: xca_literal_def erase_def split: option.splits Option.bind_splits)

lemma xca_consume_buf:
  "xca_consume data n s = Some s' \<Longrightarrow> xs_buf s' = xs_buf s \<and> xs_out s' = xs_out s \<and> xs_out_len s' = xs_out_len s
     \<and> xs_threshold s' = xs_threshold s"
  by (auto simp: xca_consume_def Let_def split: if_splits Option.bind_splits)

lemma xca_match_erase: "xca_match data raw s = Some s' \<Longrightarrow> xca_match data raw (erase s) = Some (erase s')"
proof -
  assume m: "xca_match data raw s = Some s'"
  obtain n src where l: "xca_match_len data raw (xs_src s) = Some (n, src)"
    using m by (cases "xca_match_len data raw (xs_src s)") (auto simp: xca_match_def Let_def)
  obtain t where c: "xca_consume data (raw div 16) (s\<lparr>xs_src := src\<rparr>) = Some t"
    using m l by (cases "xca_consume data (raw div 16) (s\<lparr>xs_src := src\<rparr>)") (auto simp: xca_match_def Let_def)
  have e: "(erase s)\<lparr>xs_src := src\<rparr> = erase (s\<lparr>xs_src := src\<rparr>)" by (simp add: erase_def)
  have "xca_consume data (raw div 16) ((erase s)\<lparr>xs_src := src\<rparr>) = Some (erase t)"
    unfolding e xca_consume_erase c by simp
  then show ?thesis
    using m l c
    by (auto simp: xca_match_def Let_def erase_def split: option.splits Option.bind_splits)
qed

lemma xca_symbol_erase:
  assumes "xca_symbol data len s = Some r"
  shows "xca_symbol data len (erase s) = Some (erase_result r)"
proof -
  let ?h = "unat (drop_bit (32 - HUFFMAN_BITS) (xs_accum s))"
  obtain sy raw t where st: "huffman_sym (xs_alphabet s) ?h = Some sy" "huffman_raw (xs_alphabet s) sy ?h = Some raw"
    "xca_consume data (huffman_len sy) s = Some t"
    using assms by (auto simp: xca_symbol_def Let_def split: Option.bind_splits)
  have t: "xca_consume data (huffman_len sy) (erase s) = Some (erase t)" using st by (simp add: xca_consume_erase)
  show ?thesis
    using assms st t xca_literal_erase [of "unat raw" t] xca_match_erase [of data "unat raw - XCA_END_MARKER" t]
    by (auto simp: xca_symbol_def Let_def split: if_splits)
qed

lemma xca_pass_erase:
  assumes "xca_pass data len s = Some r"
  shows "xca_pass data len (erase s) = Some (erase_result r)"
proof (cases "xs_src s < len \<and> xs_out_len s \<ge> xs_threshold s")
  case True
  then obtain q where q: "xca_init data len s = Some q"
    using assms by (cases "xca_init data len s") (auto simp: xca_pass_def)
  then show ?thesis
    using True assms xca_init_erase [OF q]
    by (cases q) (auto simp: xca_pass_def xca_symbol_erase)
next
  case False
  then show ?thesis using assms by (auto simp: xca_pass_def xca_symbol_erase split: if_splits)
qed

lemma xca_iterate_erase:
  "iterate n (xca_pass data len) s = Some r \<Longrightarrow> iterate n (xca_pass data len) (erase s) = Some (erase_result r)"
proof (induction n arbitrary: s)
  case 0
  then have "r = Inl s" by simp
  then show ?case by simp
next
  case (Suc n)
  then obtain q where q: "xca_pass data len s = Some q" by (auto split: option.splits)
  show ?case
    using Suc q xca_pass_erase [OF q] by (cases q; cases r) auto
qed

section \<open>Bounds of the buffer\<close>

text \<open>The output position is the length counted, and what lies behind it is untouched.\<close>

definition out_ok :: "bytes \<Rightarrow> xca_state \<Rightarrow> bool" where
  "out_ok b0 s \<longleftrightarrow> xs_out_len s = of_nat (xs_out s) \<and>
     (\<exists>b. xs_buf s = Some b \<and> length b = length b0 \<and> xs_out s \<le> length b
          \<and> drop (xs_out s) b = drop (xs_out s) b0)"

lemma out_ok_cong:
  "out_ok b0 s \<Longrightarrow> xs_buf s' = xs_buf s \<Longrightarrow> xs_out s' = xs_out s \<Longrightarrow> xs_out_len s' = xs_out_len s \<Longrightarrow> out_ok b0 s'"
  by (simp add: out_ok_def)

lemma xca_literal_out: "xca_literal raw s = Some s' \<Longrightarrow> out_ok b0 s \<Longrightarrow> out_ok b0 s'"
  using drop_more [of "xs_out s" "the (xs_buf s)" b0 1]
  by (auto simp: xca_literal_def out_ok_def wr_Some_iff split: Option.bind_splits)

lemma xca_match_out:
  assumes m: "xca_match data raw s = Some s'" and ok: "out_ok b0 s"
  shows "out_ok b0 s'"
proof -
  obtain n src where l: "xca_match_len data raw (xs_src s) = Some (n, src)"
    using m by (cases "xca_match_len data raw (xs_src s)") (auto simp: xca_match_def Let_def)
  obtain t where c: "xca_consume data (raw div 16) (s\<lparr>xs_src := src\<rparr>) = Some t"
    using m l by (cases "xca_consume data (raw div 16) (s\<lparr>xs_src := src\<rparr>)") (auto simp: xca_match_def Let_def)
  have t: "out_ok b0 t" using xca_consume_buf [OF c] ok by (intro out_ok_cong [OF ok]) simp_all
  obtain b where b: "xs_buf t = Some b" using t by (auto simp: out_ok_def)
  obtain d b' where cm: "copy_match n d (xs_out t) b = Some b'"
    "s' = t\<lparr>xs_out_len := xs_out_len t + of_nat n, xs_buf := Some b', xs_out := xs_out t + n\<rparr>"
    using m l c b by (auto simp: xca_match_def Let_def split: Option.bind_splits)
  have "xs_out t \<le> length b" using t b by (simp add: out_ok_def)
  from copy_match_out [OF cm(1) this] show ?thesis
    using t b cm(2) by (auto simp: out_ok_def) (metis add.commute drop_drop)
qed

lemma xca_symbol_out:
  assumes "xca_symbol data len s = Some r" and ok: "out_ok b0 s"
  shows "case r of Inl s' \<Rightarrow> out_ok b0 s' | Inr (rc, b) \<Rightarrow> \<exists>s'. out_ok b0 s' \<and> b = xs_buf s' \<and> rc = sint (xs_out_len s')"
proof -
  let ?h = "unat (drop_bit (32 - HUFFMAN_BITS) (xs_accum s))"
  obtain sy raw t where st: "huffman_sym (xs_alphabet s) ?h = Some sy" "huffman_raw (xs_alphabet s) sy ?h = Some raw"
    "xca_consume data (huffman_len sy) s = Some t"
    using assms by (auto simp: xca_symbol_def Let_def split: Option.bind_splits)
  have t: "out_ok b0 t" using xca_consume_buf [OF st(3)] by (intro out_ok_cong [OF ok]) simp_all
  show ?thesis
    using assms st t by (auto simp: xca_symbol_def Let_def xca_literal_out xca_match_out split: if_splits)
qed

lemma xca_init_out:
  "xca_init data len s = Some r \<Longrightarrow> out_ok b0 s \<Longrightarrow>
     case r of Inl s' \<Rightarrow> out_ok b0 s' | Inr rc \<Rightarrow> rc = -1"
  using huffman_rc
  by (fastforce simp: xca_init_def Let_def out_ok_def split: if_splits Option.bind_splits)

definition result_ok :: "bytes \<Rightarrow> int \<times> bytes option \<Rightarrow> bool" where
  "result_ok b0 r \<longleftrightarrow> (case r of (rc, b) \<Rightarrow>
     (rc = -1 \<and> (\<exists>s. out_ok b0 s \<and> b = xs_buf s)) \<or> (\<exists>s. out_ok b0 s \<and> b = xs_buf s \<and> rc = sint (xs_out_len s)))"

lemma xca_pass_out:
  assumes "xca_pass data len s = Some r" and ok: "out_ok b0 s"
  shows "case r of Inl s' \<Rightarrow> out_ok b0 s' | Inr q \<Rightarrow> result_ok b0 q"
proof (cases "xs_src s < len \<and> xs_out_len s \<ge> xs_threshold s")
  case True
  then obtain q where q: "xca_init data len s = Some q"
    using assms by (cases "xca_init data len s") (auto simp: xca_pass_def)
  show ?thesis
  proof (cases q)
    case (Inl t)
    then have "out_ok b0 t" using xca_init_out [OF q ok] by simp
    moreover have "xca_symbol data len t = Some r" using assms True q Inl by (simp add: xca_pass_def)
    ultimately show ?thesis using xca_symbol_out [of data len t r b0]
      by (auto simp: result_ok_def split: sum.splits)
  next
    case (Inr rc)
    then show ?thesis using assms True q xca_init_out [OF q ok] by (auto simp: xca_pass_def result_ok_def)
  qed
next
  case False
  then show ?thesis using assms xca_symbol_out [of data len s r b0]
    by (auto simp: xca_pass_def result_ok_def split: if_splits sum.splits)
qed

lemma xca_iterate_out:
  "iterate n (xca_pass data len) s = Some (Inr r) \<Longrightarrow> out_ok b0 s \<Longrightarrow> result_ok b0 r"
proof (induction n arbitrary: s)
  case (Suc n)
  then obtain q where q: "xca_pass data len s = Some q" by (auto split: option.splits)
  show ?case using Suc q xca_pass_out [OF q Suc.prems(2)] by (cases q) auto
qed simp

lemma sint_of_nat_bound:
  "n < 2 ^ 63 \<Longrightarrow> sint (of_nat n :: u64) = int n"
  by (simp add: signed_of_nat signed_take_bit_int_eq_self)

lemma result_ok_buf:
  assumes "result_ok b0 (rc, b)" and "length b0 < 2 ^ 63"
  shows "\<exists>b'. b = Some b' \<and> length b' = length b0
    \<and> (0 \<le> rc \<longrightarrow> nat rc \<le> length b0 \<and> drop (nat rc) b' = drop (nat rc) b0)"
proof -
  obtain s where s: "out_ok b0 s" "b = xs_buf s" "rc = -1 \<or> rc = sint (xs_out_len s)"
    using assms(1) by (auto simp: result_ok_def)
  then have "xs_out s < 2 ^ 63" using assms(2) by (auto simp: out_ok_def)
  then have "sint (xs_out_len s) = int (xs_out s)"
    using s(1) sint_of_nat_bound [of "xs_out s"] by (auto simp: out_ok_def)
  then show ?thesis using s by (auto simp: out_ok_def)
qed

section \<open>Termination\<close>

text \<open>Every pass takes at least one bit, and a word of the stream supplies sixteen.\<close>

definition xca_bits :: "nat \<Rightarrow> xca_state \<Rightarrow> int" where
  "xca_bits len s = 8 * (int len - int (xs_src s)) + xs_extra_bits s"

definition alphabet_ok :: "huffman_alphabet \<Rightarrow> bool" where
  "alphabet_ok a \<longleftrightarrow> valid_bits (alph_huf a) \<and>
     (\<forall>h<2 ^ 16. \<forall>s w. huffman_sym a h = Some s \<longrightarrow> huffman_raw a s h = Some w \<longrightarrow> unat w < 512)"

definition xca_inv :: "xca_state \<Rightarrow> bool" where
  "xca_inv s \<longleftrightarrow> 0 \<le> xs_extra_bits s
     \<and> 512 \<le> length (alph_raw (xs_alphabet s)) \<and> length (alph_lookup (xs_alphabet s)) = 128
     \<and> (alphabet_ok (xs_alphabet s) \<or> xs_threshold s \<le> xs_out_len s)"

lemma xca_consume_bits:
  assumes "xca_consume data n s = Some s'" and "0 \<le> xs_extra_bits s" and "n \<le> 16"
  shows "xca_bits len s' = xca_bits len s - int n \<and> 0 \<le> xs_extra_bits s' \<and> xs_alphabet s' = xs_alphabet s"
  using assms
  by (auto simp: xca_consume_def xca_bits_def XCA_GET16_def Let_def split: if_splits Option.bind_splits)

lemma xca_match_len_src: "xca_match_len data raw src = Some (n, src') \<Longrightarrow> src \<le> src'"
  by (auto simp: xca_match_len_def XCA_GET8_def XCA_GET16_def Let_def split: if_splits Option.bind_splits)

lemma xca_literal_bits:
  "xca_literal raw s = Some s' \<Longrightarrow> xca_bits len s' = xca_bits len s \<and> xs_extra_bits s' = xs_extra_bits s
     \<and> xs_alphabet s' = xs_alphabet s"
  by (auto simp: xca_literal_def xca_bits_def split: option.splits Option.bind_splits)

lemma xca_match_bits:
  assumes m: "xca_match data raw s = Some s'" and "0 \<le> xs_extra_bits s" and "raw < 256"
  shows "xca_bits len s' \<le> xca_bits len s \<and> 0 \<le> xs_extra_bits s' \<and> xs_alphabet s' = xs_alphabet s"
proof -
  obtain n src where l: "xca_match_len data raw (xs_src s) = Some (n, src)"
    using m by (cases "xca_match_len data raw (xs_src s)") (auto simp: xca_match_def Let_def)
  obtain t where c: "xca_consume data (raw div 16) (s\<lparr>xs_src := src\<rparr>) = Some t"
    using m l by (cases "xca_consume data (raw div 16) (s\<lparr>xs_src := src\<rparr>)") (auto simp: xca_match_def Let_def)
  have "xca_bits len t \<le> xca_bits len s \<and> 0 \<le> xs_extra_bits t \<and> xs_alphabet t = xs_alphabet s"
    using xca_consume_bits [OF c, of len] xca_match_len_src [OF l] assms(2,3) by (auto simp: xca_bits_def)
  moreover have "xca_bits len s' = xca_bits len t \<and> xs_extra_bits s' = xs_extra_bits t \<and> xs_alphabet s' = xs_alphabet t"
    using m l c by (auto simp: xca_match_def Let_def xca_bits_def split: option.splits Option.bind_splits)
  ultimately show ?thesis by simp
qed

lemma xca_symbol_bits:
  assumes "xca_symbol data len s = Some (Inl s')" and "0 \<le> xs_extra_bits s" and a: "alphabet_ok (xs_alphabet s)"
  shows "xca_bits len s' < xca_bits len s \<and> 0 \<le> xs_extra_bits s' \<and> xs_alphabet s' = xs_alphabet s"
proof -
  let ?h = "unat (drop_bit (32 - HUFFMAN_BITS) (xs_accum s))"
  obtain sy raw t where st: "huffman_sym (xs_alphabet s) ?h = Some sy" "huffman_raw (xs_alphabet s) sy ?h = Some raw"
    "xca_consume data (huffman_len sy) s = Some t"
    using assms by (auto simp: xca_symbol_def Let_def split: Option.bind_splits)
  have "?h < 2 ^ 16"
  proof -
    have "unat (xs_accum s) < 2 ^ 32" using unat_bound [of "xs_accum s"] by simp
    then show ?thesis
      by (simp add: HUFFMAN_BITS_def unat_drop_bit_eq drop_bit_nat_def less_mult_imp_div_less)
  qed
  then have raw: "unat raw < 512" using a st by (auto simp: alphabet_ok_def)
  have n: "1 \<le> huffman_len sy" "huffman_len sy \<le> 16"
    using huffman_len_bounds [OF _ st(1)] a by (auto simp: alphabet_ok_def)
  have t: "xca_bits len t = xca_bits len s - int (huffman_len sy)" "0 \<le> xs_extra_bits t"
    "xs_alphabet t = xs_alphabet s"
    using xca_consume_bits [OF st(3) assms(2) n(2), of len] by auto
  have "xca_literal (unat raw) t = Some s' \<or> xca_match data (unat raw - XCA_END_MARKER) t = Some s'"
    using assms(1) st by (auto simp: xca_symbol_def Let_def split: if_splits)
  then have "xca_bits len s' \<le> xca_bits len t \<and> 0 \<le> xs_extra_bits s' \<and> xs_alphabet s' = xs_alphabet t"
  proof
    assume "xca_match data (unat raw - XCA_END_MARKER) t = Some s'"
    then show ?thesis using xca_match_bits [of data "unat raw - XCA_END_MARKER" t s' len] t(2) raw
      by (simp add: XCA_END_MARKER_def)
  qed (use xca_literal_bits t(2) in force)
  then show ?thesis using t n(1) by auto
qed

lemma unat_huf_len: "unat (xca_huf_len nibbles i) \<le> 15"
proof -
  have m: "(0x0F :: byte) = mask 4" by (simp add: mask_eq_exp_minus_1)
  have "n mod 2 ^ 4 \<le> 15" for n :: nat using mod_less_divisor [of 16 n] by simp
  then show ?thesis unfolding xca_huf_len_def m unat_and_mask .
qed

lemma xca_init_bits:
  assumes "xca_init data len s = Some (Inl s')" and "xca_inv s"
  shows "xca_bits len s' < xca_bits len s \<and> xca_inv s' \<and> alphabet_ok (xs_alphabet s')"
proof -
  let ?src = "xs_src s + XCA_CODES div 2"
  obtain nib a hi lo src' src'' where
    h: "huffman_alphabet (xs_alphabet s) (map (xca_huf_len nib) [0..<XCA_CODES]) XCA_CODES = Some (a, 0)"
    and g: "XCA_GET16 data ?src = Some (hi, src')" "XCA_GET16 data src' = Some (lo, src'')"
    and s': "s' = s\<lparr>xs_src := src'', xs_alphabet := a,
                xs_accum := push_bit 16 (ucast hi) OR ucast lo, xs_extra_bits := 16,
                xs_threshold := xs_out_len s + of_nat XCA_BLOCK_SIZE\<rparr>"
    using assms(1) by (auto simp: xca_init_def Let_def split: if_splits Option.bind_splits)
  have room: "512 \<le> length (alph_raw (xs_alphabet s))" "length (alph_lookup (xs_alphabet s)) = 128"
    and ex: "0 \<le> xs_extra_bits s" using assms(2) by (auto simp: xca_inv_def)
  have le: "\<forall>l\<in>set (take XCA_CODES (map (xca_huf_len nib) [0..<XCA_CODES])). unat l \<le> 16"
    by (auto simp: take_map intro!: order_trans [OF unat_huf_len])
  have "\<forall>x<2 ^ 16. \<forall>sy w. huffman_sym a x = Some sy \<longrightarrow> huffman_raw a sy x = Some w \<longrightarrow> unat w < 512"
    using huffman_raw_below [OF h _ _ le] room by (auto simp: XCA_CODES_def)
  then have ok: "alphabet_ok a" using huffman_valid_bits [OF h] by (simp add: alphabet_ok_def)
  have "src'' = xs_src s + 260" using g by (auto simp: XCA_GET16_def XCA_CODES_def)
  then show ?thesis
    using ok huffman_room [OF h] room ex by (auto simp: s' xca_inv_def xca_bits_def)
qed

lemma xca_pass_bits:
  assumes "xca_inv s" and "xca_pass data len s = Some (Inl s')"
  shows "xca_inv s' \<and> nat (xca_bits len s') < nat (xca_bits len s)"
proof -
  have ex: "0 \<le> xs_extra_bits s" using assms(1) by (simp add: xca_inv_def)
  have src: "xs_src s < len" using assms(2) by (auto simp: xca_pass_def split: if_splits)
  then have pos: "0 < xca_bits len s" using ex by (simp add: xca_bits_def)
  have "\<exists>t. xca_symbol data len t = Some (Inl s') \<and> xca_bits len t \<le> xca_bits len s \<and> xca_inv t
      \<and> alphabet_ok (xs_alphabet t)"
  proof (cases "xs_threshold s \<le> xs_out_len s")
    case True
    then obtain q where q: "xca_init data len s = Some q" using assms(2) src
      by (cases "xca_init data len s") (auto simp: xca_pass_def)
    then show ?thesis using assms src True xca_init_bits [of data len s]
      by (cases q) (force simp: xca_pass_def)+
  next
    case False
    then show ?thesis using assms src by (intro exI [of _ s]) (auto simp: xca_pass_def xca_inv_def)
  qed
  then obtain t where t: "xca_symbol data len t = Some (Inl s')" "xca_bits len t \<le> xca_bits len s" "xca_inv t"
      "alphabet_ok (xs_alphabet t)" by blast
  have "xca_bits len s' < xca_bits len t \<and> 0 \<le> xs_extra_bits s' \<and> xs_alphabet s' = xs_alphabet t"
    using xca_symbol_bits [OF t(1) _ t(4)] t(3) by (simp add: xca_inv_def)
  then show ?thesis using t pos by (auto simp: xca_inv_def)
qed

lemma xca_agree:
  assumes "xca_decompress fuel a data len (Some b) = Some (Inr (rc, ob))" and "length b < 2 ^ 63"
  shows "xca_decompress fuel a data len None = Some (Inr (rc, None))
    \<and> (\<exists>b'. ob = Some b' \<and> length b' = length b
         \<and> (0 \<le> rc \<longrightarrow> nat rc \<le> length b \<and> drop (nat rc) b' = drop (nat rc) b))"
proof
  have "erase (xca_start a (Some b)) = xca_start a None" by (simp add: erase_def xca_start_def)
  then show "xca_decompress fuel a data len None = Some (Inr (rc, None))"
    using xca_iterate_erase assms(1) by (fastforce simp: xca_decompress_def)
  have "out_ok b (xca_start a (Some b))" by (simp add: out_ok_def xca_start_def)
  then have "result_ok b (rc, ob)"
    using xca_iterate_out assms(1) by (simp add: xca_decompress_def)
  then show "\<exists>b'. ob = Some b' \<and> length b' = length b
         \<and> (0 \<le> rc \<longrightarrow> nat rc \<le> length b \<and> drop (nat rc) b' = drop (nat rc) b)"
    using assms(2) by (rule result_ok_buf)
qed

text \<open>The decompressor with enough fuel for its data.\<close>

definition xca_run :: "huffman_alphabet \<Rightarrow> bytes \<Rightarrow> nat \<Rightarrow> bytes option \<Rightarrow> (int \<times> bytes option) option" where
  "xca_run a data len buf =
     (case xca_decompress (Suc (8 * len)) a data len buf of Some (Inr r) \<Rightarrow> Some r | _ \<Rightarrow> None)"

lemma xca_run_agree:
  "xca_run a data len (Some b) = Some (rc, ob) \<Longrightarrow> length b < 2 ^ 63 \<Longrightarrow>
     xca_run a data len None = Some (rc, None)
     \<and> (\<exists>b'. ob = Some b' \<and> length b' = length b
          \<and> (0 \<le> rc \<longrightarrow> nat rc \<le> length b \<and> drop (nat rc) b' = drop (nat rc) b))"
  using xca_agree [of "Suc (8 * len)" a data len b rc ob]
  by (simp add: xca_run_def split: option.splits sum.splits)

interpretation xca: decompressor "xca_run a"
  by unfold_locales (rule xca_run_agree)

section \<open>A stream with nine-bit codes\<close>

text \<open>All 512 symbols have nine bits; the stream holds the letter \<^verbatim>\<open>A\<close> and the end marker.\<close>

definition nine_bits :: bytes where "nine_bits = replicate 256 0x99"

definition letter_stream :: bytes where "letter_stream = nine_bits @ [0xC0, 0x20, 0, 0, 0, 0]"

definition stack_alphabet :: huffman_alphabet where
  "stack_alphabet = \<lparr>alph_huf = [], alph_lookup = replicate 128 0, alph_raw = replicate 512 0\<rparr>"

lemma nine_lengths: "map (xca_huf_len nine_bits) [0..<XCA_CODES] = replicate 512 9"
proof (rule nth_equalityI)
  fix i assume "i < length (map (xca_huf_len nine_bits) [0..<XCA_CODES])"
  then have i: "i < 512" by (simp add: XCA_CODES_def)
  then have "i div 2 < 256" "i mod 2 = 0 \<or> i mod 2 = 1" by auto
  then show "map (xca_huf_len nine_bits) [0..<XCA_CODES] ! i = replicate 512 9 ! i"
    using i by (auto simp: XCA_CODES_def xca_huf_len_def nine_bits_def)
qed (simp add: XCA_CODES_def)

lemma freqs_nine: "freqs (replicate n 9) i = (if i = 8 then n else 0)"
  by (simp add: freqs_def filter_replicate)

lemma first_code_nine: "i \<le> 8 \<Longrightarrow> first_code (freqs (replicate n 9)) i = 0"
  by (induction i) (auto simp: freqs_nine)

lemma kraft_nine: "kraft (freqs (replicate 512 9)) = 2 ^ 16"
proof -
  have "kraft (freqs (replicate 512 9)) = (\<Sum>i<(16::nat). if i = 8 then 512 * 2 ^ 7 else 0)"
    unfolding kraft_def by (rule sum.cong) (auto simp: freqs_nine)
  then show ?thesis by simp
qed

lemma coded_by_nine: "r < 512 \<Longrightarrow> h div 128 = r \<Longrightarrow> coded_by (replicate 512 9) r h"
  by (simp add: coded_by_def code_of_def first_code_nine freqs_nine min_def)

lemma letter_alphabet:
  "\<exists>a. huffman_alphabet stack_alphabet (replicate 512 9) 512 = Some (a, 0)
     \<and> (\<forall>h<2 ^ 16. \<exists>s. huffman_sym a h = Some s \<and> huffman_len s = 9 \<and> huffman_raw a s h = Some (of_nat (h div 128)))"
proof -
  let ?ls = "replicate 512 (9 :: byte)"
  obtain a rc where a: "huffman_alphabet stack_alphabet ?ls 512 = Some (a, rc)" "rc = 0" "decoder ?ls a"
    using huffman_alphabet_result [of 512 ?ls ?ls stack_alphabet] kraft_nine kraft_fits [of "freqs ?ls"]
    by (auto simp: stack_alphabet_def)
  have "\<exists>s. huffman_sym a h = Some s \<and> huffman_len s = 9 \<and> huffman_raw a s h = Some (of_nat (h div 128))"
    if "h < 2 ^ 16" for h
  proof -
    have r: "h div 128 < 512" using that by (simp add: less_mult_imp_div_less)
    show ?thesis
      using decoder_decodes(2) [OF a(3) kraft_nine that _ coded_by_nine [OF r refl]] r by simp
  qed
  then show ?thesis using a by blast
qed

lemma letter_words: "get16 letter_stream 256 = Some 0x20C0" "get16 letter_stream 258 = Some 0"
  "get16 letter_stream 260 = Some 0" "peek letter_stream 0 256 = Some nine_bits"
  by (simp_all add: get16_def peek_def letter_stream_def nine_bits_def)

lemma letter_decompress:
  "xca_decompress 2 stack_alphabet letter_stream 262 (Some [0]) = Some (Inr (1, Some [0x41]))"
proof -
  obtain a where a: "huffman_alphabet stack_alphabet (replicate 512 9) 512 = Some (a, 0)"
    and d: "\<And>h. h < 2 ^ 16 \<Longrightarrow> \<exists>s. huffman_sym a h = Some s \<and> huffman_len s = 9 \<and> huffman_raw a s h = Some (of_nat (h div 128))"
    using letter_alphabet by blast
  obtain s1 where s1: "huffman_sym a 0x20C0 = Some s1" "huffman_len s1 = 9" "huffman_raw a s1 0x20C0 = Some 65"
    using d [of "0x20C0"] by auto
  obtain s2 where s2: "huffman_sym a 0x8000 = Some s2" "huffman_len s2 = 9" "huffman_raw a s2 0x8000 = Some 256"
    using d [of "0x8000"] by auto
  let ?s = "\<lparr>xs_src = 260, xs_buf = Some [0], xs_out = 0, xs_out_len = 0, xs_threshold = 65536,
     xs_alphabet = a, xs_accum = 0x20C00000, xs_extra_bits = 16\<rparr>"
  let ?t = "\<lparr>xs_src = 260, xs_buf = Some [0x41], xs_out = 1, xs_out_len = 1, xs_threshold = 65536,
     xs_alphabet = a, xs_accum = 0x80000000, xs_extra_bits = 7\<rparr>"
  have i: "xca_init letter_stream 262 (xca_start stack_alphabet (Some [0])) = Some (Inl ?s)"
    using a nine_lengths letter_words
    by (simp add: xca_init_def xca_start_def XCA_CODES_def XCA_BLOCK_SIZE_def XCA_GET16_def)
  have "xca_symbol letter_stream 262 ?s = Some (Inl ?t)"
    using s1 by (simp add: xca_symbol_def HUFFMAN_BITS_def xca_consume_def xca_literal_def XCA_END_MARKER_def wr_def)
  then have p1: "xca_pass letter_stream 262 (xca_start stack_alphabet (Some [0])) = Some (Inl ?t)"
    using i by (simp add: xca_pass_def) (simp add: xca_start_def)
  have le: "\<not> (65536 :: u64) \<le> 1" by code_simp
  have p2: "xca_pass letter_stream 262 ?t = Some (Inr (1, Some [0x41]))"
    using s2 letter_words le
    by (simp add: xca_pass_def xca_symbol_def HUFFMAN_BITS_def xca_consume_def XCA_GET16_def XCA_END_MARKER_def)
  show ?thesis using p1 p2 by (simp add: xca_decompress_def numeral_2_eq_2)
qed

section \<open>Properties\<close>

text \<open>C5: whatever the compressed data, the decompressor leaves its loop within \<open>8 * len + 1\<close>
  passes: each takes at least one bit of the stream.\<close>

theorem xca_terminates:
  assumes "512 \<le> length (alph_raw a)" and "length (alph_lookup a) = 128" and "8 * len < fuel"
  shows "xca_decompress fuel a data len buf = None \<or> (\<exists>r. xca_decompress fuel a data len buf = Some (Inr r))"
  unfolding xca_decompress_def
proof (rule iterate_ends [where I = xca_inv and m = "\<lambda>s. nat (xca_bits len s)"])
  show "xca_inv (xca_start a buf)" "nat (xca_bits len (xca_start a buf)) < fuel"
    using assms by (auto simp: xca_inv_def xca_start_def xca_bits_def)
qed (rule xca_pass_bits)

text \<open>C9: the pass with a buffer and the pass without agree. When decompressing into a buffer
  returns, the length it returns is what the pass with NULL returns; the buffer is only written
  up to that length, so a buffer of exactly that length is never overrun.\<close>

theorem xca_two_pass:
  assumes "xca_decompress fuel a data len (Some b) = Some (Inr (rc, ob))" and "length b < 2 ^ 63"
  shows "xca_decompress fuel a data len None = Some (Inr (rc, None))
    \<and> (\<exists>b'. ob = Some b' \<and> length b' = length b
         \<and> (0 \<le> rc \<longrightarrow> nat rc \<le> length b \<and> drop (nat rc) b' = drop (nat rc) b))"
  using assms by (rule xca_agree)

lemma xca_terminates_witness:
  "xca_decompress 2097 stack_alphabet letter_stream 262 None = None
     \<or> (\<exists>r. xca_decompress 2097 stack_alphabet letter_stream 262 None = Some (Inr r))"
  by (rule xca_terminates) (simp_all add: stack_alphabet_def)

lemma xca_two_pass_witness:
  "xca_decompress 2 stack_alphabet letter_stream 262 None = Some (Inr (1, None))"
  using xca_two_pass [OF letter_decompress] by simp

end
