(* ===== verification/Bmtool.thy ===== *)
theory Bmtool
  imports Lznt1 Xca
begin

text \<open>
  \<^verbatim>\<open>utils/bmtool.c\<close>: find the compressed \<^verbatim>\<open>bootmgr.exe\<close> inside \<^verbatim>\<open>bootmgr\<close> and extract it.

  \<^verbatim>\<open>data\<close> is the content of the file. Reading the file and messages are left out; \<^verbatim>\<open>malloc\<close>
  is given by the bytes of the block it returns, or by its failure, and the output medium as
  in the archive writer by whether it takes the data.
\<close>

definition BOOTMGR_MIN_LEN :: nat where "BOOTMGR_MIN_LEN = 16384"

text \<open>\<^verbatim>\<open>is_empty_pgh\<close>: four 32-bit words that are zero.\<close>

definition is_empty_pgh :: "bytes \<Rightarrow> nat \<Rightarrow> bool option" where
  "is_empty_pgh data i = do {
     d0 \<leftarrow> get32 data i;
     d1 \<leftarrow> get32 data (i + 4);
     d2 \<leftarrow> get32 data (i + 8);
     d3 \<leftarrow> get32 data (i + 12);
     Some (d0 OR d1 OR d2 OR d3 = 0) }"

datatype packing = LZNT1 | XCA

definition decompress :: "huffman_alphabet \<Rightarrow> packing \<Rightarrow> bytes \<Rightarrow> nat \<Rightarrow> bytes option \<Rightarrow> (int \<times> bytes option) option" where
  "decompress a how = (case how of LZNT1 \<Rightarrow> lznt1_decompress | XCA \<Rightarrow> xca_run a)"

text \<open>The conditions of the two tests, in the order and with the short cuts of \<^verbatim>\<open>&&\<close>.\<close>

definition check_lznt1 :: "bytes \<Rightarrow> nat \<Rightarrow> bool option" where
  "check_lznt1 data i =
     (if i mod 16 \<noteq> 0 then Some False
      else do {
        c2 \<leftarrow> rd data (i + 2);
        if c2 AND 0x03 \<noteq> 0 then Some False
        else do {
          c3 \<leftarrow> rd data (i + 3);
          if c3 \<noteq> 0x4D then Some False
          else do {
            c4 \<leftarrow> rd data (i + 4);
            Some (c4 = 0x5A) } } })"

definition check_xca :: "bytes \<Rightarrow> nat \<Rightarrow> bool option" where
  "check_xca data i = do {
     c00 \<leftarrow> rd data i;
     if c00 AND 0x0F = 0 then Some False
     else do {
       c26 \<leftarrow> rd data (i + 0x26);
       if c26 AND 0xF0 = 0 then Some False
       else do {
         c2d \<leftarrow> rd data (i + 0x2D);
         if c2d AND 0x0F = 0 then Some False
         else do {
           before \<leftarrow> is_empty_pgh data (i - 0x10);
           if \<not> before then Some False
           else do {
             e4 \<leftarrow> is_empty_pgh data (i + 0x400);
             if e4 then Some False
             else do {
               e8 \<leftarrow> is_empty_pgh data (i + 0x800);
               if e8 then Some False
               else do {
                 ec \<leftarrow> is_empty_pgh data (i + 0xC00);
                 Some (\<not> ec) } } } } } } }"

text \<open>What a pass of the loop decides: nothing here, or the method to use.\<close>

definition find_method :: "bytes \<Rightarrow> nat \<Rightarrow> packing option option" where
  "find_method data i = do {
     l \<leftarrow> check_lznt1 data i;
     x \<leftarrow> check_xca data i;
     Some (if x then Some XCA else if l then Some LZNT1 else None) }"

text \<open>
  The loop over the offsets, in steps of eight while \<open>offset < len - BOOTMGR_MIN_LEN\<close>, a
  \<^verbatim>\<open>size_t\<close> subtraction. \<open>mem\<close> is what \<^verbatim>\<open>malloc\<close> returns for a size. The result is what
  \<^verbatim>\<open>udata\<close> and \<^verbatim>\<open>udata_len\<close> are after the loop, or the early return.
\<close>

datatype extracted = Early | Missing | Image int "bytes option"

definition extract_pass ::
  "huffman_alphabet \<Rightarrow> (int \<Rightarrow> bytes option) \<Rightarrow> bytes \<Rightarrow> nat \<Rightarrow> nat \<Rightarrow> (nat + extracted) option" where
  "extract_pass a mem data len offset =
     (if offset < unat (of_nat len - of_nat BOOTMGR_MIN_LEN :: u64) then do {
        how \<leftarrow> find_method data offset;
        case how of
          None \<Rightarrow> Some (Inl (offset + 8))
        | Some how \<Rightarrow> do {
            let cdata = drop offset data;
            let cdata_len = len - offset;
            (udata_len, _) \<leftarrow> decompress a how cdata cdata_len None;
            if udata_len < 0 then Some (Inl (offset + 8))
            else case mem udata_len of
                   None \<Rightarrow> Some (Inr Early)
                 | Some udata \<Rightarrow> do {
                     (_, udata) \<leftarrow> decompress a how cdata cdata_len (Some udata);
                     Some (Inr (Image udata_len udata)) } } }
      else Some (Inr Missing))"

definition decompress_bootmgr ::
  "huffman_alphabet \<Rightarrow> (int \<Rightarrow> bytes option) \<Rightarrow> (bytes \<Rightarrow> bool) \<Rightarrow> bytes \<Rightarrow> nat \<Rightarrow> (int \<times> bytes option) option" where
  "decompress_bootmgr a mem write_data data len =
     (case iterate (Suc len) (extract_pass a mem data len) BOOTMGR_MIN_LEN of
        Some (Inr (Image n (Some udata))) \<Rightarrow>
          Some (if write_data udata then (0, Some udata) else (-1, None))
      | Some (Inr _) \<Rightarrow> Some (-1, None)
      | _ \<Rightarrow> None)"

text \<open>
  The program, with files as functions of their names: a file that cannot be read, or is empty, ends it,
  and the program found is written to the second argument's file. The result is the exit status and what
  has been written.
\<close>

definition load_bootmgr :: "(bytes \<Rightarrow> bytes option) \<Rightarrow> bytes \<Rightarrow> bytes option" where
  "load_bootmgr read path =
     (case read path of None \<Rightarrow> None | Some data \<Rightarrow> if data = [] then None else Some data)"

definition bmtool ::
  "huffman_alphabet \<Rightarrow> (int \<Rightarrow> bytes option) \<Rightarrow> (bytes \<Rightarrow> bytes option) \<Rightarrow> (bytes \<Rightarrow> bytes \<Rightarrow> bool) \<Rightarrow>
     bytes list \<Rightarrow> (int \<times> (bytes \<times> bytes) option) option"
where
  "bmtool a mem read write_data args =
     (case args of
        [] \<Rightarrow> Some (1, None)
      | bootmgr # names \<Rightarrow>
          let out = (case names of name # _ \<Rightarrow> name | [] \<Rightarrow> map of_char ''bootmgr.exe'')
          in (case load_bootmgr read bootmgr of
                None \<Rightarrow> Some (1, None)
              | Some data \<Rightarrow>
                  map_option (map_prod id (map_option (Pair out)))
                    (decompress_bootmgr a mem (write_data out) data (length data))))"

section \<open>Both methods keep the contract\<close>

lemma decompress_agree:
  "decompress a how data len (Some b) = Some (rc, ob) \<Longrightarrow> length b < 2 ^ 63 \<Longrightarrow>
     decompress a how data len None = Some (rc, None)
     \<and> (\<exists>b'. ob = Some b' \<and> length b' = length b
          \<and> (0 \<le> rc \<longrightarrow> nat rc \<le> length b \<and> drop (nat rc) b' = drop (nat rc) b))"
  using lznt1.two_pass xca.two_pass by (cases how) (auto simp: decompress_def)

interpretation bootmgr: decompressor "decompress a how"
  by unfold_locales (rule decompress_agree)

lemma extract_pass_calls:
  assumes "extract_pass a mem data len offset = Some (Inr (Image n ob))"
  shows "\<exists>how ob1 u rc. find_method data offset = Some (Some how)
    \<and> decompress a how (drop offset data) (len - offset) None = Some (n, ob1) \<and> 0 \<le> n \<and> mem n = Some u
    \<and> decompress a how (drop offset data) (len - offset) (Some u) = Some (rc, ob)"
  using assms
  by (auto simp: extract_pass_def Let_def split: if_splits option.splits Option.bind_splits prod.splits)

text \<open>The image written is one whose length the first call computed, in a buffer of that size.\<close>

lemma extract_pass_image:
  assumes "extract_pass a mem data len offset = Some (Inr (Image n ob))"
    and mem: "\<forall>k b. mem k = Some b \<longrightarrow> length b = nat k \<and> k < 2 ^ 63"
  shows "\<exists>how u. ob = Some u \<and> n = int (length u) \<and> find_method data offset = Some (Some how)
    \<and> decompress a how (drop offset data) (len - offset) None = Some (n, None)"
proof -
  obtain how ob1 u rc where c: "find_method data offset = Some (Some how)"
    "decompress a how (drop offset data) (len - offset) None = Some (n, ob1)" "0 \<le> n" "mem n = Some u"
    "decompress a how (drop offset data) (len - offset) (Some u) = Some (rc, ob)"
    using extract_pass_calls [OF assms(1)] by blast
  have u: "length u = nat n" "n < 2 ^ 63" using mem c(4) by auto
  then have "length u < 2 ^ 63" using c(3) by (simp add: nat_less_iff)
  from bootmgr.two_pass [OF c(5) this] obtain b' where
    "decompress a how (drop offset data) (len - offset) None = Some (rc, None)" "ob = Some b'" "length b' = length u"
    by blast
  then show ?thesis using c u by auto
qed

section \<open>The search\<close>

lemma short_wraps:
  assumes "len < 16384"
  shows "16384 < unat (of_nat len - of_nat BOOTMGR_MIN_LEN :: u64)"
proof -
  let ?k = "2 ^ 64 + len - 16384"
  have "(of_nat (2 ^ 64 + len) :: u64) = of_nat len" by simp
  then have eq: "of_nat len - of_nat BOOTMGR_MIN_LEN = (of_nat ?k :: u64)"
    by (subst of_nat_diff) (simp_all add: BOOTMGR_MIN_LEN_def)
  have "?k < 2 ^ LENGTH(64)" using assms by simp
  then have "unat (of_nat ?k :: u64) = ?k" by (rule unat_of_nat_small)
  then show ?thesis unfolding eq by simp
qed

lemma long_limit: "16384 \<le> len \<Longrightarrow> len < 2 ^ 64 \<Longrightarrow> unat (of_nat len - of_nat BOOTMGR_MIN_LEN :: u64) = len - 16384"
proof -
  assume "16384 \<le> len" "len < 2 ^ 64"
  then have "(of_nat len - of_nat BOOTMGR_MIN_LEN :: u64) = of_nat (len - 16384)"
    by (simp add: BOOTMGR_MIN_LEN_def of_nat_diff)
  then show ?thesis using \<open>len < 2 ^ 64\<close> by (simp only:) (intro unat_of_nat_small, simp)
qed

lemma extract_pass_step:
  "extract_pass a mem data len offset = Some (Inl offset') \<Longrightarrow>
     offset' = offset + 8 \<and> offset < unat (of_nat len - of_nat BOOTMGR_MIN_LEN :: u64)"
  by (auto simp: extract_pass_def Let_def split: if_splits option.splits Option.bind_splits prod.splits)

lemma search_invariant:
  "16384 \<le> i \<and> i mod 8 = 0 \<Longrightarrow> extract_pass a mem data len i = Some (Inl j) \<Longrightarrow> 16384 \<le> j \<and> j mod 8 = 0"
  using extract_pass_step [of a mem data len i j] by auto

lemma short_faults: "length data < 16384 \<Longrightarrow> extract_pass a mem data (length data) BOOTMGR_MIN_LEN = None"
  using short_wraps [of "length data"]
  by (simp add: extract_pass_def find_method_def check_lznt1_def rd_def BOOTMGR_MIN_LEN_def)

lemma search_ends:
  assumes "len < 2 ^ 64"
  shows "iterate (Suc len) (extract_pass a mem data len) BOOTMGR_MIN_LEN = None
    \<or> (\<exists>r. iterate (Suc len) (extract_pass a mem data len) BOOTMGR_MIN_LEN = Some (Inr r))
    \<or> len < 16384"
proof (cases "len < 16384")
  case False
  then have lim: "unat (of_nat len - of_nat BOOTMGR_MIN_LEN :: u64) = len - 16384"
    using long_limit assms by simp
  have "iterate (Suc len) (extract_pass a mem data len) BOOTMGR_MIN_LEN = None
    \<or> (\<exists>r. iterate (Suc len) (extract_pass a mem data len) BOOTMGR_MIN_LEN = Some (Inr r))"
  proof (rule iterate_ends [where I = "\<lambda>_. True" and m = "\<lambda>i. len - i"])
    show "True \<and> len - s' < len - s" if "extract_pass a mem data len s = Some (Inl s')" for s s'
      using extract_pass_step [OF that] lim by auto
  qed auto
  then show ?thesis by blast
qed simp

lemma image_written:
  assumes "(case res of
        Some (Inr (Image n (Some udata))) \<Rightarrow> Some (if wd udata then (0 :: int, Some udata) else (-1, None))
      | Some (Inr _) \<Rightarrow> Some (-1, None)
      | _ \<Rightarrow> None) = Some (0, Some u)"
  shows "\<exists>n. res = Some (Inr (Image n (Some u)))"
  using assms by (auto split: option.splits sum.splits extracted.splits if_splits)

lemma search_result:
  assumes "iterate n (extract_pass a mem data len) BOOTMGR_MIN_LEN = Some (Inr r)"
  shows "\<exists>i. (16384 \<le> i \<and> i mod 8 = 0) \<and> extract_pass a mem data len i = Some (Inr r)"
proof (rule iterate_result [OF _ _ assms])
  show "16384 \<le> BOOTMGR_MIN_LEN \<and> BOOTMGR_MIN_LEN mod 8 = 0" by (simp add: BOOTMGR_MIN_LEN_def)
qed (rule search_invariant)

lemma short_search:
  assumes "\<not> 16384 \<le> length data"
  shows "iterate (Suc (length data)) (extract_pass a mem data (length data)) BOOTMGR_MIN_LEN = None"
proof -
  have f: "extract_pass a mem data (length data) BOOTMGR_MIN_LEN = None" using assms by (simp add: short_faults)
  show ?thesis unfolding iterate.simps(2) f by simp
qed

lemma found_long:
  assumes "iterate (Suc (length data)) (extract_pass a mem data (length data)) BOOTMGR_MIN_LEN = Some r"
  shows "16384 \<le> length data"
  using short_search [of data a mem] unfolding assms by (cases "16384 \<le> length data") simp_all

lemma image_search:
  assumes "decompress_bootmgr a mem wd data (length data) = Some (0, Some u)"
  shows "\<exists>n. iterate (Suc (length data)) (extract_pass a mem data (length data)) BOOTMGR_MIN_LEN
      = Some (Inr (Image n (Some u)))"
  by (rule image_written [OF assms [unfolded decompress_bootmgr_def]])

section \<open>A file with an image\<close>

text \<open>A compressed block with the two bytes \<^verbatim>\<open>MZ\<close>, followed by one-byte stored blocks.\<close>

definition mz_block :: bytes where "mz_block = [0x02, 0xB0, 0, 0x4D, 0x5A]"

definition mz_rest :: bytes where "mz_rest = concat (map store_block (replicate 5460 [0]))"

definition mz_data :: bytes where "mz_data = mz_block @ mz_rest"

definition mz_file :: bytes where "mz_file = replicate 16384 0 @ mz_data"

definition heap :: "int \<Rightarrow> bytes option" where
  "heap k = (if 0 \<le> k \<and> k < 2 ^ 63 then Some (replicate (nat k) 0) else None)"

lemma store_zero: "store_block [0] = [0, 0, 0]"
  by (simp add: store_block_def eval_simps)

lemma stored_length: "length (concat (map store_block (replicate n [0]))) = 3 * n"
  by (induction n) (simp_all add: store_zero)

lemma mz_length: "length mz_data = 16385" "length mz_file = 32769"
  unfolding mz_file_def mz_data_def mz_block_def mz_rest_def length_append stored_length by simp_all

lemma mz_header: "get16 mz_data 0 = Some 0xB002"
  by (simp add: get16_def peek_def mz_data_def mz_block_def)

lemma mz_first_block:
  "length b = 5462 \<Longrightarrow> lznt1_pass mz_data 16385 (0, 0, Some b) = Some (Inl (5, 2, Some (0x4D # 0x5A # drop 2 b)))"
proof -
  assume b: "length b = 5462"
  have l: "LZNT1_BLOCK_LEN 0xB002 = 3" "LZNT1_BLOCK_COMPRESSED 0xB002"
    by (simp_all add: LZNT1_BLOCK_LEN_def LZNT1_BLOCK_COMPRESSED_def)
  obtain x y c where bc: "b = x # y # c" using b by (cases b; cases "tl b") auto
  let ?s = "\<lambda>i d n t. \<lparr>lz_offset = i, lz_buf = Some d, lz_dest = n, lz_out_len = n, lz_split = 12,
        lz_threshold = 16, lz_tag_bit = t, lz_tag = 0\<rparr>"
  have p0: "lznt1_block_pass mz_data 5 (?s 2 b 0 0) = Some (Inl (?s 4 (0x4D # y # c) 1 1))"
    by (simp add: lznt1_block_pass_def lznt1_value_def lznt1_literal_def rd_def wr_def mz_data_def mz_block_def bc
        update_split.simps)
  have p1: "lznt1_block_pass mz_data 5 (?s 4 (0x4D # y # c) 1 1) = Some (Inl (?s 5 (0x4D # 0x5A # c) 2 2))"
    by (simp add: lznt1_block_pass_def lznt1_value_def lznt1_literal_def rd_def wr_def mz_data_def mz_block_def
        update_split.simps)
  have p2: "lznt1_block_pass mz_data 5 (?s 5 (0x4D # 0x5A # c) 2 2) = Some (Inr (2, ?s 5 (0x4D # 0x5A # c) 2 2))"
    by (simp add: lznt1_block_pass_def)
  have f: "Suc (5 - 2) = Suc (Suc (Suc (Suc 0)))" by simp
  have "lznt1_block mz_data 5 2 (Some b) 0 = Some (Inr (2, ?s 5 (0x4D # 0x5A # c) 2 2))"
    unfolding lznt1_block_def f iterate.simps(2) using p0 p1 p2 by simp
  then show ?thesis using mz_header l bc by (simp add: lznt1_pass_def flip: numeral_2_eq_2)
qed

section \<open>Properties\<close>


lemma mz_decompress:
  "lznt1_decompress mz_data 16385 (Some (replicate 5462 0)) = Some (5462, Some (0x4D # 0x5A # replicate 5460 0))"
proof -
  let ?b = "0x4D # 0x5A # drop 2 (replicate 5462 (0 :: byte))"
  have d: "drop 5 mz_data = concat (map store_block (replicate 5460 [0]))"
  proof -
    have "drop 5 mz_data = mz_rest" by (simp add: mz_data_def mz_block_def)
    then show ?thesis by (simp only: mz_rest_def)
  qed
  have c: "concat (replicate n [0 :: byte]) = replicate n 0" for n by (induction n) simp_all
  have "iterate (Suc (length (replicate 5460 [0 :: byte]))) (lznt1_pass mz_data (length mz_data)) (5, 2, Some ?b)
     = Some (Inr (int (length ?b), Some (take 2 ?b @ concat (replicate 5460 [0]))))"
    using mz_length by (intro lznt1_stored_all [OF d]) (simp_all only: c, auto)
  then have r: "iterate 5461 (lznt1_pass mz_data 16385) (5, 2, Some ?b)
     = Some (Inr (5462, Some (0x4D # 0x5A # replicate 5460 0)))"
    by (simp only: c mz_length) simp
  have "iterate (Suc 5461) (lznt1_pass mz_data 16385) (0, 0, Some (replicate 5462 0))
     = Some (Inr (5462, Some (0x4D # 0x5A # replicate 5460 0)))"
    using mz_first_block [of "replicate 5462 0"] r by (simp only: iterate.simps length_replicate) simp
  then have "iterate (Suc 16385) (lznt1_pass mz_data 16385) (0, 0, Some (replicate 5462 0))
     = Some (Inr (5462, Some (0x4D # 0x5A # replicate 5460 0)))"
    by (rule iterate_more) simp
  then show ?thesis by (simp only: lznt1_decompress_def) simp
qed

text \<open>C13: a file shorter than 16384 bytes is read beyond its end: \<^verbatim>\<open>len - BOOTMGR_MIN_LEN\<close> wraps, and
  the first pass looks at the byte 16386 of it.\<close>

theorem decompress_bootmgr_short:
  assumes "length data < 16384"
  shows "decompress_bootmgr a mem wd data (length data) = None"
  using short_faults [OF assms, of a mem] by (simp add: decompress_bootmgr_def)

lemma decompress_bootmgr_short_witness:
  "decompress_bootmgr stack_alphabet (\<lambda>_. None) (\<lambda>_. True) (replicate 100 0) (length (replicate 100 (0 :: byte))) = None"
  by (rule decompress_bootmgr_short) simp

lemma mz_found: "find_method mz_file 16384 = Some (Some LZNT1)"
proof -
  have at: "rd mz_file (16384 + k) = rd mz_data k" for k
    by (simp add: rd_def mz_file_def mz_length nth_append)
  have lz: "check_lznt1 mz_file 16384 = Some True"
    using at [of 2] at [of 3] at [of 4] by (simp add: check_lznt1_def rd_def mz_length mz_data_def mz_block_def)
  have "rd mz_data 0x26 = Some 0"
  proof -
    have "mz_data ! 0x26 = mz_rest ! 33" by (simp add: mz_data_def mz_block_def)
    also have "mz_rest = replicate 16380 0"
    proof -
      have "concat (map store_block (replicate n [0])) = replicate (3 * n) 0" for n
        by (induction n) (simp_all add: store_zero, simp add: numeral_3_eq_3)
      then show ?thesis unfolding mz_rest_def by (simp only:) simp
    qed
    also have "replicate 16380 (0 :: byte) ! 33 = 0" by (rule nth_replicate) simp
    finally show ?thesis by (simp add: rd_def mz_length)
  qed
  moreover have "rd mz_data 0 = Some 0x02" by (simp add: rd_def mz_data_def mz_block_def)
  ultimately have "check_xca mz_file 16384 = Some False"
    using at [of 0] at [of "0x26"] by (simp add: check_xca_def)
  then show ?thesis using lz by (simp add: find_method_def)
qed

lemma mz_extracted:
  "decompress_bootmgr a heap (\<lambda>_. True) mz_file (length mz_file) = Some (0, Some (0x4D # 0x5A # replicate 5460 0))"
proof -
  have dr: "drop 16384 mz_file = mz_data" by (simp add: mz_file_def)
  have lim: "unat (of_nat 32769 - of_nat BOOTMGR_MIN_LEN :: u64) = 16385"
    using long_limit [of 32769] by simp
  have n: "lznt1_decompress mz_data 16385 None = Some (5462, None)"
    using lznt1_agree [OF mz_decompress] by simp
  have "extract_pass a heap mz_file 32769 16384 = Some (Inr (Image 5462 (Some (0x4D # 0x5A # replicate 5460 0))))"
    using mz_found dr lim n mz_decompress
    by (simp add: extract_pass_def decompress_def heap_def)
  then show ?thesis
    unfolding decompress_bootmgr_def mz_length iterate.simps(2) by (simp add: BOOTMGR_MIN_LEN_def)
qed


end
