(* ===== verification/CString.thy ===== *)
theory CString
  imports NtPrelude
begin

text \<open>
  The string functions of \<^verbatim>\<open>posix/string.c\<close>, with the character classes of
  \<^verbatim>\<open>include/ctype.h\<close> and \<^verbatim>\<open>include/wctype.h\<close>.

  The copying functions work on one memory and two addresses in it, since they are
  called on overlapping areas. The functions that walk along a string take the memory
  from the pointer on; running off its end is \<open>None\<close>. \<^verbatim>\<open>char\<close> is signed
  (the x86 ABI), so a character read into an \<^verbatim>\<open>int\<close> is \<open>sint\<close> of the byte.
\<close>

section \<open>Copying and filling memory\<close>

text \<open>
  \<^verbatim>\<open>rep movsl\<close> and \<^verbatim>\<open>rep movsb\<close> with the direction flag clear: one element of the
  given size is moved per step, and both index registers advance.
\<close>

fun rep_movs :: "nat \<Rightarrow> nat \<Rightarrow> bytes \<Rightarrow> nat \<Rightarrow> nat \<Rightarrow> (bytes \<times> nat \<times> nat) option" where
  "rep_movs sz 0 m edi esi = Some (m, edi, esi)"
| "rep_movs sz (Suc ecx) m edi esi = do {
     v \<leftarrow> peek m esi sz;
     m' \<leftarrow> poke m edi v;
     rep_movs sz ecx m' (edi + sz) (esi + sz) }"

definition memcpy :: "bytes \<Rightarrow> nat \<Rightarrow> nat \<Rightarrow> nat \<Rightarrow> bytes option" where
  "memcpy m dest src len = do {
     (m1, edi, esi) \<leftarrow> rep_movs 4 (len div 4) m dest src;
     (m2, _, _) \<leftarrow> rep_movs 1 (len mod 4) m1 edi esi;
     Some m2 }"

text \<open>\<^verbatim>\<open>rep movsb\<close> with the direction flag set.\<close>

fun rep_movsb_std :: "nat \<Rightarrow> bytes \<Rightarrow> nat \<Rightarrow> nat \<Rightarrow> bytes option" where
  "rep_movsb_std 0 m edi esi = Some m"
| "rep_movsb_std (Suc ecx) m edi esi = do {
     v \<leftarrow> rd m esi;
     m' \<leftarrow> wr m edi v;
     rep_movsb_std ecx m' (edi - 1) (esi - 1) }"

definition memcpy_reverse :: "bytes \<Rightarrow> nat \<Rightarrow> nat \<Rightarrow> nat \<Rightarrow> bytes option" where
  "memcpy_reverse m dest src len = rep_movsb_std len m (dest + len - 1) (src + len - 1)"

definition memmove :: "bytes \<Rightarrow> nat \<Rightarrow> nat \<Rightarrow> nat \<Rightarrow> bytes option" where
  "memmove m dest src len =
     (if dest \<le> src then memcpy m dest src len else memcpy_reverse m dest src len)"

fun memset :: "bytes \<Rightarrow> nat \<Rightarrow> int \<Rightarrow> nat \<Rightarrow> bytes option" where
  "memset m dest c 0 = Some m"
| "memset m dest c (Suc len) = do {
     m' \<leftarrow> wr m dest (word_of_int c);
     memset m' (Suc dest) c len }"

text \<open>A forward copy never reads a byte it has overwritten when it copies downwards.\<close>

lemma rep_movs_down:
  assumes "edi \<le> esi" and "esi + sz * n \<le> length m"
  shows "rep_movs sz n m edi esi =
     Some (take edi m @ take (sz * n) (drop esi m) @ drop (edi + sz * n) m,
           edi + sz * n, esi + sz * n)"
  using assms
proof (induction n arbitrary: m edi esi)
  case 0
  then show ?case by simp
next
  case (Suc n)
  let ?v = "take sz (drop esi m)"
  let ?m = "take edi m @ ?v @ drop (edi + sz) m"
  have lv: "length ?v = sz"
    using Suc.prems by (intro length_chunk) simp
  have v: "peek m esi sz = Some ?v" and p: "poke m edi ?v = Some ?m"
    using Suc.prems lv by (auto simp: peek_def poke_def)
  have len: "length ?m = length m"
    using Suc.prems lv by simp
  have t: "take (edi + sz) ?m = take edi m @ ?v"
    using Suc.prems lv by simp
  have d: "drop (esi + sz) ?m = drop (esi + sz) m"
    using Suc.prems lv by (intro drop_overwrite) auto
  have e: "drop (edi + sz + sz * n) ?m = drop (edi + sz * Suc n) m"
    using Suc.prems lv drop_overwrite [of ?v sz edi m "edi + sz + sz * n"] by (simp add: add.assoc)
  have "rep_movs sz n ?m (edi + sz) (esi + sz) =
     Some (take (edi + sz) ?m @ take (sz * n) (drop (esi + sz) ?m)
             @ drop (edi + sz + sz * n) ?m, edi + sz + sz * n, esi + sz + sz * n)"
    using Suc.prems len by (intro Suc.IH) auto
  then show ?case
    using v p unfolding t d e by (simp add: take_add add.commute add.left_commute)
qed

lemma rep_movs_then_bytes:
  assumes "dest \<le> src" and "src + (k + r) \<le> length m"
    and "rep_movs 4 q m dest src = Some (take dest m @ take k (drop src m) @ drop (dest + k) m,
           dest + k, src + k)"
  shows "do { (m1, edi, esi) \<leftarrow> rep_movs 4 q m dest src;
              (m2, _, _) \<leftarrow> rep_movs 1 r m1 edi esi; Some m2 } =
         Some (take dest m @ take (k + r) (drop src m) @ drop (dest + (k + r)) m)"
proof -
  let ?m = "take dest m @ take k (drop src m) @ drop (dest + k) m"
  have lk: "length (take k (drop src m)) = k" using assms by (intro length_chunk) simp
  have lm: "length ?m = length m" using assms lk by simp
  have 2: "rep_movs 1 r ?m (dest + k) (src + k) =
     Some (take (dest + k) ?m @ take r (drop (src + k) ?m) @ drop (dest + k + r) ?m,
           dest + k + r, src + k + r)"
    using rep_movs_down [of "dest + k" "src + k" 1 r ?m] assms(1,2) lm by simp
  have t: "take (dest + k) ?m = take dest m @ take k (drop src m)"
    using assms(1,2) lk by simp
  have d: "drop (src + k) ?m = drop (src + k) m"
    using assms(1,2) lk by (intro drop_overwrite) auto
  have e: "drop (dest + k + r) ?m = drop (dest + k + r) m"
    using assms(1,2) lk by (intro drop_overwrite) auto
  show ?thesis
    unfolding assms(3) bind.bind_lunit prod.case 2 t d e
    by (simp add: take_add add.commute add.left_commute)
qed

lemma memcpy_down:
  assumes "dest \<le> src" and "src + len \<le> length m"
  shows "memcpy m dest src len = poke m dest (take len (drop src m))"
proof -
  have kr: "4 * (len div 4) + len mod 4 = len" by simp
  have "src + 4 * (len div 4) \<le> length m" using assms(2) kr by linarith
  then have "memcpy m dest src len =
      Some (take dest m @ take len (drop src m) @ drop (dest + len) m)"
    using rep_movs_then_bytes [of dest src "4 * (len div 4)" "len mod 4" m "len div 4"]
      rep_movs_down [of dest src 4 "len div 4" m] assms
    unfolding memcpy_def kr by blast
  moreover have "length (take len (drop src m)) = len" using assms by (intro length_chunk) simp
  ultimately show ?thesis using assms by (simp add: poke_def)
qed

text \<open>A backward copy never reads a byte it has overwritten when it copies upwards.\<close>

lemma rep_movsb_std_up:
  assumes "src < dest" and "dest + n \<le> length m"
  shows "rep_movsb_std n m (dest + n - 1) (src + n - 1) =
     Some (take dest m @ take n (drop src m) @ drop (dest + n) m)"
  using assms
proof (induction n arbitrary: m)
  case 0
  then show ?case by simp
next
  case (Suc n)
  let ?m = "m[dest + n := m ! (src + n)]"
  have IH: "rep_movsb_std n ?m (dest + n - 1) (src + n - 1) =
     Some (take dest ?m @ take n (drop src ?m) @ drop (dest + n) ?m)"
    using Suc by simp
  have a: "take dest ?m = take dest m" and b: "take n (drop src ?m) = take n (drop src m)"
    using Suc.prems by (auto simp: take_drop)
  have c: "drop (dest + n) ?m = m ! (src + n) # drop (dest + Suc n) m"
    using Suc.prems by (simp add: drop_update_swap Cons_nth_drop_Suc [symmetric])
  have d: "take (Suc n) (drop src m) = take n (drop src m) @ [m ! (src + n)]"
    using Suc.prems by (simp add: take_Suc_conv_app_nth)
  show ?case
    using Suc.prems IH unfolding a b c d by (simp add: rd_def wr_def)
qed

lemma memmove_poke:
  assumes "src + len \<le> length m" and "dest + len \<le> length m"
  shows "memmove m dest src len = poke m dest (take len (drop src m))"
proof (cases "dest \<le> src")
  case True
  then show ?thesis using assms by (simp add: memmove_def memcpy_down)
next
  case False
  then show ?thesis
    using assms rep_movsb_std_up [of src dest len m]
    by (simp add: memmove_def memcpy_reverse_def poke_def min_def)
qed

lemma memset_poke:
  "dest + len \<le> length m \<Longrightarrow> memset m dest c len = poke m dest (replicate len (word_of_int c))"
proof (induction len arbitrary: m dest)
  case 0
  then show ?case by (simp add: poke_def)
next
  case (Suc len)
  then have "memset m dest c (Suc len) =
     poke (m[dest := word_of_int c]) (Suc dest) (replicate len (word_of_int c))"
    by (simp add: wr_def)
  also have "\<dots> = poke m dest (replicate (Suc len) (word_of_int c))"
    using Suc.prems by (auto simp: poke_def take_Suc_conv_app_nth)
  finally show ?case .
qed

section \<open>Comparing\<close>

fun memcmp :: "bytes \<Rightarrow> bytes \<Rightarrow> nat \<Rightarrow> int option" where
  "memcmp s1 s2 0 = Some 0"
| "memcmp (b1 # s1) (b2 # s2) (Suc len) =
     (let diff = uint b1 - uint b2
      in if diff \<noteq> 0 then Some diff else memcmp s1 s2 len)"
| "memcmp _ _ (Suc len) = None"

definition islower :: "int \<Rightarrow> bool" where
  "islower c \<longleftrightarrow> 97 \<le> c \<and> c \<le> 122"

definition toupper :: "int \<Rightarrow> int" where
  "toupper c = (if islower c then c - 32 else c)"

definition towupper :: "int \<Rightarrow> int" where
  "towupper c = toupper c"

fun strcmp :: "bytes \<Rightarrow> bytes \<Rightarrow> int option" where
  "strcmp (b1 # str1) (b2 # str2) =
     (let c1 = sint b1; c2 = sint b2
      in if c1 \<noteq> 0 \<and> c1 = c2 then strcmp str1 str2 else Some (c1 - c2))"
| "strcmp _ _ = None"

fun strcasecmp :: "bytes \<Rightarrow> bytes \<Rightarrow> int option" where
  "strcasecmp (b1 # str1) (b2 # str2) =
     (let c1 = toupper (sint b1); c2 = toupper (sint b2)
      in if c1 \<noteq> 0 \<and> c1 = c2 then strcasecmp str1 str2 else Some (c1 - c2))"
| "strcasecmp _ _ = None"

fun wcscasecmp :: "u16 list \<Rightarrow> u16 list \<Rightarrow> int option" where
  "wcscasecmp (b1 # str1) (b2 # str2) =
     (let c1 = towupper (uint b1); c2 = towupper (uint b2)
      in if c1 \<noteq> 0 \<and> c1 = c2 then wcscasecmp str1 str2 else Some (c1 - c2))"
| "wcscasecmp _ _ = None"


text \<open>A C string in memory: its characters, the NUL, and whatever follows.\<close>

definition no_nul :: "'a::len word list \<Rightarrow> bool" where
  "no_nul s \<longleftrightarrow> 0 \<notin> set s"

definition upper :: "byte \<Rightarrow> int" where
  "upper b = toupper (sint b)"

lemma upper_0_iff [simp]: "upper b = 0 \<longleftrightarrow> b = 0"
  by (auto simp: upper_def toupper_def islower_def signed_eq_0_iff split: if_splits)

lemma toupper_0 [simp]: "toupper 0 = 0"
  by (simp add: toupper_def islower_def)

lemma memcmp_zero_iff:
  "n \<le> length s1 \<Longrightarrow> n \<le> length s2 \<Longrightarrow>
     memcmp s1 s2 n = Some 0 \<longleftrightarrow> take n s1 = take n s2"
  by (induction s1 s2 n rule: memcmp.induct) (auto simp: Let_def intro: unsigned_word_eqI)

lemma memcmp_returns: "n \<le> length s1 \<Longrightarrow> n \<le> length s2 \<Longrightarrow> \<exists>d. memcmp s1 s2 n = Some d"
  by (induction s1 s2 n rule: memcmp.induct) (auto simp: Let_def)

lemma strcmp_zero_iff:
  "no_nul s \<Longrightarrow> no_nul t \<Longrightarrow> strcmp (s @ 0 # x) (t @ 0 # y) = Some 0 \<longleftrightarrow> s = t"
proof (induction s arbitrary: t)
  case Nil
  then show ?case by (cases t) (auto simp: Let_def no_nul_def signed_eq_0_iff intro: signed_word_eqI)
next
  case (Cons a s)
  then show ?case by (cases t) (auto simp: Let_def no_nul_def signed_eq_0_iff intro: signed_word_eqI)
qed

lemma strcmp_returns: "no_nul s \<Longrightarrow> no_nul t \<Longrightarrow> \<exists>d. strcmp (s @ 0 # x) (t @ 0 # y) = Some d"
proof (induction s arbitrary: t)
  case Nil
  then show ?case by (cases t) (auto simp: Let_def no_nul_def)
next
  case (Cons a s)
  then show ?case by (cases t) (auto simp: Let_def no_nul_def)
qed

lemma strcasecmp_returns:
  "no_nul s \<Longrightarrow> no_nul t \<Longrightarrow> \<exists>d. strcasecmp (s @ 0 # x) (t @ 0 # y) = Some d"
proof (induction s arbitrary: t)
  case Nil
  then show ?case by (cases t) (auto simp: Let_def no_nul_def)
next
  case (Cons a s)
  then show ?case by (cases t) (auto simp: Let_def no_nul_def)
qed

lemma strcasecmp_zero_iff:
  "no_nul s \<Longrightarrow> no_nul t \<Longrightarrow>
     strcasecmp (s @ 0 # x) (t @ 0 # y) = Some 0 \<longleftrightarrow> map upper s = map upper t"
proof (induction s arbitrary: t)
  case Nil
  then show ?case
    by (cases t) (auto simp: Let_def no_nul_def simp flip: upper_def dest: sym)
next
  case (Cons a s)
  then show ?case
    by (cases t) (auto simp: Let_def no_nul_def simp flip: upper_def dest: sym)
qed

section \<open>Lengths and searching\<close>

fun strlen :: "bytes \<Rightarrow> nat option" where
  "strlen (c # str) = (if c \<noteq> 0 then map_option Suc (strlen str) else Some 0)"
| "strlen [] = None"

fun wcslen :: "u16 list \<Rightarrow> nat option" where
  "wcslen (c # str) = (if c \<noteq> 0 then map_option Suc (wcslen str) else Some 0)"
| "wcslen [] = None"

lemma strlen_eq: "no_nul s \<Longrightarrow> strlen (s @ 0 # x) = Some (length s)"
  by (induction s) (auto simp: no_nul_def)

lemma wcslen_eq: "no_nul s \<Longrightarrow> wcslen (s @ 0 # x) = Some (length s)"
  by (induction s) (auto simp: no_nul_def)

text \<open>A pointer into the string is the offset from its start; the inner \<open>None\<close> is NULL.\<close>

fun strchr :: "bytes \<Rightarrow> int \<Rightarrow> nat option option" where
  "strchr (c # str) x =
     (if sint c = x then Some (Some 0)
      else if c \<noteq> 0 then map_option (map_option Suc) (strchr str x)
      else Some None)"
| "strchr [] x = None"

fun wcschr :: "u16 list \<Rightarrow> u16 \<Rightarrow> nat option option" where
  "wcschr (c # str) x =
     (if c = x then Some (Some 0)
      else if c \<noteq> 0 then map_option (map_option Suc) (wcschr str x)
      else Some None)"
| "wcschr [] x = None"

fun strrchr_loop :: "bytes \<Rightarrow> int \<Rightarrow> nat \<Rightarrow> nat option \<Rightarrow> nat option option" where
  "strrchr_loop (c # str) x i p =
     (let p' = (if sint c = x then Some i else p)
      in if c \<noteq> 0 then strrchr_loop str x (Suc i) p' else Some p')"
| "strrchr_loop [] x i p = None"

definition strrchr :: "bytes \<Rightarrow> int \<Rightarrow> nat option option" where
  "strrchr str c = strrchr_loop str c 0 None"

lemma strchr_absent:
  "no_nul s \<Longrightarrow> c \<noteq> 0 \<Longrightarrow> \<forall>b\<in>set s. sint b \<noteq> c \<Longrightarrow> strchr (s @ 0 # y) c = Some None"
  by (induction s) (auto simp: no_nul_def)

lemma strchr_first:
  "no_nul s \<Longrightarrow> \<forall>b\<in>set s. sint b \<noteq> c \<Longrightarrow> sint x = c \<Longrightarrow> strchr (s @ x # y) c = Some (Some (length s))"
  by (induction s) (auto simp: no_nul_def)

lemma strrchr_loop_absent:
  "no_nul s \<Longrightarrow> c \<noteq> 0 \<Longrightarrow> \<forall>b\<in>set s. sint b \<noteq> c \<Longrightarrow> strrchr_loop (s @ 0 # y) c i p = Some p"
  by (induction s arbitrary: i) (auto simp: no_nul_def)

lemma strrchr_loop_prefix:
  "no_nul s \<Longrightarrow> \<exists>q. strrchr_loop (s @ t) c i p = strrchr_loop t c (i + length s) q"
proof (induction s arbitrary: i p)
  case Nil
  then show ?case by auto
next
  case (Cons a s)
  then have "a \<noteq> 0" and "no_nul s" by (auto simp: no_nul_def)
  with Cons.IH [of "Suc i" "if sint a = c then Some i else p"] show ?case by (simp add: Let_def)
qed

lemma strrchr_last:
  assumes "no_nul s" and "no_nul t" and "c \<noteq> 0" and "sint x = c" and "\<forall>b\<in>set t. sint b \<noteq> c"
  shows "strrchr (s @ x # t @ 0 # y) c = Some (Some (length s))"
proof -
  obtain q where "strrchr (s @ x # t @ 0 # y) c
      = strrchr_loop (x # t @ 0 # y) c (length s) q"
    using strrchr_loop_prefix [OF assms(1), of "x # t @ 0 # y" c 0 None]
    by (auto simp: strrchr_def)
  then show ?thesis
    using assms by (auto simp: Let_def strrchr_loop_absent)
qed

definition isspace :: "int \<Rightarrow> bool" where
  "isspace c \<longleftrightarrow> c = 32 \<or> c = 12 \<or> c = 10 \<or> c = 13 \<or> c = 9 \<or> c = 11"

section \<open>Parsing numbers\<close>

fun skip_space :: "bytes \<Rightarrow> bytes option" where
  "skip_space (c # s) = (if isspace (sint c) then skip_space s else Some (c # s))"
| "skip_space [] = None"

text \<open>\<^verbatim>\<open>digit = *nptr\<close> sign-extends the character into an \<^verbatim>\<open>unsigned int\<close>.\<close>

definition strtoul_digit :: "byte \<Rightarrow> u32" where
  "strtoul_digit c =
     (let digit = (word_of_int (sint c) :: u32)
      in if digit \<ge> 97 then digit - 97 + 10
         else if digit \<ge> 65 then digit - 65 + 10
         else if digit \<le> 57 then digit - 48
         else digit)"

fun strtoul_digits :: "bytes \<Rightarrow> u32 \<Rightarrow> 'w::len word \<Rightarrow> ('w word \<times> bytes) option" where
  "strtoul_digits (c # s) base val =
     (let digit = strtoul_digit c
      in if digit \<ge> base then Some (val, c # s)
         else strtoul_digits s base (val * ucast base + ucast digit))"
| "strtoul_digits [] base val = None"

text \<open>
  The sign and the base marker. \<open>'w\<close> is the width of \<^verbatim>\<open>unsigned long\<close>: 32 bits in the
  BIOS build, 64 bits in the EFI builds. The result is the value and the memory from the
  end pointer on.
\<close>

definition strtoul_sign :: "bytes \<Rightarrow> (bool \<times> bytes) option" where
  "strtoul_sign s = do {
     c \<leftarrow> rd s 0;
     if c = 43 then Some (False, drop 1 s)
     else if c = 45 then Some (True, drop 1 s)
     else Some (False, s) }"

definition strtoul_base :: "bytes \<Rightarrow> u32 \<Rightarrow> (u32 \<times> bytes) option" where
  "strtoul_base s base =
     (if base = 0 then do {
        c \<leftarrow> rd s 0;
        if c = 48 then do {
          c' \<leftarrow> rd s 1;
          if c' OR 0x20 = 120 then Some (16, drop 2 s) else Some (8, drop 1 s) }
        else Some (10, s) }
      else Some (base, s))"

definition strtoul :: "bytes \<Rightarrow> u32 \<Rightarrow> ('w::len word \<times> bytes) option" where
  "strtoul nptr base = do {
     s \<leftarrow> skip_space nptr;
     (negate, s) \<leftarrow> strtoul_sign s;
     (base, s) \<leftarrow> strtoul_base s base;
     (val, endptr) \<leftarrow> strtoul_digits s base 0;
     Some (if negate then - val else val, endptr) }"

text \<open>The value a digit string denotes, as a natural number.\<close>

definition digits_value :: "nat \<Rightarrow> bytes \<Rightarrow> nat" where
  "digits_value base ds = foldl (\<lambda>v c. v * base + unat (strtoul_digit c)) 0 ds"

lemma foldl_digits_of_nat:
  "of_nat (foldl (\<lambda>v c. v * unat b + unat (strtoul_digit c)) n ds) =
     foldl (\<lambda>v c. v * ucast b + ucast (strtoul_digit c)) (of_nat n :: 'w::len word) ds"
  by (induction ds arbitrary: n) (auto simp: of_nat_unat)

lemma strtoul_digits_foldl:
  "\<forall>c\<in>set ds. strtoul_digit c < base \<Longrightarrow> strtoul_digit c \<ge> base \<Longrightarrow>
     strtoul_digits (ds @ c # s) base val =
       Some (foldl (\<lambda>v d. v * ucast base + ucast (strtoul_digit d)) val ds, c # s)"
  by (induction ds arbitrary: val) (auto simp: Let_def not_le)

lemma strtoul_digits_value:
  assumes "\<forall>d\<in>set ds. strtoul_digit d < base" and "strtoul_digit c \<ge> base"
  shows "strtoul_digits (ds @ c # s) base (0 :: 'w::len word) =
           Some (of_nat (digits_value (unat base) ds), c # s)"
  using strtoul_digits_foldl [OF assms, of s "0 :: 'w word"] foldl_digits_of_nat [of base 0 ds, where 'w = 'w]
  by (simp add: digits_value_def)

lemma digits_value_bound:
  assumes "\<forall>d\<in>set ds. strtoul_digit d < b"
  shows "digits_value (unat b) ds < unat b ^ length ds"
  using assms
proof (induction ds rule: rev_induct)
  case Nil
  then show ?case by (simp add: digits_value_def)
next
  case (snoc d ds)
  then have 1: "digits_value (unat b) ds + 1 \<le> unat b ^ length ds" and
    2: "unat (strtoul_digit d) < unat b"
    by (auto simp: word_less_nat_alt)
  have "digits_value (unat b) (ds @ [d]) < (digits_value (unat b) ds + 1) * unat b"
    using 2 by (simp add: digits_value_def)
  also have "\<dots> \<le> unat b ^ length ds * unat b"
    using 1 by (rule mult_right_mono) simp
  finally show ?case by (simp add: mult.commute)
qed

lemma skip_space_spaces:
  "\<forall>c\<in>set sp. isspace (sint c) \<Longrightarrow> \<not> isspace (sint c) \<Longrightarrow> skip_space (sp @ c # s) = Some (c # s)"
  by (induction sp) auto

text \<open>The characters of a string up to its NUL.\<close>

fun until_nul :: "'a::len word list \<Rightarrow> 'a word list option" where
  "until_nul (c # s) = (if c = 0 then Some [] else map_option ((#) c) (until_nul s))"
| "until_nul [] = None"

lemma until_nul_append: "no_nul s \<Longrightarrow> until_nul (s @ 0 # x) = Some s"
  by (induction s) (auto simp: no_nul_def)

end
