(* ===== verification/Printf.thy ===== *)
theory Printf
  imports CString
begin

text \<open>
  The formatted printing of \<^verbatim>\<open>posix/vsprintf.c\<close>. The characters a conversion produces are
  built backwards in \<^verbatim>\<open>tmp_buf\<close>; here a buffer is the list of characters between \<^verbatim>\<open>ptr\<close>
  and \<^verbatim>\<open>end\<close>, and a push below the start of the array is \<open>None\<close>. The characters handed to
  the context's handler are a list of \<^verbatim>\<open>unsigned int\<close>, and the handler
  \<^verbatim>\<open>printf_sputc\<close> of \<^verbatim>\<open>vsnprintf\<close> is run over it.
\<close>

definition LCASE :: u32 where "LCASE = 0x20"
definition ALT_FORM :: u32 where "ALT_FORM = 0x02"
definition ZPAD :: u32 where "ZPAD = 0x10"

definition push :: "nat \<Rightarrow> byte \<Rightarrow> bytes \<Rightarrow> bytes option" where
  "push cap c buf = (if length buf < cap then Some (c # buf) else None)"

lemma push_Some_iff: "push cap c buf = Some b \<longleftrightarrow> length buf < cap \<and> b = c # buf"
  by (auto simp: push_def)

definition hex_char :: "u64 \<Rightarrow> byte" where
  "hex_char d = (if d < 10 then 48 + ucast d else 55 + ucast d)"

section \<open>Numbers\<close>

lemma unat_drop_bit_4: "unat (drop_bit 4 u) = unat (u :: u64) div 16"
  by (simp only: unat_drop_bit_eq) (simp add: drop_bit_eq_div)

lemma unat_div_10: "unat (u div 10) = unat (u :: u64) div 10"
  by (simp add: unat_div_distrib)

lemma drop_bit_4_less: "drop_bit 4 u \<noteq> 0 \<Longrightarrow> unat (drop_bit 4 u) < unat (u :: u64)"
  by (cases "unat u = 0") (auto simp: unat_drop_bit_4 unsigned_eq_0_iff intro!: div_less_dividend gr0I)

lemma div_10_less: "u div 10 \<noteq> 0 \<Longrightarrow> unat (u div 10) < unat (u :: u64)"
  by (cases "unat u = 0") (auto simp: unat_div_10 unsigned_eq_0_iff intro!: div_less_dividend gr0I)

function hex_digits :: "nat \<Rightarrow> u64 \<Rightarrow> byte \<Rightarrow> bytes \<Rightarrow> bytes option" where
  "hex_digits cap u case_mod buf = do {
     buf \<leftarrow> push cap (hex_char (u AND 15) OR case_mod) buf;
     if drop_bit 4 u \<noteq> 0 then hex_digits cap (drop_bit 4 u) case_mod buf else Some buf }"
  by pat_completeness auto
termination
  by (relation "measure (\<lambda>(_, u, _, _). unat u)") (auto intro: drop_bit_4_less)

function dec_digits :: "nat \<Rightarrow> u64 \<Rightarrow> bytes \<Rightarrow> bytes option" where
  "dec_digits cap u buf = do {
     buf \<leftarrow> push cap (48 + ucast (u mod 10)) buf;
     if u div 10 \<noteq> 0 then dec_digits cap (u div 10) buf else Some buf }"
  by pat_completeness auto
termination
  by (relation "measure (\<lambda>(_, u, _). unat u)") (auto intro: div_10_less)

function pad_to :: "nat \<Rightarrow> nat \<Rightarrow> byte \<Rightarrow> bytes \<Rightarrow> bytes option" where
  "pad_to cap width pad buf =
     (if length buf < width then do { buf' \<leftarrow> push cap pad buf; pad_to cap width pad buf' }
      else Some buf)"
  by pat_completeness auto
termination
  by (relation "measure (\<lambda>(_, width, _, buf). width - length buf)") (auto simp: push_Some_iff)

declare hex_digits.simps [simp del] dec_digits.simps [simp del] pad_to.simps [simp del]

definition format_hex :: "nat \<Rightarrow> u64 \<Rightarrow> nat \<Rightarrow> u32 \<Rightarrow> bytes option" where
  "format_hex cap num width flags =
     (let case_mod = ucast (flags AND LCASE); pad = ucast (flags AND ZPAD) OR 32
      in do {
        buf \<leftarrow> hex_digits cap num case_mod [];
        buf \<leftarrow> pad_to cap width pad buf;
        if flags AND ALT_FORM \<noteq> 0 then do {
          buf \<leftarrow> push cap (88 OR case_mod) buf;
          push cap 48 buf }
        else Some buf })"

definition format_decimal :: "nat \<Rightarrow> u64 \<Rightarrow> nat \<Rightarrow> u32 \<Rightarrow> bytes option" where
  "format_decimal cap num width flags =
     (let zpad = flags AND ZPAD; pad = ucast zpad OR 32;
          negative = (flags AND ALT_FORM \<noteq> 0 \<and> sint num < 0);
          u = (if negative then - num else num)
      in do {
        buf \<leftarrow> dec_digits cap u [];
        buf \<leftarrow> (if negative \<and> zpad = 0 then push cap 45 buf else Some buf);
        buf \<leftarrow> pad_to cap width pad buf;
        if negative \<and> zpad \<noteq> 0 then wr buf 0 45 else Some buf })"

text \<open>The digits, most significant first.\<close>

function hex_list :: "u64 \<Rightarrow> byte \<Rightarrow> bytes" where
  "hex_list u cm = (if drop_bit 4 u \<noteq> 0 then hex_list (drop_bit 4 u) cm else [])
                   @ [hex_char (u AND 15) OR cm]"
  by pat_completeness auto
termination
  by (relation "measure (\<lambda>(u, _). unat u)") (auto intro: drop_bit_4_less)

function dec_list :: "u64 \<Rightarrow> bytes" where
  "dec_list u = (if u div 10 \<noteq> 0 then dec_list (u div 10) else []) @ [48 + ucast (u mod 10)]"
  by pat_completeness auto
termination
  by (relation "measure unat") (auto intro: div_10_less)

declare hex_list.simps [simp del] dec_list.simps [simp del]

lemma hex_list_nonempty: "hex_list u cm \<noteq> []"
  by (subst hex_list.simps) simp

lemma dec_list_nonempty: "dec_list u \<noteq> []"
  by (subst dec_list.simps) simp

lemma hex_digits_eq:
  "length (hex_list u cm) + length buf \<le> cap \<Longrightarrow> hex_digits cap u cm buf = Some (hex_list u cm @ buf)"
proof (induction cap u cm buf rule: hex_digits.induct)
  case (1 cap u cm buf)
  show ?case
  proof (cases "drop_bit 4 u = 0")
    case True
    then show ?thesis
      using "1.prems" by (simp add: hex_digits.simps [of cap u] hex_list.simps [of u] push_def)
  next
    case False
    then have l: "length (hex_list u cm) = Suc (length (hex_list (drop_bit 4 u) cm))"
      by (simp add: hex_list.simps [of u])
    with False "1.prems"
    have "hex_digits cap (drop_bit 4 u) cm ((hex_char (u AND 15) OR cm) # buf) =
        Some (hex_list (drop_bit 4 u) cm @ (hex_char (u AND 15) OR cm) # buf)"
      by (intro "1.IH") (auto simp: push_def)
    then show ?thesis
      using False "1.prems" l
      by (simp add: hex_digits.simps [of cap u] hex_list.simps [of u] push_def)
  qed
qed

lemma dec_digits_eq:
  "length (dec_list u) + length buf \<le> cap \<Longrightarrow> dec_digits cap u buf = Some (dec_list u @ buf)"
proof (induction cap u buf rule: dec_digits.induct)
  case (1 cap u buf)
  show ?case
  proof (cases "u div 10 = 0")
    case True
    then show ?thesis
      using "1.prems" by (simp add: dec_digits.simps [of cap u] dec_list.simps [of u] push_def)
  next
    case False
    then have l: "length (dec_list u) = Suc (length (dec_list (u div 10)))"
      by (simp add: dec_list.simps [of u])
    with False "1.prems"
    have "dec_digits cap (u div 10) ((48 + ucast (u mod 10)) # buf) =
        Some (dec_list (u div 10) @ (48 + ucast (u mod 10)) # buf)"
      by (intro "1.IH") (auto simp: push_def)
    then show ?thesis
      using False "1.prems" l
      by (simp add: dec_digits.simps [of cap u] dec_list.simps [of u] push_def)
  qed
qed

lemma pad_to_eq:
  "width \<le> cap \<Longrightarrow> pad_to cap width pad buf = Some (replicate (width - length buf) pad @ buf)"
proof (induction cap width pad buf rule: pad_to.induct)
  case (1 cap width pad buf)
  show ?case
  proof (cases "length buf < width")
    case True
    then have "pad_to cap width pad (pad # buf) =
        Some (replicate (width - length (pad # buf)) pad @ pad # buf)"
      using "1.prems" by (intro "1.IH") (auto simp: push_def)
    moreover have "width - length buf = Suc (width - length (pad # buf))" using True by simp
    ultimately show ?thesis
      using True "1.prems"
      by (simp add: pad_to.simps [of cap width pad buf] push_def replicate_app_Cons_same)
  next
    case False
    then show ?thesis by (simp add: pad_to.simps [of cap width pad buf])
  qed
qed

lemma hex_list_length:
  "unat u < 16 ^ n \<Longrightarrow> 0 < n \<Longrightarrow> length (hex_list u cm) \<le> n"
proof (induction n arbitrary: u)
  case 0
  then show ?case by simp
next
  case (Suc n)
  have d: "unat (drop_bit 4 u) = unat u div 16"
    by (rule unat_drop_bit_4)
  show ?case
  proof (cases "drop_bit 4 u = 0")
    case True
    then show ?thesis by (simp add: hex_list.simps [of u])
  next
    case False
    then have "unat u div 16 \<noteq> 0" using d by (metis unsigned_eq_0_iff)
    then have "0 < n" using Suc.prems by (cases n) auto
    moreover have "unat (drop_bit 4 u) < 16 ^ n"
      using Suc.prems d by (simp add: less_mult_imp_div_less mult.commute)
    ultimately show ?thesis
      using False Suc.IH [of "drop_bit 4 u"] by (simp add: hex_list.simps [of u])
  qed
qed

lemma hex_list_length_16: "length (hex_list u cm) \<le> 16"
proof -
  have "unat u < 2 ^ 64" using unat_bound [of u] by simp
  then show ?thesis by (intro hex_list_length) simp_all
qed

lemma dec_list_length:
  "unat u < 10 ^ n \<Longrightarrow> 0 < n \<Longrightarrow> length (dec_list u) \<le> n"
proof (induction n arbitrary: u)
  case 0
  then show ?case by simp
next
  case (Suc n)
  have d: "unat (u div 10) = unat u div 10" by (simp add: unat_div_distrib)
  show ?case
  proof (cases "u div 10 = 0")
    case True
    then show ?thesis by (simp add: dec_list.simps [of u])
  next
    case False
    then have "unat u div 10 \<noteq> 0" using d by (metis unsigned_eq_0_iff)
    then have "0 < n" using Suc.prems by (cases n) auto
    moreover have "unat (u div 10) < 10 ^ n"
      using Suc.prems d by (simp add: less_mult_imp_div_less mult.commute)
    ultimately show ?thesis
      using False Suc.IH [of "u div 10"] by (simp add: dec_list.simps [of u])
  qed
qed

lemma dec_list_length_20: "length (dec_list u) \<le> 20"
proof -
  have "unat u < 2 ^ 64" using unat_bound [of u] by simp
  then show ?thesis by (intro dec_list_length) simp_all
qed


lemma hex_char_digit:
  assumes "unat d < 16" and "cm = 0 \<or> cm = 0x20"
  shows "strtoul_digit (hex_char d OR cm) = ucast d"
  using small_cases [OF assms(1)] assms(2)
  by (elim disjE) (simp_all add: strtoul_digit_def hex_char_def Let_def)

lemma unat_and_15: "unat (u AND 15 :: u64) = unat u mod 16"
proof -
  have "u AND 15 = take_bit 4 u" by (simp add: take_bit_eq_mask mask_eq_exp_minus_1)
  then show ?thesis by (simp add: take_bit_eq_mod unat_mod_distrib)
qed

lemma digits_value_append:
  "digits_value b (ds @ [c]) = digits_value b ds * b + unat (strtoul_digit c)"
  by (simp add: digits_value_def)

lemma hex_list_value:
  "cm = 0 \<or> cm = 0x20 \<Longrightarrow> digits_value 16 (hex_list u cm) = unat u"
proof (induction u cm rule: hex_list.induct)
  case (1 u cm)
  have d: "strtoul_digit (hex_char (u AND 15) OR cm) = ucast (u AND 15)"
    using "1.prems" by (intro hex_char_digit) (simp_all add: unat_and_15)
  have u: "unat (ucast (u AND 15) :: u32) = unat u mod 16"
    by (simp add: unsigned_ucast_eq unat_and_15 take_bit_eq_mod)
  show ?case
  proof (cases "drop_bit 4 u = 0")
    case True
    then have "unat u div 16 = 0" using unat_drop_bit_4 [of u] by simp
    then show ?thesis
      using True d u by (simp add: hex_list.simps [of u] digits_value_def)
  next
    case False
    then show ?thesis
      using "1.IH" "1.prems" d u
      by (simp add: hex_list.simps [of u] digits_value_append unat_drop_bit_4)
  qed
qed

lemma hex_list_digits:
  "cm = 0 \<or> cm = 0x20 \<Longrightarrow> \<forall>c\<in>set (hex_list u cm). strtoul_digit c < 16"
proof (induction u cm rule: hex_list.induct)
  case (1 u cm)
  have "strtoul_digit (hex_char (u AND 15) OR cm) = ucast (u AND 15)"
    using "1.prems" by (intro hex_char_digit) (simp_all add: unat_and_15)
  moreover have "(ucast (u AND 15) :: u32) < 16"
    by (simp add: word_less_nat_alt unsigned_ucast_eq unat_and_15 take_bit_eq_mod)
  ultimately show ?case
    using "1.IH" "1.prems" by (subst hex_list.simps) auto
qed

lemma dec_char_digit:
  assumes "unat (d :: u64) < 10"
  shows "strtoul_digit (48 + ucast d) = ucast d"
proof -
  have "unat d < 16" using assms by simp
  from small_cases [OF this] assms show ?thesis
    by (elim disjE) (simp_all add: strtoul_digit_def Let_def)
qed

lemma dec_list_value: "digits_value 10 (dec_list u) = unat u"
proof (induction u rule: dec_list.induct)
  case (1 u)
  have m: "unat (u mod 10) = unat u mod 10" by (simp add: unat_mod_distrib)
  have d: "strtoul_digit (48 + ucast (u mod 10)) = ucast (u mod 10)"
    by (rule dec_char_digit) (simp add: m)
  have v: "unat (ucast (u mod 10) :: u32) = unat u mod 10"
    by (simp add: unsigned_ucast_eq m take_bit_eq_mod)
  show ?case
  proof (cases "u div 10 = 0")
    case True
    then have "unat u div 10 = 0" using unat_div_10 [of u] by simp
    then show ?thesis using True d v by (simp add: dec_list.simps [of u] digits_value_def)
  next
    case False
    then show ?thesis
      using "1.IH" d v by (simp add: dec_list.simps [of u] digits_value_append unat_div_10)
  qed
qed

lemma dec_list_digits: "\<forall>c\<in>set (dec_list u). strtoul_digit c < 10"
proof (induction u rule: dec_list.induct)
  case (1 u)
  have m: "unat (u mod 10) = unat u mod 10" by (simp add: unat_mod_distrib)
  have "strtoul_digit (48 + ucast (u mod 10)) = ucast (u mod 10)"
    by (rule dec_char_digit) (simp add: m)
  moreover have "(ucast (u mod 10) :: u32) < 10"
    by (simp add: word_less_nat_alt unsigned_ucast_eq m take_bit_eq_mod)
  ultimately show ?case using "1.IH" by (subst dec_list.simps) auto
qed


section \<open>Format strings\<close>

text \<open>
  \<^verbatim>\<open>type_sizes\<close>: the sizes of \<^verbatim>\<open>char\<close>, \<^verbatim>\<open>short\<close>, \<^verbatim>\<open>int\<close>, \<^verbatim>\<open>long\<close>, \<^verbatim>\<open>long long\<close> and
  \<^verbatim>\<open>size_t\<close>, indexed from \<^verbatim>\<open>CHAR_LEN\<close> to \<^verbatim>\<open>SIZE_T_LEN\<close>, in the 64-bit and in the 32-bit
  build. The pointer \<^verbatim>\<open>length\<close> is the index.
\<close>

definition type_sizes_lp64 :: "nat list" where "type_sizes_lp64 = [1, 2, 4, 8, 8, 8]"
definition type_sizes_ilp32 :: "nat list" where "type_sizes_ilp32 = [1, 2, 4, 4, 8, 4]"

text \<open>
  A variadic argument: an integer (or pointer value), a \<^verbatim>\<open>char *\<close> or a \<^verbatim>\<open>wchar_t *\<close>, the
  strings given as the memory from the pointer on, or NULL.
\<close>

datatype arg = AInt u64 | AStr "bytes option" | AWStr "u16 list option"

fun fmt_flags :: "bytes \<Rightarrow> u32 \<Rightarrow> (u32 \<times> bytes) option" where
  "fmt_flags (c # fmt) flags =
     (if c = 35 then fmt_flags fmt (flags OR ALT_FORM)
      else if c = 48 then fmt_flags fmt (flags OR ZPAD)
      else Some (flags, c # fmt))"
| "fmt_flags [] flags = None"

fun fmt_width :: "bytes \<Rightarrow> nat \<Rightarrow> (nat \<times> bytes) option" where
  "fmt_width (c # fmt) width =
     (if 48 \<le> c \<and> c \<le> 57 then
        (let width' = width * 10 + (unat c - 48)
         in if width' < 2 ^ 31 then fmt_width fmt width' else None)
      else Some (width, c # fmt))"
| "fmt_width [] width = None"

fun fmt_length :: "bytes \<Rightarrow> int \<Rightarrow> (int \<times> bytes) option" where
  "fmt_length (c # fmt) len =
     (if c = 104 then fmt_length fmt (len - 1)
      else if c = 108 then fmt_length fmt (len + 1)
      else if c = 122 then fmt_length fmt 5
      else Some (len, c # fmt))"
| "fmt_length [] len = None"

definition type_size :: "nat list \<Rightarrow> int \<Rightarrow> nat option" where
  "type_size sizes len = (if 0 \<le> len then rd sizes (nat len) else None)"

text \<open>\<^verbatim>\<open>va_arg\<close> for the unsigned and the signed conversions, by the size asked for.\<close>

definition va_unsigned :: "nat list \<Rightarrow> nat \<Rightarrow> u64 \<Rightarrow> u64" where
  "va_unsigned sizes bsz v =
     (if bsz \<ge> 8 then v
      else if bsz \<ge> sizes ! 3 then take_bit (8 * sizes ! 3) v
      else take_bit 32 v)"

definition va_signed :: "nat list \<Rightarrow> nat \<Rightarrow> u64 \<Rightarrow> u64" where
  "va_signed sizes bsz v =
     (if bsz \<ge> 8 then v
      else if bsz \<ge> sizes ! 3 \<and> sizes ! 3 = 8 then v
      else scast (ucast v :: u32))"

text \<open>
  One conversion: the characters handed to the handler and the arguments left. A
  character written from a \<^verbatim>\<open>char\<close> is sign-extended into the handler's \<^verbatim>\<open>unsigned int\<close>.
\<close>

definition emit :: "bytes \<Rightarrow> u32 list" where
  "emit cs = map scast (takeWhile (\<lambda>c. c \<noteq> 0) cs)"

definition next_int :: "arg list \<Rightarrow> (u64 \<times> arg list) option" where
  "next_int args = (case args of AInt v # as \<Rightarrow> Some (v, as) | _ \<Rightarrow> None)"

definition conversion ::
  "nat list \<Rightarrow> u32 \<Rightarrow> nat \<Rightarrow> int \<Rightarrow> byte \<Rightarrow> arg list \<Rightarrow> (u32 list \<times> arg list) option" where
  "conversion sizes flags width len c args =
     (if c = 99 then do {
        (v, as) \<leftarrow> next_int args;
        Some (if len < 3 then [ucast v] else emit [ucast v], as) }
      else if c = 115 then
        (if len < 3 then
           (case args of
              AStr (Some s) # as \<Rightarrow> map_option (\<lambda>cs. (emit cs, as)) (until_nul s)
            | AStr None # as \<Rightarrow> Some (emit [60, 78, 85, 76, 76, 62], as)
            | _ \<Rightarrow> None)
         else
           (case args of
              AWStr (Some s) # as \<Rightarrow>
                map_option (\<lambda>ws. (map (\<lambda>w. scast (ucast w :: byte)) ws, as)) (until_nul s)
            | AWStr None # as \<Rightarrow> Some ([], as)
            | _ \<Rightarrow> None))
      else if c = 112 then do {
        (v, as) \<leftarrow> next_int args;
        ptr \<leftarrow> format_hex 31 v width (ALT_FORM OR LCASE);
        Some (emit ptr, as) }
      else if c AND NOT 0x20 = 88 then do {
        (v, as) \<leftarrow> next_int args;
        bsz \<leftarrow> type_size sizes len;
        ptr \<leftarrow> format_hex 31 (va_unsigned sizes bsz v) width (flags OR ucast (c AND 0x20));
        Some (emit ptr, as) }
      else if c = 100 \<or> c = 105 then do {
        (v, as) \<leftarrow> next_int args;
        bsz \<leftarrow> type_size sizes len;
        ptr \<leftarrow> format_decimal 31 (va_signed sizes bsz v) width (flags OR ALT_FORM);
        Some (emit ptr, as) }
      else if c = 117 then do {
        (v, as) \<leftarrow> next_int args;
        bsz \<leftarrow> type_size sizes len;
        ptr \<leftarrow> format_decimal 31 (va_unsigned sizes bsz v) width (flags AND NOT ALT_FORM);
        Some (emit ptr, as) }
      else Some (emit [c], args))"

lemma fmt_flags_len: "fmt_flags fmt fl = Some (fl', fmt') \<Longrightarrow> length fmt' \<le> length fmt"
  by (induction fmt fl rule: fmt_flags.induct) (auto split: if_splits)

lemma fmt_width_len: "fmt_width fmt w = Some (w', fmt') \<Longrightarrow> length fmt' \<le> length fmt"
  by (induction fmt w rule: fmt_width.induct) (auto simp: Let_def split: if_splits)

lemma fmt_length_len: "fmt_length fmt l = Some (l', fmt') \<Longrightarrow> length fmt' \<le> length fmt"
  by (induction fmt l rule: fmt_length.induct) (auto split: if_splits)

text \<open>
  The loop of \<^verbatim>\<open>vcprintf\<close>: everything handed to the handler, in order. After a conversion the
  loop steps over its specifier even when that is the NUL.
\<close>

function vcprintf :: "nat list \<Rightarrow> bytes \<Rightarrow> arg list \<Rightarrow> u32 list option" where
  "vcprintf sizes fmt args =
     (case fmt of
        [] \<Rightarrow> None
      | c # rest \<Rightarrow>
          if c = 0 then Some []
          else if c \<noteq> 37 then map_option ((#) (scast c)) (vcprintf sizes rest args)
          else do {
            (flags, f1) \<leftarrow> fmt_flags rest 0;
            (width, f2) \<leftarrow> fmt_width f1 0;
            (len, f3) \<leftarrow> fmt_length f2 2;
            (out, args') \<leftarrow> conversion sizes flags width len (hd f3) args;
            map_option ((@) out) (vcprintf sizes (tl f3) args') })"
  by pat_completeness auto
termination
  by (relation "measure (\<lambda>(_, fmt, _). length fmt)")
     (auto dest!: fmt_flags_len fmt_width_len fmt_length_len)

declare vcprintf.simps [simp del]

text \<open>\<^verbatim>\<open>printf_sputc\<close>, run over the characters with the context's running length.\<close>

fun printf_sputc :: "nat \<Rightarrow> nat \<Rightarrow> u32 list \<Rightarrow> bytes \<Rightarrow> bytes option" where
  "printf_sputc max_len len [] buf = Some buf"
| "printf_sputc max_len len (c # cs) buf = do {
     buf \<leftarrow> (if len < max_len then wr buf len (ucast c) else Some buf);
     printf_sputc max_len (Suc len) cs buf }"

definition vsnprintf :: "nat list \<Rightarrow> bytes \<Rightarrow> nat \<Rightarrow> bytes \<Rightarrow> arg list \<Rightarrow> (nat \<times> bytes) option" where
  "vsnprintf sizes buf bsz fmt args = do {
     out \<leftarrow> vcprintf sizes fmt args;
     buf \<leftarrow> printf_sputc bsz 0 out buf;
     buf \<leftarrow> (if bsz \<noteq> 0 then
               (let end = bsz - 1; end = (if length out < end then length out else end)
                in wr buf end 0)
             else Some buf);
     Some (length out, buf) }"

definition vssnprintf :: "nat list \<Rightarrow> bytes \<Rightarrow> int \<Rightarrow> bytes \<Rightarrow> arg list \<Rightarrow> (nat \<times> bytes) option" where
  "vssnprintf sizes buf ssize fmt args =
     vsnprintf sizes buf (nat (if ssize < 0 then 0 else ssize)) fmt args"

section \<open>What vsnprintf leaves in the buffer\<close>

lemma printf_sputc_eq:
  assumes "max_len \<le> length buf" and "len \<le> max_len"
  shows "printf_sputc max_len len cs buf =
     Some (take len buf @ map ucast (take (max_len - len) cs)
             @ drop (len + min (length cs) (max_len - len)) buf)"
  using assms
proof (induction cs arbitrary: len buf)
  case Nil
  then show ?case by simp
next
  case (Cons c cs)
  show ?case
  proof (cases "len < max_len")
    case True
    have "printf_sputc max_len (Suc len) cs (buf[len := ucast c]) =
        Some (take (Suc len) (buf[len := ucast c]) @ map ucast (take (max_len - Suc len) cs)
          @ drop (Suc len + min (length cs) (max_len - Suc len)) (buf[len := ucast c]))"
      using Cons.prems True by (intro Cons.IH) auto
    moreover have "max_len - len = Suc (max_len - Suc len)" using True by simp
    ultimately show ?thesis
      using True Cons.prems by (simp add: wr_def take_Suc_conv_app_nth)
  next
    case False
    then have "len = max_len" using Cons.prems by simp
    moreover have "printf_sputc max_len (Suc n) cs buf = Some buf" if "max_len \<le> n" for n
      using that by (induction cs arbitrary: n) auto
    ultimately show ?thesis by simp
  qed
qed

lemma vsnprintf_result:
  assumes "vcprintf sizes fmt args = Some out" and "bsz \<le> length buf" and "0 < bsz"
  shows "vsnprintf sizes buf bsz fmt args =
     Some (length out,
           map ucast (take (bsz - 1) out) @ 0 # drop (Suc (min (length out) (bsz - 1))) buf)"
proof -
  let ?e = "min (length out) (bsz - 1)"
  let ?b = "map ucast (take bsz out) @ drop (min (length out) bsz) buf"
  have 1: "printf_sputc bsz 0 out buf = Some ?b"
    using printf_sputc_eq [of bsz buf 0 out] assms by simp
  have len: "?e < length ?b" using assms by (auto simp: min_def)
  have fin: "(if length out < bsz - 1 then length out else bsz - 1) = ?e" by simp
  have "?b[?e := 0] = take ?e ?b @ 0 # drop (Suc ?e) ?b"
    using len by (simp add: upd_conv_take_nth_drop)
  also have "take ?e ?b = map ucast (take (bsz - 1) out)"
    using assms by (auto simp: min_def take_map)
  also have "drop (Suc ?e) ?b = drop (Suc ?e) buf"
    using assms by (auto simp: min_def drop_map)
  finally have w: "wr ?b ?e 0 =
      Some (map ucast (take (bsz - 1) out) @ 0 # drop (Suc ?e) buf)"
    using len by (simp add: wr_def del: list_update_append)
  show ?thesis
    unfolding vsnprintf_def assms(1) bind.bind_lunit 1 Let_def fin w using assms(3) by simp
qed

lemma takeWhile_no_nul: "no_nul s \<Longrightarrow> takeWhile (\<lambda>c. c \<noteq> 0) s = s"
  by (induction s) (auto simp: no_nul_def)

lemma ucast_scast_byte: "ucast (scast (b :: byte) :: u32) = b"
proof (rule bit_word_eqI)
  fix n assume "n < LENGTH(8)"
  then have "n < 7 \<or> n = 7" by auto
  then show "bit (ucast (scast b :: u32) :: byte) n = bit b n"
    by (auto simp: bit_simps min_def)
qed

lemma map_ucast_scast: "map (ucast :: u32 \<Rightarrow> byte) (map scast s) = (s :: bytes)"
  by (induction s) (auto simp: ucast_scast_byte)

lemma vcprintf_percent_s:
  "no_nul s \<Longrightarrow> vcprintf sizes [37, 115, 0] [AStr (Some (s @ 0 # x))] = Some (map scast s)"
  by (simp add: vcprintf.simps conversion_def until_nul_append emit_def takeWhile_no_nul)

text \<open>\<^verbatim>\<open>snprintf (buf, size, "%s", str)\<close>, the copy used for every argument and file name.\<close>

lemma snprintf_s:
  assumes "no_nul s" and "bsz \<le> length buf" and "0 < bsz"
  shows "vsnprintf sizes buf bsz [37, 115, 0] [AStr (Some (s @ 0 # x))] =
     Some (length s, take (bsz - 1) s @ 0 # drop (Suc (min (length s) (bsz - 1))) buf)"
  using vsnprintf_result [OF vcprintf_percent_s [OF assms(1)] assms(2,3)]
  by (simp add: take_map [symmetric] map_ucast_scast del: map_map)

end
