(* ===== verification/Cmdline.thy ===== *)
theory Cmdline
  imports Printf
begin

text \<open>
  The command line of \<^verbatim>\<open>kern/cmdline.c\<close>: the argument record, the tokenizer that edits the
  command line in place and undoes it, and what every argument sets. The command line is the
  memory it lies in and a pointer is an offset; a call of \<^verbatim>\<open>die\<close> ends the program and is a
  value of its own.
\<close>

text \<open>A string literal, with its NUL.\<close>

definition cstr :: "string \<Rightarrow> bytes" where
  "cstr s = map of_char s @ [0]"

definition NTBOOT_WIM :: u32 where "NTBOOT_WIM = 0"
definition NTBOOT_VHD :: u32 where "NTBOOT_VHD = 1"
definition NTBOOT_WOS :: u32 where "NTBOOT_WOS = 2"
definition NTBOOT_REC :: u32 where "NTBOOT_REC = 3"
definition NTBOOT_RAM :: u32 where "NTBOOT_RAM = 4"

definition NTARG_BOOL_TRUE :: byte where "NTARG_BOOL_TRUE = 1"
definition NTARG_BOOL_FALSE :: byte where "NTARG_BOOL_FALSE = 0"
definition NTARG_BOOL_UNSET :: byte where "NTARG_BOOL_UNSET = 0xff"
definition NTARG_BOOL_NA :: byte where "NTARG_BOOL_NA = 0x0f"

definition MAX_PATH :: nat where "MAX_PATH = 255"

text \<open>\<^verbatim>\<open>struct nt_args\<close>; an array is the list of its bytes.\<close>

record nt_args =
  textmode :: byte
  testmode :: byte
  hires :: byte
  hal :: byte
  minint :: byte
  novga :: byte
  novesa :: byte
  safemode :: byte
  altshell :: byte
  exportcd :: byte
  advmenu :: byte
  optedit :: byte
  nx :: u64
  pae :: u64
  timeout :: u64
  safeboot :: u64
  gfxmode :: u64
  imgofs :: u64
  loadopt :: bytes
  winload :: bytes
  sysroot :: bytes
  boottype :: u32
  fsuuid :: bytes
  partid :: bytes
  diskid :: bytes
  partmap :: byte
  filepath :: bytes
  initrd_path :: bytes

text \<open>An array initialised by a string is filled up with zeros.\<close>

definition char_array :: "nat \<Rightarrow> string \<Rightarrow> bytes" where
  "char_array n s = map of_char s @ replicate (n - length s) 0"

definition initial_args :: nt_args where
  "initial_args =
     \<lparr> textmode = NTARG_BOOL_FALSE, testmode = NTARG_BOOL_FALSE, hires = NTARG_BOOL_UNSET,
       hal = NTARG_BOOL_TRUE, minint = NTARG_BOOL_UNSET, novga = NTARG_BOOL_FALSE,
       novesa = NTARG_BOOL_FALSE, safemode = NTARG_BOOL_FALSE, altshell = NTARG_BOOL_FALSE,
       exportcd = NTARG_BOOL_FALSE, advmenu = NTARG_BOOL_FALSE, optedit = NTARG_BOOL_FALSE,
       nx = 0, pae = 0, timeout = 0, safeboot = 0, gfxmode = 0, imgofs = 65536,
       loadopt = char_array 128 ''/DISABLE_INTEGRITY_CHECKS'', winload = char_array 64 [],
       sysroot = char_array 32 (CHR 0x5C # ''Windows''),
       boottype = NTBOOT_WOS, fsuuid = char_array 17 [], partid = replicate 16 0,
       diskid = replicate 16 0, partmap = 1, filepath = char_array (MAX_PATH + 1) [],
       initrd_path = char_array (MAX_PATH + 1) (CHR 0x5C # ''initrd.cpio'') \<rparr>"

text \<open>What \<^verbatim>\<open>die\<close> reports.\<close>

datatype death = Needs_value string | Invalid_imgofs

section \<open>Values\<close>

fun convert_path :: "bytes \<Rightarrow> bool \<Rightarrow> bytes option" where
  "convert_path (c # str) backslash =
     (if c = 0 then Some (c # str)
      else
        let c1 = (if c = 0x2F \<and> backslash then 0x5C else c);
            c2 = (if c1 = 0x3A then 0x20 else c1);
            c3 = (if c2 = 0x0D \<or> c2 = 0x0A then 0 else c2)
        in map_option ((#) c3) (convert_path str backslash))"
| "convert_path [] backslash = None"

text \<open>A chain of comparisons: the first that holds selects the action.\<close>

fun first_equal :: "(bytes \<Rightarrow> bytes \<Rightarrow> int option) \<Rightarrow> bytes \<Rightarrow> (string \<times> 'a) list \<Rightarrow> 'a \<Rightarrow> 'a option" where
  "first_equal cmp str [] other = Some other"
| "first_equal cmp str ((name, act) # acts) other = do {
     d \<leftarrow> cmp str (cstr name);
     if d = 0 then Some act else first_equal cmp str acts other }"

definition convert_bool :: "bytes option \<Rightarrow> byte option" where
  "convert_bool str =
     (case str of
        None \<Rightarrow> Some NTARG_BOOL_TRUE
      | Some s \<Rightarrow> first_equal strcasecmp s
          [(''yes'', NTARG_BOOL_TRUE), (''on'', NTARG_BOOL_TRUE), (''true'', NTARG_BOOL_TRUE),
           (''1'', NTARG_BOOL_TRUE)] NTARG_BOOL_FALSE)"

text \<open>\<^verbatim>\<open>snprintf (buf, n, "%s", value); convert_path (buf, backslash)\<close>.\<close>

definition copy_string :: "bytes \<Rightarrow> nat \<Rightarrow> bytes \<Rightarrow> bytes option" where
  "copy_string buf n v = map_option snd (vsnprintf type_sizes_lp64 buf n [37, 115, 0] [AStr (Some v)])"

definition copy_path :: "bytes \<Rightarrow> nat \<Rightarrow> bytes \<Rightarrow> bool \<Rightarrow> bytes option" where
  "copy_path buf n v backslash = do {
     buf \<leftarrow> copy_string buf n v;
     convert_path buf backslash }"

text \<open>\<^verbatim>\<open>unsigned long\<close> is 64 bits wide in the EFI builds and 32 in the BIOS build.\<close>

definition strtoul_long :: "bool \<Rightarrow> bytes \<Rightarrow> (u64 \<times> bytes) option" where
  "strtoul_long lp64 s =
     (if lp64 then strtoul s 0
      else map_option (\<lambda>(v :: u32, r). (ucast v, r)) (strtoul s 0))"

section \<open>Arguments\<close>

type_synonym outcome = "(death + nt_args) option"

definition with_value :: "string \<Rightarrow> bytes option \<Rightarrow> (bytes \<Rightarrow> outcome) \<Rightarrow> outcome" where
  "with_value name value k =
     (case value of
        None \<Rightarrow> Some (Inl (Needs_value name))
      | Some v \<Rightarrow> do {
          c \<leftarrow> rd v 0;
          if c = 0 then Some (Inl (Needs_value name)) else k v })"

definition set_file :: "nt_args \<Rightarrow> u32 \<Rightarrow> bytes \<Rightarrow> outcome" where
  "set_file args type v = do {
     p \<leftarrow> copy_path (filepath args) 256 v True;
     Some (Inr (args\<lparr>filepath := p, boottype := type\<rparr>)) }"

definition detect_file :: "nt_args \<Rightarrow> bytes \<Rightarrow> outcome" where
  "detect_file args v = do {
     p \<leftarrow> copy_path (filepath args) 256 v True;
     ext \<leftarrow> strrchr v 46;
     wim \<leftarrow> (case ext of
               None \<Rightarrow> Some False
             | Some i \<Rightarrow> map_option (\<lambda>d. d = 0) (strcasecmp (drop i v) (cstr ''.wim'')));
     Some (Inr (args\<lparr>filepath := p, boottype := if wim then NTBOOT_WIM else NTBOOT_VHD\<rparr>)) }"

definition set_bool :: "bytes option \<Rightarrow> (byte \<Rightarrow> nt_args) \<Rightarrow> outcome" where
  "set_bool value upd = map_option (\<lambda>b. Inr (upd b)) (convert_bool value)"

text \<open>A choice by name; a name that is not known changes nothing.\<close>

definition set_choice :: "bytes option \<Rightarrow> (string \<times> nt_args) list \<Rightarrow> nt_args \<Rightarrow> outcome" where
  "set_choice value choices other =
     (case value of
        None \<Rightarrow> Some (Inr (snd (hd choices)))
      | Some v \<Rightarrow> map_option Inr (first_equal strcasecmp v choices other))"

definition set_imgofs :: "bool \<Rightarrow> nt_args \<Rightarrow> bytes \<Rightarrow> outcome" where
  "set_imgofs lp64 args v = do {
     (n, endp) \<leftarrow> strtoul_long lp64 v;
     c \<leftarrow> rd endp 0;
     if c \<noteq> 0 then Some (Inl Invalid_imgofs) else Some (Inr (args\<lparr>imgofs := n\<rparr>)) }"

definition arg_actions :: "bool \<Rightarrow> nt_args \<Rightarrow> bytes option \<Rightarrow> (string \<times> outcome) list" where
  "arg_actions lp64 args value =
     [(''uuid'', with_value ''uuid'' value (\<lambda>v. do {
         s \<leftarrow> copy_string (fsuuid args) 17 v; Some (Inr (args\<lparr>fsuuid := s\<rparr>)) })),
      (''wim'', with_value ''wim'' value (set_file args NTBOOT_WIM)),
      (''vhd'', with_value ''vhd'' value (set_file args NTBOOT_VHD)),
      (''ram'', with_value ''ram'' value (set_file args NTBOOT_RAM)),
      (''file'', with_value ''file'' value (detect_file args)),
      (''text'', Some (Inr (args\<lparr>textmode := NTARG_BOOL_TRUE\<rparr>))),
      (''testmode'', set_bool value (\<lambda>b. args\<lparr>testmode := b\<rparr>)),
      (''hires'', set_bool value (\<lambda>b. args\<lparr>hires := b\<rparr>)),
      (''detecthal'', set_bool value (\<lambda>b. args\<lparr>hal := b\<rparr>)),
      (''minint'', set_bool value (\<lambda>b. args\<lparr>minint := b\<rparr>)),
      (''novga'', set_bool value (\<lambda>b. args\<lparr>novga := b\<rparr>)),
      (''novesa'', set_bool value (\<lambda>b. args\<lparr>novesa := b\<rparr>)),
      (''altshell'', set_bool value (\<lambda>b. args\<lparr>altshell := b, safemode := NTARG_BOOL_TRUE\<rparr>)),
      (''exportascd'', set_bool value (\<lambda>b. args\<lparr>exportcd := b\<rparr>)),
      (''f8'', Some (Inr (args\<lparr>advmenu := NTARG_BOOL_TRUE, textmode := NTARG_BOOL_TRUE\<rparr>))),
      (''edit'', Some (Inr (args\<lparr>optedit := NTARG_BOOL_TRUE, textmode := NTARG_BOOL_TRUE\<rparr>))),
      (''nx'', set_choice value
         [(''OptIn'', args\<lparr>nx := 0\<rparr>), (''OptOut'', args\<lparr>nx := 1\<rparr>),
          (''AlwaysOff'', args\<lparr>nx := 2\<rparr>), (''AlwaysOn'', args\<lparr>nx := 3\<rparr>)] args),
      (''pae'', set_choice value
         [(''Default'', args\<lparr>pae := 0\<rparr>), (''Enable'', args\<lparr>pae := 1\<rparr>),
          (''Disable'', args\<lparr>pae := 2\<rparr>)] args),
      (''safemode'', (let args = args\<lparr>safemode := NTARG_BOOL_TRUE\<rparr> in set_choice value
         [(''Minimal'', args\<lparr>safeboot := 0\<rparr>), (''Network'', args\<lparr>safeboot := 1\<rparr>),
          (''DsRepair'', args\<lparr>safeboot := 2\<rparr>)] args)),
      (''gfxmode'', (let args = args\<lparr>hires := NTARG_BOOL_NA\<rparr> in set_choice value
         [(''1024x768'', args\<lparr>gfxmode := 0\<rparr>), (''800x600'', args\<lparr>gfxmode := 1\<rparr>),
          (''1024x600'', args\<lparr>gfxmode := 2\<rparr>)] args)),
      (''imgofs'', with_value ''imgofs'' value (set_imgofs lp64 args)),
      (''loadopt'', with_value ''loadopt'' value (\<lambda>v. do {
         s \<leftarrow> copy_path (loadopt args) 128 v False; Some (Inr (args\<lparr>loadopt := s\<rparr>)) })),
      (''winload'', with_value ''winload'' value (\<lambda>v. do {
         s \<leftarrow> copy_path (winload args) 64 v True; Some (Inr (args\<lparr>winload := s\<rparr>)) })),
      (''sysroot'', with_value ''sysroot'' value (\<lambda>v. do {
         s \<leftarrow> copy_path (sysroot args) 32 v True; Some (Inr (args\<lparr>sysroot := s\<rparr>)) })),
      (''initrdfile'', with_value ''initrd'' value (\<lambda>v. do {
         s \<leftarrow> copy_path (initrd_path args) (MAX_PATH + 1) v True;
         Some (Inr (args\<lparr>initrd_path := s\<rparr>)) })),
      (''initrd'', with_value ''initrd'' value (\<lambda>v. do {
         s \<leftarrow> copy_path (initrd_path args) (MAX_PATH + 1) v True;
         Some (Inr (args\<lparr>initrd_path := s\<rparr>)) }))]"

definition process_arg :: "bool \<Rightarrow> nt_args \<Rightarrow> bytes \<Rightarrow> bytes option \<Rightarrow> outcome" where
  "process_arg lp64 args key value = do {
     act \<leftarrow> first_equal strcmp key (arg_actions lp64 args value) (Some (Inr args));
     act }"

section \<open>The tokenizer\<close>

function skip_blanks :: "bytes \<Rightarrow> nat \<Rightarrow> nat option" where
  "skip_blanks mem tmp = do {
     c \<leftarrow> rd mem tmp;
     if isspace (sint c) then skip_blanks mem (Suc tmp) else Some tmp }"
  by pat_completeness auto
termination
  by (relation "measure (\<lambda>(mem, tmp). length mem - tmp)") (auto simp: rd_Some_iff)

text \<open>
  From the start of an argument to its end: the first equal sign and the blank behind the
  argument become NUL. The result is the memory, the pointer behind the argument, the pointer
  to the value and the last character read.
\<close>

function scan_arg :: "bytes \<Rightarrow> nat \<Rightarrow> nat option \<Rightarrow> (bytes \<times> nat \<times> nat option \<times> byte) option" where
  "scan_arg mem tmp value = do {
     chr \<leftarrow> rd mem tmp;
     if chr = 0 then Some (mem, tmp, value, chr)
     else if isspace (sint chr) then Some (mem[tmp := 0], Suc tmp, value, chr)
     else if chr = 0x3D \<and> value = None then scan_arg (mem[tmp := 0]) (Suc tmp) (Some (Suc tmp))
     else scan_arg mem (Suc tmp) value }"
  by pat_completeness auto
termination
  by (relation "measure (\<lambda>(mem, tmp, _). length mem - tmp)") (auto simp: rd_Some_iff)

declare skip_blanks.simps [simp del] scan_arg.simps [simp del]

text \<open>\<^verbatim>\<open>if (chr) tmp[-1] = chr; if (value) value[-1] = '='\<close>.\<close>

definition undo :: "bytes \<Rightarrow> nat \<Rightarrow> nat option \<Rightarrow> byte \<Rightarrow> bytes" where
  "undo mem tmp value chr =
     (let mem = (if chr \<noteq> 0 then mem[tmp - 1 := chr] else mem)
      in case value of None \<Rightarrow> mem | Some v \<Rightarrow> mem[v - 1 := 0x3D])"

text \<open>A pass of the loop: to the next argument, or to the end with the death or the arguments.\<close>

type_synonym cmd_state = "bytes \<times> nat \<times> nt_args"

definition cmdline_pass :: "bool \<Rightarrow> cmd_state \<Rightarrow> (cmd_state + (death + bytes \<times> nt_args)) option" where
  "cmdline_pass lp64 = (\<lambda>(mem, tmp, args). do {
     c \<leftarrow> rd mem tmp;
     if c = 0 then Some (Inr (Inr (mem, args)))
     else do {
       key \<leftarrow> skip_blanks mem tmp;
       (mem, tmp, value, chr) \<leftarrow> scan_arg mem key None;
       r \<leftarrow> process_arg lp64 args (drop key mem) (map_option (\<lambda>v. drop v mem) value);
       case r of
         Inl e \<Rightarrow> Some (Inr (Inl e))
       | Inr args \<Rightarrow> Some (Inl (undo mem tmp value chr, tmp, args)) } })"

definition default_args :: "nt_args \<Rightarrow> nt_args option" where
  "default_args args = do {
     let wim = (boottype args = NTBOOT_WIM);
     let choice = (if wim then NTARG_BOOL_TRUE else NTARG_BOOL_FALSE);
     let args = (if hires args = NTARG_BOOL_UNSET then args\<lparr>hires := choice\<rparr> else args);
     let args = (if minint args = NTARG_BOOL_UNSET then args\<lparr>minint := choice\<rparr> else args);
     c \<leftarrow> rd (winload args) 0;
     if c = 0 then do {
       s \<leftarrow> copy_string (winload args) 64
              (cstr (if wim then [CHR 0x5C] @ ''Windows'' @ [CHR 0x5C] @ ''System32'' @ [CHR 0x5C] @
                                 ''boot'' @ [CHR 0x5C] @ ''winload.efi''
                     else [CHR 0x5C] @ ''Windows'' @ [CHR 0x5C] @ ''System32'' @ [CHR 0x5C] @ ''winload.efi''));
       Some (args\<lparr>winload := s\<rparr>) }
     else Some args }"

text \<open>An empty command line leaves even the defaults out, as the code returns before them.\<close>

definition process_cmdline ::
  "nat \<Rightarrow> bool \<Rightarrow> bytes \<Rightarrow> (cmd_state + (death + bytes \<times> nt_args)) option" where
  "process_cmdline fuel lp64 cmdline = do {
     c \<leftarrow> rd cmdline 0;
     if c = 0 then Some (Inr (Inr (cmdline, initial_args)))
     else do {
       r \<leftarrow> iterate fuel (cmdline_pass lp64) (cmdline, 0, initial_args);
       case r of
         Inr (Inr (mem, args)) \<Rightarrow> do {
           args \<leftarrow> default_args args;
           Some (Inr (Inr (mem, args))) }
       | _ \<Rightarrow> Some r } }"

end
