(* ===== verification/CmdlineSafe.thy ===== *)
theory CmdlineSafe
  imports Cmdline
begin

text \<open>
  The command line parser on every terminated command line: it returns, it stays inside the
  command line and the arrays of the argument record, and it restores the command line.
\<close>

section \<open>Terminated strings\<close>

definition terminated :: "bytes \<Rightarrow> bool" where
  "terminated s \<longleftrightarrow> 0 \<in> set s"

lemma terminated_split: "terminated s \<Longrightarrow> \<exists>t x. s = t @ 0 # x \<and> no_nul t"
  using split_list_first [of 0 s] by (auto simp: terminated_def no_nul_def)

lemma terminated_append [simp]: "terminated (s @ 0 # x)"
  by (simp add: terminated_def)

lemma terminated_drop: "k \<le> z \<Longrightarrow> z < length m \<Longrightarrow> m ! z = 0 \<Longrightarrow> terminated (drop k m)"
  unfolding terminated_def in_set_conv_nth by (intro exI [of _ "z - k"]) auto

lemma terminated_cstr [simp]: "terminated (cstr s)"
  by (simp add: cstr_def)

lemma rd_terminated: "terminated s \<Longrightarrow> \<exists>c. rd s 0 = Some c"
  by (cases s) (auto simp: terminated_def rd_def)

lemma strcmp_total: "terminated s \<Longrightarrow> terminated t \<Longrightarrow> \<exists>d. strcmp s t = Some d"
  by (metis terminated_split strcmp_returns)

lemma strcasecmp_total: "terminated s \<Longrightarrow> terminated t \<Longrightarrow> \<exists>d. strcasecmp s t = Some d"
  by (metis terminated_split strcasecmp_returns)

lemma strrchr_total: "terminated s \<Longrightarrow> \<exists>p. strrchr s c = Some p"
proof -
  have "\<exists>q. strrchr_loop s c i p = Some q" if "terminated s" for i p
    using that by (induction s arbitrary: i p) (auto simp: terminated_def Let_def)
  then show "terminated s \<Longrightarrow> \<exists>p. strrchr s c = Some p" by (simp add: strrchr_def)
qed

lemma strrchr_terminated:
  assumes "terminated s" and "strrchr s c = Some (Some i)"
  shows "terminated (drop i s)"
proof -
  have "\<forall>k. q = Some k \<longrightarrow> p = Some k \<or> i \<le> k \<and> terminated (drop (k - i) s)"
    if "strrchr_loop s c i p = Some q" "terminated s" for q i p
    using that
  proof (induction s arbitrary: i p)
    case (Cons a s)
    show ?case
    proof (cases "a = 0")
      case True
      then show ?thesis using Cons.prems by (auto simp: Let_def terminated_def split: if_splits)
    next
      case False
      let ?p = "if sint a = c then Some i else p"
      have "strrchr_loop s c (Suc i) ?p = Some q" "terminated s"
        using Cons.prems False by (auto simp: Let_def terminated_def)
      from Cons.IH [OF this] show ?thesis
      proof (intro allI impI)
        fix k assume *: "\<forall>k. q = Some k \<longrightarrow> ?p = Some k \<or> Suc i \<le> k \<and> terminated (drop (k - Suc i) s)"
          and "q = Some k"
        then have "?p = Some k \<or> Suc i \<le> k \<and> terminated (drop (k - Suc i) s)" by blast
        moreover have "drop (k - i) (a # s) = drop (k - Suc i) s" if "Suc i \<le> k"
          using that by (metis Suc_diff_Suc Suc_le_eq drop_Suc_Cons)
        ultimately show "p = Some k \<or> i \<le> k \<and> terminated (drop (k - i) (a # s))"
          using Cons.prems(2) by (auto split: if_splits)
      qed
    qed
  qed simp
  from this [of 0 None "Some i"] assms show ?thesis by (simp add: strrchr_def)
qed

section \<open>Numbers\<close>

lemma skip_space_total: "terminated s \<Longrightarrow> \<exists>r. skip_space s = Some r \<and> terminated r"
  by (induction s) (auto simp: terminated_def isspace_def)

lemma strtoul_digit_nul: "strtoul_digit 0 = - 48"
  by code_simp

lemma strtoul_digits_total:
  "terminated s \<Longrightarrow> base \<le> - 48 \<Longrightarrow> \<exists>v r. strtoul_digits s base val = Some (v, r) \<and> terminated r"
proof (induction s arbitrary: val)
  case (Cons c s)
  show ?case
  proof (cases "strtoul_digit c \<ge> base")
    case True
    then show ?thesis using Cons.prems by (simp add: Let_def)
  next
    case False
    then have "c \<noteq> 0" using Cons.prems(2) by (auto simp: strtoul_digit_nul)
    then show ?thesis using Cons False by (auto simp: Let_def terminated_def)
  qed
qed (simp add: terminated_def)

lemma terminated_step: "terminated s \<Longrightarrow> rd s 0 = Some c \<Longrightarrow> c \<noteq> 0 \<Longrightarrow> terminated (drop 1 s)"
  by (cases s) (auto simp: terminated_def rd_def)

lemma strtoul_sign_total: "terminated s \<Longrightarrow> \<exists>n r. strtoul_sign s = Some (n, r) \<and> terminated r"
  using rd_terminated [of s] terminated_step [of s] by (auto simp: strtoul_sign_def)

lemma strtoul_base_total:
  assumes "terminated s"
  shows "\<exists>b r. strtoul_base s 0 = Some (b, r) \<and> terminated r \<and> b \<le> - 48"
proof -
  obtain c where c: "rd s 0 = Some c" using rd_terminated [OF assms] by blast
  show ?thesis
  proof (cases "c = 48")
    case True
    then have t: "terminated (drop 1 s)" using terminated_step [OF assms c] by simp
    then obtain c' where "rd (drop 1 s) 0 = Some c'" using rd_terminated by blast
    then have c': "rd s 1 = Some c'" by (auto simp: rd_def split: if_splits)
    have "c' OR 0x20 = 120 \<longrightarrow> c' \<noteq> 0" by auto
    then have "c' OR 0x20 = 120 \<longrightarrow> terminated (drop 2 s)"
      using terminated_step [OF t \<open>rd (drop 1 s) 0 = Some c'\<close>] by (auto simp: numeral_2_eq_2)
    then show ?thesis using c c' True t by (auto simp: strtoul_base_def)
  next
    case False
    then show ?thesis using c assms by (simp add: strtoul_base_def)
  qed
qed

lemma strtoul_total:
  assumes "terminated s"
  shows "\<exists>v r. (strtoul s 0 :: ('w::len word \<times> bytes) option) = Some (v, r) \<and> terminated r"
proof -
  obtain s1 where 1: "skip_space s = Some s1" "terminated s1" using skip_space_total [OF assms] by blast
  obtain n s2 where 2: "strtoul_sign s1 = Some (n, s2)" "terminated s2"
    using strtoul_sign_total [OF 1(2)] by blast
  obtain b s3 where 3: "strtoul_base s2 0 = Some (b, s3)" "terminated s3" "b \<le> - 48"
    using strtoul_base_total [OF 2(2)] by blast
  obtain v r where "strtoul_digits s3 b (0 :: 'w word) = Some (v, r)" "terminated r"
    using strtoul_digits_total [OF 3(2,3)] by blast
  then show ?thesis using 1 2 3 by (auto simp: strtoul_def)
qed

lemma strtoul_long_total: "terminated s \<Longrightarrow> \<exists>v r. strtoul_long lp64 s = Some (v, r) \<and> terminated r"
  using strtoul_total [of s, where 'w = 64] strtoul_total [of s, where 'w = 32]
  by (auto simp: strtoul_long_def)

section \<open>Copying strings into arrays\<close>

lemma copy_string_ok:
  assumes "terminated v" and "length buf = n" and "0 < n"
  shows "\<exists>b. copy_string buf n v = Some b \<and> length b = n \<and> terminated b"
proof -
  obtain s x where v: "v = s @ 0 # x" "no_nul s" using terminated_split [OF assms(1)] by blast
  then have "copy_string buf n v =
      Some (take (n - 1) s @ 0 # drop (Suc (min (length s) (n - 1))) buf)"
    using snprintf_s [of s n buf type_sizes_lp64 x] assms(2,3) by (simp add: copy_string_def)
  then show ?thesis using assms(2,3) by (auto simp: min_def)
qed

lemma convert_path_ok:
  "terminated buf \<Longrightarrow> \<exists>b. convert_path buf backslash = Some b \<and> length b = length buf \<and> terminated b"
  by (induction buf) (auto simp: terminated_def Let_def)

lemma copy_path_ok:
  assumes "terminated v" and "length buf = n" and "0 < n"
  shows "\<exists>b. copy_path buf n v backslash = Some b \<and> length b = n \<and> terminated b"
proof -
  obtain b where b: "copy_string buf n v = Some b" "length b = n" "terminated b"
    using copy_string_ok [OF assms] by blast
  then show ?thesis using convert_path_ok [OF b(3), of backslash] by (auto simp: copy_path_def)
qed

section \<open>Every action keeps the record well formed\<close>

text \<open>Every array has its size and holds a terminated string.\<close>

definition wf_args :: "nt_args \<Rightarrow> bool" where
  "wf_args a \<longleftrightarrow>
     length (loadopt a) = 128 \<and> terminated (loadopt a) \<and> length (winload a) = 64 \<and> terminated (winload a) \<and>
     length (sysroot a) = 32 \<and> terminated (sysroot a) \<and> length (fsuuid a) = 17 \<and> terminated (fsuuid a) \<and>
     length (filepath a) = 256 \<and> terminated (filepath a) \<and>
     length (initrd_path a) = 256 \<and> terminated (initrd_path a) \<and>
     length (partid a) = 16 \<and> length (diskid a) = 16"

definition ok :: "outcome \<Rightarrow> bool" where
  "ok r \<longleftrightarrow> (\<exists>e. r = Some (Inl e)) \<or> (\<exists>a. r = Some (Inr a) \<and> wf_args a)"

lemma ok_simps [simp]: "ok (Some (Inl e))" "ok (Some (Inr a)) \<longleftrightarrow> wf_args a"
  by (auto simp: ok_def)

lemma initial_args_wf: "wf_args initial_args"
  by (simp add: wf_args_def initial_args_def char_array_def MAX_PATH_def terminated_def)

lemma first_equal_total:
  assumes "\<And>t. terminated t \<Longrightarrow> \<exists>d. cmp str t = Some d"
  shows "\<exists>act. first_equal cmp str acts other = Some act \<and> act \<in> insert other (snd ` set acts)"
proof (induction acts)
  case (Cons a acts)
  obtain name act where a: "a = (name, act)" by fastforce
  obtain d where "cmp str (cstr name) = Some d" using assms [of "cstr name"] by auto
  then show ?case using Cons a by auto
qed simp

lemma first_nocase_total:
  "terminated s \<Longrightarrow> \<exists>act. first_equal strcasecmp s acts other = Some act \<and> act \<in> insert other (snd ` set acts)"
  by (rule first_equal_total) (rule strcasecmp_total)

lemma first_name_total:
  "terminated s \<Longrightarrow> \<exists>act. first_equal strcmp s acts other = Some act \<and> act \<in> insert other (snd ` set acts)"
  by (rule first_equal_total) (rule strcmp_total)

lemma convert_bool_total: "(\<And>s. v = Some s \<Longrightarrow> terminated s) \<Longrightarrow> \<exists>b. convert_bool v = Some b"
proof (cases v)
  case (Some s)
  obtain names other where eq: "convert_bool v = first_equal strcasecmp s names other"
    by (rule that) (simp only: convert_bool_def Some option.case)
  assume "\<And>s. v = Some s \<Longrightarrow> terminated s"
  then have "terminated s" using Some by blast
  then show ?thesis using first_nocase_total [of s names other] unfolding eq by blast
qed (simp add: convert_bool_def)

lemma set_bool_ok:
  "(\<And>s. v = Some s \<Longrightarrow> terminated s) \<Longrightarrow> (\<And>b. wf_args (upd b)) \<Longrightarrow> ok (set_bool v upd)"
  using convert_bool_total [of v] by (auto simp: set_bool_def)

lemma set_choice_ok:
  assumes "\<And>s. v = Some s \<Longrightarrow> terminated s" and "wf_args other"
    and "\<forall>a \<in> set choices. wf_args (snd a)" and "choices \<noteq> []"
  shows "ok (set_choice v choices other)"
proof (cases v)
  case None
  then show ?thesis using assms(3,4) by (simp add: set_choice_def)
next
  case (Some s)
  obtain act where "first_equal strcasecmp s choices other = Some act"
      "act \<in> insert other (snd ` set choices)"
    using first_nocase_total [of s choices other] assms(1) Some by blast
  then show ?thesis using assms(2,3) Some by (auto simp: set_choice_def)
qed

lemma with_value_ok:
  assumes "\<And>s. v = Some s \<Longrightarrow> terminated s" and "\<And>s. terminated s \<Longrightarrow> ok (k s)"
  shows "ok (with_value name v k)"
proof (cases v)
  case (Some s)
  then obtain c where "rd s 0 = Some c" using rd_terminated assms(1) by blast
  then show ?thesis using assms Some by (simp add: with_value_def)
qed (simp add: with_value_def)

lemma set_file_ok: "wf_args a \<Longrightarrow> terminated s \<Longrightarrow> ok (set_file a type s)"
  using copy_path_ok [of s "filepath a" 256 True] by (auto simp: set_file_def wf_args_def)

lemma detect_file_ok:
  assumes "wf_args a" and "terminated s"
  shows "ok (detect_file a s)"
proof -
  obtain p where p: "copy_path (filepath a) 256 s True = Some p" "length p = 256" "terminated p"
    using copy_path_ok [of s "filepath a" 256 True] assms by (auto simp: wf_args_def)
  obtain ext where e: "strrchr s 46 = Some ext" using strrchr_total [OF assms(2)] by blast
  show ?thesis
  proof (cases ext)
    case None
    then show ?thesis using p e assms(1) by (simp add: detect_file_def wf_args_def)
  next
    case (Some i)
    then obtain d where "strcasecmp (drop i s) (cstr ''.wim'') = Some d"
      using strcasecmp_total strrchr_terminated assms(2) e by (metis terminated_cstr)
    then show ?thesis using p e assms(1) Some by (simp add: detect_file_def wf_args_def)
  qed
qed

lemma set_imgofs_ok:
  assumes "wf_args a" and "terminated s"
  shows "ok (set_imgofs lp64 a s)"
proof -
  obtain n r where "strtoul_long lp64 s = Some (n, r)" "terminated r"
    using strtoul_long_total [OF assms(2)] by blast
  moreover from this obtain c where "rd r 0 = Some c" using rd_terminated by blast
  ultimately show ?thesis using assms(1) by (simp add: set_imgofs_def wf_args_def)
qed

lemma set_array_ok:
  assumes "terminated s" and "length buf = n" and "0 < n"
    and "\<And>b. length b = n \<Longrightarrow> terminated b \<Longrightarrow> wf_args (upd b)"
  shows "ok (do { b \<leftarrow> copy_path buf n s bs; Some (Inr (upd b)) })"
    and "ok (do { b \<leftarrow> copy_string buf n s; Some (Inr (upd b)) })"
  using copy_path_ok [OF assms(1-3), of bs] copy_string_ok [OF assms(1-3)] assms(4) by auto

lemmas action_oks = set_bool_ok set_choice_ok with_value_ok set_file_ok detect_file_ok
  set_imgofs_ok set_array_ok

lemma process_arg_ok:
  assumes "wf_args a" and "terminated key" and v: "\<And>s. v = Some s \<Longrightarrow> terminated s"
  shows "ok (process_arg lp64 a key v)"
proof -
  obtain act where act: "first_equal strcmp key (arg_actions lp64 a v) (Some (Inr a)) = Some act"
      "act \<in> insert (Some (Inr a)) (snd ` set (arg_actions lp64 a v))"
    using first_name_total [OF assms(2)] by iprover
  note wf = assms(1) [unfolded wf_args_def]
  have "list_all (\<lambda>(_, r). ok r) (arg_actions lp64 a v)"
    unfolding arg_actions_def Let_def list.pred_inject prod.case
    by (intro conjI TrueI;
        ((rule set_bool_ok, erule v, simp add: wf wf_args_def)
         | (rule set_choice_ok, erule v, simp_all add: wf wf_args_def)
         | (rule with_value_ok, erule v, rule set_array_ok, assumption, simp_all add: wf wf_args_def MAX_PATH_def)
         | (rule with_value_ok, erule v, rule set_file_ok detect_file_ok set_imgofs_ok, rule assms(1), assumption)
         | simp add: wf wf_args_def))
  then show ?thesis using act assms(1) by (auto simp: process_arg_def list_all_iff)
qed

section \<open>The tokenizer\<close>

lemma skip_blanks_total:
  assumes "tmp \<le> z" and "z < length mem" and "mem ! z = 0"
  shows "\<exists>key. skip_blanks mem tmp = Some key \<and> tmp \<le> key \<and> key \<le> z \<and>
    (key = tmp \<longrightarrow> \<not> isspace (sint (mem ! tmp)))"
  using assms
proof (induction mem tmp rule: skip_blanks.induct)
  case (1 mem tmp)
  have rd: "rd mem tmp = Some (mem ! tmp)" using 1(2,3) by (simp add: rd_Some_iff)
  show ?case
  proof (cases "isspace (sint (mem ! tmp))")
    case True
    then have "tmp \<noteq> z" using 1(4) by (auto simp: isspace_def)
    then have "Suc tmp \<le> z" using 1(2) by simp
    then show ?thesis using 1(1) [OF rd True] 1(3,4) True rd
      by (subst skip_blanks.simps) auto
  next
    case False
    then show ?thesis using rd 1(2) by (subst skip_blanks.simps) auto
  qed
qed

text \<open>Undoing the edits of an argument gives the command line back.\<close>

lemma undo_restores:
  "scan_arg mem tmp value = Some (mem', tmp', value', chr) \<Longrightarrow>
     undo mem' tmp' value' chr = (case value of None \<Rightarrow> mem | Some v \<Rightarrow> mem[v - 1 := 0x3D])"
proof (induction mem tmp "value" rule: scan_arg.induct)
  case (1 mem tmp "value")
  from 1(3) obtain c where c: "rd mem tmp = Some c"
    by (subst (asm) scan_arg.simps) (auto simp: bind_eq_Some_conv)
  then have at: "mem ! tmp = c" by (simp add: rd_Some_iff)
  consider "c = 0" | "c \<noteq> 0" "isspace (sint c)"
    | "c \<noteq> 0" "\<not> isspace (sint c)" "c = 0x3D \<and> value = None"
    | "c \<noteq> 0" "\<not> isspace (sint c)" "\<not> (c = 0x3D \<and> value = None)" by blast
  then show ?case
  proof cases
    case 1
    then show ?thesis using "1.prems" c
      by (subst (asm) scan_arg.simps) (auto simp: undo_def Let_def)
  next
    case 2
    then show ?thesis using "1.prems" c at
      by (subst (asm) scan_arg.simps) (auto simp: undo_def Let_def split: option.splits)
  next
    case 3
    then have "scan_arg (mem[tmp := 0]) (Suc tmp) (Some (Suc tmp)) = Some (mem', tmp', value', chr)"
      using "1.prems" c by (subst (asm) scan_arg.simps) auto
    moreover have "mem[tmp := 0x3D] = mem" using list_update_id [of mem tmp] 3 at by simp
    ultimately show ?thesis using "1.IH"(1) [OF c 3] 3 by auto
  next
    case 4
    then have "scan_arg mem (Suc tmp) value = Some (mem', tmp', value', chr)"
      using "1.prems" c by (subst (asm) scan_arg.simps) auto
    from "1.IH"(2) [OF c 4 this] show ?thesis .
  qed
qed

lemma scan_arg_total:
  assumes "tmp \<le> z" and "z < length mem" and "mem ! z = 0"
  shows "\<exists>mem' tmp' value' chr. scan_arg mem tmp value = Some (mem', tmp', value', chr) \<and>
    tmp \<le> tmp' \<and> tmp' \<le> z \<and> length mem' = length mem \<and> mem' ! z = 0 \<and>
    (mem ! tmp \<noteq> 0 \<longrightarrow> tmp < tmp') \<and> (value' = value \<or> (\<exists>v \<le> z. value' = Some v))"
  using assms
proof (induction mem tmp "value" rule: scan_arg.induct)
  case (1 mem tmp "value")
  have rd: "rd mem tmp = Some (mem ! tmp)" using 1(3,4) by (simp add: rd_Some_iff)
  show ?case
  proof (cases "mem ! tmp = 0")
    case True
    then show ?thesis using rd 1(3-5) by (subst scan_arg.simps) auto
  next
    case False
    then have "tmp \<noteq> z" using 1(5) by auto
    then have lt: "Suc tmp \<le> z" using 1(3) by simp
    show ?thesis
    proof (cases "isspace (sint (mem ! tmp))")
      case True
      then show ?thesis using rd lt False 1(4,5)
        by (subst scan_arg.simps) auto
    next
      case blank: False
      show ?thesis
      proof (cases "mem ! tmp = 0x3D \<and> value = None")
        case True
        have "mem[tmp := 0] ! z = 0" using lt 1(5) by simp
        from 1(1) [OF rd False blank True lt _ this] 1(4) obtain mem' tmp' value' chr where
          "scan_arg (mem[tmp := 0]) (Suc tmp) (Some (Suc tmp)) = Some (mem', tmp', value', chr)"
          "Suc tmp \<le> tmp'" "tmp' \<le> z" "length mem' = length mem" "mem' ! z = 0"
          "value' = Some (Suc tmp) \<or> (\<exists>v \<le> z. value' = Some v)" by auto
        then show ?thesis using rd lt False blank True by (subst scan_arg.simps) auto
      next
        case go: False
        from 1(2) [OF rd False blank go lt 1(4,5)] obtain mem' tmp' value' chr where
          "scan_arg mem (Suc tmp) value = Some (mem', tmp', value', chr)"
          "Suc tmp \<le> tmp'" "tmp' \<le> z" "length mem' = length mem" "mem' ! z = 0"
          "value' = value \<or> (\<exists>v \<le> z. value' = Some v)" by auto
        then show ?thesis using rd False blank go by (subst scan_arg.simps) auto
      qed
    qed
  qed
qed

section \<open>The whole command line\<close>

text \<open>The loop's invariant: the command line is as it was, and its NUL lies ahead.\<close>

definition cmd_inv :: "bytes \<Rightarrow> nat \<Rightarrow> cmd_state \<Rightarrow> bool" where
  "cmd_inv cmdline z = (\<lambda>(mem, tmp, args). mem = cmdline \<and> tmp \<le> z \<and> wf_args args)"

lemma cmdline_pass_inv:
  assumes "z < length cmdline" and "cmdline ! z = 0" and "cmd_inv cmdline z (mem, tmp, args)"
  shows "(\<exists>tmp' args'. cmdline_pass lp64 (mem, tmp, args) = Some (Inl (cmdline, tmp', args')) \<and>
       cmd_inv cmdline z (cmdline, tmp', args') \<and> tmp < tmp') \<or>
     (\<exists>e. cmdline_pass lp64 (mem, tmp, args) = Some (Inr (Inl e))) \<or>
     cmdline_pass lp64 (mem, tmp, args) = Some (Inr (Inr (cmdline, args)))"
proof -
  from assms(3) have mem: "mem = cmdline" and tmp: "tmp \<le> z" and wf: "wf_args args"
    by (auto simp: cmd_inv_def)
  have rd: "rd cmdline tmp = Some (cmdline ! tmp)" using tmp assms(1) by (simp add: rd_Some_iff)
  show ?thesis
  proof (cases "cmdline ! tmp = 0")
    case True
    then show ?thesis using rd mem by (simp add: cmdline_pass_def)
  next
    case False
    obtain key where key: "skip_blanks cmdline tmp = Some key" "tmp \<le> key" "key \<le> z"
      using skip_blanks_total [OF tmp assms(1,2)] by blast
    obtain m t v chr where s: "scan_arg cmdline key None = Some (m, t, v, chr)" "key \<le> t" "t \<le> z"
        "length m = length cmdline" "m ! z = 0" "cmdline ! key \<noteq> 0 \<longrightarrow> key < t"
        "v = None \<or> (\<exists>w \<le> z. v = Some w)"
      using scan_arg_total [OF key(3) assms(1,2), of None] by blast
    have prog: "tmp < t" using key s(2,6) False by (cases "key = tmp") auto
    have tv: "terminated (drop w m)" if "w \<le> z" for w
      using terminated_drop [OF that] s(4,5) assms(1) by simp
    have "ok (process_arg lp64 args (drop key m) (map_option (\<lambda>v. drop v m) v))"
      by (rule process_arg_ok [OF wf]) (use key s(7) tv in auto)
    moreover have "undo m t v chr = cmdline" using undo_restores [OF s(1)] by simp
    ultimately show ?thesis
      using rd False key s(1,3) prog mem by (auto simp: cmdline_pass_def ok_def cmd_inv_def)
  qed
qed

lemma default_args_wf: "wf_args a \<Longrightarrow> \<exists>b. default_args a = Some b \<and> wf_args b"
proof -
  assume wf: "wf_args a"
  then obtain c where c: "rd (winload a) 0 = Some c" using rd_terminated by (auto simp: wf_args_def)
  have "\<exists>b. copy_string (winload a) 64 (cstr s) = Some b \<and> length b = 64 \<and> terminated b" for s
    using copy_string_ok [of "cstr s" "winload a" 64] wf by (simp add: wf_args_def)
  then obtain f where f: "\<And>s. copy_string (winload a) 64 (cstr s) = Some (f s) \<and> length (f s) = 64 \<and> terminated (f s)"
    by metis
  show ?thesis
    unfolding default_args_def Let_def using wf c f by (simp add: wf_args_def)
qed

lemma process_cmdline_ok:
  assumes "0 \<in> set cmdline"
  shows "\<exists>r. process_cmdline (length cmdline) lp64 cmdline = Some (Inr r) \<and>
    (\<forall>mem args. r = Inr (mem, args) \<longrightarrow> mem = cmdline \<and> wf_args args)"
proof -
  obtain z where z: "z < length cmdline" "cmdline ! z = 0" using assms by (auto simp: in_set_conv_nth)
  let ?f = "cmdline_pass lp64" and ?I = "cmd_inv cmdline z" and ?s = "(cmdline, 0, initial_args)"
  have I0: "?I ?s" using initial_args_wf by (simp add: cmd_inv_def)
  have step: "case ?f s of None \<Rightarrow> \<not> True | Some (Inl s') \<Rightarrow> ?I s' \<and> z - fst (snd s') < z - fst (snd s)
      | Some (Inr r) \<Rightarrow> True" if "?I s" for s
  proof -
    obtain mem tmp args where s: "s = (mem, tmp, args)" by (cases s) auto
    have "tmp \<le> z" using that s by (simp add: cmd_inv_def)
    then show ?thesis using cmdline_pass_inv [OF z, of mem tmp args lp64] that s
      by (auto simp: cmd_inv_def)
  qed
  obtain r where r: "iterate (length cmdline) ?f ?s = Some (Inr r)"
    using iterate_measure [OF step I0] z(1) by auto
  have keep: "?I s'" if "?I s" "?f s = Some (Inl s')" for s s'
    using step [OF that(1)] that(2) by simp
  have "\<exists>t. ?I t \<and> ?f t = Some (Inr r)"
    by (rule iterate_result [where I = ?I and f = ?f, OF keep I0 r])
  then obtain m0 tmp0 a0 where "?I (m0, tmp0, a0)" "?f (m0, tmp0, a0) = Some (Inr r)"
    by (elim exE conjE) (metis prod_cases3)
  then have "(\<exists>e. r = Inl e) \<or> r = Inr (cmdline, a0) \<and> wf_args a0"
    using cmdline_pass_inv [OF z, of m0 tmp0 a0 lp64] by (auto simp: cmd_inv_def)
  then have res: "r = Inr (mem, args) \<Longrightarrow> mem = cmdline \<and> wf_args args" for mem args by auto
  obtain c where c: "rd cmdline 0 = Some c" using z by (cases cmdline) (auto simp: rd_def)
  show ?thesis
  proof (cases "c = 0")
    case True
    then show ?thesis using c initial_args_wf by (simp add: process_cmdline_def)
  next
    case False
    then show ?thesis
    proof (cases r)
      case (Inl e)
      then show ?thesis using r c False by (simp add: process_cmdline_def)
    next
      case (Inr p)
      obtain mem args where p: "p = (mem, args)" by (cases p)
      then have wf: "mem = cmdline" "wf_args args" using res Inr by auto
      obtain b where "default_args args = Some b" "wf_args b" using default_args_wf [OF wf(2)] by blast
      then show ?thesis using r c False Inr p wf by (simp add: process_cmdline_def)
    qed
  qed
qed

text \<open>C16: on every command line with a NUL the parser returns within as many passes as the memory
  has bytes and accesses nothing outside it and the arrays; it either ends the program or
  restores the command line and leaves every array of the record terminated.\<close>

theorem process_cmdline_safe:
  assumes "0 \<in> set cmdline"
  shows "\<exists>r. process_cmdline (length cmdline) lp64 cmdline = Some (Inr r) \<and>
    (\<forall>mem args. r = Inr (mem, args) \<longrightarrow> mem = cmdline \<and> wf_args args)"
  using assms by (rule process_cmdline_ok)

end
