(* ===== verification/CmdlineArgs.thy ===== *)
theory CmdlineArgs
  imports CmdlineSafe
begin

text \<open>
  What the command line means: a word \<^verbatim>\<open>key=value\<close> selects the action of its key, once, and the
  loop goes on behind it.
\<close>

section \<open>Selecting an action\<close>

definition named :: "string \<Rightarrow> bytes \<Rightarrow> bool" where
  "named name k \<longleftrightarrow> map of_char name = k"

lemma first_equal_strcmp:
  assumes "no_nul k" and "list_all (\<lambda>(name, _). no_nul (map of_char name :: bytes)) acts"
  shows "first_equal strcmp (k @ 0 # x) acts other =
    Some (case find (\<lambda>(name, _). named name k) acts of None \<Rightarrow> other | Some (_, act) \<Rightarrow> act)"
  using assms(2)
proof (induction acts)
  case (Cons a acts)
  obtain name act where a: "a = (name, act)" by fastforce
  then have n: "no_nul (map of_char name :: bytes)" using Cons.prems by simp
  obtain d where d: "strcmp (k @ 0 # x) (cstr name) = Some d"
    using strcmp_returns [OF assms(1) n, of x "[]"] by (auto simp: cstr_def)
  then have "d = 0 \<longleftrightarrow> named name k"
    using strcmp_zero_iff [OF assms(1) n, of x "[]"] by (auto simp: cstr_def named_def)
  then show ?case using Cons a d by simp
qed simp

lemma action_names: "list_all (\<lambda>(name, _). no_nul (map of_char name :: bytes)) (arg_actions lp64 a v)"
  by (simp add: arg_actions_def Let_def no_nul_def)



section \<open>Words of the command line\<close>

definition plain :: "bytes \<Rightarrow> bool" where
  "plain s \<longleftrightarrow> (\<forall>c \<in> set s. c \<noteq> 0 \<and> \<not> isspace (sint c))"

lemma rd_at: "rd (pre @ c # rest) (length pre) = Some c"
  by (simp add: rd_def)

lemma update_at: "(pre @ c # rest)[length pre := d] = pre @ d # rest"
  by simp

lemma scan_plain:
  assumes "plain s" and "0x3D \<notin> set s \<or> v \<noteq> None"
  shows "scan_arg (pre @ s @ c # rest) (length pre) v = scan_arg ((pre @ s) @ c # rest) (length (pre @ s)) v"
  using assms
proof (induction s arbitrary: pre)
  case (Cons a s)
  have "scan_arg (pre @ (a # s) @ c # rest) (length pre) v =
      scan_arg ((pre @ [a]) @ s @ c # rest) (length (pre @ [a])) v"
    using Cons.prems rd_at [of pre a "s @ c # rest"]
    by (subst scan_arg.simps) (auto simp: plain_def)
  also have "\<dots> = scan_arg (((pre @ [a]) @ s) @ c # rest) (length ((pre @ [a]) @ s)) v"
    by (rule Cons.IH) (use Cons.prems in \<open>auto simp: plain_def\<close>)
  finally show ?case by simp
qed simp

lemma scan_end:
  assumes "b = 0 \<or> isspace (sint b)"
  shows "scan_arg (pre @ b # rest) (length pre) v =
    Some (pre @ 0 # rest, length pre + (if b = 0 then 0 else 1), v, b)"
  using assms rd_at [of pre b rest] by (subst scan_arg.simps) (auto simp: update_at)

lemma scan_word:
  assumes "plain k" and "0x3D \<notin> set k" and "plain v" and "b = 0 \<or> isspace (sint b)"
  shows "scan_arg (pre @ k @ 0x3D # v @ b # post) (length pre) None =
    Some (pre @ k @ 0 # v @ 0 # post, length (pre @ k @ 0x3D # v) + (if b = 0 then 0 else 1),
          Some (length (pre @ k) + 1), b)"
proof -
  let ?p = "pre @ k"
  have "scan_arg (pre @ k @ 0x3D # v @ b # post) (length pre) None =
      scan_arg (?p @ 0x3D # v @ b # post) (length ?p) None"
    using scan_plain [OF assms(1), of None pre "0x3D" "v @ b # post"] assms(2) by simp
  also have "\<dots> = scan_arg ((?p @ [0]) @ v @ b # post) (length (?p @ [0])) (Some (length ?p + 1))"
    using rd_at [of ?p "0x3D" "v @ b # post"] update_at [of ?p "0x3D" "v @ b # post" 0]
    by (subst scan_arg.simps) (simp add: isspace_def)
  also have "\<dots> = scan_arg (((?p @ [0]) @ v) @ b # post) (length ((?p @ [0]) @ v)) (Some (length ?p + 1))"
    by (rule scan_plain) (use assms(3) in auto)
  also have "\<dots> = Some (((?p @ [0]) @ v) @ 0 # post,
      length ((?p @ [0]) @ v) + (if b = 0 then 0 else 1), Some (length ?p + 1), b)"
    by (rule scan_end) (rule assms(4))
  finally show ?thesis by simp
qed

lemma skip_to:
  "\<forall>c \<in> set sp. isspace (sint c) \<Longrightarrow> \<not> isspace (sint a) \<Longrightarrow>
     skip_blanks (pre @ sp @ a # rest) (length pre) = Some (length (pre @ sp))"
proof (induction sp arbitrary: pre)
  case Nil
  then show ?case using rd_at [of pre a rest] by (subst skip_blanks.simps) simp
next
  case (Cons c sp)
  have "skip_blanks (pre @ (c # sp) @ a # rest) (length pre) =
      skip_blanks ((pre @ [c]) @ sp @ a # rest) (length (pre @ [c]))"
    using Cons.prems rd_at [of pre c "sp @ a # rest"] by (subst skip_blanks.simps) simp
  also have "\<dots> = Some (length ((pre @ [c]) @ sp))" by (rule Cons.IH) (use Cons.prems in auto)
  finally show ?case by simp
qed

text \<open>C25: a pass over \<^verbatim>\<open>key=value\<close>, with any blanks before it, does the action of the key with that
  value, leaves the command line as it was and stands behind the word.\<close>

theorem cmdline_pass_word:
  assumes "plain k" and "k \<noteq> []" and "0x3D \<notin> set k" and "plain v" and "b = 0 \<or> isspace (sint b)"
    and "\<forall>c \<in> set sp. isspace (sint c)"
  shows "cmdline_pass lp64 (pre @ sp @ k @ 0x3D # v @ b # post, length pre, a) =
    map_option (\<lambda>r. case r of
        Inl e \<Rightarrow> Inr (Inl e)
      | Inr a' \<Rightarrow> Inl (pre @ sp @ k @ 0x3D # v @ b # post,
                     length (pre @ sp @ k @ 0x3D # v) + (if b = 0 then 0 else 1), a'))
      (process_arg lp64 a (k @ 0 # v @ 0 # post) (Some (v @ 0 # post)))"
proof -
  let ?mem = "pre @ sp @ k @ 0x3D # v @ b # post" and ?p = "pre @ sp"
  obtain c ks where k: "k = c # ks" using assms(2) by (cases k) auto
  have c: "c \<noteq> 0" "\<not> isspace (sint c)" using assms(1) k by (auto simp: plain_def)
  have nz: "isspace (sint e) \<Longrightarrow> e \<noteq> 0" for e :: byte by (auto simp: isspace_def)
  obtain d ds where d: "sp @ k = d # ds" "d \<noteq> 0"
    using k c assms(6) nz by (cases sp) auto
  have rd: "rd ?mem (length pre) = Some d" using d(1) rd_at [of pre d] by (metis append.assoc append_Cons)
  have skip: "skip_blanks ?mem (length pre) = Some (length ?p)"
    using skip_to [OF assms(6) c(2), of pre] k by simp
  have scan: "scan_arg ?mem (length ?p) None =
      Some (?p @ k @ 0 # v @ 0 # post, length (?p @ k @ 0x3D # v) + (if b = 0 then 0 else 1),
            Some (length (?p @ k) + 1), b)"
    using scan_word [OF assms(1,3,4,5), of ?p post] by simp
  have "undo (?p @ k @ 0 # v @ 0 # post) (length (?p @ k @ 0x3D # v) + (if b = 0 then 0 else 1))
      (Some (length (?p @ k) + 1)) b = ?mem"
    using undo_restores [OF scan] by simp
  then show ?thesis
    using rd d(2) skip scan
    by (cases "process_arg lp64 a (k @ 0 # v @ 0 # post) (Some (v @ 0 # post))")
      (auto simp: cmdline_pass_def split: sum.splits)
qed

theorem cmdline_pass_word_witness:
  "cmdline_pass True (cstr ''text=1'', 0, initial_args) =
     Some (Inl (cstr ''text=1'', 6, initial_args\<lparr>textmode := NTARG_BOOL_TRUE\<rparr>))"
proof -
  have k: "no_nul (map of_char ''text'' :: bytes)" by (simp add: no_nul_def)
  have "find (\<lambda>(name, _). named name (map of_char ''text'')) (arg_actions True initial_args v)
     = Some (''text'', Some (Inr (initial_args\<lparr>textmode := NTARG_BOOL_TRUE\<rparr>)))" for v
    by (simp add: arg_actions_def Let_def named_def)
  then have act: "process_arg True initial_args (map of_char ''text'' @ 0 # x) v =
      Some (Inr (initial_args\<lparr>textmode := NTARG_BOOL_TRUE\<rparr>))" for v x
    using first_equal_strcmp [OF k action_names] by (simp add: process_arg_def)
  have p: "plain (map of_char ''text'')" "plain (map of_char ''1'')"
    by (simp_all add: plain_def isspace_def)
  show ?thesis
    using cmdline_pass_word [OF p(1) _ _ p(2), of 0 "[]" True "[]" "[]" initial_args] act [of "[0x31, 0]"]
    by (simp add: cstr_def)
qed

text \<open>An argument line in use.\<close>

theorem process_cmdline_safe_witness:
  "\<exists>r. process_cmdline (length (cstr ''wim=/a:b.wim f8'')) True (cstr ''wim=/a:b.wim f8'') = Some (Inr r)"
  using process_cmdline_safe [of "cstr ''wim=/a:b.wim f8''" True] by (auto simp: cstr_def)

text \<open>An empty command line returns before the defaults are filled in: two switches are left
  with the marker 0xff and the path of winload is left empty.\<close>

theorem process_cmdline_empty:
  "process_cmdline fuel lp64 [0] = Some (Inr (Inr ([0], initial_args))) \<and>
     hires initial_args = 0xff \<and> minint initial_args = 0xff \<and> until_nul (winload initial_args) = Some []"
  by (simp add: process_cmdline_def rd_def initial_args_def NTARG_BOOL_UNSET_def char_array_def
      numeral_eq_Suc)

end
