(* ===== verification/Partition.thy ===== *)
theory Partition
  imports CmdlineArgs
begin

text \<open>
  Finding the volume to boot from: the serial number of a file system (\<^verbatim>\<open>disk/fsuuid.c\<close>,
  \<^verbatim>\<open>utils/fsuuid.c\<close>) and the two kinds of partition tables (\<^verbatim>\<open>disk/gpt.c\<close>, \<^verbatim>\<open>disk/msdos.c\<close>).

  Reading the disk is a function of the sector and the length: the bytes read, or \<open>None\<close> when
  \<^verbatim>\<open>disk_read\<close> returns zero. The outer option of a result is, as everywhere, the fault.
\<close>

type_synonym disk_reader = "u64 \<Rightarrow> nat \<Rightarrow> bytes option"

section \<open>Serial numbers\<close>

text \<open>\<^verbatim>\<open>snprintf (uuid, 17, "%04x-%04x", high, low)\<close> and \<^verbatim>\<open>snprintf (uuid, 17, "%016llx", serial)\<close>.\<close>

definition serial_32 :: "nat list \<Rightarrow> bytes \<Rightarrow> u32 \<Rightarrow> bytes option" where
  "serial_32 sizes uuid serial = map_option snd
     (vsnprintf sizes uuid 17 (cstr ''%04x-%04x'')
        [AInt (ucast (ucast (drop_bit 16 serial) :: u16)), AInt (ucast (ucast serial :: u16))])"

definition serial_64 :: "nat list \<Rightarrow> bytes \<Rightarrow> u64 \<Rightarrow> bytes option" where
  "serial_64 sizes uuid serial = map_option snd
     (vsnprintf sizes uuid 17 (cstr ''%016llx'') [AInt serial])"

text \<open>\<^verbatim>\<open>memcmp (field, "EXFAT", 5) == 0\<close>\<close>

definition has_mark :: "bytes \<Rightarrow> nat \<Rightarrow> string \<Rightarrow> bool option" where
  "has_mark vbr ofs mark =
     map_option (\<lambda>d. d = 0) (memcmp (drop ofs vbr) (map of_char mark) (length mark))"

text \<open>The offsets are those of \<^verbatim>\<open>union volume_boot_record\<close>.\<close>

definition volume_uuid :: "nat list \<Rightarrow> bytes \<Rightarrow> bytes option" where
  "volume_uuid sizes vbr = do {
     let uuid = char_array 17 '' '';
     exfat \<leftarrow> has_mark vbr 3 ''EXFAT'';
     if exfat then get32 vbr 100 \<bind> serial_32 sizes uuid
     else do {
       ntfs \<leftarrow> has_mark vbr 3 ''NTFS'';
       if ntfs then get64 vbr 72 \<bind> serial_64 sizes uuid
       else do {
         fat12 \<leftarrow> has_mark vbr 54 ''FAT12'';
         if fat12 then get32 vbr 39 \<bind> serial_32 sizes uuid
         else do {
           fat16 \<leftarrow> has_mark vbr 54 ''FAT16'';
           if fat16 then get32 vbr 39 \<bind> serial_32 sizes uuid
           else do {
             fat32 \<leftarrow> has_mark vbr 82 ''FAT32'';
             if fat32 then get32 vbr 67 \<bind> serial_32 sizes uuid
             else Some uuid }}}}}"

definition check_fsuuid :: "nat list \<Rightarrow> disk_reader \<Rightarrow> nt_args \<Rightarrow> u64 \<Rightarrow> bool option" where
  "check_fsuuid sizes disk_read args lba =
     (case disk_read lba 512 of
        None \<Rightarrow> Some False
      | Some vbr \<Rightarrow> do {
          uuid \<leftarrow> volume_uuid sizes vbr;
          d \<leftarrow> strcasecmp uuid (fsuuid args);
          Some (d = 0) })"

section \<open>GPT\<close>

definition GPT_HEADER_MAGIC :: bytes where
  "GPT_HEADER_MAGIC = [0x45, 0x46, 0x49, 0x20, 0x50, 0x41, 0x52, 0x54]"

text \<open>The fields of \<^verbatim>\<open>struct gpt_header\<close> and of \<^verbatim>\<open>struct gpt_part_entry\<close> the code reads.\<close>

record gpt_header =
  gpt_guid :: bytes
  gpt_partitions :: u64
  gpt_maxpart :: u32
  gpt_entry_size :: u32

record gpt_part_entry =
  entry_type :: bytes
  entry_guid :: bytes
  entry_start :: u64

definition gpt_header_of :: "bytes \<Rightarrow> gpt_header option" where
  "gpt_header_of m = do {
     guid \<leftarrow> peek m 56 16;
     partitions \<leftarrow> get64 m 72;
     maxpart \<leftarrow> get32 m 80;
     entry_size \<leftarrow> get32 m 84;
     Some \<lparr>gpt_guid = guid, gpt_partitions = partitions, gpt_maxpart = maxpart,
           gpt_entry_size = entry_size\<rparr> }"

definition gpt_part_entry_of :: "bytes \<Rightarrow> gpt_part_entry option" where
  "gpt_part_entry_of m = do {
     type \<leftarrow> peek m 0 16;
     guid \<leftarrow> peek m 16 16;
     start \<leftarrow> get64 m 32;
     Some \<lparr>entry_type = type, entry_guid = guid, entry_start = start\<rparr> }"

text \<open>
  The entry with index \<open>i\<close>: the product is one of \<^verbatim>\<open>uint32_t\<close>, and two sectors are read, so that
  the entry may lie across their boundary. \<open>Some None\<close> is a failed read.
\<close>

definition gpt_entry :: "disk_reader \<Rightarrow> gpt_header \<Rightarrow> u32 \<Rightarrow> gpt_part_entry option option" where
  "gpt_entry disk_read gpt i = do {
     let ofs = (ucast (i * gpt_entry_size gpt) :: u64);
     let lba = drop_bit 9 ofs;
     let ofs = ofs - push_bit 9 lba;
     let lba = lba + gpt_partitions gpt;
     (case disk_read lba 512 of
        None \<Rightarrow> Some None
      | Some first \<Rightarrow>
          (case disk_read (lba + 1) 512 of
             None \<Rightarrow> Some None
           | Some second \<Rightarrow> do {
               m \<leftarrow> peek (first @ second) (unat ofs) 128;
               entry \<leftarrow> gpt_part_entry_of m;
               Some (Some entry) })) }"

text \<open>The loop over the entries: \<open>n\<close> of them are left, from index \<open>i\<close> on.\<close>

fun gpt_scan :: "nat list \<Rightarrow> disk_reader \<Rightarrow> gpt_header \<Rightarrow> nt_args \<Rightarrow> u32 \<Rightarrow> nat \<Rightarrow> (bool \<times> nt_args) option" where
  "gpt_scan sizes disk_read gpt args i 0 = Some (False, args)"
| "gpt_scan sizes disk_read gpt args i (Suc n) = do {
     r \<leftarrow> gpt_entry disk_read gpt i;
     (case r of
        None \<Rightarrow> Some (False, args)
      | Some entry \<Rightarrow>
          if entry_type entry = replicate 16 0 then gpt_scan sizes disk_read gpt args (i + 1) n
          else do {
            found \<leftarrow> check_fsuuid sizes disk_read args (entry_start entry);
            if found then do {
              partid \<leftarrow> poke (partid args) 0 (entry_guid entry);
              diskid \<leftarrow> poke (diskid args) 0 (gpt_guid gpt);
              Some (True, args\<lparr>partid := partid, partmap := 0, diskid := diskid\<rparr>) }
            else gpt_scan sizes disk_read gpt args (i + 1) n }) }"

definition check_gpt_partmap :: "nat list \<Rightarrow> disk_reader \<Rightarrow> nt_args \<Rightarrow> (bool \<times> nt_args) option" where
  "check_gpt_partmap sizes disk_read args =
     (case disk_read 1 92 of
        None \<Rightarrow> Some (False, args)
      | Some m \<Rightarrow> do {
          d \<leftarrow> memcmp m GPT_HEADER_MAGIC 8;
          if d \<noteq> 0 then Some (False, args)
          else do {
            gpt \<leftarrow> gpt_header_of m;
            gpt_scan sizes disk_read gpt args 0 (unat (gpt_maxpart gpt)) } })"

section \<open>MS-DOS partition tables\<close>

definition MSDOS_PART_SIGNATURE :: u16 where "MSDOS_PART_SIGNATURE = 0xaa55"
definition MSDOS_PART_TYPE_NONE :: byte where "MSDOS_PART_TYPE_NONE = 0"
definition MSDOS_PART_TYPE_EXTENDED :: byte where "MSDOS_PART_TYPE_EXTENDED = 5"
definition MSDOS_PART_TYPE_WIN95_EXTENDED :: byte where "MSDOS_PART_TYPE_WIN95_EXTENDED = 0xf"
definition MSDOS_PART_TYPE_LINUX_EXTENDED :: byte where "MSDOS_PART_TYPE_LINUX_EXTENDED = 0x85"
definition MSDOS_PART_TYPE_GPT_DISK :: byte where "MSDOS_PART_TYPE_GPT_DISK = 0xee"
definition MSDOS_MAX_PARTITIONS :: nat where "MSDOS_MAX_PARTITIONS = 4"

definition msdos_part_is_empty :: "byte \<Rightarrow> bool" where
  "msdos_part_is_empty type \<longleftrightarrow> type = MSDOS_PART_TYPE_NONE"

definition msdos_part_is_extended :: "byte \<Rightarrow> bool" where
  "msdos_part_is_extended type \<longleftrightarrow>
     type = MSDOS_PART_TYPE_EXTENDED \<or> type = MSDOS_PART_TYPE_WIN95_EXTENDED \<or>
     type = MSDOS_PART_TYPE_LINUX_EXTENDED"

record msdos_part_entry =
  part_type :: byte
  part_start :: u32
  part_length :: u32

definition msdos_entry :: "bytes \<Rightarrow> nat \<Rightarrow> msdos_part_entry option" where
  "msdos_entry mbr i = do {
     type \<leftarrow> rd mbr (446 + 16 * i + 4);
     start \<leftarrow> get32 mbr (446 + 16 * i + 8);
     len \<leftarrow> get32 mbr (446 + 16 * i + 12);
     Some \<lparr>part_type = type, part_start = start, part_length = len\<rparr> }"

text \<open>
  The outcome of a search: whether the volume was found, the number of partitions counted so far,
  and the arguments. The number is only incremented by the arguments of the debug output, so it
  stays zero in a build without it. \<open>Inl\<close> stands for a search that has not come to its end: the
  fuel is the depth of the recursion.
\<close>

type_synonym search = "unit + bool \<times> nat \<times> nt_args"

fun mbr_entries ::
  "(nat \<Rightarrow> u32 \<Rightarrow> search option) \<Rightarrow> bool \<Rightarrow> nat list \<Rightarrow> disk_reader \<Rightarrow> nt_args \<Rightarrow>
     u32 \<Rightarrow> bytes \<Rightarrow> nat list \<Rightarrow> nat \<Rightarrow> search option" where
  "mbr_entries rec debug sizes disk_read args start_lba mbr [] part_count = Some (Inr (False, part_count, args))"
| "mbr_entries rec debug sizes disk_read args start_lba mbr (i # is) part_count =
     (if part_count \<ge> 32 then Some (Inr (False, part_count, args))
      else do {
        entry \<leftarrow> msdos_entry mbr i;
        let lba = start_lba + part_start entry;
        if part_type entry = MSDOS_PART_TYPE_GPT_DISK then Some (Inr (False, part_count, args))
        else if part_length entry = 0 \<or> msdos_part_is_empty (part_type entry)
        then mbr_entries rec debug sizes disk_read args start_lba mbr is part_count
        else if msdos_part_is_extended (part_type entry) then do {
          r \<leftarrow> rec part_count lba;
          (case r of
             Inl u \<Rightarrow> Some (Inl u)
           | Inr (found, part_count', args') \<Rightarrow>
               if found then Some (Inr (True, part_count', args'))
               else mbr_entries rec debug sizes disk_read args start_lba mbr is part_count') }
        else do {
          let part_count' = (if debug then part_count + 1 else part_count);
          found \<leftarrow> check_fsuuid sizes disk_read args (ucast lba);
          if found then do {
            let addr = (push_bit 9 (ucast (part_start entry) + ucast start_lba) :: u64);
            signature \<leftarrow> get32 mbr 440;
            partid \<leftarrow> poke (partid args) 0 (le_bytes 8 addr);
            diskid \<leftarrow> poke (diskid args) 0 (le_bytes 4 signature);
            Some (Inr (True, part_count', args\<lparr>partid := partid, partmap := 1, diskid := diskid\<rparr>)) }
          else mbr_entries rec debug sizes disk_read args start_lba mbr is part_count' } })"

fun check_mbr ::
  "nat \<Rightarrow> bool \<Rightarrow> nat list \<Rightarrow> disk_reader \<Rightarrow> nt_args \<Rightarrow> nat \<Rightarrow> u32 \<Rightarrow> search option" where
  "check_mbr 0 debug sizes disk_read args part_count start_lba = Some (Inl ())"
| "check_mbr (Suc fuel) debug sizes disk_read args part_count start_lba =
     (case disk_read (ucast start_lba) 512 of
        None \<Rightarrow> Some (Inr (False, part_count, args))
      | Some mbr \<Rightarrow> do {
          signature \<leftarrow> get16 mbr 510;
          if signature \<noteq> MSDOS_PART_SIGNATURE then Some (Inr (False, part_count, args))
          else mbr_entries (check_mbr fuel debug sizes disk_read args) debug sizes disk_read args
                 start_lba mbr [0..<MSDOS_MAX_PARTITIONS] part_count })"

definition check_msdos_partmap ::
  "nat \<Rightarrow> bool \<Rightarrow> nat list \<Rightarrow> disk_reader \<Rightarrow> nt_args \<Rightarrow> search option" where
  "check_msdos_partmap fuel debug sizes disk_read args = check_mbr fuel debug sizes disk_read args 0 0"

end
