(* ===== verification/PartitionSafe.thy ===== *)
theory PartitionSafe
  imports Partition
begin

text \<open>
  What the search for the boot volume promises: the text of a serial number, no access outside the
  sectors on any contents of a disk, the entry that is chosen, and where the search does not end.
\<close>

section \<open>The text of a serial number\<close>

definition build_sizes :: "nat list \<Rightarrow> bool" where
  "build_sizes sizes \<longleftrightarrow> sizes = type_sizes_lp64 \<or> sizes = type_sizes_ilp32"

definition hexpad :: "nat \<Rightarrow> u64 \<Rightarrow> bytes" where
  "hexpad w u = replicate (w - length (hex_list u 0x20)) 48 @ hex_list u 0x20"

lemma hex_char_nonzero: "unat (d :: u64) < 16 \<Longrightarrow> hex_char d OR 0x20 \<noteq> 0"
  by (drule small_cases) (elim disjE; simp add: hex_char_def Let_def)

lemma hex_list_no_nul: "no_nul (hex_list u 0x20)"
proof (induction u "0x20 :: byte" rule: hex_list.induct)
  case (1 u)
  have "hex_char (u AND 15) OR 0x20 \<noteq> 0" by (rule hex_char_nonzero) (simp add: unat_and_15)
  then show ?case using 1 by (subst hex_list.simps) (auto simp: no_nul_def)
qed

lemma hexpad_no_nul: "no_nul (hexpad w u)"
  using hex_list_no_nul [of u] by (auto simp: hexpad_def no_nul_def)

lemma hexpad_length: "unat u < 16 ^ w \<Longrightarrow> 0 < w \<Longrightarrow> length (hexpad w u) = w"
  using hex_list_length [of u w "0x20"] by (simp add: hexpad_def)

lemma emit_hexpad: "emit (hexpad w u) = map scast (hexpad w u)"
  using hexpad_no_nul [of w u] by (simp add: emit_def takeWhile_no_nul)

lemma format_hex_pad:
  assumes "w \<le> 31"
  shows "format_hex 31 u w (ZPAD OR 0x20) = Some (hexpad w u)"
proof -
  have f: "ucast ((ZPAD OR 0x20) AND LCASE :: u32) = (0x20 :: byte)"
      "ucast ((ZPAD OR 0x20) AND ZPAD :: u32) OR 32 = (48 :: byte)" "(ZPAD OR 0x20) AND ALT_FORM = (0 :: u32)"
    by (simp_all add: ZPAD_def LCASE_def ALT_FORM_def)
  have "length (hex_list u 0x20) \<le> 31" using hex_list_length_16 [of u "0x20"] by simp
  then have "hex_digits 31 u 0x20 [] = Some (hex_list u 0x20)" using hex_digits_eq [of u "0x20" "[]" 31] by simp
  then show ?thesis
    unfolding format_hex_def Let_def f using pad_to_eq [OF assms, of 48 "hex_list u 0x20"]
    by (simp add: hexpad_def)
qed

lemma vcprintf_end: "vcprintf sizes [0] args = Some []"
  by (simp add: vcprintf.simps)

lemma vcprintf_04x:
  assumes "build_sizes sizes" and "unat v < 2 ^ 32"
  shows "vcprintf sizes (37 # 48 # 52 # 120 # rest) (AInt v # as) =
    map_option ((@) (map scast (hexpad 4 v))) (vcprintf sizes rest as)"
proof -
  have v: "take_bit 32 v = v"
    using assms(2) by (simp add: word_eq_iff_unsigned [where ?'a = nat] unsigned_take_bit_eq take_bit_nat_eq_self)
  have sz: "type_size sizes 2 = Some 4" "va_unsigned sizes 4 v = v"
    using assms(1) v by (auto simp: build_sizes_def type_sizes_lp64_def type_sizes_ilp32_def type_size_def
        rd_def va_unsigned_def)
  show ?thesis
    by (subst vcprintf.simps)
      (simp add: conversion_def next_int_def sz format_hex_pad emit_hexpad ZPAD_def [symmetric])
qed

lemma vcprintf_016llx:
  assumes "build_sizes sizes"
  shows "vcprintf sizes (37 # 48 # 49 # 54 # 108 # 108 # 120 # rest) (AInt v # as) =
    map_option ((@) (map scast (hexpad 16 v))) (vcprintf sizes rest as)"
proof -
  have sz: "type_size sizes 4 = Some 8" "va_unsigned sizes 8 v = v"
    using assms by (auto simp: build_sizes_def type_sizes_lp64_def type_sizes_ilp32_def type_size_def
        rd_def va_unsigned_def)
  show ?thesis
    by (subst vcprintf.simps)
      (simp add: conversion_def next_int_def sz format_hex_pad emit_hexpad)
qed

text \<open>The serial number of a file system, as the code prints it.\<close>

definition serial_text_32 :: "u32 \<Rightarrow> bytes" where
  "serial_text_32 n = hexpad 4 (ucast (ucast (drop_bit 16 n) :: u16)) @ 45 # hexpad 4 (ucast (ucast n :: u16))"

lemma half_bound: "unat (ucast (h :: u16) :: u64) < 16 ^ 4"
proof -
  have "unat (ucast h :: u64) = unat h" by (simp add: unsigned_ucast_eq take_bit_nat_eq_self unat_bound [THEN less_le_trans])
  then show ?thesis using unat_bound [of h] by simp
qed

lemma serial_text_32: "length (serial_text_32 n) = 9" "no_nul (serial_text_32 n)"
  using hexpad_no_nul by (auto simp: serial_text_32_def hexpad_length [OF half_bound] no_nul_def)

lemma serial_text_64: "length (hexpad 16 n) = 16" "no_nul (hexpad 16 n)"
proof -
  have "unat n < 16 ^ 16" using unat_bound [of n] by simp
  then show "length (hexpad 16 n) = 16" by (rule hexpad_length) simp
qed (rule hexpad_no_nul)

lemma serial_32_text:
  assumes "build_sizes sizes" and "length uuid = 17"
  shows "serial_32 sizes uuid n = Some (serial_text_32 n @ 0 # drop 10 uuid)"
proof -
  have b: "unat (ucast (h :: u16) :: u64) < 2 ^ 32" for h using half_bound [of h] by simp
  have f: "cstr ''%04x-%04x'' = 37 # 48 # 52 # 120 # 45 # 37 # 48 # 52 # 120 # [0]" by (simp add: cstr_def)
  have "vcprintf sizes (cstr ''%04x-%04x'')
        [AInt (ucast (ucast (drop_bit 16 n) :: u16)), AInt (ucast (ucast n :: u16))] =
      Some (map scast (serial_text_32 n))"
    unfolding f
    by (simp add: vcprintf_04x [OF assms(1) b] vcprintf.simps [of sizes "45 # _"] vcprintf_end serial_text_32_def)
  from vsnprintf_result [OF this, of 17 uuid] show ?thesis
    using assms(2) serial_text_32(1) [of n]
    by (simp add: serial_32_def take_map map_ucast_scast del: map_map)
qed

lemma serial_64_text:
  assumes "build_sizes sizes" and "length uuid = 17"
  shows "serial_64 sizes uuid n = Some (hexpad 16 n @ [0])"
proof -
  have f: "cstr ''%016llx'' = 37 # 48 # 49 # 54 # 108 # 108 # 120 # [0]" by (simp add: cstr_def)
  have "vcprintf sizes (cstr ''%016llx'') [AInt n] = Some (map scast (hexpad 16 n))"
    unfolding f by (simp add: vcprintf_016llx [OF assms(1)] vcprintf_end)
  from vsnprintf_result [OF this, of 17 uuid] show ?thesis
    using assms(2) serial_text_64(1) [of n]
    by (simp add: serial_64_def take_map map_ucast_scast del: map_map)
qed

section \<open>The text of a volume\<close>

definition marked :: "bytes \<Rightarrow> nat \<Rightarrow> string \<Rightarrow> bool" where
  "marked vbr ofs mark \<longleftrightarrow> take (length mark) (drop ofs vbr) = map of_char mark"

definition serial_at :: "bytes \<Rightarrow> nat \<Rightarrow> u32" where
  "serial_at vbr ofs = le_word (take 4 (drop ofs vbr))"

definition volume_text :: "bytes \<Rightarrow> bytes" where
  "volume_text vbr =
     (if marked vbr 3 ''EXFAT'' then serial_text_32 (serial_at vbr 100)
      else if marked vbr 3 ''NTFS'' then hexpad 16 (le_word (take 8 (drop 72 vbr)))
      else if marked vbr 54 ''FAT12'' \<or> marked vbr 54 ''FAT16'' then serial_text_32 (serial_at vbr 39)
      else if marked vbr 82 ''FAT32'' then serial_text_32 (serial_at vbr 67)
      else map of_char '' '')"

lemma has_mark_eq:
  assumes "ofs + length mark \<le> length vbr"
  shows "has_mark vbr ofs mark = Some (marked vbr ofs mark)"
proof -
  have l: "length mark \<le> length (drop ofs vbr)" using assms by simp
  then obtain d where d: "memcmp (drop ofs vbr) (map of_char mark) (length mark) = Some d"
    using memcmp_returns [of "length mark" "drop ofs vbr" "map of_char mark"] by auto
  then have "d = 0 \<longleftrightarrow> marked vbr ofs mark"
    using memcmp_zero_iff [of "length mark" "drop ofs vbr" "map of_char mark"] l
    by (auto simp: marked_def)
  then show ?thesis using d by (simp add: has_mark_def)
qed

lemma volume_text_no_nul: "no_nul (volume_text vbr)"
proof -
  have "no_nul (map of_char '' '' :: bytes)" by (simp add: no_nul_def)
  then show ?thesis using serial_text_32(2) serial_text_64(2) by (simp add: volume_text_def)
qed

lemma volume_uuid_text:
  assumes "build_sizes sizes" and "length vbr = 512"
  shows "\<exists>x. volume_uuid sizes vbr = Some (volume_text vbr @ 0 # x)"
proof -
  let ?u = "char_array 17 '' ''"
  have u: "length ?u = 17" "?u = map of_char '' '' @ 0 # replicate 15 0"
    by (simp_all add: char_array_def eval_nat_numeral)
  have g: "get32 vbr 100 = Some (serial_at vbr 100)" "get32 vbr 39 = Some (serial_at vbr 39)"
      "get32 vbr 67 = Some (serial_at vbr 67)" "get64 vbr 72 = Some (le_word (take 8 (drop 72 vbr)))"
    using assms(2) by (simp_all add: get32_def get64_def peek_def serial_at_def)
  have m: "has_mark vbr 3 ''EXFAT'' = Some (marked vbr 3 ''EXFAT'')"
      "has_mark vbr 3 ''NTFS'' = Some (marked vbr 3 ''NTFS'')"
      "has_mark vbr 54 ''FAT12'' = Some (marked vbr 54 ''FAT12'')"
      "has_mark vbr 54 ''FAT16'' = Some (marked vbr 54 ''FAT16'')"
      "has_mark vbr 82 ''FAT32'' = Some (marked vbr 82 ''FAT32'')"
    using assms(2) by (simp_all add: has_mark_eq)
  show ?thesis
    unfolding volume_uuid_def Let_def m g Option.bind.simps serial_32_text [OF assms(1) u(1)]
      serial_64_text [OF assms(1) u(1)] volume_text_def
    using u(2) by simp
qed

section \<open>The interface of a disk\<close>

text \<open>What the search relies on: a read that succeeds delivers as many bytes as were asked for.\<close>

locale sector_disk =
  fixes disk :: disk_reader
  assumes reads_all: "disk lba n = Some bs \<Longrightarrow> length bs = n"

definition c_string :: "bytes \<Rightarrow> bytes" where
  "c_string s = takeWhile (\<lambda>c. c \<noteq> 0) s"

lemma c_string_eq: "no_nul t \<Longrightarrow> c_string (t @ 0 # x) = t"
  by (induction t) (auto simp: c_string_def no_nul_def)

lemma c_string_split: "terminated s \<Longrightarrow> \<exists>x. s = c_string s @ 0 # x \<and> no_nul (c_string s)"
  using terminated_split [of s] c_string_eq by metis

definition search_args :: "nt_args \<Rightarrow> bool" where
  "search_args a \<longleftrightarrow> terminated (fsuuid a) \<and> length (partid a) = 16 \<and> length (diskid a) = 16"

text \<open>The volume at a sector is the one asked for: its text is the wanted one up to case.\<close>

definition volume_is :: "disk_reader \<Rightarrow> nt_args \<Rightarrow> u64 \<Rightarrow> bool" where
  "volume_is disk a lba =
     (case disk lba 512 of None \<Rightarrow> False
      | Some vbr \<Rightarrow> map upper (volume_text vbr) = map upper (c_string (fsuuid a)))"

context sector_disk
begin

lemma check_fsuuid_volume:
  assumes "build_sizes sizes" and "search_args a"
  shows "check_fsuuid sizes disk a lba = Some (volume_is disk a lba)"
proof (cases "disk lba 512")
  case None
  then show ?thesis by (simp add: check_fsuuid_def volume_is_def)
next
  case (Some vbr)
  obtain x where x: "volume_uuid sizes vbr = Some (volume_text vbr @ 0 # x)"
    using volume_uuid_text [OF assms(1) reads_all [OF Some]] by blast
  obtain y where y: "fsuuid a = c_string (fsuuid a) @ 0 # y" "no_nul (c_string (fsuuid a))"
    using c_string_split assms(2) by (auto simp: search_args_def)
  obtain d where d: "strcasecmp (volume_text vbr @ 0 # x) (fsuuid a) = Some d"
    using strcasecmp_total assms(2) by (metis search_args_def terminated_append)
  have "strcasecmp (volume_text vbr @ 0 # x) (fsuuid a) = Some 0 \<longleftrightarrow>
      map upper (volume_text vbr) = map upper (c_string (fsuuid a))"
    by (subst y(1)) (rule strcasecmp_zero_iff [OF volume_text_no_nul y(2)])
  then show ?thesis using Some x d by (simp add: check_fsuuid_def volume_is_def)
qed

end

section \<open>GPT: the first matching entry\<close>

text \<open>The entry of an index, or \<open>None\<close> when one of its sectors cannot be read.\<close>

definition gpt_slot :: "disk_reader \<Rightarrow> gpt_header \<Rightarrow> nat \<Rightarrow> gpt_part_entry option" where
  "gpt_slot disk gpt k = the (gpt_entry disk gpt (of_nat k))"

text \<open>The search ends at an entry that cannot be read and at one that is used and holds the volume.\<close>

definition ends_search :: "disk_reader \<Rightarrow> nt_args \<Rightarrow> gpt_part_entry option \<Rightarrow> bool" where
  "ends_search disk a slot =
     (case slot of None \<Rightarrow> True
      | Some entry \<Rightarrow> entry_type entry \<noteq> replicate 16 0 \<and> volume_is disk a (entry_start entry))"

definition gpt_result :: "nt_args \<Rightarrow> gpt_header \<Rightarrow> gpt_part_entry option \<Rightarrow> bool \<times> nt_args" where
  "gpt_result a gpt slot =
     (case slot of None \<Rightarrow> (False, a)
      | Some entry \<Rightarrow> (True, a\<lparr>partid := entry_guid entry, partmap := 0, diskid := gpt_guid gpt\<rparr>))"

definition gpt_boot :: "disk_reader \<Rightarrow> nt_args \<Rightarrow> gpt_header \<Rightarrow> bool \<times> nt_args" where
  "gpt_boot disk a gpt =
     (case find (\<lambda>k. ends_search disk a (gpt_slot disk gpt k)) [0..<unat (gpt_maxpart gpt)] of
        None \<Rightarrow> (False, a)
      | Some k \<Rightarrow> gpt_result a gpt (gpt_slot disk gpt k))"

lemma entry_offset: "unat (ofs - push_bit 9 (drop_bit 9 ofs) :: u64) < 512"
proof -
  have e: "unat (push_bit 9 (drop_bit 9 ofs)) = unat ofs div 2 ^ 9 * 2 ^ 9"
    using unat_and_not_mask [of ofs 9] by (simp only: and_not_mask)
  also have "\<dots> \<le> unat ofs" by (rule div_times_less_eq_dividend)
  finally have "unat (ofs - push_bit 9 (drop_bit 9 ofs)) = unat ofs - unat ofs div 2 ^ 9 * 2 ^ 9"
    using e by (simp add: unat_sub word_le_nat_alt)
  also have "\<dots> = unat ofs mod 2 ^ 9" by (simp only: minus_div_mult_eq_mod)
  finally show ?thesis by simp
qed

lemma poke_all: "length old = length new \<Longrightarrow> poke old 0 new = Some new"
  by (simp add: poke_def)

context sector_disk
begin

lemma gpt_entry_slot: "\<exists>slot. gpt_entry disk gpt i = Some slot \<and>
    (\<forall>entry. slot = Some entry \<longrightarrow> length (entry_guid entry) = 16)"
proof -
  let ?ofs = "ucast (i * gpt_entry_size gpt) :: u64"
  let ?lba = "drop_bit 9 ?ofs + gpt_partitions gpt"
  show ?thesis
  proof (cases "disk ?lba 512 = None \<or> disk (?lba + 1) 512 = None")
    case True
    then show ?thesis by (auto simp: gpt_entry_def Let_def split: option.splits)
  next
    case False
    then obtain b1 b2 where b: "disk ?lba 512 = Some b1" "disk (?lba + 1) 512 = Some b2" by auto
    have "length b1 = 512" "length b2 = 512" using b reads_all by auto
    then obtain m where m: "peek (b1 @ b2) (unat (?ofs - push_bit 9 (drop_bit 9 ?ofs))) 128 = Some m"
      using entry_offset [of ?ofs] by (simp add: peek_def)
    then have "length m = 128" by (rule peek_length)
    then show ?thesis
      using b m by (auto simp: gpt_entry_def Let_def gpt_part_entry_of_def get64_def peek_def)
  qed
qed

lemma gpt_scan_find:
  assumes "build_sizes sizes" and a: "search_args a" and g: "length (gpt_guid gpt) = 16"
  shows "gpt_scan sizes disk gpt a (of_nat k) n = Some
     (case find (\<lambda>k. ends_search disk a (gpt_slot disk gpt k)) [k..<k + n] of
        None \<Rightarrow> (False, a) | Some k \<Rightarrow> gpt_result a gpt (gpt_slot disk gpt k))"
proof (induction n arbitrary: k)
  case (Suc n)
  obtain slot where s: "gpt_entry disk gpt (of_nat k) = Some slot"
      "\<And>entry. slot = Some entry \<Longrightarrow> length (entry_guid entry) = 16"
    using gpt_entry_slot [of gpt "of_nat k"] by blast
  then have sl: "gpt_slot disk gpt k = slot" by (simp add: gpt_slot_def)
  have up: "[k..<k + Suc n] = k # [Suc k..<Suc k + n]" by (simp add: upt_conv_Cons)
  have k1: "of_nat k + 1 = (of_nat (Suc k) :: u32)" by simp
  show ?case
  proof (cases slot)
    case None
    then show ?thesis unfolding up using s(1) sl by (simp add: ends_search_def gpt_result_def)
  next
    case (Some entry)
    have c: "check_fsuuid sizes disk a (entry_start entry) = Some (volume_is disk a (entry_start entry))"
      by (rule check_fsuuid_volume [OF assms(1) a])
    have "poke (partid a) 0 (entry_guid entry) = Some (entry_guid entry)"
        "poke (diskid a) 0 (gpt_guid gpt) = Some (gpt_guid gpt)"
      using a g s(2) [OF Some] by (simp_all add: search_args_def poke_all)
    then show ?thesis
      unfolding up using s(1) sl Some c Suc.IH [of "Suc k", folded k1]
      by (simp add: ends_search_def gpt_result_def del: upt_Suc)
  qed
qed simp

lemma gpt_partmap_boot:
  assumes "build_sizes sizes" and "search_args a"
  shows "check_gpt_partmap sizes disk a =
    (case disk 1 92 of None \<Rightarrow> Some (False, a)
     | Some m \<Rightarrow> if take 8 m \<noteq> GPT_HEADER_MAGIC then Some (False, a)
                 else map_option (gpt_boot disk a) (gpt_header_of m))"
    and "disk 1 92 = Some m \<Longrightarrow> \<exists>gpt. gpt_header_of m = Some gpt"
proof -
  show hd: "\<exists>gpt. gpt_header_of m = Some gpt" if "disk 1 92 = Some m" for m
    using reads_all [OF that] by (simp add: gpt_header_of_def peek_def get64_def get32_def)
  show "check_gpt_partmap sizes disk a =
    (case disk 1 92 of None \<Rightarrow> Some (False, a)
     | Some m \<Rightarrow> if take 8 m \<noteq> GPT_HEADER_MAGIC then Some (False, a)
                 else map_option (gpt_boot disk a) (gpt_header_of m))"
  proof (cases "disk 1 92")
    case (Some m)
    have l: "8 \<le> length m" "8 \<le> length GPT_HEADER_MAGIC" "take 8 GPT_HEADER_MAGIC = GPT_HEADER_MAGIC"
      using reads_all [OF Some] by (simp_all add: GPT_HEADER_MAGIC_def)
    obtain d where d: "memcmp m GPT_HEADER_MAGIC 8 = Some d" "d = 0 \<longleftrightarrow> take 8 m = GPT_HEADER_MAGIC"
      using memcmp_returns [OF l(1,2)] memcmp_zero_iff [OF l(1,2)] l(3) by auto
    obtain gpt where gpt: "gpt_header_of m = Some gpt" using hd [OF Some] by blast
    then have "length (gpt_guid gpt) = 16"
      by (auto simp: gpt_header_of_def bind_eq_Some_conv dest: peek_length)
    from gpt_scan_find [OF assms this, of 0 "unat (gpt_maxpart gpt)"]
    show ?thesis using Some d gpt by (simp add: check_gpt_partmap_def gpt_boot_def)
  qed (simp add: check_gpt_partmap_def)
qed

end

section \<open>MS-DOS: what is found\<close>

text \<open>
  A search that found the volume stored the place of a partition that holds it; one that did not
  left the arguments alone.
\<close>

definition mbr_outcome :: "disk_reader \<Rightarrow> nt_args \<Rightarrow> search \<Rightarrow> bool" where
  "mbr_outcome disk a r =
     (case r of Inl _ \<Rightarrow> True
      | Inr (found, _, a') \<Rightarrow>
          if found then \<exists>base start signature. volume_is disk a (ucast (base + start :: u32)) \<and>
            a' = a\<lparr>partid := le_bytes 8 (push_bit 9 (ucast start + ucast base) :: u64) @ drop 8 (partid a),
                   partmap := 1, diskid := le_bytes 4 (signature :: u32) @ drop 4 (diskid a)\<rparr>
          else a' = a)"

lemma mbr_outcome_not_found [simp]: "mbr_outcome disk a (Inr (False, n, a))"
  by (simp add: mbr_outcome_def)

lemma msdos_entry_some:
  assumes "length mbr = 512" and "i < 4"
  shows "\<exists>e. msdos_entry mbr i = Some e"
  using assms by (simp add: msdos_entry_def rd_def get32_def peek_def)

context sector_disk
begin

lemma mbr_entries_outcome:
  assumes "build_sizes sizes" and a: "search_args a" and m: "length mbr = 512" and "\<forall>i\<in>set is. i < 4"
    and rec: "\<And>n lba. \<exists>r. rec n lba = Some r \<and> mbr_outcome disk a r"
  shows "\<exists>r. mbr_entries rec debug sizes disk a base mbr is n = Some r \<and> mbr_outcome disk a r"
  using assms(4)
proof (induction "is" arbitrary: n)
  case (Cons i "is")
  have ih: "\<exists>r. mbr_entries rec debug sizes disk a base mbr is k = Some r \<and> mbr_outcome disk a r" for k
    using Cons by simp
  obtain e where e: "msdos_entry mbr i = Some e" using msdos_entry_some [OF m] Cons.prems by auto
  show ?case
  proof (cases "n \<ge> 32 \<or> part_type e = MSDOS_PART_TYPE_GPT_DISK \<or> part_length e = 0 \<or> msdos_part_is_empty (part_type e)")
    case True
    then show ?thesis using e ih by (elim disjE) (simp_all add: Let_def)
  next
    case other: False
    show ?thesis
    proof (cases "msdos_part_is_extended (part_type e)")
      case True
      obtain r where r: "rec n (base + part_start e) = Some r" "mbr_outcome disk a r" using rec by blast
      show ?thesis
      proof (cases r)
        case (Inl u)
        then show ?thesis using r True e other by (simp add: Let_def)
      next
        case (Inr x)
        obtain found k a' where x: "x = (found, k, a')" by (cases x)
        show ?thesis
        proof (cases found)
          case found: True
          then show ?thesis using r True e other Inr x by (simp add: Let_def)
        next
          case False
          then have "a' = a" using r(2) Inr x by (simp add: mbr_outcome_def)
          then show ?thesis using r(1) True e other Inr x False ih [of k] by (simp add: Let_def)
        qed
      qed
    next
      case False
      let ?s = "get32 mbr 440"
      obtain s where s: "?s = Some s" using m by (simp add: get32_def peek_def)
      let ?p = "le_bytes 8 (push_bit 9 (ucast (part_start e) + ucast base) :: u64)"
      have p: "poke (partid a) 0 ?p = Some (?p @ drop 8 (partid a))"
          "poke (diskid a) 0 (le_bytes 4 s) = Some (le_bytes 4 s @ drop 4 (diskid a))"
        using a by (simp_all add: search_args_def poke_def)
      show ?thesis
      proof (cases "volume_is disk a (ucast (base + part_start e))")
        case True
        then have "mbr_outcome disk a (Inr (True, k, a\<lparr>partid := ?p @ drop 8 (partid a), partmap := 1,
            diskid := le_bytes 4 s @ drop 4 (diskid a)\<rparr>))" for k
          unfolding mbr_outcome_def by auto
        then show ?thesis
          using True False other e s p check_fsuuid_volume [OF assms(1) a] by (simp add: Let_def)
      next
        case no: False
        then show ?thesis
          using False other e ih check_fsuuid_volume [OF assms(1) a] by (simp add: Let_def)
      qed
    qed
  qed
qed simp

lemma check_mbr_outcome:
  assumes "build_sizes sizes" and "search_args a"
  shows "\<exists>r. check_mbr fuel debug sizes disk a n lba = Some r \<and> mbr_outcome disk a r"
proof (induction fuel arbitrary: n lba)
  case 0
  then show ?case by (simp add: mbr_outcome_def)
next
  case (Suc fuel)
  show ?case
  proof (cases "disk (ucast lba) 512")
    case (Some mbr)
    have m: "length mbr = 512" using reads_all [OF Some] .
    then obtain s where s: "get16 mbr 510 = Some s" by (simp add: get16_def peek_def)
    have "\<exists>r. mbr_entries (check_mbr fuel debug sizes disk a) debug sizes disk a lba mbr [0..<4] n = Some r
        \<and> mbr_outcome disk a r"
      by (rule mbr_entries_outcome [OF assms m]) (use Suc in auto)
    then show ?thesis using Some s by (simp add: MSDOS_MAX_PARTITIONS_def)
  qed simp
qed

end

section \<open>Properties\<close>

context sector_disk begin

lemma gpt_partmap_total:
  assumes "build_sizes sizes" and "search_args a"
  shows "\<exists>found a'. check_gpt_partmap sizes disk a = Some (found, a') \<and> (\<not> found \<longrightarrow> a' = a) \<and>
    initrd_path a' = initrd_path a"
proof (cases "disk 1 92")
  case (Some m)
  obtain gpt where "gpt_header_of m = Some gpt" using gpt_partmap_boot(2) [OF assms Some] by blast
  moreover have "\<exists>found a'. gpt_boot disk a gpt = (found, a') \<and> (\<not> found \<longrightarrow> a' = a) \<and>
      initrd_path a' = initrd_path a"
    by (auto simp: gpt_boot_def gpt_result_def split: option.splits)
  ultimately show ?thesis using gpt_partmap_boot(1) [OF assms] Some by auto
qed (use gpt_partmap_boot(1) [OF assms] in auto)

end

text \<open>C29:
  On a GPT disk, whatever its sectors hold, no access leaves them, and the search selects exactly
  the first used entry whose volume carries the wanted serial number (up to case): its GUID and the
  disk's are stored. It gives up, leaving the arguments alone, at the first entry that cannot be
  read, without a header or its magic, and when no entry matches.
\<close>

theorem check_gpt_partmap_first:
  assumes "sector_disk disk" and "build_sizes sizes" and "search_args a"
  shows "check_gpt_partmap sizes disk a = Some
    (case disk 1 92 of None \<Rightarrow> (False, a)
     | Some m \<Rightarrow> if take 8 m \<noteq> GPT_HEADER_MAGIC then (False, a) else gpt_boot disk a (the (gpt_header_of m)))"
proof (cases "disk 1 92")
  case (Some m)
  then obtain gpt where "gpt_header_of m = Some gpt"
    using sector_disk.gpt_partmap_boot(2) [OF assms] by blast
  then show ?thesis using sector_disk.gpt_partmap_boot(1) [OF assms] Some by simp
qed (use sector_disk.gpt_partmap_boot(1) [OF assms] in simp)

text \<open>C30:
  On an MS-DOS disk, whatever its sectors hold, no access leaves them, to any depth of the
  recursion; a search that finds the volume stored the byte address of a partition that carries the
  wanted serial number and the disk's signature, and one that does not leaves the arguments alone.
\<close>

theorem check_msdos_partmap_sound:
  assumes "sector_disk disk" and "build_sizes sizes" and "search_args a"
  shows "\<exists>r. check_msdos_partmap fuel debug sizes disk a = Some r \<and> mbr_outcome disk a r"
  unfolding check_msdos_partmap_def by (rule sector_disk.check_mbr_outcome [OF assms])

text \<open>An extended partition is searched at once, before the entries that follow it.\<close>

lemma check_mbr_extended:
  assumes "disk (ucast lba) 512 = Some mbr" and "get16 mbr 510 = Some MSDOS_PART_SIGNATURE"
    and "msdos_entry mbr 0 = Some e" and "msdos_part_is_extended (part_type e)" and "part_length e \<noteq> 0"
    and "n < 32" and "check_mbr fuel debug sizes disk a n (lba + part_start e) = Some (Inl ())"
  shows "check_mbr (Suc fuel) debug sizes disk a n lba = Some (Inl ())"
proof -
  have "[0..<MSDOS_MAX_PARTITIONS] = 0 # [1, 2, 3]" by (simp add: MSDOS_MAX_PARTITIONS_def upt_conv_Cons)
  moreover have "part_type e \<noteq> MSDOS_PART_TYPE_GPT_DISK" "\<not> msdos_part_is_empty (part_type e)"
    using assms(4) by (auto simp: msdos_part_is_extended_def msdos_part_is_empty_def
        MSDOS_PART_TYPE_EXTENDED_def MSDOS_PART_TYPE_WIN95_EXTENDED_def MSDOS_PART_TYPE_LINUX_EXTENDED_def
        MSDOS_PART_TYPE_GPT_DISK_def MSDOS_PART_TYPE_NONE_def)
  ultimately show ?thesis using assms by (simp add: Let_def)
qed

text \<open>C31:
  A partition table whose first entry is an extended partition that starts at the table itself is
  searched for ever: the recursion has no visited set, and the limit of thirty-two partitions
  counts data partitions only (and only in a build with debug output).
\<close>

theorem check_mbr_cycle:
  assumes "disk (ucast lba) 512 = Some mbr" and "get16 mbr 510 = Some MSDOS_PART_SIGNATURE"
    and "msdos_entry mbr 0 = Some e" and "msdos_part_is_extended (part_type e)" and "part_length e \<noteq> 0"
    and "part_start e = 0" and "n < 32"
  shows "check_mbr fuel debug sizes disk a n lba = Some (Inl ())"
proof (induction fuel)
  case (Suc fuel)
  then show ?case using assms check_mbr_extended [of disk lba mbr e n fuel debug sizes a] by simp
qed simp

section \<open>Small disks\<close>

text \<open>Sectors filled up with zeros, on any number of them.\<close>

definition sectors :: "(u64 \<Rightarrow> bytes) \<Rightarrow> disk_reader" where
  "sectors f lba n = Some (take n (f lba @ replicate n 0))"

lemma sectors_disk: "sector_disk (sectors f)"
  by unfold_locales (auto simp: sectors_def)

definition ntfs_boot :: bytes where
  "ntfs_boot = [0xeb, 0x52, 0x90] @ map of_char ''NTFS    '' @ replicate 61 0 @ le_bytes 8 (0x2a :: u64)"

definition wanted :: nt_args where
  "wanted = initial_args\<lparr>fsuuid := map of_char ''000000000000002A'' @ [0]\<rparr>"

lemma wanted_args: "search_args wanted"
  by (simp add: search_args_def wanted_def initial_args_def terminated_def)

lemma ntfs_boot_text: "volume_text (take 512 (ntfs_boot @ replicate 512 0)) = map of_char ''000000000000002a''"
proof -
  have "marked (take 512 (ntfs_boot @ replicate 512 0)) 3 ''EXFAT'' = False"
      "marked (take 512 (ntfs_boot @ replicate 512 0)) 3 ''NTFS'' = True"
    by (simp_all add: marked_def ntfs_boot_def take_Cons')
  moreover have "le_word (take 8 (drop 72 (take 512 (ntfs_boot @ replicate 512 0)))) = (0x2a :: u64)"
    by (simp add: ntfs_boot_def eval_simps)
  moreover have "hexpad 16 0x2a = map of_char ''000000000000002a''" by code_simp
  ultimately show ?thesis by (simp add: volume_text_def)
qed

lemma volume_wanted: "f lba = ntfs_boot \<Longrightarrow> volume_is (sectors f) wanted lba"
proof -
  assume f: "f lba = ntfs_boot"
  have "map upper (map of_char ''000000000000002a'') = map upper (c_string (fsuuid wanted))"
    unfolding wanted_def by code_simp
  then show ?thesis using ntfs_boot_text by (simp add: volume_is_def sectors_def f)
qed

text \<open>A GPT disk with two entries, the second of which is used.\<close>

definition gpt_disk :: disk_reader where
  "gpt_disk = sectors (\<lambda>lba.
     if lba = 1 then GPT_HEADER_MAGIC @ replicate 48 0 @ replicate 16 7 @ le_bytes 8 (2 :: u64) @
       le_bytes 4 (2 :: u32) @ le_bytes 4 (128 :: u32)
     else if lba = 2 then replicate 128 0 @ replicate 16 1 @ replicate 16 9 @ le_bytes 8 (4 :: u64)
     else if lba = 4 then ntfs_boot else [])"

theorem check_gpt_partmap_first_witness:
  "check_gpt_partmap type_sizes_lp64 gpt_disk wanted =
     Some (True, wanted\<lparr>partid := replicate 16 9, partmap := 0, diskid := replicate 16 7\<rparr>)"
proof -
  let ?gpt = "\<lparr>gpt_guid = replicate 16 7, gpt_partitions = 2, gpt_maxpart = 2, gpt_entry_size = 128\<rparr>"
  let ?e = "\<lparr>entry_type = replicate 16 1, entry_guid = replicate 16 9, entry_start = 4\<rparr>"
  obtain m where m: "gpt_disk 1 92 = Some m" "take 8 m = GPT_HEADER_MAGIC" "gpt_header_of m = Some ?gpt"
    by (simp add: gpt_disk_def sectors_def GPT_HEADER_MAGIC_def gpt_header_of_def peek_def get64_def get32_def eval_simps)
  have z: "le_word (replicate 8 0) = (0 :: u64)" by code_simp
  have 0: "gpt_slot gpt_disk ?gpt 0 = Some \<lparr>entry_type = replicate 16 0, entry_guid = replicate 16 0, entry_start = 0\<rparr>"
    by (simp add: gpt_slot_def gpt_entry_def gpt_disk_def sectors_def Let_def peek_def gpt_part_entry_of_def get64_def z)
  have 1: "gpt_slot gpt_disk ?gpt (Suc 0) = Some ?e"
    by (simp add: gpt_slot_def gpt_entry_def gpt_disk_def sectors_def Let_def peek_def gpt_part_entry_of_def get64_def eval_simps)
  have v: "volume_is gpt_disk wanted 4" unfolding gpt_disk_def by (rule volume_wanted) simp
  have "replicate 16 1 \<noteq> (replicate 16 0 :: bytes)" by simp
  then have "gpt_boot gpt_disk wanted ?gpt =
      (True, wanted\<lparr>partid := replicate 16 9, partmap := 0, diskid := replicate 16 7\<rparr>)"
    using 0 1 v by (simp add: gpt_boot_def ends_search_def gpt_result_def upt_conv_Cons)
  moreover have "sector_disk gpt_disk" unfolding gpt_disk_def by (rule sectors_disk)
  moreover have "build_sizes type_sizes_lp64" by (simp add: build_sizes_def)
  ultimately show ?thesis using check_gpt_partmap_first [of gpt_disk type_sizes_lp64 wanted] wanted_args m by simp
qed

text \<open>An MS-DOS table with one entry.\<close>

definition mbr_with :: "byte \<Rightarrow> u32 \<Rightarrow> bytes" where
  "mbr_with type start = replicate 440 0 @ le_bytes 4 (0xcafe :: u32) @ replicate 6 0 @ [type] @ replicate 3 0 @
     le_bytes 4 start @ le_bytes 4 (1 :: u32) @ replicate 48 0 @ [0x55, 0xaa]"

lemma mbr_with_fields:
  "length (mbr_with t s) = 512" "get16 (mbr_with t s) 510 = Some MSDOS_PART_SIGNATURE"
  "get32 (mbr_with t s) 440 = Some 0xcafe"
  "msdos_entry (mbr_with t s) 0 = Some \<lparr>part_type = t, part_start = s, part_length = 1\<rparr>"
proof -
  show l: "length (mbr_with t s) = 512" by (simp add: mbr_with_def eval_simps)
  show "get16 (mbr_with t s) 510 = Some MSDOS_PART_SIGNATURE"
    by (simp add: get16_def peek_def l) (simp add: mbr_with_def MSDOS_PART_SIGNATURE_def eval_simps)
  show "get32 (mbr_with t s) 440 = Some 0xcafe"
    by (simp add: get32_def peek_def l) (simp add: mbr_with_def le_word_le_bytes)
  show "msdos_entry (mbr_with t s) 0 = Some \<lparr>part_type = t, part_start = s, part_length = 1\<rparr>"
    by (simp add: msdos_entry_def get32_def peek_def rd_def l)
      (simp add: mbr_with_def nth_append le_word_le_bytes)
qed

theorem check_mbr_cycle_witness:
  "check_mbr 1000 False type_sizes_ilp32 (sectors (\<lambda>_. mbr_with 5 0)) wanted 0 0 = Some (Inl ())"
proof -
  have "sectors (\<lambda>_. mbr_with 5 0) (ucast (0 :: u32)) 512 = Some (mbr_with 5 0)"
    by (simp add: sectors_def mbr_with_fields)
  then show ?thesis
    using check_mbr_cycle [of "sectors (\<lambda>_. mbr_with 5 0)" 0 "mbr_with 5 0"
        "\<lparr>part_type = 5, part_start = 0, part_length = 1\<rparr>" 0 1000 False type_sizes_ilp32 wanted]
    by (simp add: mbr_with_fields msdos_part_is_extended_def MSDOS_PART_TYPE_EXTENDED_def)
qed

theorem check_msdos_partmap_sound_witness:
  "\<exists>r. check_msdos_partmap 5 True type_sizes_lp64
       (sectors (\<lambda>lba. if lba = 0 then mbr_with 7 1 else ntfs_boot)) wanted = Some r \<and>
     mbr_outcome (sectors (\<lambda>lba. if lba = 0 then mbr_with 7 1 else ntfs_boot)) wanted r"
  by (rule check_msdos_partmap_sound [OF sectors_disk _ wanted_args]) (simp add: build_sizes_def)

end
