(* ===== verification/FsuuidTool.thy ===== *)
theory FsuuidTool
  imports PartitionSafe
begin

text \<open>
  The tool that prints the serial number of a volume (\<^verbatim>\<open>utils/fsuuid.c\<close>), and its agreement with
  the loader: what it prints selects the volume.
\<close>

text \<open>The tool runs on the C library's \<^verbatim>\<open>snprintf\<close>, whose output for the two formats is given here.\<close>

definition libc_serial_32 :: "bytes \<Rightarrow> u32 \<Rightarrow> bytes" where
  "libc_serial_32 uuid serial = serial_text_32 serial @ 0 # drop 10 uuid"

definition libc_serial_64 :: "bytes \<Rightarrow> u64 \<Rightarrow> bytes" where
  "libc_serial_64 uuid serial = hexpad 16 serial @ [0]"

datatype fsuuid_error = Could_not_open | Could_not_read | Unsupported_filesystem

definition tool_uuid :: "bytes \<Rightarrow> bytes option" where
  "tool_uuid vbr = do {
     let uuid = char_array 17 '''';
     exfat \<leftarrow> has_mark vbr 3 ''EXFAT'';
     if exfat then map_option (libc_serial_32 uuid) (get32 vbr 100)
     else do {
       ntfs \<leftarrow> has_mark vbr 3 ''NTFS'';
       if ntfs then map_option (libc_serial_64 uuid) (get64 vbr 72)
       else do {
         fat12 \<leftarrow> has_mark vbr 54 ''FAT12'';
         if fat12 then map_option (libc_serial_32 uuid) (get32 vbr 39)
         else do {
           fat16 \<leftarrow> has_mark vbr 54 ''FAT16'';
           if fat16 then map_option (libc_serial_32 uuid) (get32 vbr 39)
           else do {
             fat32 \<leftarrow> has_mark vbr 82 ''FAT32'';
             if fat32 then map_option (libc_serial_32 uuid) (get32 vbr 67)
             else Some uuid }}}}}"

text \<open>The volume's contents, or \<open>None\<close> when it cannot be opened; the text printed, or the message.\<close>

definition fsuuid_get :: "bytes option \<Rightarrow> (fsuuid_error + bytes) option" where
  "fsuuid_get volume =
     (case volume of
        None \<Rightarrow> Some (Inl Could_not_open)
      | Some contents \<Rightarrow>
          if length contents < 512 then Some (Inl Could_not_read)
          else do {
            uuid \<leftarrow> tool_uuid (take 512 contents);
            c \<leftarrow> rd uuid 0;
            if c \<noteq> 0 then map_option Inr (until_nul uuid) else Some (Inl Unsupported_filesystem) })"

text \<open>The program prints a line for each volume named, or its usage: \<open>Inl\<close>.\<close>

definition fsuuid_main :: "(bytes \<Rightarrow> bytes option) \<Rightarrow> bytes list \<Rightarrow> (unit + (fsuuid_error + bytes) list) option" where
  "fsuuid_main open_volume args =
     (if args = [] then Some (Inl ()) else map_option Inr (those (map (fsuuid_get \<circ> open_volume) args)))"

definition supported :: "bytes \<Rightarrow> bool" where
  "supported vbr \<longleftrightarrow> marked vbr 3 ''EXFAT'' \<or> marked vbr 3 ''NTFS'' \<or> marked vbr 54 ''FAT12'' \<or>
     marked vbr 54 ''FAT16'' \<or> marked vbr 82 ''FAT32''"

lemma tool_uuid_text:
  assumes "length vbr = 512"
  shows "supported vbr \<Longrightarrow> \<exists>x. tool_uuid vbr = Some (volume_text vbr @ 0 # x)"
    and "\<not> supported vbr \<Longrightarrow> tool_uuid vbr = Some (replicate 17 0)"
proof -
  have g: "get32 vbr 100 = Some (serial_at vbr 100)" "get32 vbr 39 = Some (serial_at vbr 39)"
      "get32 vbr 67 = Some (serial_at vbr 67)" "get64 vbr 72 = Some (le_word (take 8 (drop 72 vbr)))"
    using assms by (simp_all add: get32_def get64_def peek_def serial_at_def)
  have m: "has_mark vbr 3 ''EXFAT'' = Some (marked vbr 3 ''EXFAT'')"
      "has_mark vbr 3 ''NTFS'' = Some (marked vbr 3 ''NTFS'')"
      "has_mark vbr 54 ''FAT12'' = Some (marked vbr 54 ''FAT12'')"
      "has_mark vbr 54 ''FAT16'' = Some (marked vbr 54 ''FAT16'')"
      "has_mark vbr 82 ''FAT32'' = Some (marked vbr 82 ''FAT32'')"
    using assms by (simp_all add: has_mark_eq)
  show "\<exists>x. tool_uuid vbr = Some (volume_text vbr @ 0 # x)" if "supported vbr"
    using that unfolding tool_uuid_def Let_def m g Option.bind.simps option.map volume_text_def supported_def
    by (auto simp: libc_serial_32_def libc_serial_64_def)
  show "tool_uuid vbr = Some (replicate 17 0)" if "\<not> supported vbr"
    using that unfolding tool_uuid_def Let_def m g Option.bind.simps option.map supported_def
    by (simp add: char_array_def)
qed

lemma volume_text_nonempty: "supported vbr \<Longrightarrow> volume_text vbr \<noteq> []"
  using serial_text_32(1) serial_text_64(1)
  by (auto simp: supported_def volume_text_def simp flip: length_greater_0_conv)

lemma fsuuid_get_text:
  "512 \<le> length v \<Longrightarrow> fsuuid_get (Some v) =
     Some (if supported (take 512 v) then Inr (volume_text (take 512 v)) else Inl Unsupported_filesystem)"
proof (cases "supported (take 512 v)")
  case True
  assume l: "512 \<le> length v"
  obtain x where x: "tool_uuid (take 512 v) = Some (volume_text (take 512 v) @ 0 # x)"
    using tool_uuid_text(1) [of "take 512 v"] True l by auto
  obtain c t where c: "volume_text (take 512 v) = c # t"
    using volume_text_nonempty [OF True] by (cases "volume_text (take 512 v)") auto
  have "c \<noteq> 0" using volume_text_no_nul [of "take 512 v"] by (auto simp: c no_nul_def)
  moreover have "until_nul (volume_text (take 512 v) @ 0 # x) = Some (volume_text (take 512 v))"
    by (rule until_nul_append [OF volume_text_no_nul])
  ultimately show ?thesis using l x True by (simp add: fsuuid_get_def c rd_def)
next
  case False
  assume "512 \<le> length v"
  then show ?thesis using tool_uuid_text(2) [of "take 512 v"] False by (simp add: fsuuid_get_def rd_def)
qed

text \<open>A volume without a known file system does not keep the others from being printed.\<close>

lemma fsuuid_main_prints:
  assumes "args \<noteq> []" and "\<forall>v \<in> set args. \<exists>c. open_volume v = Some c \<and> 512 \<le> length c"
  shows "fsuuid_main open_volume args = Some (Inr (map (\<lambda>v.
    if supported (take 512 (the (open_volume v))) then Inr (volume_text (take 512 (the (open_volume v))))
    else Inl Unsupported_filesystem) args))"
proof -
  have "those (map (fsuuid_get \<circ> open_volume) args) = Some (map (\<lambda>v.
      if supported (take 512 (the (open_volume v))) then Inr (volume_text (take 512 (the (open_volume v))))
      else Inl Unsupported_filesystem) args)"
    using assms(2) by (induction args) (auto simp: fsuuid_get_text)
  then show ?thesis using assms(1) by (simp add: fsuuid_main_def)
qed

text \<open>C32:
  What the tool prints for a volume selects that volume: with the printed text as the wanted serial
  number, in either case, the loader accepts the volume's boot record at whatever place it is.
\<close>

theorem fsuuid_get_selects:
  assumes "sector_disk disk" and "build_sizes sizes" and "search_args a"
    and "fsuuid_get (Some volume) = Some (Inr u)" and "disk lba 512 = Some (take 512 volume)"
    and "map upper (c_string (fsuuid a)) = map upper u"
  shows "check_fsuuid sizes disk a lba = Some True"
proof -
  have "512 \<le> length volume" using assms(4) by (auto simp: fsuuid_get_def split: if_splits)
  then have "u = volume_text (take 512 volume)"
    using fsuuid_get_text [of volume] assms(4) by (auto split: if_splits)
  then show ?thesis
    using sector_disk.check_fsuuid_volume [OF assms(1-3), of lba] assms(5,6) by (simp add: volume_is_def)
qed

theorem fsuuid_get_selects_witness:
  "check_fsuuid type_sizes_ilp32 (sectors (\<lambda>_. ntfs_boot)) wanted 63 = Some True"
proof -
  obtain v where v: "v = take 512 (ntfs_boot @ replicate 512 0)" by blast
  have l: "512 \<le> length v" "take 512 v = v" by (simp_all add: v)
  have "marked v 3 ''NTFS''" by (simp add: v marked_def ntfs_boot_def take_Cons')
  then have "supported v" by (simp add: supported_def)
  then have "fsuuid_get (Some v) = Some (Inr (map of_char ''000000000000002a''))"
    using fsuuid_get_text [OF l(1)] ntfs_boot_text [folded v] l(2) by simp
  moreover have "map upper (c_string (fsuuid wanted)) = map upper (map of_char ''000000000000002a'')"
    unfolding wanted_def by code_simp
  moreover have "sectors (\<lambda>_. ntfs_boot) 63 512 = Some (take 512 v)" by (simp add: sectors_def l(2)) (simp add: v)
  moreover have "build_sizes type_sizes_ilp32" by (simp add: build_sizes_def)
  ultimately show ?thesis
    using fsuuid_get_selects [OF sectors_disk _ wanted_args] by blast
qed

end
