(* ===== verification/LibGcc.thy ===== *)
theory LibGcc
  imports NtPrelude "HOL-Library.While_Combinator"
begin

text \<open>
  The 64-bit division the compiler calls in the 32-bit build (\<^verbatim>\<open>posix/libgcc.c\<close>): shift and
  subtract, the quotient's bit and the divisor shifted together.
\<close>

section \<open>The routine\<close>

text \<open>The loop that shifts the divisor until its top bit is set.\<close>

definition left_justify :: "u64 \<Rightarrow> (u64 \<times> u64) option" where
  "left_justify den =
     while_option (\<lambda>(den, qbit). 0 \<le> sint den) (\<lambda>(den, qbit). (push_bit 1 den, push_bit 1 qbit)) (den, 1)"

definition quotient_step :: "u64 \<times> u64 \<times> u64 \<times> u64 \<Rightarrow> u64 \<times> u64 \<times> u64 \<times> u64" where
  "quotient_step = (\<lambda>(num, den, quot, qbit).
     let (num, quot) = (if den \<le> num then (num - den, quot + qbit) else (num, quot))
     in (num, drop_bit 1 den, quot, drop_bit 1 qbit))"

text \<open>Quotient and remainder; \<open>None\<close> is the fault of a division by zero.\<close>

definition udivmoddi4 :: "u64 \<Rightarrow> u64 \<Rightarrow> (u64 \<times> u64) option" where
  "udivmoddi4 num den =
     (if den = 0 then None
      else do {
        (den, qbit) \<leftarrow> left_justify den;
        (num, _, quot, _) \<leftarrow>
          while_option (\<lambda>(_, _, _, qbit). qbit \<noteq> 0) quotient_step (num, den, 0, qbit);
        Some (quot, num) })"

section \<open>Its loops\<close>

lemma while_option_ends:
  assumes "P s" and "\<And>s. P s \<Longrightarrow> b s \<Longrightarrow> P (c s) \<and> (f (c s) :: nat) < f s"
  shows "\<exists>t. while_option b c s = Some t \<and> P t \<and> \<not> b t"
proof -
  obtain t where t: "while_option b c s = Some t"
    using measure_while_option_Some [of P b c f s] assms by blast
  moreover have "P t" using while_option_rule [OF _ t, of P] assms by blast
  ultimately show ?thesis using while_option_stop [OF t] by blast
qed

lemma sint_nonneg: "0 \<le> sint (w :: u64) \<longleftrightarrow> unat w < 2 ^ 63"
proof -
  have "bit w 63 \<longleftrightarrow> sint w < 0" using bit_last_iff [of w] by simp
  then show ?thesis unfolding top_bit by linarith
qed

lemma unat_one_bit: "k < 64 \<Longrightarrow> unat (push_bit k (1 :: u64)) = 2 ^ k"
  using unat_of_nat_small [of "2 ^ k", where ?'a = 64] power_strict_increasing [of k 64 "2 :: nat"]
  by (simp add: push_bit_eq_mult)

text \<open>The divisor, shifted as often as the bit.\<close>

definition shifted :: "u64 \<Rightarrow> nat \<Rightarrow> u64 \<Rightarrow> u64 \<Rightarrow> bool" where
  "shifted d k den qbit \<longleftrightarrow> k < 64 \<and> unat den = unat d * 2 ^ k \<and> qbit = push_bit k 1"

lemma left_justify_shifts:
  assumes "d \<noteq> 0"
  shows "\<exists>den k. left_justify d = Some (den, push_bit k 1) \<and> shifted d k den (push_bit k 1) \<and> 2 ^ 63 \<le> unat den"
proof -
  have "\<exists>t. left_justify d = Some t \<and> (\<lambda>(den, qbit). \<exists>k. shifted d k den qbit) t \<and> \<not> (\<lambda>(den, qbit). 0 \<le> sint den) t"
    unfolding left_justify_def
  proof (rule while_option_ends [where f = "\<lambda>(den, qbit). 2 ^ 64 - unat den"])
    show "case (d, 1) of (den, qbit) \<Rightarrow> \<exists>k. shifted d k den qbit"
      using assms by (auto simp: shifted_def intro: exI [of _ 0])
  next
    fix s :: "u64 \<times> u64"
    assume inv: "case s of (den, qbit) \<Rightarrow> \<exists>k. shifted d k den qbit" and b: "case s of (den, qbit) \<Rightarrow> 0 \<le> sint den"
    obtain den qbit where s: "s = (den, qbit)" by (cases s)
    from inv obtain k where k: "shifted d k den qbit" by (auto simp: s)
    have lt: "unat den < 2 ^ 63" using b by (simp add: s sint_nonneg)
    have pos: "0 < unat d" using assms by (simp add: unat_gt_0)
    have two: "unat (push_bit 1 den) = 2 * unat den"
      using lt by (simp add: push_bit_eq_mult unat_word_ariths)
    have "1 * 2 ^ k \<le> unat d * 2 ^ k" using pos by (intro mult_right_mono) simp_all
    also have "unat d * 2 ^ k = unat den" using k by (simp add: shifted_def)
    finally have "(2 :: nat) ^ k < 2 ^ 63" using lt by linarith
    then have "k < 63" by (simp only: power_strict_increasing_iff)
    then have "shifted d (Suc k) (push_bit 1 den) (push_bit 1 qbit)"
      using k two by (simp add: shifted_def push_bit_push_bit)
    moreover have "2 ^ 64 - unat (push_bit 1 den) < 2 ^ 64 - unat den"
    proof -
      have "0 < unat den" using k pos by (simp add: shifted_def)
      then show ?thesis using two lt by simp
    qed
    ultimately show "(case case s of (den, qbit) \<Rightarrow> (push_bit 1 den, push_bit 1 qbit) of (den, qbit) \<Rightarrow> \<exists>k. shifted d k den qbit) \<and>
      (case case s of (den, qbit) \<Rightarrow> (push_bit 1 den, push_bit 1 qbit) of (den, qbit) \<Rightarrow> 2 ^ 64 - unat den)
        < (case s of (den, qbit) \<Rightarrow> 2 ^ 64 - unat den)"
      by (auto simp: s)
  qed
  then show ?thesis by (fastforce simp: shifted_def sint_nonneg not_less)
qed

text \<open>What is left of the dividend, with the quotient so far; in the end it is below the divisor.\<close>

definition dividing :: "u64 \<Rightarrow> u64 \<Rightarrow> u64 \<times> u64 \<times> u64 \<times> u64 \<Rightarrow> bool" where
  "dividing n d = (\<lambda>(num, den, quot, qbit).
     unat quot * unat d + unat num = unat n \<and>
     (qbit = 0 \<and> num < d \<or> (\<exists>k. shifted d k den qbit \<and> unat num < 2 * unat den)))"


lemma shifted_down:
  assumes "shifted d k den qbit" and "0 < k"
  shows "shifted d (k - 1) (drop_bit 1 den) (drop_bit 1 qbit)"
proof -
  obtain j where j: "k = Suc j" using assms(2) by (cases k) auto
  have q: "drop_bit 1 (push_bit (Suc j) (1 :: u64)) = push_bit j 1" if "Suc j < 64"
    using that by (intro bit_word_eqI) (auto simp: bit_simps)
  show ?thesis
    using assms(1) q by (auto simp: shifted_def j unat_drop_bit_eq drop_bit_nat_def)
qed

lemma quotient_step_divides:
  assumes inv: "dividing n d (num, den, quot, qbit)" and b: "qbit \<noteq> 0"
  shows "dividing n d (quotient_step (num, den, quot, qbit))"
    and "unat (drop_bit 1 qbit) < unat qbit"
proof -
  from inv b obtain k where k: "shifted d k den qbit" and lt: "unat num < 2 * unat den"
    and sum: "unat quot * unat d + unat num = unat n" by (auto simp: dividing_def)
  have q: "unat qbit = 2 ^ k" using k by (simp only: shifted_def unat_one_bit)
  then show "unat (drop_bit 1 qbit) < unat qbit" by (simp add: unat_drop_bit_eq drop_bit_nat_def)
  obtain num' quot' where s: "(num', quot') = (if den \<le> num then (num - den, quot + qbit) else (num, quot))"
    by (metis surj_pair)
  have sum': "unat quot' * unat d + unat num' = unat n" and lt': "unat num' < unat den"
  proof -
    have "unat quot' * unat d + unat num' = unat n \<and> unat num' < unat den"
    proof (cases "den \<le> num")
      case True
      then have e: "num' = num - den" "quot' = quot + qbit" using s by simp_all
      have num': "unat num' = unat num - unat den" "unat den \<le> unat num"
        using True e by (simp_all add: unat_sub word_le_nat_alt)
      have den: "unat den = 2 ^ k * unat d" using k by (simp add: shifted_def)
      have le: "(unat quot + 2 ^ k) * unat d \<le> unat n"
        using sum num' den by (simp add: add_mult_distrib)
      have "0 < unat d" using lt den by (cases "unat d") simp_all
      then have ge: "unat quot + 2 ^ k \<le> (unat quot + 2 ^ k) * unat d" by simp
      have n: "unat n < 2 ^ 64" using unat_bound [of n] by simp
      have "unat quot + unat qbit < 2 ^ 64" unfolding q by (rule le_less_trans [OF order_trans [OF ge le] n])
      then have "unat quot' = unat quot + 2 ^ k" using e q by (simp add: unat_word_ariths)
      then show ?thesis using sum num' den lt by (simp add: add_mult_distrib)
    next
      case False
      then show ?thesis using s sum by (simp add: word_le_nat_alt)
    qed
    then show "unat quot' * unat d + unat num' = unat n" "unat num' < unat den" by simp_all
  qed
  have step: "quotient_step (num, den, quot, qbit) = (num', drop_bit 1 den, quot', drop_bit 1 qbit)"
    using s by (simp add: quotient_step_def split: if_splits)
  show "dividing n d (quotient_step (num, den, quot, qbit))"
  proof (cases k)
    case 0
    then have "den = d" "drop_bit 1 qbit = 0"
      using k by (simp_all add: shifted_def word_eq_iff_unsigned [where ?'a = nat] unat_drop_bit_eq drop_bit_nat_def)
    then show ?thesis using lt' sum' unfolding step by (simp add: dividing_def word_less_nat_alt)
  next
    case (Suc j)
    then have sh: "shifted d j (drop_bit 1 den) (drop_bit 1 qbit)" using shifted_down [OF k] by simp
    have "unat den = 2 * unat (drop_bit 1 den)" using k sh Suc by (simp add: shifted_def)
    then show ?thesis using sh lt' sum' by (auto simp: step dividing_def)
  qed
qed

text \<open>C36: the division delivers quotient and remainder for every dividend and every divisor but zero,
  and both of its loops end.\<close>

theorem udivmoddi4_div_mod:
  assumes "d \<noteq> 0"
  shows "udivmoddi4 n d = Some (n div d, n mod d)"
proof -
  obtain den k where j: "left_justify d = Some (den, push_bit k 1)" "shifted d k den (push_bit k 1)" "2 ^ 63 \<le> unat den"
    using left_justify_shifts [OF assms] by blast
  have "dividing n d (n, den, 0, push_bit k 1)"
    using j unat_bound [of n] by (auto simp: dividing_def)
  from while_option_ends [of "dividing n d", OF this, of "\<lambda>(_, _, _, qbit). qbit \<noteq> 0" quotient_step
      "\<lambda>(_, _, _, qbit). unat qbit"]
  obtain num den' quot where t:
    "while_option (\<lambda>(_, _, _, qbit). qbit \<noteq> 0) quotient_step (n, den, 0, push_bit k 1) = Some (num, den', quot, 0)"
    "dividing n d (num, den', quot, 0)"
    using quotient_step_divides by (fastforce simp: quotient_step_def Let_def split: if_splits)
  have z: "push_bit i (1 :: u64) \<noteq> 0" if "i < 64" for i
    using that by simp
  then have "unat quot * unat d + unat num = unat n" "unat num < unat d"
    using t(2) by (auto simp: dividing_def shifted_def word_less_nat_alt)
  then have "unat n div unat d = unat quot \<and> unat n mod unat d = unat num"
    by (metis div_mult_self3 mod_mult_self3 div_less mod_less add_0_right not_less_zero)
  then have "quot = n div d \<and> num = n mod d"
    by (simp add: word_eq_iff_unsigned [where ?'a = nat] unat_div_distrib unat_mod_distrib)
  then show ?thesis using assms j(1) t(1) by (simp add: udivmoddi4_def)
qed

theorem udivmoddi4_div_mod_witness: "udivmoddi4 1000000007 255 = Some (1000000007 div 255, 1000000007 mod 255)"
  by (rule udivmoddi4_div_mod) simp

end
