(* ===== verification/Vdisk.thy ===== *)
theory Vdisk
  imports Printf
begin

text \<open>
  The virtual disk of \<^verbatim>\<open>libnt/vdisk.c\<close> and \<^verbatim>\<open>include/vdisk.h\<close>: a FAT32 volume whose sectors
  are computed when they are read. A block address is a natural number, with the wrap-around of
  its C type written out where the code can reach it; \<open>lp64\<close> tells the builds with a 64-bit
  \<^verbatim>\<open>unsigned long\<close> from the BIOS build. What a build function writes to the buffer is the list of
  bytes it returns.
\<close>

section \<open>The layout\<close>

definition VDISK_SECTOR_SIZE :: nat where "VDISK_SECTOR_SIZE = 512"
definition VDISK_PARTITION_LBA :: nat where "VDISK_PARTITION_LBA = 128"
definition VDISK_CLUSTER_COUNT :: nat where "VDISK_CLUSTER_COUNT = 64"
definition VDISK_CLUSTER_SIZE :: nat where
  "VDISK_CLUSTER_SIZE = VDISK_CLUSTER_COUNT * VDISK_SECTOR_SIZE"
definition VDISK_CLUSTERS :: nat where "VDISK_CLUSTERS = 0x03ffc000"
definition VDISK_MAX_FILES :: nat where "VDISK_MAX_FILES = VDISK_CLUSTER_COUNT - 1"
definition VDISK_FILE_COUNT :: nat where "VDISK_FILE_COUNT = 0x800000"
definition VDISK_FILE_CLUSTERS :: nat where
  "VDISK_FILE_CLUSTERS = VDISK_FILE_COUNT div VDISK_CLUSTER_COUNT"

text \<open>\<^verbatim>\<open>((idx) + 1) * VDISK_FILE_COUNT\<close> is an \<^verbatim>\<open>unsigned long\<close>; the index read off an address is
  stored in an \<^verbatim>\<open>int\<close>.\<close>

definition VDISK_FILE_LBA :: "bool \<Rightarrow> int \<Rightarrow> nat" where
  "VDISK_FILE_LBA lp64 idx = nat (((idx + 1) * int VDISK_FILE_COUNT) mod (if lp64 then 2 ^ 64 else 2 ^ 32))"

definition VDISK_FILE_IDX :: "nat \<Rightarrow> int" where
  "VDISK_FILE_IDX lba = sint (word_of_int (int (lba div VDISK_FILE_COUNT) - 1) :: 32 word)"

definition VDISK_FILE_OFFSET :: "nat \<Rightarrow> nat" where
  "VDISK_FILE_OFFSET lba = lba mod VDISK_FILE_COUNT * VDISK_SECTOR_SIZE"

definition VDISK_FILE_DIRENT_IDX :: "nat \<Rightarrow> nat" where
  "VDISK_FILE_DIRENT_IDX lba = (lba - 1) mod VDISK_CLUSTER_COUNT"

definition VDISK_SECTORS_PER_FAT :: nat where
  "VDISK_SECTORS_PER_FAT =
     (VDISK_CLUSTERS * 4 + VDISK_CLUSTER_SIZE - 1) div VDISK_CLUSTER_SIZE * VDISK_CLUSTER_COUNT"
definition VDISK_RESERVED_COUNT :: nat where "VDISK_RESERVED_COUNT = VDISK_CLUSTER_COUNT"

definition VDISK_FILE_CLUSTER :: "nat \<Rightarrow> nat" where
  "VDISK_FILE_CLUSTER idx =
     (VDISK_FILE_COUNT - VDISK_PARTITION_LBA - VDISK_RESERVED_COUNT - VDISK_SECTORS_PER_FAT)
       div VDISK_CLUSTER_COUNT + 2 + idx * VDISK_FILE_CLUSTERS"

definition VDISK_PARTITION_COUNT :: nat where
  "VDISK_PARTITION_COUNT =
     VDISK_RESERVED_COUNT + VDISK_SECTORS_PER_FAT + VDISK_CLUSTERS * VDISK_CLUSTER_COUNT"
definition VDISK_COUNT :: nat where "VDISK_COUNT = VDISK_PARTITION_LBA + VDISK_PARTITION_COUNT"

definition VDISK_CLUSTER_SECTOR :: "nat \<Rightarrow> nat" where
  "VDISK_CLUSTER_SECTOR cluster =
     (cluster - 2) * VDISK_CLUSTER_COUNT + VDISK_RESERVED_COUNT + VDISK_SECTORS_PER_FAT"

definition VDISK_MBR_SIGNATURE :: u32 where "VDISK_MBR_SIGNATURE = 0x14530529"
definition VDISK_VBR_LBA :: nat where "VDISK_VBR_LBA = VDISK_PARTITION_LBA"
definition VDISK_FSINFO_SECTOR :: nat where "VDISK_FSINFO_SECTOR = 1"
definition VDISK_BACKUP_VBR_SECTOR :: nat where "VDISK_BACKUP_VBR_SECTOR = 6"
definition VDISK_FAT_LBA :: nat where "VDISK_FAT_LBA = VDISK_VBR_LBA + VDISK_RESERVED_COUNT"
definition VDISK_FAT_END_MARKER :: u32 where "VDISK_FAT_END_MARKER = 0x0ffffff8"

definition VDISK_DIR_LBA :: "nat \<Rightarrow> nat" where
  "VDISK_DIR_LBA cluster = VDISK_VBR_LBA + VDISK_CLUSTER_SECTOR cluster"

definition VDISK_ROOT_CLUSTER :: nat where "VDISK_ROOT_CLUSTER = 2"
definition VDISK_BOOT_CLUSTER :: nat where "VDISK_BOOT_CLUSTER = 3"
definition VDISK_SOURCES_CLUSTER :: nat where "VDISK_SOURCES_CLUSTER = 4"
definition VDISK_FONTS_CLUSTER :: nat where "VDISK_FONTS_CLUSTER = 5"
definition VDISK_RESOURCES_CLUSTER :: nat where "VDISK_RESOURCES_CLUSTER = 6"
definition VDISK_EFI_CLUSTER :: nat where "VDISK_EFI_CLUSTER = 7"
definition VDISK_MICROSOFT_CLUSTER :: nat where "VDISK_MICROSOFT_CLUSTER = 8"

definition VDISK_READ_ONLY :: byte where "VDISK_READ_ONLY = 0x01"
definition VDISK_DIRECTORY :: byte where "VDISK_DIRECTORY = 0x10"
definition VDISK_LFN_ATTR :: byte where "VDISK_LFN_ATTR = 0x01 OR 0x02 OR 0x04 OR 0x08"
definition VDISK_LFN_END :: byte where "VDISK_LFN_END = 0x40"
definition VDISK_DIRENT_DELETED :: byte where "VDISK_DIRENT_DELETED = 0xe5"
definition VDISK_VBR_MEDIA :: byte where "VDISK_VBR_MEDIA = 0xf8"

lemmas vdisk_layout = VDISK_SECTOR_SIZE_def VDISK_PARTITION_LBA_def VDISK_CLUSTER_COUNT_def
  VDISK_CLUSTER_SIZE_def VDISK_CLUSTERS_def VDISK_MAX_FILES_def VDISK_FILE_COUNT_def
  VDISK_FILE_CLUSTERS_def VDISK_SECTORS_PER_FAT_def VDISK_RESERVED_COUNT_def VDISK_FILE_CLUSTER_def
  VDISK_PARTITION_COUNT_def VDISK_COUNT_def VDISK_CLUSTER_SECTOR_def VDISK_VBR_LBA_def
  VDISK_FSINFO_SECTOR_def VDISK_BACKUP_VBR_SECTOR_def VDISK_FAT_LBA_def VDISK_DIR_LBA_def
  VDISK_ROOT_CLUSTER_def VDISK_BOOT_CLUSTER_def VDISK_SOURCES_CLUSTER_def VDISK_FONTS_CLUSTER_def
  VDISK_RESOURCES_CLUSTER_def VDISK_EFI_CLUSTER_def VDISK_MICROSOFT_CLUSTER_def

section \<open>Virtual files\<close>

text \<open>
  \<^verbatim>\<open>struct vdisk_file\<close>. The methods are functions: reading delivers the bytes from an offset on
  or faults, patching rewrites the start of a buffer that holds the file from an offset on. The opaque token
  is part of the method.
\<close>

record vfile =
  file_name :: bytes
  file_len :: nat
  file_xlen :: nat
  file_read :: "(nat \<Rightarrow> nat \<Rightarrow> bytes option) option"
  file_patch :: "(bytes \<Rightarrow> nat \<Rightarrow> nat \<Rightarrow> bytes) option"

definition no_file :: vfile where
  "no_file = \<lparr> file_name = replicate 32 0, file_len = 0, file_xlen = 0, file_read = None,
               file_patch = None \<rparr>"

section \<open>The boot records\<close>

text \<open>Fields stored into a zeroed sector.\<close>

fun set_fields :: "bytes \<Rightarrow> (nat \<times> bytes) list \<Rightarrow> bytes option" where
  "set_fields m [] = Some m"
| "set_fields m ((ofs, bs) # fs) = do {
     m \<leftarrow> poke m ofs bs;
     set_fields m fs }"

definition le16 :: "nat \<Rightarrow> bytes" where "le16 n = le_bytes 2 (of_nat n :: u16)"
definition le32 :: "nat \<Rightarrow> bytes" where "le32 n = le_bytes 4 (of_nat n :: u32)"

definition vdisk_mbr :: "bytes option" where
  "vdisk_mbr = set_fields (replicate 512 0)
     [(446, [0x80]), (450, [0x0c]), (454, le32 VDISK_PARTITION_LBA),
      (458, le32 VDISK_PARTITION_COUNT), (440, le32 0x14530529), (510, le16 0xaa55)]"

definition vdisk_vbr :: "bytes option" where
  "vdisk_vbr = set_fields (replicate 512 0)
     [(0, [0xe9]), (3, [0x77, 0x69, 0x6d, 0x62, 0x6f, 0x6f, 0x74, 0]),
      (11, le16 VDISK_SECTOR_SIZE), (13, [of_nat VDISK_CLUSTER_COUNT]),
      (14, le16 VDISK_RESERVED_COUNT), (16, [1]), (21, [VDISK_VBR_MEDIA]), (24, le16 63),
      (26, le16 255), (28, le32 VDISK_VBR_LBA), (32, le32 VDISK_PARTITION_COUNT),
      (36, le32 VDISK_SECTORS_PER_FAT), (44, le32 VDISK_ROOT_CLUSTER), (48, le16 VDISK_FSINFO_SECTOR),
      (50, le16 VDISK_BACKUP_VBR_SECTOR), (66, [0x29]), (67, le32 0xdeadc0de),
      (71, [0x6e, 0x74, 0x6c, 0x6f, 0x61, 0x64, 0x65, 0x72, 0x20, 0x20, 0]),
      (82, [0x46, 0x41, 0x54, 0x33, 0x32, 0x20, 0x20, 0x20]), (510, le16 0xaa55)]"

definition vdisk_fsinfo :: "bytes option" where
  "vdisk_fsinfo = set_fields (replicate 512 0)
     [(0, le32 0x41615252), (484, le32 0x61417272), (492, le32 0xffffffff), (508, le32 0xaa550000)]"

section \<open>The file allocation table\<close>

text \<open>
  The loops write \<^verbatim>\<open>next[i]\<close> for absolute \<open>i\<close>; \<open>next\<close> is the window \<open>[start, end)\<close> as a list and an
  index outside it is a fault. \<open>start\<close> and \<open>end\<close> are 32 bits wide, the division of \<^verbatim>\<open>xlen - 1\<close>
  has the width of \<^verbatim>\<open>size_t\<close> and wraps for an empty file.
\<close>

definition set_next :: "nat \<Rightarrow> u32 list \<Rightarrow> nat \<Rightarrow> u32 \<Rightarrow> u32 list option" where
  "set_next start next i v = (if start \<le> i then wr next (i - start) v else None)"

fun set_nexts :: "nat \<Rightarrow> u32 list \<Rightarrow> (nat \<times> u32) list \<Rightarrow> u32 list option" where
  "set_nexts start next [] = Some next"
| "set_nexts start next ((i, v) # ivs) = do {
     next \<leftarrow> set_next start next i v;
     set_nexts start next ivs }"

definition file_end_marker :: "bool \<Rightarrow> nat \<Rightarrow> vfile \<Rightarrow> nat" where
  "file_end_marker lp64 i f =
     (let w = (if lp64 then 2 ^ 64 else 2 ^ 32) in
      (VDISK_FILE_CLUSTER i + (file_xlen f + w - 1) mod w div VDISK_CLUSTER_SIZE) mod 2 ^ 32)"

fun fat_end_markers ::
  "bool \<Rightarrow> nat \<Rightarrow> nat \<Rightarrow> nat \<Rightarrow> vfile list \<Rightarrow> u32 list \<Rightarrow> u32 list option" where
  "fat_end_markers lp64 start end i [] next = Some next"
| "fat_end_markers lp64 start end i (f # fs) next = do {
     next \<leftarrow> (if file_read f \<noteq> None then
                (let marker = file_end_marker lp64 i f in
                 if start \<le> marker \<and> marker < end then set_next start next marker VDISK_FAT_END_MARKER
                 else Some next)
              else Some next);
     fat_end_markers lp64 start end (Suc i) fs next }"

definition vdisk_fat :: "bool \<Rightarrow> vfile list \<Rightarrow> nat \<Rightarrow> nat \<Rightarrow> bytes option" where
  "vdisk_fat lp64 files lba count =
     (let start = ((lba - VDISK_FAT_LBA) * 128) mod 2 ^ 32;
          end = (start + count * 128) mod 2 ^ 32
      in do {
        next \<leftarrow> set_nexts start (replicate (count * 128) 0)
                  (map (\<lambda>i. (i, of_nat (i + 1))) [start..<end]);
        next \<leftarrow> (if start = 0 then
                   set_nexts start next
                     ((0, (VDISK_FAT_END_MARKER AND NOT 0xff) OR ucast VDISK_VBR_MEDIA) #
                      map (\<lambda>i. (i, VDISK_FAT_END_MARKER)) [1..<128])
                 else Some next);
        next \<leftarrow> fat_end_markers lp64 start end 0 files next;
        Some (concat (map (le_bytes 4) next)) })"

section \<open>Directories\<close>

text \<open>A directory sector holds 16 entries of 32 bytes; a pointer to one is its index.\<close>

definition vdisk_empty_dir :: bytes where
  "vdisk_empty_dir = concat (replicate 16 (VDISK_DIRENT_DELETED # replicate 31 0))"

definition entry_at :: "int \<Rightarrow> nat \<Rightarrow> nat option" where
  "entry_at i ofs = (if 0 \<le> i then Some (nat i * 32 + ofs) else None)"

definition put_entry :: "bytes \<Rightarrow> int \<Rightarrow> nat \<Rightarrow> bytes \<Rightarrow> bytes option" where
  "put_entry dir i ofs bs = do {
     p \<leftarrow> entry_at i ofs;
     poke dir p bs }"

text \<open>The sum over the 8.3 name rotates right by one before every byte.\<close>

definition lfn_sum :: "byte list \<Rightarrow> byte" where
  "lfn_sum raw = foldl (\<lambda>c b. (push_bit 7 (c AND 1) OR drop_bit 1 c) + b) 0 raw"

text \<open>
  One round of the loop over the name: the entry is initialised when it is not yet a long name
  record, the character is stored at offset \<open>pos\<close>, and the next place is in the next of the three
  character arrays, or in the entry before.
\<close>

definition lfn_init :: "bytes \<Rightarrow> int \<Rightarrow> byte \<Rightarrow> byte \<Rightarrow> (bytes \<times> byte) option" where
  "lfn_init dir lfn checksum sequence = do {
     p \<leftarrow> entry_at lfn 11;
     attr \<leftarrow> rd dir p;
     if attr \<noteq> VDISK_LFN_ATTR then do {
       dir \<leftarrow> put_entry dir lfn 0 [sequence];
       dir \<leftarrow> put_entry dir lfn 1 (replicate 10 0xff);
       dir \<leftarrow> put_entry dir lfn 11 [VDISK_LFN_ATTR];
       dir \<leftarrow> put_entry dir lfn 13 [checksum];
       dir \<leftarrow> put_entry dir lfn 14 (replicate 12 0xff);
       dir \<leftarrow> put_entry dir lfn 28 (replicate 4 0xff);
       Some (dir, sequence + 1) }
     else Some (dir, sequence) }"

definition lfn_next :: "int \<Rightarrow> nat \<Rightarrow> int \<times> nat" where
  "lfn_next lfn pos =
     (if pos = 9 then (lfn, 14)
      else if pos = 24 then (lfn, 28)
      else if pos = 30 then (lfn - 1, 1)
      else (lfn, pos + 2))"

fun lfn_chars :: "bytes \<Rightarrow> int \<Rightarrow> nat \<Rightarrow> byte \<Rightarrow> byte \<Rightarrow> bytes \<Rightarrow> (bytes \<times> int) option" where
  "lfn_chars dir lfn pos checksum sequence [] = None"
| "lfn_chars dir lfn pos checksum sequence (c # name) = do {
     (dir, sequence) \<leftarrow> lfn_init dir lfn checksum sequence;
     dir \<leftarrow> put_entry dir lfn pos (le_bytes 2 (scast c :: u16));
     if c = 0 then Some (dir, lfn)
     else (let (lfn, pos) = lfn_next lfn pos in lfn_chars dir lfn pos checksum sequence name) }"

definition dos_entry :: "bytes \<Rightarrow> int \<Rightarrow> nat \<Rightarrow> byte \<Rightarrow> nat \<Rightarrow> bytes option" where
  "dos_entry dir dos len attr cluster = do {
     dir \<leftarrow> put_entry dir dos 0 (replicate 11 0x20);
     dir \<leftarrow> put_entry dir dos 11 [attr];
     dir \<leftarrow> put_entry dir dos 28 (le32 len);
     dir \<leftarrow> put_entry dir dos 20 (le16 (cluster div 2 ^ 16));
     dir \<leftarrow> put_entry dir dos 26 (le16 (cluster mod 2 ^ 16));
     dir \<leftarrow> put_entry dir dos 16 (le16 0x2821);
     dir \<leftarrow> put_entry dir dos 14 (le16 0);
     dir \<leftarrow> put_entry dir dos 13 [0];
     dir \<leftarrow> put_entry dir dos 24 (le16 0x2821);
     put_entry dir dos 22 (le16 0) }"

definition vdisk_directory_entry ::
  "bytes \<Rightarrow> int \<Rightarrow> bytes \<Rightarrow> nat \<Rightarrow> byte \<Rightarrow> nat \<Rightarrow> (bytes \<times> int) option" where
  "vdisk_directory_entry dir dos name len attr cluster = do {
     dir \<leftarrow> dos_entry dir dos len attr cluster;
     p \<leftarrow> entry_at dos 0;
     raw \<leftarrow> peek dir p 11;
     (dir, lfn) \<leftarrow> lfn_chars dir (dos - 1) 1 (lfn_sum raw) 1 name;
     p \<leftarrow> entry_at lfn 0;
     s \<leftarrow> rd dir p;
     dir \<leftarrow> wr dir p (s OR VDISK_LFN_END);
     Some (dir, lfn - 1) }"

text \<open>A sector with subdirectories only, from the last entry down.\<close>

fun subdirs :: "bytes \<Rightarrow> int \<Rightarrow> (string \<times> nat) list \<Rightarrow> bytes option" where
  "subdirs dir dirent [] = Some dir"
| "subdirs dir dirent ((name, cluster) # ds) = do {
     (dir, dirent) \<leftarrow> vdisk_directory_entry dir dirent (map of_char name @ [0]) 0 VDISK_DIRECTORY cluster;
     subdirs dir dirent ds }"

definition vdisk_root :: "bytes option" where
  "vdisk_root = subdirs vdisk_empty_dir 15
     [(''BOOT'', VDISK_BOOT_CLUSTER), (''SOURCES'', VDISK_SOURCES_CLUSTER), (''EFI'', VDISK_EFI_CLUSTER)]"

definition vdisk_boot :: "bytes option" where
  "vdisk_boot = subdirs vdisk_empty_dir 15
     [(''FONTS'', VDISK_FONTS_CLUSTER), (''RESOURCES'', VDISK_RESOURCES_CLUSTER)]"

definition vdisk_sources :: "bytes option" where "vdisk_sources = Some vdisk_empty_dir"
definition vdisk_fonts :: "bytes option" where "vdisk_fonts = Some vdisk_empty_dir"
definition vdisk_resources :: "bytes option" where "vdisk_resources = Some vdisk_empty_dir"

definition vdisk_efi :: "bytes option" where
  "vdisk_efi = subdirs vdisk_empty_dir 15
     [(''BOOT'', VDISK_BOOT_CLUSTER), (''MICROSOFT'', VDISK_MICROSOFT_CLUSTER)]"

definition vdisk_microsoft :: "bytes option" where
  "vdisk_microsoft = subdirs vdisk_empty_dir 15 [(''BOOT'', VDISK_BOOT_CLUSTER)]"

text \<open>A failed assertion is a fault, like an access outside the array of files.\<close>

fun vdisk_dir_files :: "vfile list \<Rightarrow> nat \<Rightarrow> nat \<Rightarrow> bytes option" where
  "vdisk_dir_files files lba 0 = Some []"
| "vdisk_dir_files files lba (Suc count) = do {
     let idx = VDISK_FILE_DIRENT_IDX lba;
     f \<leftarrow> (if idx < VDISK_MAX_FILES then rd files idx else None);
     dir \<leftarrow> (if file_read f = None then Some vdisk_empty_dir
             else map_option fst (vdisk_directory_entry vdisk_empty_dir 15 (file_name f) (file_xlen f)
                    VDISK_READ_ONLY (VDISK_FILE_CLUSTER idx)));
     rest \<leftarrow> vdisk_dir_files files (lba + 1) count;
     Some (dir @ rest) }"

section \<open>Files\<close>

definition vdisk_file :: "vfile list \<Rightarrow> nat \<Rightarrow> nat \<Rightarrow> bytes option" where
  "vdisk_file files lba count = do {
     f \<leftarrow> rd files (nat (VDISK_FILE_IDX lba));
     let offset = VDISK_FILE_OFFSET lba;
     let len = count * VDISK_SECTOR_SIZE mod 2 ^ 32;
     let copy_len = min (if offset < file_len f then file_len f - offset else 0) len;
     dat \<leftarrow> (if copy_len \<noteq> 0 then file_read f \<bind> (\<lambda>r. r offset copy_len) else Some []);
     let dat = dat @ replicate (len - copy_len) 0;
     let patch_len = min (if offset < file_xlen f then file_xlen f - offset else 0) len;
     Some (case file_patch f of None \<Rightarrow> dat | Some patch \<Rightarrow> patch dat offset patch_len) }"

section \<open>Regions\<close>

datatype builder =
    B_mbr | B_vbr | B_fsinfo | B_fat | B_root | B_boot | B_sources | B_fonts | B_resources
  | B_efi | B_microsoft | B_dir_files | B_file

fun build :: "bool \<Rightarrow> vfile list \<Rightarrow> builder \<Rightarrow> nat \<Rightarrow> nat \<Rightarrow> bytes option" where
  "build lp64 files B_mbr lba count = vdisk_mbr"
| "build lp64 files B_vbr lba count = vdisk_vbr"
| "build lp64 files B_fsinfo lba count = vdisk_fsinfo"
| "build lp64 files B_fat lba count = vdisk_fat lp64 files lba count"
| "build lp64 files B_root lba count = vdisk_root"
| "build lp64 files B_boot lba count = vdisk_boot"
| "build lp64 files B_sources lba count = vdisk_sources"
| "build lp64 files B_fonts lba count = vdisk_fonts"
| "build lp64 files B_resources lba count = vdisk_resources"
| "build lp64 files B_efi lba count = vdisk_efi"
| "build lp64 files B_microsoft lba count = vdisk_microsoft"
| "build lp64 files B_dir_files lba count = vdisk_dir_files files lba count"
| "build lp64 files B_file lba count = vdisk_file files lba count"

text \<open>Start, number of blocks, build function.\<close>

type_synonym vdisk_region = "nat \<times> nat \<times> builder"

definition VDISK_DIRECTORY_REGION :: "builder \<Rightarrow> nat \<Rightarrow> vdisk_region list" where
  "VDISK_DIRECTORY_REGION b lba = [(lba, 1, b), (lba + 1, VDISK_CLUSTER_COUNT - 1, B_dir_files)]"

definition vdisk_regions :: "vdisk_region list" where
  "vdisk_regions =
     [(0, 1, B_mbr),
      (VDISK_VBR_LBA, 1, B_vbr),
      (VDISK_VBR_LBA + VDISK_FSINFO_SECTOR, 1, B_fsinfo),
      (VDISK_VBR_LBA + VDISK_BACKUP_VBR_SECTOR, 1, B_vbr),
      (VDISK_FAT_LBA, VDISK_SECTORS_PER_FAT, B_fat)] @
     VDISK_DIRECTORY_REGION B_root (VDISK_DIR_LBA VDISK_ROOT_CLUSTER) @
     VDISK_DIRECTORY_REGION B_boot (VDISK_DIR_LBA VDISK_BOOT_CLUSTER) @
     VDISK_DIRECTORY_REGION B_sources (VDISK_DIR_LBA VDISK_SOURCES_CLUSTER) @
     VDISK_DIRECTORY_REGION B_fonts (VDISK_DIR_LBA VDISK_FONTS_CLUSTER) @
     VDISK_DIRECTORY_REGION B_resources (VDISK_DIR_LBA VDISK_RESOURCES_CLUSTER) @
     VDISK_DIRECTORY_REGION B_efi (VDISK_DIR_LBA VDISK_EFI_CLUSTER) @
     VDISK_DIRECTORY_REGION B_microsoft (VDISK_DIR_LBA VDISK_MICROSOFT_CLUSTER)"

text \<open>The loop over the regions: the end of the fragment, and its build function.\<close>

fun scan_regions :: "nat \<Rightarrow> nat \<Rightarrow> vdisk_region list \<Rightarrow> nat \<times> builder option" where
  "scan_regions frag_start frag_end [] = (frag_end, None)"
| "scan_regions frag_start frag_end ((region_start, count, b) # regions) =
     (let region_end = region_start + count;
          frag_end = (if frag_start < region_start \<and> frag_end > region_start
                      then region_start else frag_end)
      in if frag_start \<ge> region_end \<or> frag_end \<le> region_start
         then scan_regions frag_start frag_end regions
         else (if frag_end > region_end then region_end else frag_end, Some b))"

section \<open>Reading\<close>

definition fragment :: "bool \<Rightarrow> nat \<Rightarrow> nat \<Rightarrow> nat \<times> builder option" where
  "fragment lp64 frag_start end =
     (let file_idx = VDISK_FILE_IDX frag_start in
      if file_idx \<ge> 0 then
        let file_end = VDISK_FILE_LBA lp64 (file_idx + 1)
        in (if end > file_end then file_end else end,
            if file_idx < int VDISK_MAX_FILES then Some B_file else None)
      else scan_regions frag_start end vdisk_regions)"

text \<open>
  A fragment: its build function fills it, or it is cleared; the number of sectors is an
  \<^verbatim>\<open>unsigned int\<close>, and so is the length cleared. The state is the place to go on from and what
  has been written.
\<close>

definition vdisk_pass ::
  "bool \<Rightarrow> vfile list \<Rightarrow> nat \<Rightarrow> nat \<times> bytes \<Rightarrow> ((nat \<times> bytes) + bytes) option" where
  "vdisk_pass lp64 files end = (\<lambda>(frag_start, out).
     let (frag_end, b) = fragment lp64 frag_start end;
         frag_count = nat ((int frag_end - int frag_start) mod 2 ^ 32)
     in do {
       dat \<leftarrow> (case b of
                 Some b \<Rightarrow> build lp64 files b frag_start frag_count
               | None \<Rightarrow> Some (replicate (frag_count * VDISK_SECTOR_SIZE mod 2 ^ 32) 0));
       let frag_start = (frag_start + frag_count) mod 2 ^ 64;
       if frag_start \<noteq> end then Some (Inl (frag_start, out @ dat)) else Some (Inr (out @ dat)) })"

definition vdisk_read ::
  "nat \<Rightarrow> bool \<Rightarrow> vfile list \<Rightarrow> nat \<Rightarrow> nat \<Rightarrow> ((nat \<times> bytes) + bytes) option" where
  "vdisk_read fuel lp64 files lba count =
     iterate fuel (vdisk_pass lp64 files ((lba + count) mod 2 ^ 64)) (lba, [])"

section \<open>Adding files\<close>

text \<open>The state is the number of files so far and the array; too many files end the program.\<close>

definition vdisk_add_file ::
  "nat \<times> vfile list \<Rightarrow> bytes \<Rightarrow> nat \<Rightarrow> (nat \<Rightarrow> nat \<Rightarrow> bytes option) \<Rightarrow>
     (unit + nat \<times> vfile list) option" where
  "vdisk_add_file = (\<lambda>(index, files) name len read.
     if index \<ge> VDISK_MAX_FILES then Some (Inl ())
     else do {
       f \<leftarrow> rd files index;
       (_, name) \<leftarrow> vsnprintf type_sizes_lp64 (file_name f) 32 [37, 115, 0] [AStr (Some name)];
       Some (Inr (index + 1,
         files[index := f\<lparr>file_name := name, file_len := len, file_xlen := len, file_read := Some read\<rparr>])) })"

text \<open>The patch method is recorded, then called without data, which allows it to update the length.\<close>

definition vdisk_patch_file ::
  "vfile \<Rightarrow> (bytes \<Rightarrow> nat \<Rightarrow> nat \<Rightarrow> bytes) \<Rightarrow> (vfile \<Rightarrow> vfile) \<Rightarrow> vfile" where
  "vdisk_patch_file f patch update = update (f\<lparr>file_patch := Some patch\<rparr>)"

definition read_mem_file :: "bytes \<Rightarrow> nat \<Rightarrow> nat \<Rightarrow> bytes option" where
  "read_mem_file data offset len = peek data offset len"

end
