(* ===== verification/VdiskFat.thy ===== *)
theory VdiskFat
  imports Vdisk
begin

text \<open>
  The file allocation table: every window of it is the same table, and the chain of a file has
  exactly the clusters its length needs.
\<close>

section \<open>Filling a window\<close>

lemma set_nexts_map:
  assumes "start \<le> a" and "b \<le> start + length next"
  shows "set_nexts start next (map (\<lambda>i. (i, g i)) [a..<b]) =
    Some (map (\<lambda>k. if a \<le> start + k \<and> start + k < b then g (start + k) else next ! k) [0..<length next])"
  using assms
proof (induction "b - a" arbitrary: a "next")
  case 0
  then have "[a..<b] = []" by (simp only: diff_is_0_eq upt_eq_Nil_conv) simp
  moreover have "map (\<lambda>k. if a \<le> start + k \<and> start + k < b then g (start + k) else next ! k) [0..<length next]
      = next" using 0 by (intro nth_equalityI) auto
  ultimately show ?case by (simp only: list.map set_nexts.simps)
next
  case (Suc d)
  let ?next = "next[a - start := g a]"
  have ab: "a < b" using Suc.hyps(2) by simp
  then have "[a..<b] = a # [Suc a..<b]" by (rule upt_conv_Cons)
  moreover have "set_next start next a (g a) = Some ?next"
    using Suc.prems ab by (simp add: set_next_def wr_def)
  moreover have "set_nexts start ?next (map (\<lambda>i. (i, g i)) [Suc a..<b]) =
      Some (map (\<lambda>k. if Suc a \<le> start + k \<and> start + k < b then g (start + k) else ?next ! k) [0..<length ?next])"
    by (rule Suc.hyps(1)) (use Suc in auto)
  moreover have "map (\<lambda>k. if Suc a \<le> start + k \<and> start + k < b then g (start + k) else ?next ! k) [0..<length ?next]
      = map (\<lambda>k. if a \<le> start + k \<and> start + k < b then g (start + k) else next ! k) [0..<length next]"
    using Suc.prems ab by (intro nth_equalityI) (auto simp: nth_list_update not_less_eq_eq le_Suc_eq)
  ultimately show ?case by simp
qed

text \<open>The markers of the files from the \<open>i\<close>th on.\<close>

fun has_marker :: "bool \<Rightarrow> nat \<Rightarrow> vfile list \<Rightarrow> nat \<Rightarrow> bool" where
  "has_marker lp64 i [] c \<longleftrightarrow> False"
| "has_marker lp64 i (f # fs) c \<longleftrightarrow>
     file_read f \<noteq> None \<and> file_end_marker lp64 i f = c \<or> has_marker lp64 (Suc i) fs c"

lemma fat_end_markers_eq:
  "end = start + length next \<Longrightarrow>
     fat_end_markers lp64 start end i fs next =
       Some (map (\<lambda>k. if has_marker lp64 i fs (start + k) then VDISK_FAT_END_MARKER else next ! k) [0..<length next])"
proof (induction fs arbitrary: i "next")
  case Nil
  have "map (\<lambda>k. next ! k) [0..<length next] = next" by (rule map_nth)
  then show ?case by simp
next
  case (Cons f fs)
  let ?m = "file_end_marker lp64 i f"
  show ?case
  proof (cases "file_read f \<noteq> None \<and> start \<le> ?m \<and> ?m < end")
    case True
    let ?next = "next[?m - start := VDISK_FAT_END_MARKER]"
    have s: "set_next start next ?m VDISK_FAT_END_MARKER = Some ?next"
      using True Cons.prems by (auto simp: set_next_def wr_def less_diff_conv2)
    have "map (\<lambda>k. if has_marker lp64 (Suc i) fs (start + k) then VDISK_FAT_END_MARKER else ?next ! k) [0..<length ?next]
        = map (\<lambda>k. if has_marker lp64 i (f # fs) (start + k) then VDISK_FAT_END_MARKER else next ! k) [0..<length next]"
      using True by (intro nth_equalityI) (auto simp: nth_list_update)
    then show ?thesis using Cons.IH [of ?next "Suc i"] Cons.prems True s by (simp add: Let_def)
  next
    case False
    then have n: "\<not> (file_read f \<noteq> None \<and> ?m = start + k)" if "k < length next" for k
      using that Cons.prems by auto
    have "map (\<lambda>k. if has_marker lp64 (Suc i) fs (start + k) then VDISK_FAT_END_MARKER else next ! k) [0..<length next]
        = map (\<lambda>k. if has_marker lp64 i (f # fs) (start + k) then VDISK_FAT_END_MARKER else next ! k) [0..<length next]"
    proof (rule map_cong [OF refl])
      fix k assume "k \<in> set [0..<length next]"
      then have "\<not> (file_read f \<noteq> None \<and> ?m = start + k)" using n by simp
      then show "(if has_marker lp64 (Suc i) fs (start + k) then VDISK_FAT_END_MARKER else next ! k) =
          (if has_marker lp64 i (f # fs) (start + k) then VDISK_FAT_END_MARKER else next ! k)" by auto
    qed
    then show ?thesis using Cons.IH [of "next" "Suc i"] Cons.prems False by (auto simp: Let_def)
  qed
qed

text \<open>The entry of a cluster, whatever window it is read through.\<close>

definition fat_entry :: "bool \<Rightarrow> vfile list \<Rightarrow> nat \<Rightarrow> u32" where
  "fat_entry lp64 files c =
     (if has_marker lp64 0 files c then VDISK_FAT_END_MARKER
      else if c = 0 then (VDISK_FAT_END_MARKER AND NOT 0xff) OR ucast VDISK_VBR_MEDIA
      else if c < 128 then VDISK_FAT_END_MARKER
      else of_nat (c + 1))"

lemma vdisk_fat_window:
  assumes "VDISK_FAT_LBA \<le> lba" and "lba + count \<le> VDISK_FAT_LBA + VDISK_SECTORS_PER_FAT" and "0 < count"
  shows "vdisk_fat lp64 files lba count =
    Some (concat (map (\<lambda>c. le_bytes 4 (fat_entry lp64 files c))
      [(lba - VDISK_FAT_LBA) * 128..<(lba - VDISK_FAT_LBA + count) * 128]))"
proof -
  let ?s = "(lba - VDISK_FAT_LBA) * 128" and ?n = "count * 128"
  have small: "?s + ?n < 2 ^ 32"
    using assms(1,2) by (simp add: vdisk_layout)
  then have st: "?s mod 2 ^ 32 = ?s" and en: "(?s + ?n) mod 2 ^ 32 = ?s + ?n" by simp_all
  let ?n1 = "map (\<lambda>k. of_nat (?s + k + 1) :: u32) [0..<?n]"
  have 1: "set_nexts ?s (replicate ?n 0) (map (\<lambda>i. (i, of_nat (i + 1) :: u32)) [?s..<?s + ?n]) = Some ?n1"
    using set_nexts_map [of ?s ?s "?s + ?n" "replicate ?n 0" "\<lambda>i. of_nat (i + 1) :: u32"]
    by (simp cong: map_cong)
  let ?first = "\<lambda>c. if c = 0 then (VDISK_FAT_END_MARKER AND NOT 0xff) OR ucast VDISK_VBR_MEDIA
      else if c < 128 then VDISK_FAT_END_MARKER else of_nat (c + 1) :: u32"
  let ?n2 = "map (\<lambda>k. ?first (?s + k)) [0..<?n]"
  have 2: "(if ?s = 0 then set_nexts ?s ?n1
        ((0, (VDISK_FAT_END_MARKER AND NOT 0xff) OR ucast VDISK_VBR_MEDIA) #
         map (\<lambda>i. (i, VDISK_FAT_END_MARKER)) [1..<128]) else Some ?n1) = Some ?n2"
  proof (cases "?s = 0")
    case True
    let ?v = "(VDISK_FAT_END_MARKER AND NOT 0xff) OR ucast VDISK_VBR_MEDIA :: u32"
    have "set_nexts 0 (?n1[0 := ?v]) (map (\<lambda>i. (i, VDISK_FAT_END_MARKER)) [1..<128]) =
        Some (map (\<lambda>k. if 1 \<le> 0 + k \<and> 0 + k < 128 then VDISK_FAT_END_MARKER else ?n1[0 := ?v] ! k) [0..<length (?n1[0 := ?v])])"
      by (rule set_nexts_map) (use assms(3) in simp_all)
    moreover have "map (\<lambda>k. if 1 \<le> 0 + k \<and> 0 + k < 128 then VDISK_FAT_END_MARKER else ?n1[0 := ?v] ! k) [0..<length (?n1[0 := ?v])]
        = ?n2"
      using True by (intro nth_equalityI) (auto simp: nth_list_update)
    ultimately show ?thesis using True assms(3) by (simp add: set_next_def wr_def)
  next
    case False
    then have "128 \<le> ?s" by simp
    then have "?n1 = ?n2" by (intro nth_equalityI) auto
    then show ?thesis using False by simp
  qed
  have 3: "fat_end_markers lp64 ?s (?s + ?n) 0 files ?n2 =
      Some (map (\<lambda>k. fat_entry lp64 files (?s + k)) [0..<?n])"
    using fat_end_markers_eq [of "?s + ?n" ?s ?n2 lp64 0 files]
    by (auto simp: fat_entry_def cong: map_cong)
  have "map (\<lambda>k. fat_entry lp64 files (?s + k)) [0..<?n] = map (fat_entry lp64 files) [?s..<?s + ?n]"
    by (intro nth_equalityI) simp_all
  then show ?thesis
    by (simp only: vdisk_fat_def Let_def st en 1 2 3 Option.bind.simps map_map comp_def add_mult_distrib)
qed

section \<open>Chains\<close>

text \<open>
  A reader of the volume goes from a cluster to the one its entry names, up to an entry of the
  end range; \<open>None\<close> when the fuel is used up before.
\<close>

definition read_fat :: "bool \<Rightarrow> vfile list \<Rightarrow> nat \<Rightarrow> u32 option" where
  "read_fat lp64 files c = do {
     sector \<leftarrow> vdisk_fat lp64 files (VDISK_FAT_LBA + c div 128) 1;
     get32 sector (4 * (c mod 128)) }"

fun fat_chain :: "bool \<Rightarrow> vfile list \<Rightarrow> nat \<Rightarrow> nat \<Rightarrow> nat list option" where
  "fat_chain lp64 files 0 c = None"
| "fat_chain lp64 files (Suc n) c = do {
     e \<leftarrow> read_fat lp64 files c;
     if e \<ge> VDISK_FAT_END_MARKER then Some [c]
     else map_option ((#) c) (fat_chain lp64 files n (unat e)) }"

lemma get32_entries:
  "k < length xs \<Longrightarrow> get32 (concat (map (\<lambda>x. le_bytes 4 (f x)) xs)) (4 * k) = Some (f (xs ! k))"
proof (induction xs arbitrary: k)
  case (Cons x xs)
  show ?case
  proof (cases k)
    case 0
    then show ?thesis by (simp add: get32_def peek_def le_word_le_bytes)
  next
    case (Suc j)
    then have "get32 (concat (map (\<lambda>x. le_bytes 4 (f x)) xs)) (4 * j) = Some (f (xs ! j))"
      using Cons by simp
    then show ?thesis using Suc by (auto simp: get32_def peek_def split: if_splits)
  qed
qed simp

lemma read_fat_entry:
  assumes "c < VDISK_SECTORS_PER_FAT * 128"
  shows "read_fat lp64 files c = Some (fat_entry lp64 files c)"
proof -
  let ?q = "c div 128"
  have q: "?q < VDISK_SECTORS_PER_FAT" using assms by (simp only: less_mult_imp_div_less)
  have "vdisk_fat lp64 files (VDISK_FAT_LBA + ?q) 1 =
      Some (concat (map (\<lambda>c. le_bytes 4 (fat_entry lp64 files c)) [?q * 128..<?q * 128 + 128]))"
    using vdisk_fat_window [of "VDISK_FAT_LBA + ?q" 1 lp64 files] q by (simp add: add_mult_distrib add.commute [of 128])
  moreover have "[?q * 128..<?q * 128 + 128] ! (c mod 128) = c" by simp
  ultimately show ?thesis
    using get32_entries [of "c mod 128" "[?q * 128..<?q * 128 + 128]"] by (simp add: read_fat_def)
qed

lemma has_marker_iff:
  "has_marker lp64 i fs c \<longleftrightarrow>
     (\<exists>j < length fs. file_read (fs ! j) \<noteq> None \<and> file_end_marker lp64 (i + j) (fs ! j) = c)"
proof (induction fs arbitrary: i)
  case (Cons f fs)
  have "(\<exists>j < length (f # fs). file_read ((f # fs) ! j) \<noteq> None \<and> file_end_marker lp64 (i + j) ((f # fs) ! j) = c)
    \<longleftrightarrow> file_read f \<noteq> None \<and> file_end_marker lp64 i f = c \<or>
        (\<exists>j < length fs. file_read (fs ! j) \<noteq> None \<and> file_end_marker lp64 (Suc i + j) (fs ! j) = c)"
    by (simp only: length_Cons Ex_less_Suc2) simp
  then show ?case using Cons.IH [of "Suc i"] by simp
qed simp

text \<open>A file that fits its window of clusters and is not empty.\<close>

definition fits :: "vfile \<Rightarrow> bool" where
  "fits f \<longleftrightarrow> 0 < file_xlen f \<and> file_xlen f \<le> VDISK_FILE_COUNT * VDISK_SECTOR_SIZE"

definition clusters_of :: "vfile \<Rightarrow> nat" where
  "clusters_of f = (file_xlen f - 1) div VDISK_CLUSTER_SIZE + 1"

lemma file_clusters: "VDISK_FILE_CLUSTER i = 122881 + i * 131072" "VDISK_CLUSTER_SIZE = 32768"
    "VDISK_FILE_COUNT * VDISK_SECTOR_SIZE = 4294967296"
  by (simp_all add: vdisk_layout)

lemma clusters_bound: "fits f \<Longrightarrow> clusters_of f \<le> 131072"
proof -
  assume "fits f"
  then have "0 < file_xlen f" "file_xlen f \<le> 131072 * 32768" by (simp_all add: fits_def file_clusters)
  then have "file_xlen f - 1 < 131072 * 32768" by linarith
  then have "(file_xlen f - 1) div 32768 < 131072" by (simp only: less_mult_imp_div_less)
  then show ?thesis by (simp add: clusters_of_def file_clusters)
qed

lemma end_marker_eq:
  assumes "fits f" and "i < 63"
  shows "file_end_marker lp64 i f = VDISK_FILE_CLUSTER i + clusters_of f - 1"
proof -
  let ?w = "if lp64 then 2 ^ 64 else 2 ^ 32 :: nat"
  have x: "file_xlen f - 1 < ?w" "0 < file_xlen f" using assms(1) by (auto simp: fits_def file_clusters)
  then have "file_xlen f + ?w - 1 = (file_xlen f - 1) + ?w" by simp
  then have "(file_xlen f + ?w - 1) mod ?w = file_xlen f - 1" using x(1) by (simp only: mod_add_self2 mod_less)
  moreover have "VDISK_FILE_CLUSTER i + (clusters_of f - 1) < 2 ^ 32"
    using clusters_bound [OF assms(1)] assms(2) by (simp add: file_clusters)
  ultimately show ?thesis
    by (simp add: file_end_marker_def clusters_of_def)
qed

text \<open>Inside the window of a file only its own marker occurs.\<close>

lemma own_marker:
  assumes "length files \<le> 63" and "i < length files" and "file_read (files ! i) \<noteq> None"
    and "\<forall>f \<in> set files. file_read f \<noteq> None \<longrightarrow> fits f"
    and "k < clusters_of (files ! i)"
  shows "has_marker lp64 0 files (VDISK_FILE_CLUSTER i + k) \<longleftrightarrow> k = clusters_of (files ! i) - 1"
proof -
  have fi: "fits (files ! i)" using assms(2-4) by simp
  have k: "k < 131072" using clusters_bound [OF fi] assms(5) by simp
  have only: "j = i" if "j < length files" "file_read (files ! j) \<noteq> None"
      "file_end_marker lp64 j (files ! j) = VDISK_FILE_CLUSTER i + k" for j
  proof -
    have fj: "fits (files ! j)" using assms(4) that by simp
    then have "file_end_marker lp64 j (files ! j) = VDISK_FILE_CLUSTER j + (clusters_of (files ! j) - 1)"
      using end_marker_eq [OF fj, of j lp64] that(1) assms(1) by (simp add: clusters_of_def)
    then have "j * 131072 + (clusters_of (files ! j) - 1) = i * 131072 + k"
      using that(3) by (simp add: file_clusters)
    moreover have "clusters_of (files ! j) - 1 < 131072" using clusters_bound [OF fj] by (simp add: clusters_of_def)
    ultimately have "\<not> j < i" "\<not> i < j" using k by linarith+
    then show ?thesis by simp
  qed
  have "has_marker lp64 0 files (VDISK_FILE_CLUSTER i + k) \<longleftrightarrow>
      file_end_marker lp64 i (files ! i) = VDISK_FILE_CLUSTER i + k"
    using only assms(2,3) by (auto simp: has_marker_iff)
  also have "\<dots> \<longleftrightarrow> k = clusters_of (files ! i) - 1"
    using end_marker_eq [OF fi, of i lp64] assms(1,2) by (auto simp: clusters_of_def)
  finally show ?thesis .
qed

lemma chain_from:
  assumes "length files \<le> 63" and "i < length files" and "file_read (files ! i) \<noteq> None"
    and "\<forall>f \<in> set files. file_read f \<noteq> None \<longrightarrow> fits f"
    and "k < clusters_of (files ! i)" and "clusters_of (files ! i) - k \<le> n"
  shows "fat_chain lp64 files n (VDISK_FILE_CLUSTER i + k) =
    Some [VDISK_FILE_CLUSTER i + k..<VDISK_FILE_CLUSTER i + clusters_of (files ! i)]"
  using assms(5,6)
proof (induction "clusters_of (files ! i) - k" arbitrary: k n)
  case (Suc d)
  then obtain m where n: "n = Suc m" by (cases n) auto
  let ?c = "VDISK_FILE_CLUSTER i + k"
  have bound: "?c + 1 < 0x0ffffff8"
    using clusters_bound [of "files ! i"] assms(1-4) Suc.prems(1) by (simp add: file_clusters)
  have read: "read_fat lp64 files ?c = Some (fat_entry lp64 files ?c)"
    by (rule read_fat_entry) (use bound clusters_bound [of "files ! i"] assms(1-4) Suc.prems(1) in
      \<open>simp add: file_clusters vdisk_layout\<close>)
  note own = own_marker [OF assms(1-4) Suc.prems(1), of lp64]
  show ?case
  proof (cases "k = clusters_of (files ! i) - 1")
    case True
    then have "fat_entry lp64 files ?c = VDISK_FAT_END_MARKER" using own by (simp add: fat_entry_def)
    moreover have "[?c..<VDISK_FILE_CLUSTER i + clusters_of (files ! i)] = [?c]"
      using True Suc.prems(1) by (simp add: upt_rec)
    ultimately show ?thesis using n read by simp
  next
    case False
    then have lt: "k + 1 < clusters_of (files ! i)" using Suc.prems(1) by simp
    have e: "fat_entry lp64 files ?c = of_nat (?c + 1)"
      using own False by (simp add: fat_entry_def file_clusters)
    have u: "unat (of_nat (?c + 1) :: u32) = ?c + 1" using bound by (intro unat_of_nat_small) simp
    have "\<not> VDISK_FAT_END_MARKER \<le> of_nat (?c + 1)"
      using bound u by (simp add: VDISK_FAT_END_MARKER_def word_le_nat_alt)
    moreover have "fat_chain lp64 files m (VDISK_FILE_CLUSTER i + (k + 1)) =
        Some [VDISK_FILE_CLUSTER i + (k + 1)..<VDISK_FILE_CLUSTER i + clusters_of (files ! i)]"
      by (rule Suc.hyps(1)) (use Suc lt n in auto)
    moreover have "[?c..<VDISK_FILE_CLUSTER i + clusters_of (files ! i)] =
        ?c # [VDISK_FILE_CLUSTER i + (k + 1)..<VDISK_FILE_CLUSTER i + clusters_of (files ! i)]"
      using lt by (simp add: upt_conv_Cons)
    ultimately show ?thesis using n e u read
      by (simp only: fat_chain.simps Option.bind.simps if_False) (simp add: add.assoc)
  qed
qed simp

text \<open>C14: from the first cluster of a file the table leads through consecutive clusters, exactly as
  many as the length of the file needs, to an end marker.\<close>

theorem vdisk_fat_chain:
  assumes "length files \<le> VDISK_MAX_FILES" and "i < length files" and "file_read (files ! i) \<noteq> None"
    and "\<forall>f \<in> set files. file_read f \<noteq> None \<longrightarrow> fits f"
  shows "fat_chain lp64 files (clusters_of (files ! i)) (VDISK_FILE_CLUSTER i) =
    Some [VDISK_FILE_CLUSTER i..<VDISK_FILE_CLUSTER i + clusters_of (files ! i)]"
  using chain_from [of files i 0 "clusters_of (files ! i)" lp64] assms
  by (simp add: vdisk_layout clusters_of_def)

definition small_file :: vfile where
  "small_file = no_file\<lparr>file_len := 40000, file_xlen := 40000, file_read := Some (read_mem_file (replicate 40000 7))\<rparr>"

theorem vdisk_fat_chain_witness:
  "fat_chain True [small_file] 2 122881 = Some [122881, 122882]"
proof -
  have f: "file_read small_file \<noteq> None" "fits small_file" "clusters_of small_file = 2"
    by (simp_all add: small_file_def fits_def clusters_of_def vdisk_layout)
  have c: "VDISK_FILE_CLUSTER 0 = 122881" by (simp add: file_clusters)
  have l: "length [small_file] \<le> VDISK_MAX_FILES" by (simp add: vdisk_layout)
  have "fat_chain True [small_file] (clusters_of ([small_file] ! 0)) (VDISK_FILE_CLUSTER 0) =
      Some [VDISK_FILE_CLUSTER 0..<VDISK_FILE_CLUSTER 0 + clusters_of ([small_file] ! 0)]"
    by (rule vdisk_fat_chain [OF l]) (use f in simp_all)
  then show ?thesis unfolding c by (simp only: nth_Cons_0 f(3)) (simp add: upt_rec del: fat_chain.simps)
qed

text \<open>
  The marker of an empty file: \<^verbatim>\<open>xlen - 1\<close> wraps, and in the 64-bit builds the marker is put on
  the cluster before the file's first one.
\<close>

lemma empty_file_marker:
  "file_xlen f = 0 \<Longrightarrow> i < 63 \<Longrightarrow> file_end_marker True i f = VDISK_FILE_CLUSTER i - 1"
proof -
  assume x: "file_xlen f = 0" and i: "i < 63"
  have "VDISK_FILE_CLUSTER i + (0 + 2 ^ 64 - 1) mod 2 ^ 64 div 32768 =
      (122880 + i * 131072) + 131072 * 2 ^ 32" by (simp add: file_clusters)
  then have "file_end_marker True i f = ((122880 + i * 131072) + 131072 * 2 ^ 32) mod 2 ^ 32"
    by (simp only: file_end_marker_def x if_True Let_def file_clusters(2))
  also have "\<dots> = 122880 + i * 131072" using i by (simp only: mod_mult_self1) simp
  finally show ?thesis by (simp add: file_clusters)
qed

end
