(* ===== verification/VdiskRead.thy ===== *)
theory VdiskRead
  imports VdiskFat
begin

text \<open>
  Reading the virtual disk: whatever range is read, the sectors are those that are read one at a
  time. Every build function is first shown to fill its sectors independently of the range.
\<close>

section \<open>The interface of a file\<close>

text \<open>What the disk relies on of a read method: it delivers the bytes of some contents.\<close>

locale file_reader =
  fixes read :: "nat \<Rightarrow> nat \<Rightarrow> bytes option" and contents :: bytes
  assumes slice: "ofs + n \<le> length contents \<Longrightarrow> read ofs n = Some (take n (drop ofs contents))"
begin

lemma read_split:
  "ofs + (m + n) \<le> length contents \<Longrightarrow>
     read ofs (m + n) = do { a \<leftarrow> read ofs m; b \<leftarrow> read (ofs + m) n; Some (a @ b) }"
  by (simp add: slice take_add add.commute [of m ofs])

lemma read_length: "ofs + n \<le> length contents \<Longrightarrow> read ofs n = Some bs \<Longrightarrow> length bs = n"
  by (auto simp: slice)

end

interpretation mem_file: file_reader "read_mem_file dat" dat
  by unfold_locales (simp add: read_mem_file_def peek_def)

text \<open>The entry of the array holds a terminated name and, if it is used, a file with the contents.\<close>

definition holds_file :: "vfile \<Rightarrow> bytes \<Rightarrow> bool" where
  "holds_file f contents \<longleftrightarrow>
     (case file_read f of None \<Rightarrow> contents = [] | Some r \<Rightarrow> file_reader r contents) \<and>
     file_len f = length contents \<and> file_patch f = None \<and>
     (\<exists>s x. file_name f = s @ 0 # x \<and> no_nul s \<and> length s < 32)"

text \<open>A stretch of the contents, filled up with zeros behind their end.\<close>

definition pad_slice :: "bytes \<Rightarrow> nat \<Rightarrow> nat \<Rightarrow> bytes" where
  "pad_slice c ofs n = map (\<lambda>k. if k < length c then c ! k else 0) [ofs..<ofs + n]"

lemma pad_slice_length [simp]: "length (pad_slice c ofs n) = n"
  by (simp add: pad_slice_def)

lemma pad_slice_add: "pad_slice c ofs (m + n) = pad_slice c ofs m @ pad_slice c (ofs + m) n"
proof -
  have "[ofs..<ofs + (m + n)] = [ofs..<ofs + m] @ [ofs + m..<ofs + m + n]"
    using upt_add_eq_append [of ofs "ofs + m" n] by (simp add: add.assoc)
  then show ?thesis by (simp add: pad_slice_def)
qed

lemma pad_slice_eq:
  "min (if ofs < length c then length c - ofs else 0) n = k \<Longrightarrow>
     take k (drop ofs c) @ replicate (n - k) 0 = pad_slice c ofs n"
  by (rule nth_equalityI) (auto simp: pad_slice_def nth_append min_def split: if_splits)

lemma file_idx: "lba < 2 ^ 54 \<Longrightarrow> VDISK_FILE_IDX lba = int (lba div VDISK_FILE_COUNT) - 1"
proof -
  assume "lba < 2 ^ 54"
  then have "lba div VDISK_FILE_COUNT < 2 ^ 31" by (simp add: VDISK_FILE_COUNT_def less_mult_imp_div_less)
  then have q: "int (lba div VDISK_FILE_COUNT) < 2147483648" by simp
  have *: "sint (word_of_int k :: 32 word) = k" if "- 2147483648 \<le> k" "k < 2147483648" for k
    using that by (simp add: signed_of_int signed_take_bit_int_eq_self)
  show ?thesis
    unfolding VDISK_FILE_IDX_def by (rule *) (use q in linarith)+
qed

text \<open>A stretch of a file's region.\<close>

lemma vdisk_file_slice:
  assumes f: "holds_file (files ! i) c" and i: "i < length files" "lba div VDISK_FILE_COUNT = Suc i"
    and lba: "lba < 2 ^ 54" and n: "n * 512 < 2 ^ 32"
  shows "vdisk_file files lba n = Some (pad_slice c (VDISK_FILE_OFFSET lba) (n * 512))"
proof -
  let ?f = "files ! i" and ?o = "VDISK_FILE_OFFSET lba"
  let ?k = "min (if ?o < length c then length c - ?o else 0) (n * 512)"
  have len: "file_len ?f = length c" "file_patch ?f = None" using f by (auto simp: holds_file_def)
  have idx: "nat (VDISK_FILE_IDX lba) = i" using file_idx [OF lba] i(2) by simp
  have small: "n * VDISK_SECTOR_SIZE mod 2 ^ 32 = n * 512" using n by (simp add: VDISK_SECTOR_SIZE_def)
  have r: "(if ?k \<noteq> 0 then file_read ?f \<bind> (\<lambda>r. r ?o ?k) else Some []) = Some (take ?k (drop ?o c))"
  proof (cases "?k = 0")
    case False
    then have k: "?o + ?k \<le> length c" by (auto simp: min_def split: if_splits)
    show ?thesis
    proof (cases "file_read ?f")
      case None
      then show ?thesis using f False by (simp add: holds_file_def)
    next
      case (Some r)
      then have "file_reader r c" using f by (simp add: holds_file_def)
      then show ?thesis using Some False file_reader.slice [OF _ k] by simp
    qed
  qed simp
  have at: "rd files (nat (VDISK_FILE_IDX lba)) = Some ?f" using i(1) idx by (simp add: rd_def)
  show ?thesis
    by (simp only: vdisk_file_def at Option.bind.simps Let_def len small r option.case
        pad_slice_eq [OF refl])
qed

section \<open>Directory entries succeed\<close>

lemma put_entry_ok:
  assumes "0 \<le> i" and "nat i * 32 + 32 \<le> length dir" and "ofs + length bs \<le> 32"
  shows "\<exists>d. put_entry dir i ofs bs = Some d \<and> length d = length dir"
  using assms by (auto simp: put_entry_def entry_at_def poke_def)

lemma lfn_init_ok:
  assumes "0 \<le> i" and "nat i * 32 + 32 \<le> length dir"
  shows "\<exists>d s. lfn_init dir i checksum sequence = Some (d, s) \<and> length d = length dir"
proof -
  obtain a where a: "rd dir (nat i * 32 + 11) = Some a" using assms by (simp add: rd_def)
  have p: "\<exists>d'. put_entry d i ofs bs = Some d' \<and> length d' = length dir"
    if "length d = length dir" "ofs + length bs \<le> 32" for d ofs bs
    using put_entry_ok [of i d ofs bs] assms that by simp
  obtain d1 where 1: "put_entry dir i 0 [sequence] = Some d1" "length d1 = length dir"
    using p [of dir 0 "[sequence]"] by auto
  obtain d2 where 2: "put_entry d1 i 1 (replicate 10 0xff) = Some d2" "length d2 = length dir"
    using p [of d1 1 "replicate 10 0xff"] 1 by auto
  obtain d3 where 3: "put_entry d2 i 11 [VDISK_LFN_ATTR] = Some d3" "length d3 = length dir"
    using p [of d2 11 "[VDISK_LFN_ATTR]"] 2 by auto
  obtain d4 where 4: "put_entry d3 i 13 [checksum] = Some d4" "length d4 = length dir"
    using p [of d3 13 "[checksum]"] 3 by auto
  obtain d5 where 5: "put_entry d4 i 14 (replicate 12 0xff) = Some d5" "length d5 = length dir"
    using p [of d4 14 "replicate 12 0xff"] 4 by auto
  obtain d6 where 6: "put_entry d5 i 28 (replicate 4 0xff) = Some d6" "length d6 = length dir"
    using p [of d5 28 "replicate 4 0xff"] 5 by auto
  show ?thesis
    using assms(1) a 1(1) 2(1) 3(1) 4(1) 5(1) 6 by (simp add: lfn_init_def entry_at_def)
qed

text \<open>The number of a place among the 13 of an entry.\<close>

definition lfn_index :: "nat \<Rightarrow> nat" where
  "lfn_index pos = (if pos \<le> 9 then (pos - 1) div 2 else if pos \<le> 24 then (pos - 14) div 2 + 5
     else (pos - 28) div 2 + 11)"

definition lfn_places :: "nat list" where
  "lfn_places = [1, 3, 5, 7, 9, 14, 16, 18, 20, 22, 24, 28, 30]"

lemma lfn_next_place:
  assumes "pos \<in> set lfn_places" and "lfn_next i pos = (i', pos')"
  shows "pos' \<in> set lfn_places \<and>
    (if lfn_index pos = 12 then i' = i - 1 \<and> lfn_index pos' = 0
     else i' = i \<and> lfn_index pos' = lfn_index pos + 1) \<and> lfn_index pos \<le> 12 \<and> pos + 2 \<le> 32"
  using assms unfolding lfn_places_def
  by (simp only: list.set insert_iff empty_iff) (elim disjE; auto simp: lfn_next_def lfn_index_def)

lemma lfn_chars_ok:
  assumes "pos \<in> set lfn_places" and "no_nul s"
    and "0 \<le> i - int ((lfn_index pos + length s) div 13)" and "nat i * 32 + 32 \<le> length dir"
  shows "\<exists>d. lfn_chars dir i pos checksum sequence (s @ 0 # x) =
      Some (d, i - int ((lfn_index pos + length s) div 13)) \<and> length d = length dir"
  using assms
proof (induction s arbitrary: dir i pos sequence)
  case Nil
  then have small: "(lfn_index pos) div 13 = 0" and i: "0 \<le> i"
    using lfn_next_place [OF Nil.prems(1)] by (cases "lfn_next i pos", force)+
  obtain d sq where 1: "lfn_init dir i checksum sequence = Some (d, sq)" "length d = length dir"
    using lfn_init_ok [OF i Nil.prems(4)] by blast
  obtain d' where "put_entry d i pos (le_bytes 2 (scast (0 :: byte) :: u16)) = Some d'" "length d' = length d"
    using put_entry_ok [of i d pos "le_bytes 2 (scast (0 :: byte) :: u16)"] i 1 Nil.prems
      lfn_next_place [OF Nil.prems(1)] by (cases "lfn_next i pos") force
  then show ?case using 1 small by simp
next
  case (Cons c s)
  obtain i' pos' where nx: "lfn_next i pos = (i', pos')" by (cases "lfn_next i pos")
  note pl = lfn_next_place [OF Cons.prems(1) nx]
  have c: "c \<noteq> 0" "no_nul s" using Cons.prems(2) by (auto simp: no_nul_def)
  have i: "0 \<le> i" using Cons.prems(3) by linarith
  obtain d sq where 1: "lfn_init dir i checksum sequence = Some (d, sq)" "length d = length dir"
    using lfn_init_ok [OF i Cons.prems(4)] by blast
  obtain d' where 2: "put_entry d i pos (le_bytes 2 (scast c :: u16)) = Some d'" "length d' = length d"
    using put_entry_ok [of i d pos "le_bytes 2 (scast c :: u16)"] i 1 Cons.prems(4) pl by auto
  have rest: "i' - int ((lfn_index pos' + length s) div 13) = i - int ((lfn_index pos + length (c # s)) div 13)"
    using pl by (auto split: if_splits)
  have "nat i' * 32 + 32 \<le> length d'"
    using pl 1 2 Cons.prems(4) i by (auto split: if_splits)
  then obtain e where "lfn_chars d' i' pos' checksum sq (s @ 0 # x) =
      Some (e, i - int ((lfn_index pos + length (c # s)) div 13))" "length e = length d'"
    using Cons.IH [of pos' i' d' sq] pl c(2) rest Cons.prems(3) by auto
  then show ?case using 1 2 c(1) nx by simp
qed

lemma dos_entry_ok:
  assumes "0 \<le> i" and "nat i * 32 + 32 \<le> length dir"
  shows "\<exists>d. dos_entry dir i len attr cluster = Some d \<and> length d = length dir"
proof -
  have p: "\<exists>d'. put_entry d i ofs bs = Some d' \<and> length d' = length dir"
    if "length d = length dir" "ofs + length bs \<le> 32" for d ofs bs
    using put_entry_ok [of i d ofs bs] assms that by simp
  have step: "\<exists>d. m \<bind> (\<lambda>d. put_entry d i ofs bs) = Some d \<and> length d = length dir"
    if "\<exists>d. m = Some d \<and> length d = length dir" "ofs + length bs \<le> 32" for m ofs bs
    using that p by fastforce
  have "\<exists>d. ((((((((put_entry dir i 0 (replicate 11 0x20)
      \<bind> (\<lambda>d. put_entry d i 11 [attr])) \<bind> (\<lambda>d. put_entry d i 28 (le32 len)))
      \<bind> (\<lambda>d. put_entry d i 20 (le16 (cluster div 2 ^ 16))))
      \<bind> (\<lambda>d. put_entry d i 26 (le16 (cluster mod 2 ^ 16))))
      \<bind> (\<lambda>d. put_entry d i 16 (le16 0x2821))) \<bind> (\<lambda>d. put_entry d i 14 (le16 0)))
      \<bind> (\<lambda>d. put_entry d i 13 [0])) \<bind> (\<lambda>d. put_entry d i 24 (le16 0x2821)))
      \<bind> (\<lambda>d. put_entry d i 22 (le16 0)) = Some d \<and> length d = length dir"
    by (intro step p refl) (simp_all add: le16_def le32_def)
  then show ?thesis by (simp add: dos_entry_def bind_assoc)
qed

lemma vdisk_directory_entry_ok:
  assumes "no_nul s" and "int (length s div 13) < i" and "nat i * 32 + 32 \<le> length dir"
  shows "\<exists>d. vdisk_directory_entry dir i (s @ 0 # x) len attr cluster =
      Some (d, i - 2 - int (length s div 13)) \<and> length d = length dir"
proof -
  have i: "0 \<le> i" using assms(2) by linarith
  obtain d1 where 1: "dos_entry dir i len attr cluster = Some d1" "length d1 = length dir"
    using dos_entry_ok [OF i assms(3)] by blast
  obtain raw where raw: "peek d1 (nat i * 32) 11 = Some raw" using 1 assms(3) by (simp add: peek_def)
  have p1: "1 \<in> set lfn_places" "lfn_index 1 = 0" by (simp_all add: lfn_places_def lfn_index_def)
  let ?l = "i - 1 - int (length s div 13)"
  have room: "nat (i - 1) * 32 + 32 \<le> length d1" using assms(2,3) 1 i by linarith
  obtain d2 where 2: "lfn_chars d1 (i - 1) 1 (lfn_sum raw) 1 (s @ 0 # x) = Some (d2, ?l)" "length d2 = length d1"
    using lfn_chars_ok [OF p1(1) assms(1), of "i - 1" d1 "lfn_sum raw" 1 x] p1(2) assms(2) room by auto
  have l: "0 \<le> ?l" "nat ?l * 32 < length d2" using assms(2,3) 1 2 by linarith+
  then obtain v where v: "rd d2 (nat ?l * 32) = Some v" by (simp add: rd_def)
  then obtain d3 where "wr d2 (nat ?l * 32) (v OR VDISK_LFN_END) = Some d3" "length d3 = length d2"
    using l by (simp add: wr_def)
  moreover have "i - 2 - int (length s div 13) = ?l - 1" by simp
  ultimately show ?thesis
    using 1 raw 2 v i l(1) by (simp add: vdisk_directory_entry_def entry_at_def)
qed

section \<open>Fragments\<close>

definition in_region :: "nat \<Rightarrow> vdisk_region \<Rightarrow> bool" where
  "in_region t = (\<lambda>(r, n, _). r \<le> t \<and> t < r + n)"

text \<open>The build function a sector belongs to.\<close>

definition sector_builder :: "nat \<Rightarrow> builder option" where
  "sector_builder t =
     (if VDISK_FILE_COUNT \<le> t
      then (if t div VDISK_FILE_COUNT \<le> VDISK_MAX_FILES then Some B_file else None)
      else map_option (\<lambda>(_, _, b). b) (find (in_region t) vdisk_regions))"

text \<open>A fragment ends within the range and does not leave the region it starts in.\<close>

lemma scan_regions_fragment:
  assumes "scan_regions s e regions = (f, b)" and "s < e"
  shows "s < f \<and> f \<le> e \<and>
    (\<forall>t. s \<le> t \<and> t < f \<longrightarrow> map_option (\<lambda>(_, _, b). b) (find (in_region t) regions) = b)"
  using assms
proof (induction regions arbitrary: e)
  case (Cons r regions)
  obtain start n b' where r: "r = (start, n, b')" by (cases r)
  let ?e = "if s < start \<and> e > start then start else e"
  have e: "s < ?e" "?e \<le> e" using Cons.prems(2) by auto
  show ?case
  proof (cases "s \<ge> start + n \<or> ?e \<le> start")
    case True
    then have "scan_regions s ?e regions = (f, b)" using Cons.prems(1) r by (simp add: Let_def)
    from Cons.IH [OF this e(1)] have ih: "s < f" "f \<le> ?e"
      "\<And>t. s \<le> t \<Longrightarrow> t < f \<Longrightarrow> map_option (\<lambda>(_, _, b). b) (find (in_region t) regions) = b" by auto
    have "\<not> in_region t r" if "s \<le> t" "t < f" for t
      using True that ih(2) r by (auto simp: in_region_def)
    then show ?thesis using ih e(2) by auto
  next
    case False
    then have f: "f = (if ?e > start + n then start + n else ?e)" "b = Some b'"
      using Cons.prems(1) r by (auto simp: Let_def split: if_splits)
    have "start \<le> s" using False by (auto split: if_splits)
    then have "in_region t r" if "s \<le> t" "t < f" for t
      using that f False r by (auto simp: in_region_def split: if_splits)
    then show ?thesis using f False e r by (auto split: if_splits)
  qed
qed simp

text \<open>
  The BIOS build addresses the files below the last window only. A fragment that starts in the
  empty space before the files is not cut off where they begin, so a range must not cross that
  place.
\<close>

definition readable :: "bool \<Rightarrow> nat" where
  "readable lp64 = (if lp64 then VDISK_COUNT else 511 * VDISK_FILE_COUNT)"

lemma readable_small: "readable lp64 \<le> VDISK_COUNT" "VDISK_COUNT < 2 ^ 32"
  by (simp_all add: readable_def vdisk_layout)

lemma sector_builder_low:
  "t < VDISK_FILE_COUNT \<Longrightarrow> sector_builder t = map_option (\<lambda>(_, _, b). b) (find (in_region t) vdisk_regions)"
  by (simp add: sector_builder_def)

lemma regions_low: "\<forall>(r, n, b) \<in> set vdisk_regions. r + n \<le> VDISK_FILE_COUNT"
  by (simp add: vdisk_regions_def VDISK_DIRECTORY_REGION_def vdisk_layout)

lemma nat_mod_small: "x < 2 ^ k \<Longrightarrow> nat (int x mod 2 ^ k) = x"
proof -
  assume x: "x < 2 ^ k"
  have "int x < 2 ^ k" using x by (metis of_nat_less_iff of_nat_numeral of_nat_power)
  then show ?thesis by simp
qed

text \<open>The address behind a file's region, while it stays below the top of the address space.\<close>

lemma file_end_lba:
  assumes "q < (if lp64 then 512 else 511)"
  shows "VDISK_FILE_LBA lp64 (int q - 1 + 1) = (q + 1) * VDISK_FILE_COUNT"
proof -
  have "(int q - 1 + 1 + 1) * int VDISK_FILE_COUNT = int ((q + 1) * VDISK_FILE_COUNT)"
    by (simp only: of_nat_mult of_nat_add of_nat_1 diff_add_cancel)
  moreover have "(q + 1) * VDISK_FILE_COUNT < (if lp64 then 2 ^ 64 else 2 ^ 32)"
    using assms by (cases lp64) (simp_all add: VDISK_FILE_COUNT_def)
  ultimately show ?thesis
    unfolding VDISK_FILE_LBA_def by (cases lp64) (simp_all only: if_True if_False nat_mod_small)
qed

lemma window_of:
  assumes "s \<le> t" and "t < (s div VDISK_FILE_COUNT + 1) * VDISK_FILE_COUNT"
  shows "t div VDISK_FILE_COUNT = s div VDISK_FILE_COUNT"
proof -
  have "s div VDISK_FILE_COUNT \<le> t div VDISK_FILE_COUNT" using assms(1) by (rule div_le_mono)
  moreover have "t div VDISK_FILE_COUNT < s div VDISK_FILE_COUNT + 1"
    using assms(2) by (rule less_mult_imp_div_less)
  ultimately show ?thesis by simp
qed

lemma in_window: "s < (s div VDISK_FILE_COUNT + 1) * VDISK_FILE_COUNT"
  using mod_less_divisor [of VDISK_FILE_COUNT s] div_mult_mod_eq [of s VDISK_FILE_COUNT]
  by (simp add: VDISK_FILE_COUNT_def)

lemma window_bound:
  "s < readable lp64 \<Longrightarrow> s div VDISK_FILE_COUNT < (if lp64 then 512 else 511)"
  by (cases lp64) (simp_all add: readable_def vdisk_layout)

lemma file_fragment:
  assumes "s < readable lp64" and "VDISK_FILE_COUNT \<le> s"
  shows "fragment lp64 s e = (min e ((s div VDISK_FILE_COUNT + 1) * VDISK_FILE_COUNT),
     if s div VDISK_FILE_COUNT \<le> VDISK_MAX_FILES then Some B_file else None)"
proof -
  have "s < 2 ^ 32" using assms(1) readable_small(1) [of lp64] readable_small(2) by linarith
  then have "s < 2 ^ 54" by simp
  then have idx: "VDISK_FILE_IDX s = int (s div VDISK_FILE_COUNT) - 1" by (rule file_idx)
  have q: "1 \<le> s div VDISK_FILE_COUNT"
    using div_le_mono [OF assms(2), of VDISK_FILE_COUNT] by (simp add: VDISK_FILE_COUNT_def)
  show ?thesis
    unfolding fragment_def Let_def idx file_end_lba [OF window_bound [OF assms(1)]]
    using q by (simp add: min_def of_nat_le_iff)
qed

lemma fragment_ok:
  assumes fr: "fragment lp64 s e = (f, b)" and "s < e" and "e \<le> readable lp64"
    and gap: "e \<le> VDISK_FILE_COUNT \<or> VDISK_FILE_COUNT \<le> s"
  shows "s < f \<and> f \<le> e \<and> (\<forall>t. s \<le> t \<and> t < f \<longrightarrow> sector_builder t = b)
    \<and> (VDISK_FILE_COUNT \<le> s \<longrightarrow> f \<le> (s div VDISK_FILE_COUNT + 1) * VDISK_FILE_COUNT)"
proof (cases "VDISK_FILE_COUNT \<le> s")
  case True
  have s: "s < readable lp64" using assms(2,3) by linarith
  have f: "f = min e ((s div VDISK_FILE_COUNT + 1) * VDISK_FILE_COUNT)"
      "b = (if s div VDISK_FILE_COUNT \<le> VDISK_MAX_FILES then Some B_file else None)"
    using fr unfolding file_fragment [OF s True] by (simp_all only: prod.inject)
  have "sector_builder t = b" if "s \<le> t" "t < f" for t
  proof -
    have "t div VDISK_FILE_COUNT = s div VDISK_FILE_COUNT"
      using that f(1) by (intro window_of) (simp_all only: min_less_iff_conj)
    moreover have "VDISK_FILE_COUNT \<le> t" using True that(1) by (rule order_trans)
    ultimately show ?thesis unfolding sector_builder_def f(2) by (simp only: if_True)
  qed
  moreover have "s < f" unfolding f(1) using in_window [of s] assms(2) by (simp only: min_less_iff_conj)
  moreover have "f \<le> e" "f \<le> (s div VDISK_FILE_COUNT + 1) * VDISK_FILE_COUNT"
    unfolding f(1) by (simp_all only: min.cobounded1 min.cobounded2)
  ultimately show ?thesis by blast
next
  case False
  have "VDISK_FILE_IDX s = int (s div VDISK_FILE_COUNT) - 1"
    using False by (intro file_idx) (simp add: VDISK_FILE_COUNT_def)
  then have "VDISK_FILE_IDX s = - 1" using False by simp
  then have sc: "scan_regions s e vdisk_regions = (f, b)" using fr by (simp add: fragment_def)
  note sf = scan_regions_fragment [OF sc assms(2)]
  have "sector_builder t = b" if "s \<le> t" "t < f" for t
    using sector_builder_low [of t] sf that False gap by simp
  then show ?thesis using sf False by blast
qed

section \<open>The disk, sector by sector\<close>

definition file_entry :: "vfile \<Rightarrow> nat \<Rightarrow> bytes" where
  "file_entry f idx =
     (if file_read f = None then vdisk_empty_dir
      else case vdisk_directory_entry vdisk_empty_dir 15 (file_name f) (file_xlen f)
             VDISK_READ_ONLY (VDISK_FILE_CLUSTER idx) of None \<Rightarrow> [] | Some (d, _) \<Rightarrow> d)"

text \<open>The contents of a sector: the abstract disk that a read delivers a stretch of.\<close>

definition disk_sector :: "bool \<Rightarrow> vfile list \<Rightarrow> bytes list \<Rightarrow> nat \<Rightarrow> bytes" where
  "disk_sector lp64 files cs t =
     (case sector_builder t of
        None \<Rightarrow> replicate 512 0
      | Some B_file \<Rightarrow> pad_slice (cs ! (t div VDISK_FILE_COUNT - 1)) (VDISK_FILE_OFFSET t) 512
      | Some B_fat \<Rightarrow> concat (map (\<lambda>c. le_bytes 4 (fat_entry lp64 files c))
          [(t - VDISK_FAT_LBA) * 128..<(t - VDISK_FAT_LBA) * 128 + 128])
      | Some B_dir_files \<Rightarrow> file_entry (files ! VDISK_FILE_DIRENT_IDX t) (VDISK_FILE_DIRENT_IDX t)
      | Some b \<Rightarrow> (case build lp64 files b t 1 of None \<Rightarrow> [] | Some d \<Rightarrow> d))"

text \<open>The array of files: sixty-three entries, each with its contents.\<close>

definition disk_files :: "vfile list \<Rightarrow> bytes list \<Rightarrow> bool" where
  "disk_files files cs \<longleftrightarrow>
     length files = VDISK_MAX_FILES \<and> length cs = VDISK_MAX_FILES \<and>
     (\<forall>i < VDISK_MAX_FILES. holds_file (files ! i) (cs ! i))"

lemma vdisk_empty_dir_length [simp]: "length vdisk_empty_dir = 512"
  by (simp add: vdisk_empty_dir_def eval_nat_numeral)

lemma file_entry_ok:
  assumes "holds_file f c"
  shows "(if file_read f = None then Some vdisk_empty_dir
          else map_option fst (vdisk_directory_entry vdisk_empty_dir 15 (file_name f) (file_xlen f)
                 VDISK_READ_ONLY (VDISK_FILE_CLUSTER idx))) = Some (file_entry f idx) \<and>
    length (file_entry f idx) = 512"
proof -
  obtain s x where s: "file_name f = s @ 0 # x" "no_nul s" "length s < 32"
    using assms by (auto simp: holds_file_def)
  have "int (length s div 13) < 15" using s(3) by simp
  then obtain d where "vdisk_directory_entry vdisk_empty_dir 15 (file_name f) (file_xlen f)
      VDISK_READ_ONLY (VDISK_FILE_CLUSTER idx) = Some (d, 15 - 2 - int (length s div 13))" "length d = 512"
    using vdisk_directory_entry_ok [OF s(2), of 15 vdisk_empty_dir x "file_xlen f" VDISK_READ_ONLY
        "VDISK_FILE_CLUSTER idx"] s(1) by auto
  then show ?thesis by (simp add: file_entry_def)
qed

lemma vdisk_dir_files_image:
  assumes "disk_files files cs" and "\<forall>t. s \<le> t \<and> t < s + n \<longrightarrow> VDISK_FILE_DIRENT_IDX t < VDISK_MAX_FILES"
  shows "vdisk_dir_files files s n = Some (concat (map
    (\<lambda>t. file_entry (files ! VDISK_FILE_DIRENT_IDX t) (VDISK_FILE_DIRENT_IDX t)) [s..<s + n]))"
  using assms(2)
proof (induction n arbitrary: s)
  case (Suc n)
  let ?i = "VDISK_FILE_DIRENT_IDX s"
  have i: "?i < VDISK_MAX_FILES" using Suc.prems by simp
  then have f: "rd files ?i = Some (files ! ?i)" and h: "holds_file (files ! ?i) (cs ! ?i)"
    using assms(1) by (auto simp: disk_files_def rd_def)
  have "vdisk_dir_files files (s + 1) n = Some (concat (map
      (\<lambda>t. file_entry (files ! VDISK_FILE_DIRENT_IDX t) (VDISK_FILE_DIRENT_IDX t)) [s + 1..<s + 1 + n]))"
    by (rule Suc.IH) (use Suc.prems in auto)
  moreover have "[s..<s + Suc n] = s # [s + 1..<s + 1 + n]" by (simp add: upt_conv_Cons)
  ultimately show ?case
    by (simp only: vdisk_dir_files.simps Let_def i if_True f Option.bind.simps file_entry_ok [OF h]
        list.map concat.simps)
qed simp

section \<open>Every build function fills its sectors\<close>

lemma concat_blocks:
  "concat (map g [a * k..<(a + n) * k]) = concat (map (\<lambda>b. concat (map g [b * k..<b * k + k])) [a..<a + n])"
  for a k n :: nat
proof (induction n)
  case (Suc n)
  have "[a * k..<(a + Suc n) * k] = [a * k..<(a + n) * k] @ [(a + n) * k..<(a + n) * k + k]"
    using upt_add_eq_append [of "a * k" "(a + n) * k" k] by (simp add: algebra_simps)
  then show ?case using Suc by simp
qed simp

lemma pad_slice_blocks: "pad_slice c ofs (n * k) = concat (map (\<lambda>j. pad_slice c (ofs + j * k) k) [0..<n])"
proof (induction n)
  case 0
  then show ?case by (simp add: pad_slice_def)
next
  case (Suc n)
  have "Suc n * k = n * k + k" by simp
  then show ?case by (simp only: pad_slice_add Suc) simp
qed

lemma region_builder:
  assumes "sector_builder t = Some b" and "t < VDISK_FILE_COUNT"
  shows "\<exists>r n. (r, n, b) \<in> set vdisk_regions \<and> r \<le> t \<and> t < r + n"
proof -
  obtain x where x: "find (in_region t) vdisk_regions = Some x" "b = snd (snd x)"
    using assms by (auto simp: sector_builder_low)
  then have "x \<in> set vdisk_regions" "in_region t x"
    unfolding find_Some_iff by (metis nth_mem)+
  moreover obtain r n where "x = (r, n, b)" using x(2) by (cases x) simp
  ultimately show ?thesis unfolding in_region_def by blast
qed

definition fixed_builder :: "builder \<Rightarrow> bool" where
  "fixed_builder b \<longleftrightarrow> b \<notin> {B_fat, B_dir_files, B_file}"

lemma high_builder: "VDISK_FILE_COUNT \<le> t \<Longrightarrow> sector_builder t = Some b \<Longrightarrow> b = B_file"
  by (auto simp: sector_builder_def split: if_splits)

lemma region_facts:
  assumes "(r, n, b) \<in> set vdisk_regions"
  shows "fixed_builder b \<Longrightarrow> n = 1"
    and "b = B_fat \<Longrightarrow> r = VDISK_FAT_LBA \<and> n = VDISK_SECTORS_PER_FAT"
    and "b = B_dir_files \<Longrightarrow> n = 63 \<and> (r - 1) mod 64 = 0 \<and> 0 < r"
    and "b \<noteq> B_file"
  using assms
  by (auto simp: vdisk_regions_def VDISK_DIRECTORY_REGION_def fixed_builder_def vdisk_layout)

lemma fixed_builders_apart:
  assumes "(r, n, b) \<in> set vdisk_regions" and "(r', n', b) \<in> set vdisk_regions" and "fixed_builder b"
  shows "r' \<noteq> Suc r"
  using assms
  by (auto simp: vdisk_regions_def VDISK_DIRECTORY_REGION_def fixed_builder_def vdisk_layout)

lemma fixed_alone:
  assumes "sector_builder s = Some b" and "fixed_builder b"
  shows "sector_builder (Suc s) \<noteq> Some b"
proof
  assume n: "sector_builder (Suc s) = Some b"
  have lo: "s < VDISK_FILE_COUNT" "Suc s < VDISK_FILE_COUNT"
    using high_builder [OF _ assms(1)] high_builder [OF _ n] assms(2) unfolding fixed_builder_def
    by (metis insertCI not_le)+
  obtain r m r' m' where r: "(r, m, b) \<in> set vdisk_regions" "r \<le> s" "s < r + m"
      "(r', m', b) \<in> set vdisk_regions" "r' \<le> Suc s" "Suc s < r' + m'"
    using region_builder [OF assms(1) lo(1)] region_builder [OF n lo(2)] by blast
  have "m = 1" "m' = 1" using region_facts(1) [OF r(1)] region_facts(1) [OF r(4)] assms(2) by auto
  then have "r' = Suc r" using r by linarith
  then show False using fixed_builders_apart [OF r(1,4) assms(2)] by simp
qed

definition fields_fit :: "nat \<Rightarrow> (nat \<times> bytes) list \<Rightarrow> bool" where
  "fields_fit n fs = list_all (\<lambda>(ofs, bs). ofs + length bs \<le> n) fs"

lemma set_fields_total:
  "fields_fit (length m) fs \<Longrightarrow> \<exists>d. set_fields m fs = Some d \<and> length d = length m"
proof (induction m fs rule: set_fields.induct)
  case (2 m ofs bs fs)
  then have fit: "ofs + length bs \<le> length m" by (simp add: fields_fit_def)
  let ?m = "take ofs m @ bs @ drop (ofs + length bs) m"
  have m': "poke m ofs bs = Some ?m" "length ?m = length m"
    using fit by (simp_all add: poke_def)
  then have "fields_fit (length ?m) fs" using 2(2) by (simp add: fields_fit_def)
  from 2(1) [OF m'(1) this] show ?case using m' by simp
qed simp

lemma sector_fields:
  "fields_fit 512 fs \<Longrightarrow> \<exists>d. set_fields (replicate 512 0) fs = Some d \<and> length d = 512"
  using set_fields_total [of "replicate 512 0 :: bytes"] by simp

lemma sector_records:
  "\<exists>d. vdisk_mbr = Some d \<and> length d = 512"
  "\<exists>d. vdisk_vbr = Some d \<and> length d = 512"
  "\<exists>d. vdisk_fsinfo = Some d \<and> length d = 512"
  unfolding vdisk_mbr_def vdisk_vbr_def vdisk_fsinfo_def
  by (rule sector_fields, simp add: fields_fit_def le16_def le32_def)+

text \<open>Every name takes an entry and the long name records before it.\<close>

fun entries :: "(string \<times> nat) list \<Rightarrow> int" where
  "entries [] = 0"
| "entries ((name, _) # ds) = 2 + int (length name div 13) + entries ds"

lemma entries_nonneg: "0 \<le> entries ds"
  by (induction ds rule: entries.induct) simp_all

lemma subdirs_ok:
  assumes "list_all (\<lambda>(name, _). no_nul (map of_char name :: bytes)) ds"
    and "entries ds \<le> dirent + 1" and "nat dirent * 32 + 32 \<le> length dir"
  shows "\<exists>d. subdirs dir dirent ds = Some d \<and> length d = length dir"
  using assms
proof (induction dir dirent ds rule: subdirs.induct)
  case (2 dir dirent name cluster ds)
  let ?name = "map of_char name :: bytes"
  have "no_nul ?name" "int (length ?name div 13) < dirent" "nat dirent * 32 + 32 \<le> length dir"
    using 2(2-4) entries_nonneg [of ds] by simp_all
  from vdisk_directory_entry_ok [OF this, of "[]" 0 VDISK_DIRECTORY cluster]
  obtain d where d: "vdisk_directory_entry dir dirent (?name @ [0]) 0 VDISK_DIRECTORY cluster =
      Some (d, dirent - 2 - int (length name div 13))" "length d = length dir" by auto
  have "\<exists>e. subdirs d (dirent - 2 - int (length name div 13)) ds = Some e \<and> length e = length d"
    by (rule 2(1) [OF d(1) refl]) (use 2(2-4) d(2) in auto)
  then show ?case using d by simp
qed simp

lemma empty_dir_subdirs:
  "list_all (\<lambda>(name, _). no_nul (map of_char name :: bytes)) ds \<Longrightarrow> entries ds \<le> 16 \<Longrightarrow>
     \<exists>d. subdirs vdisk_empty_dir 15 ds = Some d \<and> length d = 512"
  using subdirs_ok [of ds 15 vdisk_empty_dir] by simp

lemma directory_sectors:
  "\<exists>d. vdisk_root = Some d \<and> length d = 512"
  "\<exists>d. vdisk_boot = Some d \<and> length d = 512"
  "\<exists>d. vdisk_efi = Some d \<and> length d = 512"
  "\<exists>d. vdisk_microsoft = Some d \<and> length d = 512"
  unfolding vdisk_root_def vdisk_boot_def vdisk_efi_def vdisk_microsoft_def
  by (rule empty_dir_subdirs; simp add: no_nul_def of_char_def)+

lemma fixed_sector:
  "fixed_builder b \<Longrightarrow> \<exists>d. build lp64 files b lba n = Some d \<and> length d = 512"
  using sector_records directory_sectors
  by (cases b) (simp_all add: fixed_builder_def vdisk_sources_def vdisk_fonts_def vdisk_resources_def)

lemma low_builder: "sector_builder t = Some b \<Longrightarrow> b \<noteq> B_file \<Longrightarrow> t < VDISK_FILE_COUNT"
  using high_builder [of t b] by (meson not_le)

lemma fat_sectors:
  assumes "sector_builder t = Some B_fat"
  shows "VDISK_FAT_LBA \<le> t \<and> t < VDISK_FAT_LBA + VDISK_SECTORS_PER_FAT"
proof -
  obtain r n where r: "(r, n, B_fat) \<in> set vdisk_regions" "r \<le> t" "t < r + n"
    using region_builder [OF assms low_builder [OF assms]] by auto
  show ?thesis using region_facts(2) [OF r(1)] r(2,3) by simp
qed

lemma dir_file_sectors:
  assumes "sector_builder t = Some B_dir_files"
  shows "VDISK_FILE_DIRENT_IDX t < VDISK_MAX_FILES"
proof -
  obtain r n where r: "(r, n, B_dir_files) \<in> set vdisk_regions" "r \<le> t" "t < r + n"
    using region_builder [OF assms low_builder [OF assms]] by auto
  then have n: "n = 63" "(r - 1) mod 64 = 0" "0 < r" using region_facts(3) [OF r(1)] by simp_all
  then have "t - 1 = (t - r) + (r - 1)" using r by linarith
  then have "(t - 1) mod 64 = (t - r) mod 64" using n(2) by (metis add.right_neutral mod_add_right_eq)
  then show ?thesis using n(1) r by (simp add: VDISK_FILE_DIRENT_IDX_def VDISK_CLUSTER_COUNT_def VDISK_MAX_FILES_def)
qed

lemma file_sectors:
  assumes "sector_builder t = Some B_file"
  shows "VDISK_FILE_COUNT \<le> t \<and> t div VDISK_FILE_COUNT \<le> VDISK_MAX_FILES"
proof (cases "VDISK_FILE_COUNT \<le> t")
  case True
  then show ?thesis using assms by (auto simp: sector_builder_def split: if_splits)
next
  case False
  then show ?thesis using region_builder [OF assms] region_facts(4) by auto
qed

lemma image_fat:
  assumes "0 < n" and "\<forall>t. s \<le> t \<and> t < s + n \<longrightarrow> sector_builder t = Some B_fat"
  shows "build lp64 files B_fat s n = Some (concat (map (disk_sector lp64 files cs) [s..<s + n]))"
proof -
  have in_fat: "VDISK_FAT_LBA \<le> s" "s + n \<le> VDISK_FAT_LBA + VDISK_SECTORS_PER_FAT"
    using fat_sectors [of s] fat_sectors [of "s + n - 1"] assms by auto
  let ?a = "s - VDISK_FAT_LBA"
  let ?g = "\<lambda>c. le_bytes 4 (fat_entry lp64 files c)"
  have "map (disk_sector lp64 files cs) [s..<s + n] =
      map (\<lambda>t. concat (map ?g [(t - VDISK_FAT_LBA) * 128..<(t - VDISK_FAT_LBA) * 128 + 128])) [s..<s + n]"
    using assms(2) by (simp add: disk_sector_def)
  also have "\<dots> = map (\<lambda>b. concat (map ?g [b * 128..<b * 128 + 128])) [?a..<?a + n]"
    using in_fat(1) by (intro nth_equalityI) simp_all
  finally show ?thesis
    using vdisk_fat_window [OF in_fat assms(1), of lp64 files] concat_blocks [of ?g ?a 128 n] by simp
qed

lemma image_file:
  assumes "disk_files files cs" and "0 < n" and "n < 0x800000" and "s < 2 ^ 54"
    and bs: "\<forall>t. s \<le> t \<and> t < s + n \<longrightarrow> sector_builder t = Some B_file"
    and win: "s + n \<le> (s div VDISK_FILE_COUNT + 1) * VDISK_FILE_COUNT"
  shows "build lp64 files B_file s n = Some (concat (map (disk_sector lp64 files cs) [s..<s + n]))"
proof -
  let ?i = "s div VDISK_FILE_COUNT - 1"
  have s: "VDISK_FILE_COUNT \<le> s" "s div VDISK_FILE_COUNT \<le> VDISK_MAX_FILES"
    using file_sectors [of s] bs assms(2) by simp_all
  have "1 \<le> s div VDISK_FILE_COUNT"
    using div_le_mono [OF s(1), of VDISK_FILE_COUNT] by (simp add: VDISK_FILE_COUNT_def)
  then have i: "s div VDISK_FILE_COUNT = Suc ?i" "?i < VDISK_MAX_FILES" using s(2) by linarith+
  then have h: "holds_file (files ! ?i) (cs ! ?i)" "?i < length files"
    using assms(1) by (simp_all add: disk_files_def)
  have off: "disk_sector lp64 files cs (s + j) = pad_slice (cs ! ?i) (VDISK_FILE_OFFSET s + j * 512) 512"
    if "j < n" for j
  proof -
    have "s + j < (s div VDISK_FILE_COUNT + 1) * VDISK_FILE_COUNT" using win that by linarith
    then have q: "(s + j) div VDISK_FILE_COUNT = s div VDISK_FILE_COUNT" by (intro window_of) simp_all
    have "(s + j) mod VDISK_FILE_COUNT = s mod VDISK_FILE_COUNT + j"
      using div_mult_mod_eq [of "s + j" VDISK_FILE_COUNT] div_mult_mod_eq [of s VDISK_FILE_COUNT]
      unfolding q by linarith
    then have "VDISK_FILE_OFFSET (s + j) = VDISK_FILE_OFFSET s + j * 512"
      by (simp add: VDISK_FILE_OFFSET_def VDISK_SECTOR_SIZE_def)
    moreover have "sector_builder (s + j) = Some B_file" using bs that by simp
    ultimately show ?thesis by (simp add: disk_sector_def q)
  qed
  have "map (disk_sector lp64 files cs) [s..<s + n] =
      map (\<lambda>j. pad_slice (cs ! ?i) (VDISK_FILE_OFFSET s + j * 512) 512) [0..<n]"
    using off by (intro nth_equalityI) simp_all
  then show ?thesis
    using vdisk_file_slice [OF h i(1) assms(4), of n] assms(3) pad_slice_blocks [of "cs ! ?i" _ n 512]
    by simp
qed

text \<open>A region's build function fills any stretch of it with the sectors' contents.\<close>

lemma build_image:
  assumes "disk_files files cs" and "0 < n" and "n < 0x800000" and "s < 2 ^ 54"
    and bs: "\<forall>t. s \<le> t \<and> t < s + n \<longrightarrow> sector_builder t = b"
    and win: "VDISK_FILE_COUNT \<le> s \<longrightarrow> s + n \<le> (s div VDISK_FILE_COUNT + 1) * VDISK_FILE_COUNT"
  shows "(case b of Some b \<Rightarrow> build lp64 files b s n
                  | None \<Rightarrow> Some (replicate (n * VDISK_SECTOR_SIZE mod 2 ^ 32) 0)) =
    Some (concat (map (disk_sector lp64 files cs) [s..<s + n]))"
proof (cases b)
  case None
  have "map (disk_sector lp64 files cs) [s..<s + n] = map (\<lambda>_. replicate 512 0) [s..<s + n]"
    using bs None by (simp add: disk_sector_def)
  moreover have "concat (map (\<lambda>_. replicate 512 (0 :: byte)) [s..<s + n]) = replicate (n * 512) 0"
    by (induction n) (simp_all add: replicate_add [symmetric] add.commute)
  moreover have "n * VDISK_SECTOR_SIZE mod 2 ^ 32 = n * 512"
    using assms(3) by (simp add: VDISK_SECTOR_SIZE_def)
  ultimately show ?thesis using None by (simp only: option.case)
next
  case (Some b')
  note bs' = bs [unfolded Some]
  consider "fixed_builder b'" | "b' = B_fat" | "b' = B_dir_files" | "b' = B_file"
    by (auto simp: fixed_builder_def)
  then have "build lp64 files b' s n = Some (concat (map (disk_sector lp64 files cs) [s..<s + n]))"
  proof cases
    case 1
    have "sector_builder s = Some b'" using bs' assms(2) by simp
    then have "sector_builder (Suc s) \<noteq> Some b'" using fixed_alone 1 by blast
    then have "\<not> Suc s < s + n" using bs' by (meson le_Suc_eq order_refl)
    then have n: "n = 1" using assms(2) by linarith
    have "disk_sector lp64 files cs s = (case build lp64 files b' s 1 of None \<Rightarrow> [] | Some d \<Rightarrow> d)"
      using \<open>sector_builder s = Some b'\<close> 1
      by (cases b') (simp_all add: disk_sector_def fixed_builder_def)
    then show ?thesis using fixed_sector [OF 1, of lp64 files s n] n by auto
  next
    case 2
    then show ?thesis using image_fat [of n s lp64 files cs] bs' assms(2) by simp
  next
    case 3
    have "\<forall>t. s \<le> t \<and> t < s + n \<longrightarrow> VDISK_FILE_DIRENT_IDX t < VDISK_MAX_FILES"
      using bs' dir_file_sectors 3 by blast
    note img = vdisk_dir_files_image [OF assms(1) this]
    have eq: "map (disk_sector lp64 files cs) [s..<s + n] = map (\<lambda>t. file_entry
        (files ! VDISK_FILE_DIRENT_IDX t) (VDISK_FILE_DIRENT_IDX t)) [s..<s + n]"
      using bs' 3 by (simp add: disk_sector_def)
    show ?thesis unfolding 3 build.simps eq by (rule img)
  next
    case 4
    then have "VDISK_FILE_COUNT \<le> s" using file_sectors [of s] bs' assms(2) by simp
    then show ?thesis using image_file [OF assms(1-4), of lp64] bs' win 4 by simp
  qed
  then show ?thesis using Some by simp
qed

section \<open>Any range\<close>

text \<open>
  One pass: the stretch up to the end of the fragment is appended, and the pass makes progress.
\<close>

lemma vdisk_pass_image:
  assumes files: "disk_files files cs" and s: "s < e" "e \<le> readable lp64" "e - s < 0x800000"
    and gap: "e \<le> VDISK_FILE_COUNT \<or> VDISK_FILE_COUNT \<le> s"
  shows "\<exists>f. s < f \<and> f \<le> e \<and> vdisk_pass lp64 files e (s, out) =
     (let out' = out @ concat (map (disk_sector lp64 files cs) [s..<f])
      in if f \<noteq> e then Some (Inl (f, out')) else Some (Inr out'))"
proof -
  obtain f b where fb: "fragment lp64 s e = (f, b)" by (cases "fragment lp64 s e")
  note ok = fragment_ok [OF fb s(1,2) gap]
  have e32: "e < 2 ^ 32" using s(2) readable_small(1) [of lp64] readable_small(2) by linarith
  have f32: "f < 2 ^ 32" using ok e32 by (meson le_less_trans)
  have big: "s < 2 ^ 54" using s(1) e32 by simp
  have "int f - int s = int (f - s)" using ok by simp
  moreover have "f - s < 2 ^ 32" using f32 by linarith
  ultimately have cnt: "nat ((int f - int s) mod 2 ^ 32) = f - s" by (simp only: nat_mod_small)
  have nxt: "f mod 2 ^ 64 = f" using f32 by simp
  have "0 < f - s" "f - s < 0x800000" using ok s(3) by linarith+
  moreover have "\<forall>t. s \<le> t \<and> t < s + (f - s) \<longrightarrow> sector_builder t = b" using ok by auto
  moreover have "VDISK_FILE_COUNT \<le> s \<longrightarrow> s + (f - s) \<le> (s div VDISK_FILE_COUNT + 1) * VDISK_FILE_COUNT"
    using ok by auto
  ultimately have img: "(case b of Some b \<Rightarrow> build lp64 files b s (f - s)
        | None \<Rightarrow> Some (replicate ((f - s) * VDISK_SECTOR_SIZE mod 2 ^ 32) 0)) =
      Some (concat (map (disk_sector lp64 files cs) [s..<s + (f - s)]))"
    by (intro build_image [OF files _ _ big])
  have sf: "s + (f - s) = f" using ok by simp
  have "vdisk_pass lp64 files e (s, out) =
     (let out' = out @ concat (map (disk_sector lp64 files cs) [s..<f])
      in if f \<noteq> e then Some (Inl (f, out')) else Some (Inr out'))"
    by (simp only: vdisk_pass_def case_prod_conv fb cnt nxt img Let_def Option.bind.simps sf)
  then show ?thesis using ok by blast
qed

lemma vdisk_loop_image:
  assumes files: "disk_files files cs" and "s < e" "e \<le> readable lp64" "e - s < 0x800000"
    and gap: "e \<le> VDISK_FILE_COUNT \<or> VDISK_FILE_COUNT \<le> s" and fuel: "e - s \<le> n"
  shows "iterate n (vdisk_pass lp64 files e) (s, out) =
    Some (Inr (out @ concat (map (disk_sector lp64 files cs) [s..<e])))"
  using assms(2-)
proof (induction n arbitrary: s out)
  case (Suc n)
  obtain f where f: "s < f" "f \<le> e" "vdisk_pass lp64 files e (s, out) =
     (let out' = out @ concat (map (disk_sector lp64 files cs) [s..<f])
      in if f \<noteq> e then Some (Inl (f, out')) else Some (Inr out'))"
    using vdisk_pass_image [OF files Suc.prems(1-4)] by blast
  show ?case
  proof (cases "f = e")
    case True
    then show ?thesis using f by simp
  next
    case False
    have split: "[s..<e] = [s..<f] @ [f..<e]"
      using upt_add_eq_append [of s f "e - f"] f by simp
    have "f < e" "e - f < 0x800000" "e \<le> VDISK_FILE_COUNT \<or> VDISK_FILE_COUNT \<le> f" "e - f \<le> n"
      using f False Suc.prems by auto
    then have "iterate n (vdisk_pass lp64 files e) (f, out @ concat (map (disk_sector lp64 files cs) [s..<f])) =
      Some (Inr ((out @ concat (map (disk_sector lp64 files cs) [s..<f])) @
        concat (map (disk_sector lp64 files cs) [f..<e])))"
      using Suc.IH Suc.prems(2) by blast
    then show ?thesis using f(3) False by (simp add: split Let_def)
  qed
qed simp

lemma vdisk_read_range:
  assumes "disk_files files cs" and "0 < count" and "count < 0x800000"
    and "lba + count \<le> readable lp64"
    and "lba + count \<le> VDISK_FILE_COUNT \<or> VDISK_FILE_COUNT \<le> lba" and "count \<le> fuel"
  shows "vdisk_read fuel lp64 files lba count =
    Some (Inr (concat (map (disk_sector lp64 files cs) [lba..<lba + count])))"
proof -
  have "lba + count < 2 ^ 32"
    using assms(4) readable_small(1) [of lp64] readable_small(2) by linarith
  then have "(lba + count) mod 2 ^ 64 = lba + count" by simp
  then show ?thesis
    using vdisk_loop_image [OF assms(1) _ assms(4) _ assms(5), of fuel "[]"] assms(2,3,6)
    by (simp add: vdisk_read_def)
qed


definition note_file :: "bytes \<Rightarrow> vfile" where
  "note_file dat = no_file\<lparr>file_read := Some (read_mem_file dat), file_len := length dat, file_xlen := length dat\<rparr>"

definition one_file :: "bytes \<Rightarrow> vfile list" where
  "one_file dat = note_file dat # replicate 62 no_file"

lemma one_file_disk: "disk_files (one_file dat) (dat # replicate 62 [])"
proof -
  have name: "replicate 32 (0 :: byte) = [] @ 0 # replicate 31 0" by (simp add: eval_nat_numeral)
  have n: "\<exists>s x. replicate 32 (0 :: byte) = s @ 0 # x \<and> no_nul s \<and> length s < 32"
    by (intro exI conjI, rule name) (simp_all add: no_nul_def)
  have "holds_file (note_file dat) dat"
    using n mem_file.file_reader_axioms by (simp add: holds_file_def note_file_def no_file_def)
  moreover have "holds_file no_file []" using n by (simp add: holds_file_def no_file_def)
  ultimately have "holds_file (one_file dat ! i) ((dat # replicate 62 []) ! i)" if "i < 63" for i
    using that by (cases i) (simp_all add: one_file_def)
  then show ?thesis by (simp add: disk_files_def one_file_def VDISK_MAX_FILES_def VDISK_CLUSTER_COUNT_def)
qed


section \<open>Where a range is not cut\<close>

text \<open>
  A fragment that starts in the empty space behind the directories runs to the end of the range,
  also when the first file's region begins before it: a file's sector is then cleared instead of
  being read.
\<close>

lemma gap_not_cut:
  "vdisk_read 1 True (one_file [1, 2, 3]) 0x7fffff 2 = Some (Inr (replicate 1024 0))"
proof -
  have i: "VDISK_FILE_IDX 8388607 = - 1" by (simp add: file_idx VDISK_FILE_COUNT_def)
  have "scan_regions 8388607 8388609 vdisk_regions = (8388609, None)"
    by (simp add: vdisk_regions_def VDISK_DIRECTORY_REGION_def vdisk_layout)
  then have "fragment True 8388607 8388609 = (8388609, None)" by (simp add: fragment_def i)
  then have "vdisk_pass True (one_file [1, 2, 3]) 8388609 (8388607, []) = Some (Inr (replicate 1024 0))"
    by (simp add: vdisk_pass_def VDISK_SECTOR_SIZE_def)
  then show ?thesis by (simp add: vdisk_read_def One_nat_def)
qed

text \<open>
  In the BIOS build the end of the last window of addresses wraps to zero. A read that starts there
  passes over one window after the other without coming to its end.
\<close>

lemma wrapped_end: "nat ((int q + 1) * 0x800000 mod 2 ^ 32) \<le> 0xff800000"
proof -
  have "(int q + 1) * 0x800000 mod (512 * 0x800000) = ((int q + 1) mod 512) * 0x800000"
    by (simp only: mult_mod_left)
  moreover have "(int q + 1) mod 512 < 512" by simp
  ultimately show ?thesis by simp
qed

lemma wrapped_fragment:
  assumes "511 \<le> q" and "q < 2 ^ 30"
  shows "fragment False (q * 0x800000) 0xff800001 = (nat ((int q + 1) * 0x800000 mod 2 ^ 32), None)"
proof -
  have d: "q * 0x800000 div VDISK_FILE_COUNT = q" by (simp add: VDISK_FILE_COUNT_def)
  have "q * 0x800000 < 2 ^ 54" using assms(2) by simp
  then have i: "VDISK_FILE_IDX (q * 0x800000) = int q - 1" using file_idx [of "q * 0x800000"] d by simp
  have l: "VDISK_FILE_LBA False (int q - 1 + 1) = nat ((int q + 1) * 0x800000 mod 2 ^ 32)"
    unfolding VDISK_FILE_LBA_def by (simp only: if_False VDISK_FILE_COUNT_def of_nat_numeral diff_add_cancel)
  show ?thesis
    unfolding fragment_def Let_def i l using wrapped_end [of q] assms(1)
    by (simp add: VDISK_MAX_FILES_def VDISK_CLUSTER_COUNT_def del: nat_le_numeral_power_cancel_iff)
qed

lemma wrapped_pass:
  assumes "511 \<le> q" and "q < 2 ^ 30"
  shows "vdisk_pass False files 0xff800001 (q * 0x800000, out) = Some (Inl ((q + 1) * 0x800000, out))"
proof -
  let ?e = "nat ((int q + 1) * 0x800000 mod 2 ^ 32)"
  have e: "int ?e = (int q + 1) * 0x800000 mod 2 ^ 32" by simp
  have "(int ?e - int (q * 0x800000)) mod 2 ^ 32 = ((int q + 1) * 0x800000 - int q * 0x800000) mod 2 ^ 32"
    unfolding e of_nat_mult of_nat_numeral by (rule mod_diff_left_eq)
  moreover have "(int q + 1) * 0x800000 - int q * 0x800000 = (0x800000 :: int)"
    by (simp only: ring_distribs mult_1 add_diff_cancel_left')
  ultimately have "(int ?e - int (q * 0x800000)) mod 2 ^ 32 = 0x800000" by (simp only:) simp
  then have c: "nat ((int ?e - int (q * 0x800000)) mod 2 ^ 32) = 0x800000" by (simp only: nat_numeral)
  have n: "(q * 0x800000 + 0x800000) mod 2 ^ 64 = (q + 1) * 0x800000"
    using assms(2) by simp
  have ne: "(q + 1) * 0x800000 \<noteq> 0xff800001"
  proof
    assume "(q + 1) * 0x800000 = 0xff800001"
    then have "(q + 1) * 0x800000 mod 0x800000 = 0xff800001 mod 0x800000" by (simp only:)
    then show False by simp
  qed
  show ?thesis
    unfolding vdisk_pass_def case_prod_conv wrapped_fragment [OF assms] Let_def c n using ne
    by (simp add: VDISK_SECTOR_SIZE_def)
qed

lemma last_window_endless:
  assumes "n < 2 ^ 29"
  shows "vdisk_read n False files 0xff800000 1 = Some (Inl ((511 + n) * 0x800000, []))"
proof -
  have "iterate m (vdisk_pass False files 0xff800001) (q * 0x800000, []) = Some (Inl ((q + m) * 0x800000, []))"
    if "511 \<le> q" "q + m < 2 ^ 30" for m q
    using that
  proof (induction m arbitrary: q)
    case (Suc m)
    then have "vdisk_pass False files 0xff800001 (q * 0x800000, []) = Some (Inl ((q + 1) * 0x800000, []))"
      by (intro wrapped_pass) simp_all
    then show ?case using Suc.IH [of "q + 1"] Suc.prems by simp
  qed simp
  from this [of 511 n] show ?thesis using assms by (simp add: vdisk_read_def)
qed

end
