(* ===== verification/Paging.thy ===== *)
theory Paging
  imports NtPrelude
begin

text \<open>
  The system memory map (\<^verbatim>\<open>kern/e820.c\<close>), paging and moving the initrd out of the 32-bit address
  space (\<^verbatim>\<open>kern/paging.c\<close>), and below 2GB (\<^verbatim>\<open>kern/main.c\<close>), as the 32-bit BIOS build does.
\<close>

section \<open>The memory map\<close>

record e820_entry =
  region_start :: u64
  region_len :: u64
  region_type :: u32
  region_attrs :: u32

definition E820_SMAP :: u32 where "E820_SMAP = 0x534d4150"
definition E820_TYPE_RAM :: u32 where "E820_TYPE_RAM = 1"
definition E820_ATTR_ENABLED :: u32 where "E820_ATTR_ENABLED = 1"
definition E820_ATTR_NONVOLATILE :: u32 where "E820_ATTR_NONVOLATILE = 2"

text \<open>
  INT 15,e820 is the firmware's: a function of the continuation value and of what the buffer holds
  before the call, which delivers the carry flag, the registers and the buffer.
\<close>

record e820_reply =
  reply_carry :: bool
  reply_eax :: u32
  reply_ebx :: u32
  reply_ecx :: u32
  reply_buf :: e820_entry

type_synonym e820_bios = "u32 \<Rightarrow> e820_entry \<Rightarrow> e820_reply"

text \<open>A usable region: RAM, and, when the reply holds attributes, enabled and volatile.\<close>

definition usable :: "e820_reply \<Rightarrow> bool" where
  "usable r \<longleftrightarrow>
     region_type (reply_buf r) = E820_TYPE_RAM \<and>
     (reply_ecx r > 20 \<longrightarrow>
        region_attrs (reply_buf r) AND E820_ATTR_ENABLED \<noteq> 0 \<and>
        region_attrs (reply_buf r) AND E820_ATTR_NONVOLATILE = 0)"

text \<open>
  One round of the loop of \<^verbatim>\<open>memmap_next\<close>. The state is the buffer and the continuation value; the
  loop is left with the region, or without one after an error or the last entry.
\<close>

type_synonym memmap = "e820_entry \<times> u32"

definition memmap_pass :: "e820_bios \<Rightarrow> memmap \<Rightarrow> (memmap + memmap \<times> bool) option" where
  "memmap_pass bios = (\<lambda>(buf, ebx).
     let r = bios ebx buf; s = (reply_buf r, reply_ebx r)
     in if reply_carry r then Some (Inr (s, False))
        else if reply_eax r \<noteq> E820_SMAP then Some (Inr (s, False))
        else if usable r then Some (Inr (s, True))
        else if reply_ebx r \<noteq> 0 then Some (Inl s)
        else Some (Inr (s, False)))"

definition empty_entry :: e820_entry where
  "empty_entry = \<lparr>region_start = 0, region_len = 0, region_type = 0, region_attrs = 0\<rparr>"

text \<open>\<open>prev\<close> tells whether a previous region is given; the result tells whether there is a next one.\<close>

definition memmap_next ::
  "nat \<Rightarrow> e820_bios \<Rightarrow> bool \<Rightarrow> memmap \<Rightarrow> (memmap + memmap \<times> bool) option" where
  "memmap_next fuel bios prev = (\<lambda>(buf, ebx).
     if \<not> prev then iterate fuel (memmap_pass bios) (empty_entry, 0)
     else if ebx = 0 then Some (Inr ((buf, ebx), False))
     else iterate fuel (memmap_pass bios) (buf, ebx))"

section \<open>Paging\<close>

definition PAGE_SIZE :: nat where "PAGE_SIZE = 4096"
definition PAGE_SIZE_2MB :: nat where "PAGE_SIZE_2MB = 0x200000"
definition COPY_WINDOW :: nat where "COPY_WINDOW = 0x200000"
definition ADDR_4GB :: u64 where "ADDR_4GB = 0x100000000"
definition CR0_PG :: u32 where "CR0_PG = 0x80000000"
definition CR4_PAE :: u32 where "CR4_PAE = 0x20"
definition PG_P :: u64 where "PG_P = 1"
definition PG_RW :: u64 where "PG_RW = 2"
definition PG_US :: u64 where "PG_US = 4"
definition PG_PS :: u64 where "PG_PS = 0x80"

text \<open>The control registers, the saved ones, and the machine: tables, registers and memory.\<close>

record paging_state =
  cr0 :: u32
  cr3 :: u32
  cr4 :: u32

record machine =
  paging :: bool
  pdpt :: "u64 list"
  pd :: "u64 list"
  cpu :: paging_state
  mem :: "nat \<Rightarrow> byte"

text \<open>A failed assertion is a fault.\<close>

definition map_page :: "machine \<Rightarrow> nat \<Rightarrow> u64 \<Rightarrow> machine option" where
  "map_page m vaddr paddr =
     (if vaddr mod PAGE_SIZE_2MB = 0 \<and> unat paddr mod PAGE_SIZE_2MB = 0 then do {
        pd' \<leftarrow> wr (pd m) (vaddr div PAGE_SIZE_2MB) (paddr OR PG_P OR PG_RW OR PG_US OR PG_PS);
        Some (m\<lparr>pd := pd'\<rparr>) }
      else None)"

text \<open>
  \<open>init_paging\<close>: every page is mapped to itself, until the address wraps to zero; the tables'
  addresses are those of the build. \<open>pae\<close> is what \<^verbatim>\<open>cpuid\<close> reports.
\<close>

fun map_pages :: "machine \<Rightarrow> nat list \<Rightarrow> machine option" where
  "map_pages m [] = Some m"
| "map_pages m (a # as) = do {
     m \<leftarrow> map_page m a (of_nat a);
     map_pages m as }"

definition init_paging :: "bool \<Rightarrow> nat \<Rightarrow> machine \<Rightarrow> machine option" where
  "init_paging pae pd_addr m =
     (if \<not> pae then Some m
      else do {
        m \<leftarrow> map_pages m (map (\<lambda>i. i * PAGE_SIZE_2MB) [0..<2 ^ 32 div PAGE_SIZE_2MB]);
        Some (m\<lparr>pdpt := map (\<lambda>i. of_nat (pd_addr + i * PAGE_SIZE) OR PG_P) [0..<4], paging := True\<rparr>) })"

definition enable_paging :: "u32 \<Rightarrow> machine \<Rightarrow> paging_state \<Rightarrow> machine \<times> paging_state" where
  "enable_paging pdpt_addr m state =
     (if \<not> paging m then (m, state)
      else let c = cpu m; state = c;
               c = c\<lparr>cr0 := cr0 state AND NOT CR0_PG\<rparr>;
               c = c\<lparr>cr4 := cr4 state OR CR4_PAE\<rparr>;
               c = c\<lparr>cr3 := pdpt_addr\<rparr>;
               c = c\<lparr>cr0 := cr0 state OR CR0_PG\<rparr>
           in (m\<lparr>cpu := c\<rparr>, state))"

definition disable_paging :: "machine \<Rightarrow> paging_state \<Rightarrow> machine" where
  "disable_paging m state =
     (if \<not> paging m then m
      else let c = (cpu m)\<lparr>cr0 := cr0 state AND NOT CR0_PG\<rparr>;
               c = c\<lparr>cr4 := cr4 state\<rparr>;
               c = c\<lparr>cr3 := cr3 state\<rparr>;
               c = c\<lparr>cr0 := cr0 state\<rparr>
           in m\<lparr>cpu := c\<rparr>)"

text \<open>
  With paging enabled an address is translated by the entry of its 2MB page; the flags lie in the
  entry's low bits. Copying goes through the translation byte by byte.
\<close>

definition translate :: "machine \<Rightarrow> nat \<Rightarrow> nat option" where
  "translate m vaddr = map_option
     (\<lambda>e. unat e div PAGE_SIZE_2MB * PAGE_SIZE_2MB + vaddr mod PAGE_SIZE_2MB)
     (rd (pd m) (vaddr div PAGE_SIZE_2MB))"

fun copy_virtual :: "machine \<Rightarrow> nat \<Rightarrow> nat \<Rightarrow> nat \<Rightarrow> machine option" where
  "copy_virtual m dst src 0 = Some m"
| "copy_virtual m dst src (Suc n) = do {
     d \<leftarrow> translate m dst;
     s \<leftarrow> translate m src;
     copy_virtual (m\<lparr>mem := (mem m)(d := mem m s)\<rparr>) (dst + 1) (src + 1) n }"

section \<open>Moving above 4GB\<close>

text \<open>The place in a region: congruent to the data modulo 2MB, ending as high as possible.\<close>

definition place_high :: "e820_entry \<Rightarrow> u32 \<Rightarrow> u32 \<Rightarrow> u64 option" where
  "place_high e data len =
     (let end = (scast (data + len) :: u64);
          start = region_start e + region_len e
      in if start < ADDR_4GB then None
         else let start = ((start - end) AND NOT 0x1fffff) + end;
                  start = start - ucast len
              in if start < region_start e then None
                 else if start < ADDR_4GB then None
                 else Some start)"

text \<open>The pages one after the other: mapped at the window, copied, and mapped at the data's place.\<close>

function relocate_pages :: "machine \<Rightarrow> u32 \<Rightarrow> u64 \<Rightarrow> nat \<Rightarrow> machine option" where
  "relocate_pages m data dest len =
     (if len = 0 then Some m
      else let offset = unat data mod PAGE_SIZE_2MB;
               frag_len = (if PAGE_SIZE_2MB - offset > len then len else PAGE_SIZE_2MB - offset)
      in do {
        m \<leftarrow> map_page m COPY_WINDOW (dest AND NOT 0x1fffff);
        m \<leftarrow> copy_virtual m (COPY_WINDOW + offset) (unat data) frag_len;
        m \<leftarrow> map_page m (unat data - offset) (dest AND NOT 0x1fffff);
        relocate_pages m (data + of_nat frag_len) (dest + of_nat frag_len) (len - frag_len) })"
  by pat_completeness auto
termination
  by (relation "measure (\<lambda>(_, _, _, len). len)") (auto simp: PAGE_SIZE_2MB_def)

declare relocate_pages.simps [simp del]

text \<open>
  The loop over the regions. The state is the memory map's, and whether a previous region was
  given; the result is the place, or to leave the data where they are.
\<close>

datatype 'p placement = Unfinished | Stay | At 'p

definition region_pass ::
  "nat \<Rightarrow> e820_bios \<Rightarrow> (e820_entry \<Rightarrow> 'p option) \<Rightarrow> bool \<times> memmap \<Rightarrow> (bool \<times> memmap + 'p placement) option" where
  "region_pass fuel bios place = (\<lambda>(prev, s). do {
     r \<leftarrow> memmap_next fuel bios prev s;
     (case r of
        Inl _ \<Rightarrow> Some (Inr Unfinished)
      | Inr (s', found) \<Rightarrow>
          if \<not> found then Some (Inr Stay)
          else (case place (fst s') of None \<Rightarrow> Some (Inl (True, s')) | Some p \<Rightarrow> Some (Inr (At p)))) })"

definition relocate_memory_high ::
  "nat \<Rightarrow> e820_bios \<Rightarrow> memmap \<Rightarrow> machine \<Rightarrow> u32 \<Rightarrow> u32 \<Rightarrow> (unit + u64 \<times> machine) option" where
  "relocate_memory_high fuel bios s m data len =
     (if \<not> paging m then Some (Inr (scast data, m))
      else do {
        r \<leftarrow> iterate fuel (region_pass fuel bios (\<lambda>e. place_high e data len)) (False, s);
        (case r of
           Inl _ \<Rightarrow> Some (Inl ())
         | Inr Unfinished \<Rightarrow> Some (Inl ())
         | Inr Stay \<Rightarrow> Some (Inr (scast data, m))
         | Inr (At start) \<Rightarrow> do {
             m \<leftarrow> relocate_pages m data start (unat len);
             m \<leftarrow> map_page m COPY_WINDOW (of_nat COPY_WINDOW);
             Some (Inr (start, m)) }) })"

section \<open>Moving below 2GB\<close>

definition ADDR_1MB :: int where "ADDR_1MB = 0x100000"
definition ADDR_2GB :: u64 where "ADDR_2GB = 0x80000000"

text \<open>\<^verbatim>\<open>start\<close> is an \<^verbatim>\<open>intptr_t\<close> of 32 bits: it is sign-extended where it is compared with 64 bits, and compared as
  a signed number with 1MB.\<close>

definition place_low :: "e820_entry \<Rightarrow> u32 \<Rightarrow> u32 option" where
  "place_low e len =
     (let end = region_start e + region_len e;
          start = (ucast (if end > ADDR_2GB then ADDR_2GB else end) :: u32)
      in if start < len then None
         else let start = (start - len) AND NOT 0xfff
              in if (scast start :: u64) < region_start e then None
                 else if sint start < ADDR_1MB then None
                 else Some start)"

definition relocate_memory_low ::
  "nat \<Rightarrow> e820_bios \<Rightarrow> memmap \<Rightarrow> machine \<Rightarrow> u32 \<Rightarrow> u32 \<Rightarrow> (unit + u32 \<times> machine) option" where
  "relocate_memory_low fuel bios s m data len = do {
     r \<leftarrow> iterate fuel (region_pass fuel bios (\<lambda>e. place_low e len)) (False, s);
     (case r of
        Inl _ \<Rightarrow> Some (Inl ())
      | Inr Unfinished \<Rightarrow> Some (Inl ())
      | Inr Stay \<Rightarrow> Some (Inr (data, m))
      | Inr (At start) \<Rightarrow>
          Some (Inr (start, m\<lparr>mem := (\<lambda>a. if unat start \<le> a \<and> a < unat start + unat len
                                         then mem m (unat data + (a - unat start)) else mem m a)\<rparr>))) }"

end
