(* ===== verification/PagingSafe.thy ===== *)
theory PagingSafe
  imports Paging
begin

text \<open>
  What paging and the moves promise: the control registers are restored, a place lies in its region
  with the alignment of the data, and after the move every virtual address of the data reads the
  byte it read before.
\<close>

section \<open>Control registers\<close>

lemma paging_restored: "disable_paging (fst (enable_paging a m s)) (snd (enable_paging a m s)) = m"
  by (cases m; cases "cpu m") (simp add: enable_paging_def disable_paging_def Let_def)

text \<open>
  Enabling paging and disabling it again leaves the machine as it was, control registers included,
  whatever the registers held and whether or not the processor supports paging.
\<close>

theorem disable_enable_paging:
  "disable_paging (fst (enable_paging a m s)) (snd (enable_paging a m s)) = m"
  by (rule paging_restored)

section \<open>Places\<close>

lemma align_down: "(x :: u64) AND NOT 0x1fffff = x - (x AND mask 21)"
proof -
  have m: "(0x1fffff :: u64) = mask 21" by (simp add: mask_eq_exp_minus_1)
  have "(x AND mask 21) AND (x AND NOT (mask 21)) = 0" "(x AND mask 21) OR (x AND NOT (mask 21)) = x"
    by (rule bit_word_eqI; auto simp: bit_simps)+
  then have "x = (x AND mask 21) + (x AND NOT (mask 21))"
    using word_plus_and_or [of "x AND mask 21" "x AND NOT (mask 21)"] by simp
  then show ?thesis unfolding m by (metis add_diff_cancel_left')
qed

lemma unat_align_down: "unat ((x :: u64) AND NOT 0x1fffff) = unat x div PAGE_SIZE_2MB * PAGE_SIZE_2MB"
  using unat_and_not_mask [of x 21] by (simp add: mask_eq_exp_minus_1 PAGE_SIZE_2MB_def)

definition fits_32 :: "u32 \<Rightarrow> u32 \<Rightarrow> bool" where
  "fits_32 data len \<longleftrightarrow> 0x400000 \<le> unat data \<and> unat data + unat len < 2 ^ 32"

definition good_region :: "e820_entry \<Rightarrow> bool" where
  "good_region e \<longleftrightarrow> unat (region_start e) + unat (region_len e) < 2 ^ 64"

lemma ucast_scast_u32: "ucast (scast (w :: u32) :: u64) = w"
proof (rule bit_word_eqI)
  fix n assume "n < LENGTH(32)"
  then have "n < 31 \<or> n = 31" by auto
  then show "bit (ucast (scast w :: u64) :: u32) n = bit w n"
    by (auto simp: bit_simps min_def)
qed

lemma low_half: "unat (ucast (w :: u64) :: u32) mod PAGE_SIZE_2MB = unat w mod PAGE_SIZE_2MB"
proof -
  have "unat (ucast w :: u32) = unat w mod 2 ^ 32" by (simp add: unsigned_ucast_eq take_bit_eq_mod)
  moreover have "(2 :: nat) ^ 32 = PAGE_SIZE_2MB * 2048" by (simp add: PAGE_SIZE_2MB_def)
  ultimately show ?thesis by (simp only: mod_mult_right_eq [symmetric] mod_mod_cancel dvd_triv_left)
qed

lemma mod_add_cancel_nat:
  assumes "(a + c) mod k = (b + c) mod (k :: nat)"
  shows "a mod k = b mod k"
proof -
  have "(int a + int c) mod int k = (int b + int c) mod int k"
    using arg_cong [OF assms, of int] by (simp add: zmod_int)
  then have "(int a + int c - int c) mod int k = (int b + int c - int c) mod int k"
    by (rule mod_diff_cong) simp
  then show ?thesis by (simp flip: zmod_int)
qed

lemma place_high_ok:
  assumes "place_high e data len = Some p" and "good_region e" and "fits_32 data len"
  shows "unat (region_start e) \<le> unat p" and "unat p + unat len \<le> unat (region_start e) + unat (region_len e)"
    and "2 ^ 32 \<le> unat p" and "unat p mod PAGE_SIZE_2MB = unat data mod PAGE_SIZE_2MB"
proof -
  let ?E = "scast (data + len) :: u64" and ?R = "region_start e + region_len e" and ?L = "ucast len :: u64"
  let ?d = "(?R - ?E) AND mask 21"
  have q: "\<not> ?R < ADDR_4GB" "p = ((?R - ?E) AND NOT 0x1fffff) + ?E - ?L" "\<not> p < region_start e" "\<not> p < ADDR_4GB"
    using assms(1) by (auto simp: place_high_def Let_def split: if_splits)
  show "unat (region_start e) \<le> unat p" using q(3) by (simp add: word_less_nat_alt)
  show "2 ^ 32 \<le> unat p" using q(4) by (simp add: word_less_nat_alt ADDR_4GB_def)
  have R: "unat ?R = unat (region_start e) + unat (region_len e)"
    using assms(2) by (simp add: good_region_def unat_word_ariths)
  have R4: "4294967296 \<le> unat ?R" using q(1) by (simp add: word_less_nat_alt ADDR_4GB_def)
  have L: "unat ?L = unat len" using unat_bound [of len] by (simp add: unsigned_ucast_eq take_bit_nat_eq_self)
  have len: "unat data + unat len < 4294967296" "4194304 \<le> unat data"
    using assms(3) by (simp_all add: fits_32_def)
  have d: "unat ?d < 2097152" using unat_and_mask [of "?R - ?E" 21] by simp
  have p: "p = ?R - ?d - ?L" unfolding q(2) align_down by simp
  have s1: "unat (?R - ?d) = unat ?R - unat ?d" using d R4 by (intro unat_sub) (simp add: word_le_nat_alt)
  have "unat ?L \<le> unat (?R - ?d)" using s1 d R4 L len by linarith
  then have up: "unat p = unat ?R - unat ?d - unat len" unfolding p using L s1 by (simp add: unat_sub word_le_nat_alt)
  then show top: "unat p + unat len \<le> unat (region_start e) + unat (region_len e)"
    using R R4 d len by linarith
  let ?X = "(?R - ?E) AND NOT 0x1fffff"
  have "unat (p + ?L) = unat p + unat len"
    using top assms(2) L by (simp add: unat_word_ariths good_region_def)
  moreover have "p + ?L = ?X + ?E" unfolding q(2) by simp
  ultimately have "unat p + unat len = (unat ?X + unat ?E) mod 2 ^ 64" by (simp add: unat_word_ariths)
  moreover have "(2 :: nat) ^ 64 = PAGE_SIZE_2MB * 2 ^ 43" by (simp add: PAGE_SIZE_2MB_def)
  ultimately have "(unat p + unat len) mod PAGE_SIZE_2MB = (unat ?X + unat ?E) mod PAGE_SIZE_2MB"
    by (simp only: mod_mod_cancel dvd_triv_left)
  also have "\<dots> = unat ?E mod PAGE_SIZE_2MB" unfolding unat_align_down by simp
  also have "\<dots> = unat (data + len) mod PAGE_SIZE_2MB" using low_half [of ?E] by (simp add: ucast_scast_u32)
  also have "unat (data + len) = unat data + unat len" using len(1) by (simp add: unat_word_ariths)
  finally have "(unat p + unat len) mod PAGE_SIZE_2MB = (unat data + unat len) mod PAGE_SIZE_2MB" .
  then show "unat p mod PAGE_SIZE_2MB = unat data mod PAGE_SIZE_2MB" by (rule mod_add_cancel_nat)
qed

section \<open>Pages\<close>

definition page_entry :: "u64 \<Rightarrow> u64" where
  "page_entry a = a OR PG_P OR PG_RW OR PG_US OR PG_PS"

lemma page_entry_base: "unat (page_entry a) div PAGE_SIZE_2MB = unat a div PAGE_SIZE_2MB"
proof -
  have "page_entry a = a OR 0x87" by (simp add: page_entry_def PG_P_def PG_RW_def PG_US_def PG_PS_def or.assoc)
  moreover have "drop_bit 21 (a OR 0x87) = drop_bit 21 a"
    unfolding drop_bit_or by simp
  moreover have "unat w div PAGE_SIZE_2MB = unat (drop_bit 21 w)" for w :: u64
    by (simp add: unat_drop_bit_eq drop_bit_nat_def PAGE_SIZE_2MB_def)
  ultimately show ?thesis by simp
qed

text \<open>The entry of a virtual page maps it to the page that starts at an address.\<close>

definition maps_page :: "machine \<Rightarrow> nat \<Rightarrow> nat \<Rightarrow> bool" where
  "maps_page m i a \<longleftrightarrow> i < length (pd m) \<and> unat (pd m ! i) div PAGE_SIZE_2MB * PAGE_SIZE_2MB = a"

lemma translate_page: "maps_page m (v div PAGE_SIZE_2MB) a \<Longrightarrow> translate m v = Some (a + v mod PAGE_SIZE_2MB)"
  by (simp add: maps_page_def translate_def rd_def)

lemma map_page_ok:
  assumes "i < length (pd m)" and "unat a mod PAGE_SIZE_2MB = 0"
  shows "map_page m (i * PAGE_SIZE_2MB) a = Some (m\<lparr>pd := (pd m)[i := page_entry a]\<rparr>)"
  using assms by (simp add: map_page_def wr_def page_entry_def PAGE_SIZE_2MB_def)

lemma maps_page_update:
  assumes "unat a mod PAGE_SIZE_2MB = 0" and "j < length (pd m)"
  shows "maps_page (m\<lparr>pd := (pd m)[j := page_entry a]\<rparr>) i b \<longleftrightarrow>
    (if i = j then b = unat a else maps_page m i b)"
proof -
  have "unat a div PAGE_SIZE_2MB * PAGE_SIZE_2MB = unat a"
    using assms(1) div_mult_mod_eq [of "unat a" PAGE_SIZE_2MB] by simp
  then show ?thesis using assms(2) by (auto simp: maps_page_def page_entry_base)
qed

lemma translate_mem [simp]: "translate (m\<lparr>mem := f\<rparr>) v = translate m v"
  by (simp add: translate_def)

lemma maps_page_mem [simp]: "maps_page (m\<lparr>mem := f\<rparr>) i a = maps_page m i a"
  by (simp add: maps_page_def)

text \<open>Memory with a stretch copied from elsewhere.\<close>

definition moved :: "nat \<Rightarrow> nat \<Rightarrow> nat \<Rightarrow> (nat \<Rightarrow> byte) \<Rightarrow> nat \<Rightarrow> byte" where
  "moved dst src n f = (\<lambda>a. if dst \<le> a \<and> a < dst + n then f (src + (a - dst)) else f a)"

lemma copy_virtual_moved:
  assumes "\<forall>k<n. translate m (dst + k) = Some (d + k)" and "\<forall>k<n. translate m (src + k) = Some (s + k)"
    and "s + n \<le> d"
  shows "copy_virtual m dst src n = Some (m\<lparr>mem := moved d s n (mem m)\<rparr>)"
  using assms
proof (induction n arbitrary: m dst src d s)
  case 0
  have "moved d s 0 (mem m) = mem m" by (auto simp: moved_def fun_eq_iff)
  then show ?case by simp
next
  case (Suc n)
  let ?m = "m\<lparr>mem := (mem m)(d := mem m s)\<rparr>"
  have t: "translate m dst = Some d" "translate m src = Some s"
    using Suc.prems(1,2) by (metis add.right_neutral zero_less_Suc)+
  have "\<forall>k<n. translate ?m (dst + 1 + k) = Some (d + 1 + k)"
      "\<forall>k<n. translate ?m (src + 1 + k) = Some (s + 1 + k)"
    using Suc.prems(1,2) by (auto dest: spec [of _ "Suc _"])
  then have "copy_virtual ?m (dst + 1) (src + 1) n = Some (?m\<lparr>mem := moved (d + 1) (s + 1) n (mem ?m)\<rparr>)"
    using Suc.prems(3) by (intro Suc.IH) simp_all
  moreover have "moved (d + 1) (s + 1) n ((mem m)(d := mem m s)) = moved d s (Suc n) (mem m)"
  proof
    fix a
    show "moved (d + 1) (s + 1) n ((mem m)(d := mem m s)) a = moved d s (Suc n) (mem m) a"
    proof (cases "Suc d \<le> a")
      case True
      then have "s + 1 + (a - (d + 1)) = s + (a - d)" by simp
      then show ?thesis using True Suc.prems(3) by (auto simp: moved_def)
    qed (use Suc.prems(3) in \<open>auto simp: moved_def\<close>)
  qed
  ultimately show ?case using t by simp
qed

section \<open>Moving above 4GB\<close>

definition touches :: "nat \<Rightarrow> nat \<Rightarrow> nat \<Rightarrow> bool" where
  "touches d n i \<longleftrightarrow> i * PAGE_SIZE_2MB < d + n \<and> d < (i + 1) * PAGE_SIZE_2MB"

text \<open>
  The data's pages are mapped to themselves, lie behind the copy window, and the place has the
  data's alignment.
\<close>

definition movable :: "machine \<Rightarrow> nat \<Rightarrow> u64 \<Rightarrow> nat \<Rightarrow> bool" where
  "movable m d p n \<longleftrightarrow>
     length (pd m) = 2048 \<and> 0x400000 \<le> d \<and> d + n < 2 ^ 32 \<and> 2 ^ 32 \<le> unat p \<and> unat p + n < 2 ^ 64 \<and>
     unat p mod PAGE_SIZE_2MB = d mod PAGE_SIZE_2MB \<and>
     (\<forall>i. touches d n i \<longrightarrow> maps_page m i (i * PAGE_SIZE_2MB))"

text \<open>What a move leaves: the bytes at the place, read from the data's addresses; other pages keep.\<close>

definition moved_to :: "machine \<Rightarrow> machine \<Rightarrow> nat \<Rightarrow> u64 \<Rightarrow> nat \<Rightarrow> bool" where
  "moved_to m m' d p n \<longleftrightarrow>
     mem m' = moved (unat p) d n (mem m) \<and> length (pd m') = 2048 \<and>
     (\<forall>i. i \<noteq> 1 \<and> \<not> touches d n i \<longrightarrow> (\<forall>a. maps_page m' i a = maps_page m i a)) \<and>
     (\<forall>k<n. translate m' (d + k) = Some (unat p + k))"

lemma moved_twice:
  assumes "d + a + b \<le> p"
  shows "moved (p + a) (d + a) b (moved p d a f) = moved p d (a + b) f"
  using assms by (auto simp: moved_def fun_eq_iff add.assoc intro!: arg_cong [of _ _ f])

lemma same_page:
  "k < PAGE_SIZE_2MB - d mod PAGE_SIZE_2MB \<Longrightarrow>
     (d + k) div PAGE_SIZE_2MB = d div PAGE_SIZE_2MB \<and>
     (d + k) mod PAGE_SIZE_2MB = d mod PAGE_SIZE_2MB + k"
proof -
  assume k: "k < PAGE_SIZE_2MB - d mod PAGE_SIZE_2MB"
  have "d + k = d div PAGE_SIZE_2MB * PAGE_SIZE_2MB + (d mod PAGE_SIZE_2MB + k)" by simp
  moreover have "d mod PAGE_SIZE_2MB + k < PAGE_SIZE_2MB" using k by linarith
  ultimately show ?thesis by (metis add.commute div_mult_self3 div_less mod_less mod_mult_self3 add_0 PAGE_SIZE_2MB_def zero_neq_numeral)
qed

lemma touches_page: "0 < n \<Longrightarrow> touches d n (d div PAGE_SIZE_2MB)"
proof -
  assume n: "0 < n"
  have "d mod PAGE_SIZE_2MB < PAGE_SIZE_2MB" by (simp add: PAGE_SIZE_2MB_def)
  then show ?thesis
    using n div_mult_mod_eq [of d PAGE_SIZE_2MB] unfolding touches_def add_mult_distrib by linarith
qed

text \<open>The stretch within one page.\<close>

lemma relocate_page:
  assumes mv: "movable m d p n" and n: "0 < n" and k: "k \<le> n" "k \<le> PAGE_SIZE_2MB - d mod PAGE_SIZE_2MB"
  shows "\<exists>m'. (do { m \<leftarrow> map_page m COPY_WINDOW (p AND NOT 0x1fffff);
                m \<leftarrow> copy_virtual m (COPY_WINDOW + d mod PAGE_SIZE_2MB) d k;
                map_page m (d - d mod PAGE_SIZE_2MB) (p AND NOT 0x1fffff) }) = Some m' \<and>
     mem m' = moved (unat p) d k (mem m) \<and> length (pd m') = 2048 \<and>
     (\<forall>i a. i \<noteq> 1 \<and> i \<noteq> d div PAGE_SIZE_2MB \<longrightarrow> maps_page m' i a = maps_page m i a) \<and>
     maps_page m' (d div PAGE_SIZE_2MB) (unat p - d mod PAGE_SIZE_2MB)"
proof -
  let ?a = "p AND NOT 0x1fffff" and ?q = "d div PAGE_SIZE_2MB" and ?o = "d mod PAGE_SIZE_2MB"
  have len: "length (pd m) = 2048" and id: "maps_page m ?q (?q * PAGE_SIZE_2MB)"
    using mv touches_page [OF n] by (auto simp: movable_def)
  have po: "unat p mod PAGE_SIZE_2MB = ?o" using mv by (simp add: movable_def)
  have a: "unat ?a mod PAGE_SIZE_2MB = 0" "unat ?a = unat p - ?o"
    unfolding unat_align_down using po minus_mod_eq_div_mult [of "unat p" PAGE_SIZE_2MB] by simp_all
  have q: "?q < 2048" "?q \<noteq> 1" using mv by (auto simp: movable_def PAGE_SIZE_2MB_def)
  let ?m1 = "m\<lparr>pd := (pd m)[1 := page_entry ?a]\<rparr>"
  have w: "COPY_WINDOW = 1 * PAGE_SIZE_2MB" by (simp add: COPY_WINDOW_def PAGE_SIZE_2MB_def)
  have pos: "PAGE_SIZE_2MB \<noteq> 0" by (simp add: PAGE_SIZE_2MB_def)
  have 1: "map_page m COPY_WINDOW ?a = Some ?m1"
    unfolding w by (rule map_page_ok) (use len a in simp_all)
  have "translate ?m1 (COPY_WINDOW + ?o + j) = Some (unat p + j)" if "j < k" for j
  proof -
    have j: "?o + j < PAGE_SIZE_2MB" using that k by linarith
    have "(COPY_WINDOW + ?o + j) div PAGE_SIZE_2MB = 1"
      unfolding w mult_1 add.assoc div_add_self1 [OF pos] using j by simp
    moreover have "(COPY_WINDOW + ?o + j) mod PAGE_SIZE_2MB = ?o + j"
      unfolding w mult_1 add.assoc mod_add_self1 using j by simp
    moreover have "maps_page ?m1 1 (unat ?a)" using maps_page_update [of ?a 1 m 1] a len by simp
    moreover have "?o \<le> unat p" using po by (metis mod_less_eq_dividend)
    ultimately show ?thesis using translate_page [of ?m1 "COPY_WINDOW + ?o + j" "unat ?a"] a(2) by simp
  qed
  moreover have "translate ?m1 (d + j) = Some (d + j)" if "j < k" for j
  proof -
    have j: "j < PAGE_SIZE_2MB - ?o" using that k by linarith
    have "maps_page ?m1 ?q (?q * PAGE_SIZE_2MB)" using maps_page_update [of ?a 1 m ?q] a len id q by simp
    then show ?thesis
      using translate_page [of ?m1 "d + j" "?q * PAGE_SIZE_2MB"] same_page [OF j] div_mult_mod_eq [of d PAGE_SIZE_2MB]
      by simp
  qed
  moreover have "d + k \<le> unat p" using mv k(1) by (simp add: movable_def)
  ultimately have 2: "copy_virtual ?m1 (COPY_WINDOW + ?o) d k = Some (?m1\<lparr>mem := moved (unat p) d k (mem ?m1)\<rparr>)"
    by (intro copy_virtual_moved) simp_all
  let ?m2 = "?m1\<lparr>mem := moved (unat p) d k (mem ?m1)\<rparr>"
  let ?m3 = "?m2\<lparr>pd := (pd ?m2)[?q := page_entry ?a]\<rparr>"
  have "d - ?o = ?q * PAGE_SIZE_2MB" by (simp add: minus_mod_eq_div_mult)
  then have 3: "map_page ?m2 (d - ?o) ?a = Some ?m3"
    by (simp only:) (rule map_page_ok, use len a q in simp_all)
  have "maps_page ?m3 ?q (unat ?a)" using maps_page_update [of ?a ?q ?m2 ?q] a len q by simp
  moreover have "maps_page ?m3 i b = maps_page m i b" if "i \<noteq> 1" "i \<noteq> ?q" for i b
    using maps_page_update [of ?a ?q ?m2 i b] maps_page_update [of ?a 1 m i b] a len q that by simp
  ultimately show ?thesis using 1 2 3 len a(2) by simp
qed

text \<open>The rest of the data behind the first stretch is movable again.\<close>

lemma touches_rest:
  assumes "k = PAGE_SIZE_2MB - d mod PAGE_SIZE_2MB" and "k < n"
  shows "touches (d + k) (n - k) i \<longleftrightarrow> touches d n i \<and> i \<noteq> d div PAGE_SIZE_2MB"
proof -
  let ?q = "d div PAGE_SIZE_2MB"
  have m: "d mod PAGE_SIZE_2MB < PAGE_SIZE_2MB" by (simp add: PAGE_SIZE_2MB_def)
  have dk: "d + k = (?q + 1) * PAGE_SIZE_2MB"
    using assms(1) m div_mult_mod_eq [of d PAGE_SIZE_2MB] unfolding add_mult_distrib by linarith
  have d: "?q * PAGE_SIZE_2MB \<le> d" by (rule div_times_less_eq_dividend)
  have n: "d + k + (n - k) = d + n" using assms(2) by simp
  consider "i < ?q" | "i = ?q" | "?q + 1 \<le> i" by linarith
  then show ?thesis
  proof cases
    case 1
    then have "(i + 1) * PAGE_SIZE_2MB \<le> ?q * PAGE_SIZE_2MB" by (intro mult_le_mono1) simp
    then show ?thesis using d unfolding touches_def by linarith
  next
    case 2
    then show ?thesis using dk unfolding touches_def by simp
  next
    case 3
    then have "(?q + 1) * PAGE_SIZE_2MB \<le> i * PAGE_SIZE_2MB" by (rule mult_le_mono1)
    then have "d + k < (i + 1) * PAGE_SIZE_2MB" "d < (i + 1) * PAGE_SIZE_2MB"
      using dk m by (simp_all add: PAGE_SIZE_2MB_def)
    then show ?thesis using 3 n unfolding touches_def by simp
  qed
qed

lemma relocate_pages_moved:
  assumes "movable m (unat d) p n"
  shows "\<exists>m'. relocate_pages m d p n = Some m' \<and> moved_to m m' (unat d) p n"
  using assms
proof (induction n arbitrary: m d p rule: less_induct)
  case (less n)
  show ?case
  proof (cases "n = 0")
    case True
    have "moved (unat p) (unat d) 0 (mem m) = mem m" by (auto simp: moved_def fun_eq_iff)
    then show ?thesis using True less.prems by (simp add: relocate_pages.simps moved_to_def movable_def)
  next
    case False
    let ?d = "unat d" and ?q = "unat d div PAGE_SIZE_2MB" and ?o = "unat d mod PAGE_SIZE_2MB"
    obtain k where kd: "k = (if PAGE_SIZE_2MB - ?o > n then n else PAGE_SIZE_2MB - ?o)" by blast
    have m: "?o < PAGE_SIZE_2MB" by (simp add: PAGE_SIZE_2MB_def)
    have k: "0 < k" "k \<le> n" "k \<le> PAGE_SIZE_2MB - ?o" using False m kd by auto
    let ?block = "do { m \<leftarrow> map_page m COPY_WINDOW (p AND NOT 0x1fffff);
                m \<leftarrow> copy_virtual m (COPY_WINDOW + ?o) ?d k;
                map_page m (?d - ?o) (p AND NOT 0x1fffff) }"
    obtain m1 where m1: "?block = Some m1" "mem m1 = moved (unat p) ?d k (mem m)" "length (pd m1) = 2048"
       "\<And>i a. i \<noteq> 1 \<Longrightarrow> i \<noteq> ?q \<Longrightarrow> maps_page m1 i a = maps_page m i a"
       "maps_page m1 ?q (unat p - ?o)"
      using relocate_page [OF less.prems _ k(2,3)] False by blast
    let ?d1 = "d + of_nat k" and ?p1 = "p + of_nat k"
    have "relocate_pages m d p n = ?block \<bind> (\<lambda>m. relocate_pages m ?d1 ?p1 (n - k))"
      unfolding relocate_pages.simps [of m d p n] Let_def kd [symmetric] if_not_P [OF False] bind_assoc ..
    then have run: "relocate_pages m d p n = relocate_pages m1 ?d1 ?p1 (n - k)"
      unfolding m1(1) by simp
    have q: "touches ?d n ?q" using touches_page [of n ?d] False by simp
    have o: "?o \<le> unat p" using less.prems by (metis movable_def mod_less_eq_dividend)
    have first: "translate m' (?d + j) = Some (unat p + j)"
      if "j < k" "maps_page m' ?q (unat p - ?o)" for j m'
    proof -
      have j: "j < PAGE_SIZE_2MB - ?o" using that k(3) by linarith
      show ?thesis
        using translate_page [of m' "?d + j" "unat p - ?o"] same_page [OF j] that(2) o by simp
    qed
    show ?thesis
    proof (cases "n = k")
      case True
      have "\<forall>i. i \<noteq> 1 \<and> \<not> touches ?d n i \<longrightarrow> (\<forall>a. maps_page m1 i a = maps_page m i a)" using m1(4) q by blast
      moreover have "\<forall>j<n. translate m1 (?d + j) = Some (unat p + j)" using first [OF _ m1(5)] True by blast
      ultimately have "moved_to m m1 ?d p n" using m1(2,3) True by (simp add: moved_to_def)
      then show ?thesis using run True by (simp add: relocate_pages.simps)
    next
      case more: False
      then have kk: "k = PAGE_SIZE_2MB - ?o" "k < n" using k kd by (auto split: if_splits)
      note mv = less.prems [unfolded movable_def]
      have far: "?d + n < 4294967296" "4294967296 \<le> unat p" using mv by simp_all
      have d1: "unat ?d1 = ?d + k" using far(1) kk(2) by (simp add: unat_word_ariths unat_of_nat)
      have p1: "unat ?p1 = unat p + k"
        using mv kk(2) far(1) by (simp add: unat_word_ariths unat_of_nat)
      have "unat ?p1 mod PAGE_SIZE_2MB = (?d + k) mod PAGE_SIZE_2MB"
        unfolding p1 by (rule mod_add_cong) (use mv in simp_all)
      moreover have "maps_page m1 i (i * PAGE_SIZE_2MB)" if "touches (?d + k) (n - k) i" for i
      proof -
        have i: "touches ?d n i" "i \<noteq> ?q" using that touches_rest [OF kk] by simp_all
        moreover have "i \<noteq> 1" using i(1) mv by (auto simp: touches_def PAGE_SIZE_2MB_def)
        ultimately show ?thesis using m1(4) mv by blast
      qed
      ultimately have "movable m1 (unat ?d1) ?p1 (n - k)"
        using mv m1(3) kk(2) unfolding movable_def d1 p1 by simp
      then obtain m' where m': "relocate_pages m1 ?d1 ?p1 (n - k) = Some m'" "moved_to m1 m' (?d + k) ?p1 (n - k)"
        using less.IH [of "n - k" m1 ?d1 ?p1] k kk(2) d1 by auto
      note mt = m'(2) [unfolded moved_to_def p1]
      have "mem m' = moved (unat p) ?d n (mem m)"
        using mt m1(2) moved_twice [of ?d k "n - k" "unat p" "mem m"] kk(2) far by simp
      moreover have "\<forall>i. i \<noteq> 1 \<and> \<not> touches ?d n i \<longrightarrow> (\<forall>a. maps_page m' i a = maps_page m i a)"
        using mt m1(4) touches_rest [OF kk] q by blast
      moreover have "translate m' (?d + j) = Some (unat p + j)" if "j < n" for j
      proof (cases "j < k")
        case True
        have "?q \<noteq> 1" using mv by (auto simp: PAGE_SIZE_2MB_def)
        then have "maps_page m' ?q (unat p - ?o)" using mt m1(5) touches_rest [OF kk] by blast
        then show ?thesis using first True by blast
      next
        case False
        have tr: "\<forall>i<n - k. translate m' (?d + k + i) = Some (unat p + k + i)" using mt by blast
        have "j - k < n - k" using that False by linarith
        then show ?thesis using tr [rule_format, of "j - k"] False by simp
      qed
      ultimately have "moved_to m m' ?d p n" using mt by (simp add: moved_to_def)
      then show ?thesis using run m'(1) by simp
    qed
  qed
qed

section \<open>The regions that are tried\<close>

lemma iterate_no_fault:
  assumes "\<And>s. \<exists>r. f s = Some r"
  shows "\<exists>r. iterate n f s = Some r"
proof (induction n arbitrary: s)
  case (Suc n)
  obtain r where "f s = Some r" using assms by blast
  then show ?case using Suc by (cases r) auto
qed simp

lemma memmap_pass_some: "\<exists>r. memmap_pass bios s = Some r"
  by (cases s) (simp add: memmap_pass_def Let_def)

lemma memmap_next_some: "\<exists>r. memmap_next fuel bios prev s = Some r"
  using iterate_no_fault [OF memmap_pass_some] by (cases s) (simp add: memmap_next_def)

lemma memmap_next_usable:
  assumes "memmap_next fuel bios prev s = Some (Inr (s', True))"
  shows "\<exists>ebx buf. usable (bios ebx buf) \<and> fst s' = reply_buf (bios ebx buf)"
proof -
  obtain t where t: "iterate fuel (memmap_pass bios) t = Some (Inr (s', True))"
    using assms by (cases s) (auto simp: memmap_next_def split: if_splits)
  obtain u where "memmap_pass bios u = Some (Inr (s', True))"
    using iterate_result [OF _ _ t, of "\<lambda>_. True"] by auto
  then show ?thesis
    by (cases u) (force simp: memmap_pass_def Let_def split: if_splits)
qed

lemma region_pass_some: "\<exists>r. region_pass fuel bios place x = Some r"
proof -
  obtain prev s where x: "x = (prev, s)" by (cases x)
  obtain r where "memmap_next fuel bios prev s = Some r" using memmap_next_some by blast
  then show ?thesis using x by (auto simp: region_pass_def split: sum.splits prod.splits option.splits)
qed

lemma region_found:
  assumes "iterate fuel (region_pass fuel bios place) x = Some (Inr (At p))"
  shows "\<exists>ebx buf. usable (bios ebx buf) \<and> place (reply_buf (bios ebx buf)) = Some p"
proof -
  obtain prev s where ps: "region_pass fuel bios place (prev, s) = Some (Inr (At p))"
    using iterate_result [OF _ _ assms, of "\<lambda>_. True"] by auto
  obtain r where r: "memmap_next fuel bios prev s = Some r" using memmap_next_some by blast
  then obtain s' where s': "r = Inr (s', True)" "place (fst s') = Some p"
    using ps by (cases r) (auto simp: region_pass_def split: if_splits option.splits)
  show ?thesis using memmap_next_usable [OF r [unfolded s'(1)]] s'(2) by metis
qed

section \<open>Properties of the moves\<close>

definition read_virtual :: "machine \<Rightarrow> nat \<Rightarrow> byte option" where
  "read_virtual m v = map_option (mem m) (translate m v)"

definition identity :: "machine \<Rightarrow> bool" where
  "identity m \<longleftrightarrow> length (pd m) = 2048 \<and> (\<forall>i<2048. maps_page m i (i * PAGE_SIZE_2MB))"

text \<open>The data as they are after the move: all their virtual addresses read what they read before.\<close>

definition moved_high :: "e820_bios \<Rightarrow> machine \<Rightarrow> machine \<Rightarrow> u32 \<Rightarrow> u32 \<Rightarrow> u64 \<Rightarrow> bool" where
  "moved_high bios m m' data len start \<longleftrightarrow>
     (\<forall>k<unat len. read_virtual m' (unat data + k) = read_virtual m (unat data + k) \<and>
        mem m' (unat start + k) = mem m (unat data + k)) \<and>
     (\<forall>a. a < unat start \<or> unat start + unat len \<le> a \<longrightarrow> mem m' a = mem m a) \<and>
     (\<forall>i<2048. \<not> touches (unat data) (unat len) i \<longrightarrow> maps_page m' i (i * PAGE_SIZE_2MB)) \<and>
     2 ^ 32 \<le> unat start \<and>
     (\<exists>ebx buf. let r = bios ebx buf; e = reply_buf r in usable r \<and>
        unat (region_start e) \<le> unat start \<and>
        unat start + unat len \<le> unat (region_start e) + unat (region_len e))"

lemma identity_translate: "identity m \<Longrightarrow> v < 2 ^ 32 \<Longrightarrow> translate m v = Some v"
proof -
  assume i: "identity m" and v: "v < 2 ^ 32"
  have "v div PAGE_SIZE_2MB < 2048" using v by (simp add: PAGE_SIZE_2MB_def)
  then have "maps_page m (v div PAGE_SIZE_2MB) (v div PAGE_SIZE_2MB * PAGE_SIZE_2MB)" using i by (simp add: identity_def)
  from translate_page [OF this] show ?thesis by simp
qed

lemma identity_movable:
  assumes "identity m" and "fits_32 data len" and "place_high e data len = Some p" and "good_region e"
  shows "movable m (unat data) p (unat len)"
proof -
  have b: "4194304 \<le> unat data" "unat data + unat len < 4294967296" using assms(2) by (simp_all add: fits_32_def)
  note pl = place_high_ok [OF assms(3,4,2)]
  have "unat p + unat len < 2 ^ 64" using pl(2) assms(4) unfolding good_region_def by linarith
  moreover have "maps_page m i (i * PAGE_SIZE_2MB)" if "touches (unat data) (unat len) i" for i
  proof -
    have "i * PAGE_SIZE_2MB < 4294967296" using that b unfolding touches_def by linarith
    then have "i < 2048" by (simp add: PAGE_SIZE_2MB_def)
    then show ?thesis using assms(1) by (simp add: identity_def)
  qed
  ultimately show ?thesis using pl b assms(1) by (simp add: movable_def identity_def)
qed

lemma relocate_pages_high:
  assumes "identity m" and "fits_32 data len" and "usable r" and "r = bios ebx buf"
    and "place_high (reply_buf r) data len = Some p" and "good_region (reply_buf r)"
  shows "\<exists>m' m''. relocate_pages m data p (unat len) = Some m' \<and>
    map_page m' COPY_WINDOW (of_nat COPY_WINDOW) = Some m'' \<and> moved_high bios m m'' data len p"
proof -
  have b: "4194304 \<le> unat data" "unat data + unat len < 4294967296" using assms(2) by (simp_all add: fits_32_def)
  note pl = place_high_ok [OF assms(5,6,2)]
  obtain m' where m': "relocate_pages m data p (unat len) = Some m'" "moved_to m m' (unat data) p (unat len)"
    using relocate_pages_moved identity_movable [OF assms(1,2,5,6)] by blast
  note mt = m'(2) [unfolded moved_to_def]
  let ?w = "of_nat COPY_WINDOW :: u64"
  have w: "unat ?w = 1 * PAGE_SIZE_2MB" "COPY_WINDOW = 1 * PAGE_SIZE_2MB" by (simp_all add: COPY_WINDOW_def PAGE_SIZE_2MB_def)
  let ?m = "m'\<lparr>pd := (pd m')[1 := page_entry ?w]\<rparr>"
  have map: "map_page m' COPY_WINDOW ?w = Some ?m"
    using map_page_ok [of 1 m' ?w] mt w by simp
  have upd: "maps_page ?m i a \<longleftrightarrow> (if i = 1 then a = PAGE_SIZE_2MB else maps_page m' i a)" for i a
    using maps_page_update [of ?w 1 m' i a] mt w(1) by simp
  have mem: "mem ?m = moved (unat p) (unat data) (unat len) (mem m)" using mt by simp
  have tr: "translate ?m (unat data + k) = translate m' (unat data + k)" for k
  proof -
    have "(unat data + k) div PAGE_SIZE_2MB \<noteq> 1" using b by (simp add: PAGE_SIZE_2MB_def)
    then show ?thesis by (simp add: translate_def rd_def)
  qed
  have "mem ?m (unat p + k) = mem m (unat data + k)" if "k < unat len" for k
    using that unfolding mem moved_def by simp
  moreover have "read_virtual ?m (unat data + k) = read_virtual m (unat data + k)" if "k < unat len" for k
  proof -
    have "translate m' (unat data + k) = Some (unat p + k)" using mt that by blast
    moreover have "translate m (unat data + k) = Some (unat data + k)"
      using identity_translate [OF assms(1)] b(2) that by simp
    moreover have "mem ?m (unat p + k) = mem m (unat data + k)" using that unfolding mem moved_def by simp
    ultimately show ?thesis using tr unfolding read_virtual_def by (simp only: option.map)
  qed
  moreover have "mem ?m a = mem m a" if "a < unat p \<or> unat p + unat len \<le> a" for a
    using that unfolding mem moved_def by auto
  moreover have "maps_page ?m i (i * PAGE_SIZE_2MB)" if "i < 2048" "\<not> touches (unat data) (unat len) i" for i
    using upd mt assms(1) that by (cases "i = 1") (simp_all add: identity_def)
  ultimately have "moved_high bios m ?m data len p"
    unfolding moved_high_def Let_def using pl(1-3) assms(3,4) by blast
  then show ?thesis using m'(1) map by blast
qed

lemma relocate_high_moves:
  assumes "identity m" and "fits_32 data len" and "\<forall>ebx buf. good_region (reply_buf (bios ebx buf))"
  shows "\<exists>r. relocate_memory_high fuel bios s m data len = Some r \<and>
    (case r of Inl _ \<Rightarrow> True
     | Inr (start, m') \<Rightarrow> m' = m \<and> start = scast data \<or> moved_high bios m m' data len start)"
proof (cases "paging m")
  case True
  obtain r where r: "iterate fuel (region_pass fuel bios (\<lambda>e. place_high e data len)) (False, s) = Some r"
    using iterate_no_fault [of "region_pass fuel bios (\<lambda>e. place_high e data len)" fuel "(False, s)"]
      region_pass_some by blast
  show ?thesis
  proof (cases "\<exists>p. r = Inr (At p)")
    case True
    then obtain p where p: "r = Inr (At p)" by blast
    obtain ebx buf where e: "usable (bios ebx buf)" "place_high (reply_buf (bios ebx buf)) data len = Some p"
      using region_found [OF r [unfolded p]] by blast
    then show ?thesis
      using relocate_pages_high [of m data len "bios ebx buf" bios ebx buf p] assms e r p \<open>paging m\<close>
      by (auto simp: relocate_memory_high_def)
  next
    case False
    then show ?thesis using r \<open>paging m\<close>
      by (cases r) (auto simp: relocate_memory_high_def split: placement.splits)
  qed
qed (simp add: relocate_memory_high_def)

text \<open>C27:
  Moving the initrd above 4GB never faults, whatever regions the firmware reports, and when it
  comes to its end either nothing has changed or the data were moved into a usable region above
  4GB: every virtual address of the data reads the byte it read before, the copy lies at the
  physical place that is returned, inside the region, and all other memory, and the mapping of all
  other pages, the copy window's included, is as before.
\<close>

theorem relocate_memory_high_moves:
  assumes "identity m" and "fits_32 data len" and "\<forall>ebx buf. good_region (reply_buf (bios ebx buf))"
  shows "\<exists>r. relocate_memory_high fuel bios s m data len = Some r \<and>
    (case r of Inl _ \<Rightarrow> True
     | Inr (start, m') \<Rightarrow> m' = m \<and> start = scast data \<or> moved_high bios m m' data len start)"
  using assms by (rule relocate_high_moves)

text \<open>The tables that \<^verbatim>\<open>init_paging\<close> sets up map every page to itself.\<close>

lemma map_pages_identity:
  assumes "length (pd m) = 2048" and "\<forall>i\<in>set is. i < 2048" and "distinct is"
  shows "\<exists>m'. map_pages m (map (\<lambda>i. i * PAGE_SIZE_2MB) is) = Some m' \<and> length (pd m') = 2048 \<and>
    (\<forall>i<2048. \<forall>a. maps_page m' i a \<longleftrightarrow> (if i \<in> set is then a = i * PAGE_SIZE_2MB else maps_page m i a)) \<and>
    m' = m\<lparr>pd := pd m'\<rparr>"
  using assms
proof (induction "is" arbitrary: m)
  case (Cons j "is")
  let ?a = "of_nat (j * PAGE_SIZE_2MB) :: u64"
  have j: "j < 2048" using Cons.prems by simp
  have "j * PAGE_SIZE_2MB < 2 ^ 64" using j by (simp add: PAGE_SIZE_2MB_def)
  then have a: "unat ?a = j * PAGE_SIZE_2MB" using unat_of_nat_small [where ?'a = 64, of "j * PAGE_SIZE_2MB"] by simp
  let ?m = "m\<lparr>pd := (pd m)[j := page_entry ?a]\<rparr>"
  have 1: "map_page m (j * PAGE_SIZE_2MB) ?a = Some ?m"
    using map_page_ok [of j m ?a] j Cons.prems(1) a by simp
  obtain m' where m': "map_pages ?m (map (\<lambda>i. i * PAGE_SIZE_2MB) is) = Some m'" "length (pd m') = 2048"
    "\<forall>i<2048. \<forall>a. maps_page m' i a \<longleftrightarrow> (if i \<in> set is then a = i * PAGE_SIZE_2MB else maps_page ?m i a)"
    "m' = ?m\<lparr>pd := pd m'\<rparr>"
    using Cons.IH [of ?m] Cons.prems by auto
  have "maps_page ?m i b \<longleftrightarrow> (if i = j then b = j * PAGE_SIZE_2MB else maps_page m i b)" for i b
    using maps_page_update [of ?a j m i b] a j Cons.prems(1) by simp
  then show ?case using 1 m' by auto
qed simp

lemma init_paging_identity:
  assumes "length (pd m) = 2048"
  shows "\<exists>m'. init_paging True addr m = Some m' \<and> identity m' \<and> paging m' \<and> mem m' = mem m"
proof -
  have n: "(2 :: nat) ^ 32 div PAGE_SIZE_2MB = 2048" by (simp add: PAGE_SIZE_2MB_def)
  obtain js where js: "js = [0..<2 ^ 32 div PAGE_SIZE_2MB]" by blast
  have "distinct js" "set js = {0..<2048}" by (simp_all only: js n distinct_upt set_upt)
  then obtain m' where m': "map_pages m (map (\<lambda>i. i * PAGE_SIZE_2MB) js) = Some m'" "length (pd m') = 2048"
    "\<forall>i<2048. \<forall>a. maps_page m' i a \<longleftrightarrow> a = i * PAGE_SIZE_2MB" "m' = m\<lparr>pd := pd m'\<rparr>"
    using map_pages_identity [OF assms, of js] by auto
  let ?m = "m'\<lparr>pdpt := map (\<lambda>i. of_nat (addr + i * PAGE_SIZE) OR PG_P) [0..<4], paging := True\<rparr>"
  have "maps_page ?m i a = maps_page m' i a" for i a unfolding maps_page_def by simp
  then have "identity ?m" using m'(2,3) by (simp add: identity_def)
  moreover have "mem ?m = mem m" using arg_cong [OF m'(4), of mem] by simp
  ultimately show ?thesis using m'(1) unfolding init_paging_def js [symmetric] by simp
qed

definition small_bios :: e820_bios where
  "small_bios ebx buf =
     (if ebx = 0 then \<lparr>reply_carry = False, reply_eax = E820_SMAP, reply_ebx = 1, reply_ecx = 20,
         reply_buf = \<lparr>region_start = 0, region_len = 0x9fc00, region_type = 1, region_attrs = 0\<rparr>\<rparr>
      else \<lparr>reply_carry = False, reply_eax = E820_SMAP, reply_ebx = 0, reply_ecx = 20,
         reply_buf = \<lparr>region_start = 0x100000000, region_len = 0x40000000, region_type = 1, region_attrs = 0\<rparr>\<rparr>)"

definition bare_machine :: machine where
  "bare_machine = \<lparr>paging = False, pdpt = replicate 4 0, pd = replicate 2048 0,
     cpu = \<lparr>cr0 = 0x11, cr3 = 0, cr4 = 0\<rparr>, mem = (\<lambda>a. of_nat a)\<rparr>"

theorem relocate_memory_high_moves_witness:
  "\<exists>m m'. init_paging True 0x30000 bare_machine = Some m \<and>
     relocate_memory_high 5 small_bios (empty_entry, 0) m 0x7fe01000 0x1fe000 =
       Some (Inr (0x13fe01000, m')) \<and>
     moved_high small_bios m m' 0x7fe01000 0x1fe000 0x13fe01000"
proof -
  obtain m where m: "init_paging True 0x30000 bare_machine = Some m" "identity m" "paging m"
    using init_paging_identity [of bare_machine] by (auto simp: bare_machine_def)
  have g: "\<forall>ebx buf. good_region (reply_buf (small_bios ebx buf))"
    by (simp add: small_bios_def good_region_def)
  have f: "fits_32 0x7fe01000 0x1fe000" by (simp add: fits_32_def)
  have pl: "place_high \<lparr>region_start = 0, region_len = 0x9fc00, region_type = 1, region_attrs = 0\<rparr> 0x7fe01000 0x1fe000 = None"
      "place_high \<lparr>region_start = 0x100000000, region_len = 0x40000000, region_type = 1, region_attrs = 0\<rparr>
         0x7fe01000 0x1fe000 = Some 0x13fe01000"
    by code_simp+
  have it: "iterate 5 (region_pass 5 small_bios (\<lambda>e. place_high e 0x7fe01000 0x1fe000)) (False, empty_entry, 0) =
      Some (Inr (At 0x13fe01000))"
    by (simp add: eval_nat_numeral region_pass_def memmap_next_def memmap_pass_def small_bios_def Let_def
        usable_def E820_TYPE_RAM_def pl)
  obtain r where r: "relocate_memory_high 5 small_bios (empty_entry, 0) m 0x7fe01000 0x1fe000 = Some r"
     "case r of Inl _ \<Rightarrow> True
     | Inr (start, m') \<Rightarrow> m' = m \<and> start = scast (0x7fe01000 :: u32) \<or> moved_high small_bios m m' 0x7fe01000 0x1fe000 start"
    using relocate_memory_high_moves [OF m(2) f g] by blast
  then obtain m' where "r = Inr (0x13fe01000, m')"
    using it m(3) by (auto simp: relocate_memory_high_def bind_eq_Some_conv)
  then show ?thesis using r m(1) by auto
qed

section \<open>Moving below 2GB\<close>

lemma nonneg_u32:
  assumes "unat (w :: u32) \<le> 0x80000000" and "0 \<le> sint w"
  shows "sint w = int (unat w)" and "unat (scast w :: u64) = unat w"
proof -
  have "unat w \<noteq> 0x80000000"
  proof
    assume "unat w = 0x80000000"
    then have "w = 0x80000000" by (simp add: word_eq_iff_unsigned [where ?'a = nat])
    then show False using assms(2) by simp
  qed
  moreover have n: "uint w = int (unat w)" by (rule uint_nat)
  ultimately have "uint w < 2147483648" using assms(1) by linarith
  moreover have "- 2147483648 \<le> uint w" using uint_nonnegative [of w] by linarith
  ultimately have "sint w = uint w" by (simp add: sint_uint signed_take_bit_int_eq_self)
  then show u: "sint w = int (unat w)" using n by (rule trans)
  have "(scast w :: u64) = of_int (sint w)" by (rule scast_eq)
  then have "(scast w :: u64) = of_nat (unat w)" unfolding u by simp
  then show "unat (scast w :: u64) = unat w" using unat_of_nat_small [where ?'a = 64, of "unat w"] assms(1) by simp
qed

lemma place_low_bounds:
  assumes "place_low e len = Some start" and "good_region e"
  shows "0x100000 \<le> unat start \<and> unat start + unat len \<le> 0x80000000 \<and> unat start mod PAGE_SIZE = 0 \<and>
    unat (region_start e) \<le> unat start \<and>
    unat start + unat len \<le> unat (region_start e) + unat (region_len e)"
proof -
  let ?stop = "region_start e + region_len e"
  let ?top = "ucast (if ?stop > ADDR_2GB then ADDR_2GB else ?stop) :: u32"
  have q: "\<not> ?top < len" "start = (?top - len) AND NOT 0xfff" "\<not> (scast start :: u64) < region_start e"
      "\<not> sint start < ADDR_1MB"
    using assms(1) by (auto simp: place_low_def Let_def split: if_splits)
  have R: "unat ?stop = unat (region_start e) + unat (region_len e)"
    using assms(2) by (simp add: good_region_def unat_word_ariths)
  have top: "unat ?top \<le> 0x80000000" "unat ?top \<le> unat ?stop"
    by (auto simp: ADDR_2GB_def word_less_nat_alt unsigned_ucast_eq take_bit_nat_eq_self)
  have m: "(0xfff :: u32) = mask 12" by (simp add: mask_eq_exp_minus_1)
  have "unat start = unat (?top - len) div 2 ^ 12 * 2 ^ 12" unfolding q(2) m by (rule unat_and_not_mask)
  moreover have "unat (?top - len) = unat ?top - unat len" "unat len \<le> unat ?top"
    using q(1) by (simp_all add: unat_sub word_le_nat_alt word_less_nat_alt)
  ultimately have s: "unat start = (unat ?top - unat len) div 4096 * 4096" by simp
  then have sl: "unat start + unat len \<le> unat ?top"
    using \<open>unat len \<le> unat ?top\<close> div_times_less_eq_dividend [of "unat ?top - unat len" 4096] by linarith
  have pos: "0x100000 \<le> sint start" using q(4) by (simp add: ADDR_1MB_def)
  have le: "unat start \<le> 0x80000000" using sl top(1) by linarith
  have "0 \<le> sint start" using pos by linarith
  note u = nonneg_u32 [OF le this]
  have "unat (region_start e) \<le> unat start" using q(3) u(2) unfolding word_less_nat_alt by linarith
  moreover have "0x100000 \<le> unat start" using pos u(1) by linarith
  moreover have "unat start mod PAGE_SIZE = 0" unfolding s PAGE_SIZE_def by simp
  ultimately show ?thesis using sl top R by linarith
qed

text \<open>C28:
  A place below 2GB starts on a page boundary at or above 1MB, and the data end inside the region
  and at or below 2GB.
\<close>

theorem place_low_within:
  assumes "place_low e len = Some start" and "good_region e"
  shows "0x100000 \<le> unat start \<and> unat start + unat len \<le> 0x80000000 \<and> unat start mod PAGE_SIZE = 0 \<and>
    unat (region_start e) \<le> unat start \<and>
    unat start + unat len \<le> unat (region_start e) + unat (region_len e)"
  using assms by (rule place_low_bounds)

theorem place_low_within_witness:
  "place_low \<lparr>region_start = 0x100000, region_len = 0xbff00000, region_type = 1, region_attrs = 0\<rparr> 0x123456 =
     Some 0x7fedc000 \<and> unat (0x7fedc000 :: u32) mod PAGE_SIZE = 0"
proof -
  let ?e = "\<lparr>region_start = 0x100000, region_len = 0xbff00000, region_type = 1, region_attrs = 0\<rparr>"
  have "place_low ?e 0x123456 = Some 0x7fedc000" by code_simp
  moreover have "good_region ?e" by (simp add: good_region_def)
  ultimately show ?thesis using place_low_within [of ?e "0x123456" "0x7fedc000"] by blast
qed

end
