(* ===== verification/Biosdisk.thy ===== *)
theory Biosdisk
  imports PartitionSafe
begin

text \<open>
  Reading the BIOS's disks (\<^verbatim>\<open>disk/biosdisk.c\<close>): INT 13 calls by cylinder, head and sector and by
  the extensions, with the fall-back from the one to the other, the drive's geometry, and the walk
  over the drives.
\<close>

section \<open>Division\<close>

text \<open>One round of \<^verbatim>\<open>divmod64\<close>: the state is the quotient, the remainder and the dividend.\<close>

definition divmod_step :: "u64 \<Rightarrow> u64 \<times> u64 \<times> u64 \<Rightarrow> u64 \<times> u64 \<times> u64" where
  "divmod_step d = (\<lambda>(q, m, n).
     let m = push_bit 1 m;
         m = (if bit n 63 then m OR 1 else m);
         q = push_bit 1 q;
         n = push_bit 1 n
     in if m \<ge> d then (q OR 1, m - d, n) else (q, m, n))"

definition divmod64 :: "u64 \<Rightarrow> u64 \<Rightarrow> u64 \<times> u64" where
  "divmod64 n d = (let (q, m, _) = (divmod_step d ^^ 64) (0, 0, n) in (q, m))"

section \<open>INT 13\<close>

text \<open>
  The firmware is a parameter: a function of the registers and of a state that delivers both.
  The part of its state the program shares is the scratch memory from 0x30000 on; the rest is
  hidden. Registers the program does not set hold no particular value; here they are zero.
\<close>

record regs =
  interrupt :: u32
  eax :: u32
  ebx :: u32
  ecx :: u32
  edx :: u32
  esi :: u32
  edi :: u32
  ds :: u32
  es :: u32
  carry :: bool

record 'w firmware =
  scratch :: bytes
  hidden :: 'w

type_synonym 'w int13 = "regs \<Rightarrow> 'w firmware \<Rightarrow> regs \<times> 'w firmware"

definition no_regs :: regs where
  "no_regs = \<lparr>interrupt = 0, eax = 0, ebx = 0, ecx = 0, edx = 0, esi = 0, edi = 0, ds = 0, es = 0, carry = False\<rparr>"

definition SCRATCH_ADDR :: u32 where "SCRATCH_ADDR = 0x30000"
definition SCRATCH_SEG :: u32 where "SCRATCH_SEG = 0x3000"

definition call_int13h :: "'w int13 \<Rightarrow> regs \<Rightarrow> 'w firmware \<Rightarrow> regs \<times> 'w firmware" where
  "call_int13h int13 r fw = int13 (r\<lparr>carry := False, interrupt := 0x13\<rparr>) fw"

definition biosdisk_rw_int13_ext :: "'w int13 \<Rightarrow> u32 \<Rightarrow> u32 \<Rightarrow> u32 \<Rightarrow> 'w firmware \<Rightarrow> u32 \<times> 'w firmware" where
  "biosdisk_rw_int13_ext int13 ah drive dap fw =
     (let (r, fw) = call_int13h int13
            (no_regs\<lparr>eax := push_bit 8 ah, ds := drop_bit 4 (dap AND 0xffff0000),
                     esi := dap AND 0xffff, edx := drive\<rparr>) fw
      in (drop_bit 8 (eax r) AND 0xff, fw))"

text \<open>The registers of a read by cylinder, head and sector.\<close>

definition chs_regs :: "u32 \<Rightarrow> u32 \<Rightarrow> u32 \<Rightarrow> u32 \<Rightarrow> u32 \<Rightarrow> u32 \<Rightarrow> u32 \<Rightarrow> regs" where
  "chs_regs ah drive coff hoff soff nsec segment =
     no_regs\<lparr>ecx := (push_bit 8 coff AND 0xff00) OR (drop_bit 2 coff AND 0xc0) OR (soff AND 0x3f),
             edx := (drive AND 0xff) OR (push_bit 8 hoff AND 0xff00),
             eax := (push_bit 8 ah AND 0xff00) OR (nsec AND 0xff),
             ebx := 0, es := segment\<rparr>"

fun rw_std_tries ::
  "nat \<Rightarrow> 'w int13 \<Rightarrow> regs \<Rightarrow> u32 \<Rightarrow> u32 \<Rightarrow> 'w firmware \<Rightarrow> u32 \<times> 'w firmware" where
  "rw_std_tries 0 int13 req drive ret fw = (ret, fw)"
| "rw_std_tries (Suc i) int13 req drive ret fw =
     (let (r, fw) = call_int13h int13 req fw
      in if \<not> carry r then (0, fw)
         else let ret = drop_bit 8 (eax r);
                  (_, fw) = call_int13h int13 (r\<lparr>eax := 0, edx := drive AND 0xff\<rparr>) fw
              in rw_std_tries i int13 req drive ret fw)"

definition biosdisk_rw_std ::
  "'w int13 \<Rightarrow> u32 \<Rightarrow> u32 \<Rightarrow> u32 \<Rightarrow> u32 \<Rightarrow> u32 \<Rightarrow> u32 \<Rightarrow> u32 \<Rightarrow> 'w firmware \<Rightarrow> u32 \<times> 'w firmware" where
  "biosdisk_rw_std int13 ah drive coff hoff soff nsec segment fw =
     rw_std_tries 3 int13 (chs_regs ah drive coff hoff soff nsec segment) drive 0 fw"

definition biosdisk_check_int13_ext :: "'w int13 \<Rightarrow> u32 \<Rightarrow> 'w firmware \<Rightarrow> u32 \<times> 'w firmware" where
  "biosdisk_check_int13_ext int13 drive fw =
     (let (r, fw) = call_int13h int13 (no_regs\<lparr>edx := drive AND 0xff, eax := 0x4100, ebx := 0x55aa\<rparr>) fw
      in if carry r then (0, fw)
         else if ebx r AND 0xffff \<noteq> 0xaa55 then (0, fw)
         else if ecx r AND 1 = 0 then (0, fw)
         else (drop_bit 8 (eax r) AND 0xff, fw))"

record geometry =
  cylinders :: u32
  heads :: u32
  sectors_per_track :: u32

text \<open>The status, the geometry (unchanged on an error) and the firmware.\<close>

definition biosdisk_get_diskinfo_std ::
  "'w int13 \<Rightarrow> u32 \<Rightarrow> geometry \<Rightarrow> 'w firmware \<Rightarrow> u32 \<times> geometry \<times> 'w firmware" where
  "biosdisk_get_diskinfo_std int13 drive g fw =
     (let (r, fw) = call_int13h int13 (no_regs\<lparr>eax := 0x0800, ecx := 0, edx := drive AND 0xff\<rparr>) fw
      in if carry r \<and> eax r AND 0xff00 \<noteq> 0 then (drop_bit 8 (eax r AND 0xff00), g, fw)
         else if ecx r AND 0x3f = 0 then (0x60, g, fw)
         else (0, \<lparr>cylinders = (drop_bit 8 (ecx r) AND 0xff OR push_bit 2 (ecx r) AND 0x0300) + 1,
                   heads = (drop_bit 8 (edx r) AND 0xff) + 1,
                   sectors_per_track = ecx r AND 0x3f\<rparr>, fw))"

definition biosdisk_get_diskinfo_real :: "'w int13 \<Rightarrow> u32 \<Rightarrow> u32 \<Rightarrow> u32 \<Rightarrow> 'w firmware \<Rightarrow> u32 \<times> 'w firmware" where
  "biosdisk_get_diskinfo_real int13 drive drp ax fw =
     (let (r, fw) = call_int13h int13
            (no_regs\<lparr>eax := ax, esi := drp AND 0xf, ds := drop_bit 4 drp, edx := drive AND 0xff\<rparr>) fw
      in if carry r \<and> eax r AND 0xff00 \<noteq> 0 then (drop_bit 8 (eax r AND 0xff00), fw) else (0, fw))"

definition biosdisk_get_diskinfo_int13_ext :: "'w int13 \<Rightarrow> u32 \<Rightarrow> u32 \<Rightarrow> 'w firmware \<Rightarrow> u32 \<times> 'w firmware" where
  "biosdisk_get_diskinfo_int13_ext int13 drive drp fw = biosdisk_get_diskinfo_real int13 drive drp 0x4800 fw"

section \<open>Reading\<close>

record biosdisk_data =
  drive :: u32
  geom :: geometry
  lba_flag :: bool
  total_sectors :: u64
  log_sector_size :: nat

text \<open>
  By cylinder, head and sector: \<open>Some (ok, fw)\<close>, \<open>None\<close> for a division by zero. The sector is
  truncated to 32 bits.
\<close>

definition read_chs ::
  "'w int13 \<Rightarrow> biosdisk_data \<Rightarrow> u64 \<Rightarrow> u32 \<Rightarrow> u32 \<Rightarrow> 'w firmware \<Rightarrow> (bool \<times> 'w firmware) option" where
  "read_chs int13 d sector nsec segment fw =
     (if sector > 1024 * 256 * 63 then Some (False, fw)
      else if sectors_per_track (geom d) = 0 \<or> heads (geom d) = 0 then None
      else let s = (ucast sector :: u32);
               soff = s mod sectors_per_track (geom d) + 1;
               head = s div sectors_per_track (geom d);
               hoff = head mod heads (geom d);
               coff = head div heads (geom d)
           in if coff \<ge> cylinders (geom d) then Some (False, fw)
              else let (rc, fw) = biosdisk_rw_std int13 2 (drive d) coff hoff soff nsec segment fw
                   in Some (rc = 0, fw))"

definition biosdisk_dap :: "u16 \<Rightarrow> u32 \<Rightarrow> u64 \<Rightarrow> bytes" where
  "biosdisk_dap blocks buffer block = [16, 0] @ le_bytes 2 blocks @ le_bytes 4 buffer @ le_bytes 8 block"

definition biosdisk_read_real ::
  "'w int13 \<Rightarrow> biosdisk_data \<Rightarrow> u64 \<Rightarrow> u32 \<Rightarrow> u32 \<Rightarrow> 'w firmware \<Rightarrow>
     (bool \<times> biosdisk_data \<times> 'w firmware) option" where
  "biosdisk_read_real int13 d sector nsec segment fw =
     (if lba_flag d then do {
        let ofs = push_bit (log_sector_size d) (sectors_per_track (geom d));
        m \<leftarrow> poke (scratch fw) (unat ofs) (biosdisk_dap (ucast nsec) (push_bit 16 segment) sector);
        let (rc, fw) = biosdisk_rw_int13_ext int13 0x42 (drive d) (SCRATCH_ADDR + ofs) (fw\<lparr>scratch := m\<rparr>);
        if rc \<noteq> 0 then do {
          let d = d\<lparr>lba_flag := False, total_sectors :=
                    ucast (cylinders (geom d) * heads (geom d) * sectors_per_track (geom d))\<rparr>;
          (ok, fw) \<leftarrow> read_chs int13 d sector nsec segment fw;
          Some (ok, d, fw) }
        else Some (True, d, fw) }
      else do {
        (ok, fw) \<leftarrow> read_chs int13 d sector nsec segment fw;
        Some (ok, d, fw) })"

definition biosdisk_read ::
  "'w int13 \<Rightarrow> biosdisk_data \<Rightarrow> 'w firmware \<Rightarrow> u64 \<Rightarrow> nat \<Rightarrow>
     (bytes option \<times> biosdisk_data \<times> 'w firmware) option" where
  "biosdisk_read int13 d fw sector len = do {
     (ok, d, fw) \<leftarrow> biosdisk_read_real int13 d sector (of_nat ((len + 511) div 512)) SCRATCH_SEG fw;
     if \<not> ok then Some (None, d, fw)
     else do {
       buf \<leftarrow> peek (scratch fw) 0 len;
       Some (Some buf, d, fw) } }"

section \<open>The geometry of a drive\<close>

text \<open>\<^verbatim>\<open>SECTOR_LOG2ULL\<close>\<close>

function sector_log2 :: "nat \<Rightarrow> nat \<Rightarrow> nat" where
  "sector_log2 n s = (if 2 ^ n < s then sector_log2 (n + 1) s else n)"
  by pat_completeness auto
termination
proof (relation "measure (\<lambda>(n, s). s - n)")
  fix n s :: nat
  assume "2 ^ n < s"
  then have "n < s" using less_exp [of n] by linarith
  then show "((n + 1, s), n, s) \<in> measure (\<lambda>(n, s). s - n)" by simp
qed simp

declare sector_log2.simps [simp del]

text \<open>The drive parameters: the reply's fields, as far as they are read.\<close>

definition drp_totals :: "bytes \<Rightarrow> (u64 \<times> u16) option" where
  "drp_totals m = do {
     c \<leftarrow> get32 m 4;
     h \<leftarrow> get32 m 8;
     s \<leftarrow> get32 m 12;
     total \<leftarrow> get64 m 16;
     bps \<leftarrow> get16 m 24;
     Some (if total \<noteq> 0 then total else ucast c * ucast h * ucast s, bps) }"

text \<open>\<open>Some None\<close> is the failure to find a geometry.\<close>

definition biosdisk_fill_data ::
  "'w int13 \<Rightarrow> u32 \<Rightarrow> 'w firmware \<Rightarrow> (biosdisk_data option \<times> 'w firmware) option" where
  "biosdisk_fill_data int13 drv fw = do {
     let none = \<lparr>cylinders = 0, heads = 0, sectors_per_track = 0\<rparr>;
     let (version, fw) = biosdisk_check_int13_ext int13 drv fw;
     (lba, total, log, fw) \<leftarrow>
       (if version = 0 then Some (False, 0, 9, fw)
        else do {
          m \<leftarrow> poke (scratch fw) 0 (le_bytes 2 (90 :: u16) @ replicate 88 0);
          let (rc, fw) = biosdisk_get_diskinfo_int13_ext int13 drv SCRATCH_ADDR (fw\<lparr>scratch := m\<rparr>);
          if rc \<noteq> 0 then Some (False, 0, 9, fw)
          else do {
            (total, bps) \<leftarrow> drp_totals (scratch fw);
            Some (True, total,
              (if bps \<noteq> 0 \<and> bps AND (bps - 1) = 0 \<and> 512 \<le> bps \<and> bps \<le> 16384
               then sector_log2 0 (unat bps) else 9), fw) } });
     let (rc, g, fw) = biosdisk_get_diskinfo_std int13 drv none fw;
     (case (if rc = 0 then Some g
            else if total \<noteq> 0 \<and> lba
            then Some \<lparr>cylinders = ucast (fst (divmod64 (total + 255 * 63 - 1) (255 * 63))),
                       heads = 255, sectors_per_track = 63\<rparr>
            else None) of
        None \<Rightarrow> Some (None, fw)
      | Some g \<Rightarrow> do {
          let g = (if sectors_per_track g = 0 then g\<lparr>sectors_per_track := 63\<rparr> else g);
          let g = (if heads g = 0 then g\<lparr>heads := 255\<rparr> else g);
          let total = (if total = 0 then ucast (cylinders g) * ucast (heads g) * ucast (sectors_per_track g)
                       else total);
          Some (Some \<lparr>drive = drv, geom = g, lba_flag = lba, total_sectors = total, log_sector_size = log\<rparr>, fw) }) }"

section \<open>The walk over the drives\<close>

text \<open>
  The reader the searches are given. Here a read starts from the same firmware state and drive data
  every time, which is what the program sees of a firmware whose answers do not depend on the calls
  before; a fault inside a read is a failed read.
\<close>

definition biosdisk_reader :: "'w int13 \<Rightarrow> biosdisk_data \<Rightarrow> 'w firmware \<Rightarrow> disk_reader" where
  "biosdisk_reader int13 d fw lba len =
     (case biosdisk_read int13 d fw lba len of Some (Some buf, _, _) \<Rightarrow> Some buf | _ \<Rightarrow> None)"

definition drive_pass ::
  "nat \<Rightarrow> bool \<Rightarrow> 'w int13 \<Rightarrow> u32 \<times> nt_args \<times> 'w firmware \<Rightarrow>
     (u32 \<times> nt_args \<times> 'w firmware + (nt_args \<times> 'w firmware) option) option" where
  "drive_pass fuel debug int13 = (\<lambda>(drv, args, fw).
     if drv \<ge> 0x90 then Some (Inr (Some (args, fw)))
     else let (rc, fw) = biosdisk_rw_std int13 2 drv 0 0 1 1 SCRATCH_SEG fw
     in if rc \<noteq> 0 then Some (Inr (Some (args, fw)))
     else do {
       (d, fw) \<leftarrow> biosdisk_fill_data int13 drv fw;
       (case d of
          None \<Rightarrow> Some (Inl (drv + 1, args, fw))
        | Some d \<Rightarrow> do {
            let disk = biosdisk_reader int13 d fw;
            r \<leftarrow> check_msdos_partmap fuel debug type_sizes_ilp32 disk args;
            (case r of
               Inl _ \<Rightarrow> Some (Inr None)
             | Inr (found, _, args) \<Rightarrow>
                 if found then Some (Inr (Some (args, fw)))
                 else do {
                   (found, args) \<leftarrow> check_gpt_partmap type_sizes_ilp32 disk args;
                   if found then Some (Inr (Some (args, fw))) else Some (Inl (drv + 1, args, fw)) }) }) })"

definition biosdisk_iterate ::
  "nat \<Rightarrow> bool \<Rightarrow> 'w int13 \<Rightarrow> nt_args \<Rightarrow> 'w firmware \<Rightarrow>
     (u32 \<times> nt_args \<times> 'w firmware + (nt_args \<times> 'w firmware) option) option" where
  "biosdisk_iterate fuel debug int13 args fw =
     iterate 17 (drive_pass fuel debug int13) (0x80, args, fw)"

text \<open>\<^verbatim>\<open>memset (ABS_PTR (SCRATCH_ADDR), 0, sizeof (SCRATCH_SIZE))\<close>: the size of an \<^verbatim>\<open>int\<close>.\<close>

definition biosdisk_init :: "'w firmware \<Rightarrow> 'w firmware option" where
  "biosdisk_init fw = map_option (\<lambda>m. fw\<lparr>scratch := m\<rparr>) (poke (scratch fw) 0 (replicate 4 0))"

end
