(* ===== verification/Int13.thy ===== *)
theory Int13
  imports VdiskRead PagingSafe Biosdisk
begin

text \<open>
  The emulated disk of the BIOS build: the INT 13 services for the virtual disk (\<^verbatim>\<open>kern/int13.c\<close>)
  and the interrupt callback that bootmgr is given (\<^verbatim>\<open>kern/main.c\<close>).
\<close>

section \<open>Real mode\<close>

text \<open>
  What the callbacks work on besides the registers: the memory that real-mode addresses reach, from
  address 0 on, and the rest of the world. An interrupt of the firmware is a function of both.
\<close>

record 'w real =
  low :: bytes
  world :: 'w

type_synonym 'w real_int = "regs \<Rightarrow> 'w real \<Rightarrow> regs \<times> 'w real"

text \<open>The parts of a register (unions in the code).\<close>

definition low8 :: "u32 \<Rightarrow> byte" where "low8 w = ucast w"
definition high8 :: "u32 \<Rightarrow> byte" where "high8 w = ucast (drop_bit 8 w)"
definition low16 :: "u32 \<Rightarrow> u16" where "low16 w = ucast w"
definition set_low8 :: "byte \<Rightarrow> u32 \<Rightarrow> u32" where "set_low8 b w = (w AND NOT 0xff) OR ucast b"
definition set_high8 :: "byte \<Rightarrow> u32 \<Rightarrow> u32" where "set_high8 b w = (w AND NOT 0xff00) OR push_bit 8 (ucast b)"
definition set_low16 :: "u16 \<Rightarrow> u32 \<Rightarrow> u32" where "set_low16 h w = (w AND NOT 0xffff) OR ucast h"

definition REAL_PTR :: "u32 \<Rightarrow> u16 \<Rightarrow> nat" where
  "REAL_PTR segment offset = unat (push_bit 4 segment + ucast offset)"

section \<open>The services\<close>

definition VDISK_CYLINDERS :: u32 where "VDISK_CYLINDERS = 1024"
definition VDISK_HEADS :: u32 where "VDISK_HEADS = 255"
definition VDISK_SECTORS_PER_TRACK :: u32 where "VDISK_SECTORS_PER_TRACK = 63"
definition INT13_GET_PARAMETERS :: byte where "INT13_GET_PARAMETERS = 0x08"
definition INT13_GET_DISK_TYPE :: byte where "INT13_GET_DISK_TYPE = 0x15"
definition INT13_EXTENSION_CHECK :: byte where "INT13_EXTENSION_CHECK = 0x41"
definition INT13_EXTENDED_READ :: byte where "INT13_EXTENDED_READ = 0x42"
definition INT13_GET_EXTENDED_PARAMETERS :: byte where "INT13_GET_EXTENDED_PARAMETERS = 0x48"
definition INT13_STATUS_SUCCESS :: byte where "INT13_STATUS_SUCCESS = 0"
definition INT13_DISK_TYPE_HDD :: byte where "INT13_DISK_TYPE_HDD = 3"
definition INT13_DRIVE_COUNT :: nat where "INT13_DRIVE_COUNT = REAL_PTR 0x40 0x75"

text \<open>The number of the emulated drive, a C \<^verbatim>\<open>int\<close>; the BIOS's counter is a byte.\<close>

definition initialise_int13 :: "'w real \<Rightarrow> (u32 \<times> 'w real) option" where
  "initialise_int13 s = do {
     count \<leftarrow> rd (low s) INT13_DRIVE_COUNT;
     m \<leftarrow> wr (low s) INT13_DRIVE_COUNT (count + 1);
     Some (0x80 OR ucast count, s\<lparr>low := m\<rparr>) }"

definition min_num_drives :: "u32 \<Rightarrow> u32" where
  "min_num_drives drv = (drv AND 0x7f) + 1"

definition int13_get_parameters :: "u32 \<Rightarrow> regs \<Rightarrow> 'w real \<Rightarrow> regs option" where
  "int13_get_parameters drv r s = do {
     let max_cylinder = VDISK_CYLINDERS - 1;
     let max_head = VDISK_HEADS - 1;
     let max_sector = VDISK_SECTORS_PER_TRACK;
     count \<leftarrow> rd (low s) INT13_DRIVE_COUNT;
     let num_drives = (ucast count :: u32);
     let num_drives = (if num_drives < min_num_drives drv then min_num_drives drv else num_drives);
     let cx = set_low8 (ucast (push_bit 6 (drop_bit 8 max_cylinder) OR max_sector))
                (set_high8 (ucast (max_cylinder AND 0xff)) (ecx r));
     let dx = set_low8 (ucast num_drives) (set_high8 (ucast max_head) (edx r));
     Some (r\<lparr>ecx := cx, edx := dx, eax := set_high8 0 (eax r)\<rparr>) }"

definition int13_get_disk_type :: "regs \<Rightarrow> regs" where
  "int13_get_disk_type r =
     (let sector_count = (of_nat VDISK_COUNT :: u32)
      in r\<lparr>ecx := set_low16 (ucast (drop_bit 16 sector_count)) (ecx r),
           edx := set_low16 (ucast (sector_count AND 0xffff)) (edx r),
           eax := set_high8 INT13_DISK_TYPE_HDD (eax r)\<rparr>)"

definition int13_extension_check :: "regs \<Rightarrow> regs" where
  "int13_extension_check r =
     r\<lparr>ebx := set_low16 0xaa55 (ebx r), ecx := set_low16 1 (ecx r), eax := set_high8 1 (eax r)\<rparr>"

text \<open>The disk parameters, a packed structure of 26 bytes.\<close>

definition disk_parameters :: bytes where
  "disk_parameters =
     le_bytes 2 (26 :: u16) @ le_bytes 2 (1 :: u16) @ le_bytes 4 VDISK_CYLINDERS @ le_bytes 4 VDISK_HEADS @
     le_bytes 4 VDISK_SECTORS_PER_TRACK @ le_bytes 8 (of_nat VDISK_COUNT :: u64) @
     le_bytes 2 (of_nat VDISK_SECTOR_SIZE :: u16)"

definition int13_get_extended_parameters :: "regs \<Rightarrow> 'w real \<Rightarrow> (regs \<times> 'w real) option" where
  "int13_get_extended_parameters r s = do {
     m \<leftarrow> poke (low s) (REAL_PTR (ds r) (low16 (esi r))) disk_parameters;
     Some (r\<lparr>eax := set_high8 0 (eax r)\<rparr>, s\<lparr>low := m\<rparr>) }"

text \<open>
  The extended read: the virtual disk's sectors go to the buffer the packet names. \<open>Inl\<close> is a read
  that has not come to its end within the fuel.
\<close>

definition int13_extended_read ::
  "nat \<Rightarrow> bool \<Rightarrow> vfile list \<Rightarrow> regs \<Rightarrow> 'w real \<Rightarrow> (unit + regs \<times> 'w real) option" where
  "int13_extended_read fuel lp64 files r s = do {
     let dap = REAL_PTR (ds r) (low16 (esi r));
     count \<leftarrow> rd (low s) (dap + 2);
     offset \<leftarrow> get16 (low s) (dap + 4);
     segment \<leftarrow> get16 (low s) (dap + 6);
     lba \<leftarrow> get64 (low s) (dap + 8);
     out \<leftarrow> vdisk_read fuel lp64 files (unat lba) (unat count);
     (case out of
        Inl _ \<Rightarrow> Some (Inl ())
      | Inr dat \<Rightarrow> do {
          m \<leftarrow> poke (low s) (REAL_PTR (ucast segment) offset) dat;
          Some (Inr (r\<lparr>eax := set_high8 0 (eax r)\<rparr>, s\<lparr>low := m\<rparr>)) }) }"

definition emulate_int13 ::
  "nat \<Rightarrow> bool \<Rightarrow> vfile list \<Rightarrow> 'w real_int \<Rightarrow> u32 \<Rightarrow> regs \<Rightarrow> 'w real \<Rightarrow> (unit + regs \<times> 'w real) option" where
  "emulate_int13 fuel lp64 files call_interrupt vdisk_drive r s =
     (let command = high8 (eax r); drv = (ucast (low8 (edx r)) :: u32)
      in if drv = vdisk_drive then
           let r = r\<lparr>carry := False\<rparr>
           in if command = INT13_GET_PARAMETERS then
                map_option (\<lambda>r. Inr (r, s)) (int13_get_parameters vdisk_drive r s)
              else if command = INT13_GET_DISK_TYPE then Some (Inr (int13_get_disk_type r, s))
              else if command = INT13_EXTENSION_CHECK then Some (Inr (int13_extension_check r, s))
              else if command = INT13_GET_EXTENDED_PARAMETERS then
                map_option Inr (int13_get_extended_parameters r s)
              else if command = INT13_EXTENDED_READ then int13_extended_read fuel lp64 files r s
              else Some (Inr (r\<lparr>carry := True\<rparr>, s))
         else
           let (r, s) = call_interrupt r s
           in Some (Inr
                (if command = INT13_GET_PARAMETERS \<and> (ucast (low8 (edx r)) :: u32) < min_num_drives vdisk_drive
                 then r\<lparr>edx := set_low8 (ucast (min_num_drives vdisk_drive)) (edx r)\<rparr> else r, s)))"

section \<open>The callback\<close>

text \<open>
  Any interrupt of bootmgr: INT 13 goes to the emulation, with paging enabled; a query of a video
  mode, when text mode is wanted, gets the mode marked as unsupported. \<open>state\<close> stands for what the
  uninitialised structure of saved registers holds.
\<close>

definition call_interrupt_wrapper ::
  "nat \<Rightarrow> bool \<Rightarrow> vfile list \<Rightarrow> 'w real_int \<Rightarrow> u32 \<Rightarrow> nt_args \<Rightarrow> u32 \<Rightarrow> paging_state \<Rightarrow>
     machine \<Rightarrow> regs \<Rightarrow> 'w real \<Rightarrow> (unit + machine \<times> regs \<times> 'w real) option" where
  "call_interrupt_wrapper fuel lp64 files call_interrupt vdisk_drive args pdpt_addr state m r s =
     (if interrupt r = 0x13 then
        let (m, state) = enable_paging pdpt_addr m state
        in map_option (map_sum id (\<lambda>(r, s). (disable_paging m state, r, s)))
             (emulate_int13 fuel lp64 files call_interrupt vdisk_drive r s)
      else if interrupt r = 0x10 \<and> low16 (eax r) = 0x4f01 \<and> textmode args \<noteq> 0 then do {
        let attributes = REAL_PTR (es r) (low16 (edi r));
        let (r, s) = call_interrupt r s;
        a \<leftarrow> get16 (low s) attributes;
        l \<leftarrow> put16 (low s) attributes (a AND NOT 1);
        Some (Inr (m, r, s\<lparr>low := l\<rparr>)) }
      else let (r, s) = call_interrupt r s in Some (Inr (m, r, s)))"

end
