(* ===== verification/BiosdiskSafe.thy ===== *)
theory BiosdiskSafe
  imports Biosdisk
begin

text \<open>
  The division, the addressing by cylinder, head and sector, and the walk over the drives on any
  firmware.
\<close>

section \<open>Division\<close>

text \<open>After \<open>k\<close> rounds the top \<open>k\<close> bits of the dividend have been divided.\<close>

definition divided :: "nat \<Rightarrow> nat \<Rightarrow> nat \<Rightarrow> u64 \<times> u64 \<times> u64 \<Rightarrow> bool" where
  "divided d n0 k = (\<lambda>(q, m, n).
     unat q = n0 div 2 ^ (64 - k) div d \<and> unat m = n0 div 2 ^ (64 - k) mod d \<and>
     unat n = n0 * 2 ^ k mod 2 ^ 64)"

lemma unat_double: "unat (w :: u64) < 2 ^ 63 \<Longrightarrow> unat (push_bit 1 w) = 2 * unat w"
  by (simp add: push_bit_eq_mult unat_word_ariths)

lemma unat_or_1:
  assumes "even (unat (w :: u64))"
  shows "unat (w OR 1) = unat w + 1"
  using or_one_eq [of "unat w"] assms by (simp only: unsigned_or_eq unsigned_1) simp

lemma euclid: "r < d \<Longrightarrow> (x * d + r) div d = x \<and> (x * d + r) mod d = (r :: nat)"
  by simp

lemma divmod_step_divided:
  assumes inv: "divided (unat d) n0 k s" and k: "k < 64" and d: "0 < unat d" "unat d \<le> 2 ^ 63" and n0: "n0 < 2 ^ 64"
  shows "divided (unat d) n0 (Suc k) (divmod_step d s)"
proof -
  obtain q m n where s: "s = (q, m, n)" by (cases s)
  let ?N = "n0 div 2 ^ (64 - k)" and ?M = "n0 div 2 ^ (64 - Suc k)"
  have q: "unat q = ?N div unat d" and m: "unat m = ?N mod unat d" and n: "unat n = n0 * 2 ^ k mod 2 ^ 64"
    using inv by (simp_all add: divided_def s)
  have sp: "64 - k = Suc (64 - Suc k)" using k by simp
  have N: "?M = 2 * ?N + ?M mod 2"
    unfolding sp power_Suc2 div_mult2_eq by (rule mult_div_mod_eq [symmetric])
  have "unat n = take_bit 64 (push_bit k n0)" unfolding n by (simp add: take_bit_eq_mod push_bit_eq_mult)
  then have "bit n 63 \<longleftrightarrow> bit n0 (63 - k)"
    using bit_unsigned_iff [where ?'a = nat, of n 63] k by (simp add: bit_take_bit_iff bit_push_bit_iff_nat)
  then have b: "bit n 63 \<longleftrightarrow> ?M mod 2 = 1" by (simp add: bit_iff_odd odd_iff_mod_2_eq_one)
  have m1: "unat m < unat d" using m d by simp
  then have m2: "unat (push_bit 1 m) = 2 * unat m" using d(2) by (intro unat_double) linarith
  obtain mm where mm: "mm = (if bit n 63 then push_bit 1 m OR 1 else push_bit 1 m)" by blast
  have m3: "unat mm = 2 * unat m + ?M mod 2" unfolding mm using m2 b by (auto simp: unat_or_1)
  have step: "divmod_step d s =
      (if d \<le> mm then (push_bit 1 q OR 1, mm - d, push_bit 1 n) else (push_bit 1 q, mm, push_bit 1 n))"
    unfolding divmod_step_def s Let_def case_prod_conv mm by (rule refl)
  have "(2 :: nat) ^ 64 = 2 ^ k * 2 ^ (64 - k)" using k by (simp flip: power_add)
  then have "?N < 2 ^ k" using n0 by (simp only: less_mult_imp_div_less)
  also have "(2 :: nat) ^ k \<le> 2 ^ 63" using k by (intro power_increasing) simp_all
  finally have "unat q < 2 ^ 63" using q by (metis div_le_dividend le_less_trans)
  then have q2: "unat (push_bit 1 q) = 2 * unat q" by (rule unat_double)
  have q3: "unat (push_bit 1 q OR 1) = 2 * unat q + 1" using q2 by (simp add: unat_or_1)
  have n2: "unat (push_bit 1 n) = n0 * 2 ^ Suc k mod 2 ^ 64"
    using n by (simp add: push_bit_eq_mult unat_word_ariths mod_mult_right_eq mult_ac)
  have e: "?M = 2 * unat q * unat d + (2 * unat m + ?M mod 2)"
  proof -
    have "?N = unat q * unat d + unat m" unfolding q m by (rule div_mult_mod_eq [symmetric])
    then show ?thesis using N by (metis add.assoc add_mult_distrib2 mult.assoc)
  qed
  show ?thesis
  proof (cases "d \<le> mm")
    case True
    let ?r = "2 * unat m + ?M mod 2 - unat d"
    have ge: "unat d \<le> 2 * unat m + ?M mod 2" using True m3 by (simp add: word_le_nat_alt)
    have "?M mod 2 < 2" by simp
    then have r: "?r < unat d" using m1 by linarith
    have "?M = (2 * unat q + 1) * unat d + ?r" using e ge unfolding add_mult_distrib by linarith
    then have "?M div unat d = 2 * unat q + 1 \<and> ?M mod unat d = ?r" using euclid [OF r] by metis
    moreover have "unat (mm - d) = ?r" using True m3 by (simp add: unat_sub)
    ultimately show ?thesis unfolding step divided_def if_P [OF True] case_prod_conv q3 n2 by simp
  next
    case False
    then have r: "2 * unat m + ?M mod 2 < unat d" using m3 by (simp add: word_le_nat_alt)
    then have "?M div unat d = 2 * unat q \<and> ?M mod unat d = 2 * unat m + ?M mod 2"
      using euclid [OF r, of "2 * unat q"] e by metis
    then show ?thesis unfolding step divided_def if_not_P [OF False] case_prod_conv q2 m3 n2 by simp
  qed
qed

text \<open>
  The bitwise division is the division of the numbers, for every divisor up to 2^63: its shifted
  remainder never overflows.
\<close>

theorem divmod64_div_mod:
  assumes "0 < unat d" and "unat d \<le> 2 ^ 63"
  shows "divmod64 n d = (n div d, n mod d)"
proof -
  have "divided (unat d) (unat n) k ((divmod_step d ^^ k) (0, 0, n))" if "k \<le> 64" for k
    using that
  proof (induction k)
    case 0
    have "unat n div 2 ^ 64 = 0" using unat_bound [of n] by simp
    then show ?case using unat_bound [of n] by (simp add: divided_def)
  next
    case (Suc k)
    then have "divided (unat d) (unat n) (Suc k) (divmod_step d ((divmod_step d ^^ k) (0, 0, n)))"
      using unat_bound [of n] by (intro divmod_step_divided assms) simp_all
    then show ?case by simp
  qed
  from this [of 64] have "divided (unat d) (unat n) 64 ((divmod_step d ^^ 64) (0, 0, n))" by simp
  then show ?thesis
    by (cases "(divmod_step d ^^ 64) (0, 0, n)")
      (auto simp: divided_def divmod64_def word_eq_iff_unsigned [where ?'a = nat] unat_div_distrib unat_mod_distrib)
qed

theorem divmod64_div_mod_witness: "divmod64 0x123456789 16065 = (0x123456789 div 16065, 0x123456789 mod 16065)"
  by (rule divmod64_div_mod) simp_all

section \<open>Cylinder, head and sector\<close>

text \<open>What a BIOS reads off the registers, and the sector that is for a geometry.\<close>

definition req_cylinder :: "regs \<Rightarrow> nat" where
  "req_cylinder r = unat ((drop_bit 8 (ecx r) AND 0xff) OR push_bit 2 (ecx r AND 0xc0))"

definition req_head :: "regs \<Rightarrow> nat" where
  "req_head r = unat (drop_bit 8 (edx r) AND 0xff)"

definition req_sector :: "regs \<Rightarrow> nat" where
  "req_sector r = unat (ecx r AND 0x3f)"

definition addressed :: "geometry \<Rightarrow> regs \<Rightarrow> nat" where
  "addressed g r = (req_cylinder r * unat (heads g) + req_head r) * unat (sectors_per_track g) + req_sector r - 1"

lemma field_masks:
  "(0xff00 :: u32) = push_bit 8 (mask 8)" "(0xc0 :: u32) = push_bit 6 (mask 2)" "(0x3f :: u32) = mask 6"
  "(0xff :: u32) = mask 8"
  by (simp_all add: mask_eq_exp_minus_1)

lemma ecx_bits:
  "bit (ecx (chs_regs ah drv coff hoff soff n seg)) i \<longleftrightarrow>
     (if i < 6 then bit soff i else if i < 8 then bit coff (i + 2) else i < 16 \<and> bit coff (i - 8))"
proof -
  have "ecx (chs_regs ah drv coff hoff soff n seg) =
      (push_bit 8 coff AND 0xff00) OR (drop_bit 2 coff AND 0xc0) OR (soff AND 0x3f)"
    unfolding chs_regs_def by simp
  then show ?thesis unfolding field_masks by (auto simp: bit_simps)
qed

lemma edx_bits: "8 \<le> i \<Longrightarrow> i < 16 \<Longrightarrow> bit (edx (chs_regs ah drv coff hoff soff n seg)) i \<longleftrightarrow> bit hoff (i - 8)"
proof -
  have "edx (chs_regs ah drv coff hoff soff n seg) = (drv AND 0xff) OR (push_bit 8 hoff AND 0xff00)"
    unfolding chs_regs_def by simp
  then show "8 \<le> i \<Longrightarrow> i < 16 \<Longrightarrow> ?thesis" unfolding field_masks by (auto simp: bit_simps)
qed

lemma chs_regs_fields:
  "req_cylinder (chs_regs ah drv coff hoff soff n seg) = unat coff mod 1024"
  "req_head (chs_regs ah drv coff hoff soff n seg) = unat hoff mod 256"
  "req_sector (chs_regs ah drv coff hoff soff n seg) = unat soff mod 64"
proof -
  let ?r = "chs_regs ah drv coff hoff soff n seg"
  have "(drop_bit 8 (ecx ?r) AND 0xff) OR push_bit 2 (ecx ?r AND 0xc0) = coff AND mask 10"
  proof (rule bit_word_eqI)
    fix i assume i: "i < LENGTH(32)"
    then show "bit ((drop_bit 8 (ecx ?r) AND 0xff) OR push_bit 2 (ecx ?r AND 0xc0)) i = bit (coff AND mask 10) i"
      unfolding field_masks
      by (cases "i < 2")
        (auto simp: bit_and_iff bit_or_iff bit_mask_iff bit_push_bit_iff bit_drop_bit_eq ecx_bits
           dest!: le_Suc_ex simp flip: numeral_2_eq_2 simp: not_less)
  qed
  then show "req_cylinder ?r = unat coff mod 1024" using unat_and_mask [of coff 10] by (simp add: req_cylinder_def)
  have "drop_bit 8 (edx ?r) AND 0xff = hoff AND mask 8"
    unfolding field_masks
    by (rule bit_word_eqI) (auto simp: bit_and_iff bit_mask_iff bit_drop_bit_eq edx_bits)
  then show "req_head ?r = unat hoff mod 256" using unat_and_mask [of hoff 8] by (simp add: req_head_def)
  have "ecx ?r AND 0x3f = soff AND mask 6"
    unfolding field_masks by (rule bit_word_eqI) (auto simp: bit_and_iff bit_mask_iff ecx_bits)
  then show "req_sector ?r = unat soff mod 64" using unat_and_mask [of soff 6] by (simp add: req_sector_def)
qed

text \<open>C34:
  A read by cylinder, head and sector asks the BIOS for exactly the sector that is wanted, on every
  geometry the registers can express: at most 1024 cylinders, 256 heads and 63 sectors per track.
\<close>

theorem read_chs_request:
  assumes g: "0 < unat (heads (geom d))" "unat (heads (geom d)) \<le> 256"
      "0 < unat (sectors_per_track (geom d))" "unat (sectors_per_track (geom d)) \<le> 63"
      "unat (cylinders (geom d)) \<le> 1024"
    and s: "unat sector < unat (cylinders (geom d)) * unat (heads (geom d)) * unat (sectors_per_track (geom d))"
  shows "\<exists>req. read_chs int13 d sector nsec segment fw =
      Some (let (rc, fw) = rw_std_tries 3 int13 req (drive d) 0 fw in (rc = 0, fw)) \<and>
    addressed (geom d) req = unat sector \<and> req_head req < unat (heads (geom d)) \<and>
    1 \<le> req_sector req \<and> req_sector req \<le> unat (sectors_per_track (geom d))"
proof -
  let ?C = "unat (cylinders (geom d))" and ?H = "unat (heads (geom d))" and ?S = "unat (sectors_per_track (geom d))"
  let ?n = "unat sector"
  have "?C * ?H * ?S \<le> 1024 * 256 * 63" using g by (intro mult_le_mono) simp_all
  then have n: "?n < 16515072" using s by linarith
  let ?s = "ucast sector :: u32"
  have us: "unat ?s = ?n" using n by (simp add: unsigned_ucast_eq take_bit_nat_eq_self)
  let ?head = "?s div sectors_per_track (geom d)"
  have uh: "unat ?head = ?n div ?S" using us by (simp add: unat_div_distrib)
  let ?soff = "?s mod sectors_per_track (geom d) + 1" and ?hoff = "?head mod heads (geom d)" and ?coff = "?head div heads (geom d)"
  have "?n mod ?S < ?S" using g(3) by simp
  then have so: "unat ?soff = ?n mod ?S + 1" "?n mod ?S < 63"
    using us g(4) by (simp_all add: unat_word_ariths unat_mod_distrib)
  have ho: "unat ?hoff = ?n div ?S mod ?H" "?n div ?S mod ?H < ?H"
    using uh g(1) by (simp_all add: unat_mod_distrib)
  have co: "unat ?coff = ?n div ?S div ?H" using uh by (simp add: unat_div_distrib)
  have "?n div ?S < ?C * ?H" using s by (rule less_mult_imp_div_less)
  then have cl: "?n div ?S div ?H < ?C" by (rule less_mult_imp_div_less)
  let ?req = "chs_regs 2 (drive d) ?coff ?hoff ?soff nsec segment"
  have nz: "\<not> sector > 1024 * 256 * 63" "\<not> (sectors_per_track (geom d) = 0 \<or> heads (geom d) = 0)"
      "\<not> ?coff \<ge> cylinders (geom d)"
    using n g cl co by (auto simp: word_less_nat_alt word_le_nat_alt)
  have run: "read_chs int13 d sector nsec segment fw =
      Some (let (rc, fw) = rw_std_tries 3 int13 ?req (drive d) 0 fw in (rc = 0, fw))"
    unfolding read_chs_def Let_def if_not_P [OF nz(1)] if_not_P [OF nz(2)] if_not_P [OF nz(3)] biosdisk_rw_std_def
    by (simp add: case_prod_beta)
  have f: "req_cylinder ?req = ?n div ?S div ?H" "req_head ?req = ?n div ?S mod ?H" "req_sector ?req = ?n mod ?S + 1"
  proof -
    have "?n div ?S mod ?H < 256" "?n div ?S div ?H < 1024" using ho(2) cl g by linarith+
    then show "req_cylinder ?req = ?n div ?S div ?H" "req_head ?req = ?n div ?S mod ?H"
      unfolding chs_regs_fields co ho(1) by (simp_all only: mod_less)
    show "req_sector ?req = ?n mod ?S + 1" unfolding chs_regs_fields so(1) using so(2) by (simp only: mod_less)
  qed
  have "(?n div ?S div ?H * ?H + ?n div ?S mod ?H) * ?S + ?n mod ?S = ?n" by (simp only: div_mult_mod_eq)
  then have "addressed (geom d) ?req = ?n" unfolding addressed_def f by simp
  moreover have "req_head ?req < ?H" "1 \<le> req_sector ?req" "req_sector ?req \<le> ?S"
    unfolding f using ho(2) \<open>?n mod ?S < ?S\<close> by simp_all
  ultimately show ?thesis using run by blast
qed

text \<open>
  Beyond 1024 cylinders, which the fall-back's own geometry of 255 heads reaches, the cylinder is
  cut off to ten bits and another sector is read without an error.
\<close>

definition fallback_geometry :: geometry where
  "fallback_geometry = \<lparr>cylinders = 2000, heads = 255, sectors_per_track = 63\<rparr>"

lemma wrong_cylinder:
  "\<exists>req. read_chs int13 \<lparr>drive = 0x80, geom = fallback_geometry, lba_flag = False, total_sectors = 32130000,
        log_sector_size = 9\<rparr> 16450560 1 SCRATCH_SEG fw =
      Some (let (rc, fw) = rw_std_tries 3 int13 req 0x80 0 fw in (rc = 0, fw)) \<and>
    addressed fallback_geometry req = 0"
proof -
  let ?req = "chs_regs 2 0x80 1024 0 1 1 SCRATCH_SEG"
  have "addressed fallback_geometry ?req = 0"
    by (simp add: addressed_def chs_regs_fields)
  moreover have "read_chs int13 \<lparr>drive = 0x80, geom = fallback_geometry, lba_flag = False, total_sectors = 32130000,
        log_sector_size = 9\<rparr> 16450560 1 SCRATCH_SEG fw =
      Some (let (rc, fw) = rw_std_tries 3 int13 ?req 0x80 0 fw in (rc = 0, fw))"
    by (simp add: read_chs_def Let_def fallback_geometry_def biosdisk_rw_std_def case_prod_beta)
  ultimately show ?thesis by blast
qed

section \<open>Any firmware\<close>

text \<open>
  The firmware may answer anything and write anything into the scratch memory; it does not change
  its extent.
\<close>

definition keeps_scratch :: "'w int13 \<Rightarrow> bool" where
  "keeps_scratch int13 \<longleftrightarrow> (\<forall>r fw. length (scratch (snd (int13 r fw))) = length (scratch fw))"

lemma keeps_call: "keeps_scratch int13 \<Longrightarrow> call_int13h int13 r fw = (r', fw') \<Longrightarrow>
    length (scratch fw') = length (scratch fw)"
  by (metis call_int13h_def keeps_scratch_def snd_conv)

lemma keeps_tries: "keeps_scratch int13 \<Longrightarrow> rw_std_tries i int13 req drv ret fw = (rc, fw') \<Longrightarrow>
    length (scratch fw') = length (scratch fw)"
proof (induction i arbitrary: ret fw)
  case (Suc i)
  obtain r fw1 where 1: "call_int13h int13 req fw = (r, fw1)" by (cases "call_int13h int13 req fw")
  obtain r' fw2 where 2: "call_int13h int13 (r\<lparr>eax := 0, edx := drv AND 0xff\<rparr>) fw1 = (r', fw2)"
    by (cases "call_int13h int13 (r\<lparr>eax := 0, edx := drv AND 0xff\<rparr>) fw1")
  note len = keeps_call [OF Suc.prems(1) 1] keeps_call [OF Suc.prems(1) 2]
  show ?case
  proof (cases "carry r")
    case True
    then have "rw_std_tries i int13 req drv (drop_bit 8 (eax r)) fw2 = (rc, fw')"
      using Suc.prems(2) 1 2 by (simp add: Let_def)
    from Suc.IH [OF Suc.prems(1) this] len show ?thesis by simp
  qed (use Suc.prems(2) 1 len in \<open>simp add: Let_def\<close>)
qed simp

lemma keeps_check: "keeps_scratch int13 \<Longrightarrow> biosdisk_check_int13_ext int13 drv fw = (v, fw') \<Longrightarrow>
    length (scratch fw') = length (scratch fw)"
  using keeps_call by (fastforce simp: biosdisk_check_int13_ext_def Let_def split: prod.splits if_splits)

lemma keeps_real: "keeps_scratch int13 \<Longrightarrow> biosdisk_get_diskinfo_real int13 drv drp ax fw = (v, fw') \<Longrightarrow>
    length (scratch fw') = length (scratch fw)"
  using keeps_call by (fastforce simp: biosdisk_get_diskinfo_real_def split: prod.splits if_splits)

lemma keeps_std: "keeps_scratch int13 \<Longrightarrow> biosdisk_get_diskinfo_std int13 drv g fw = (v, g', fw') \<Longrightarrow>
    length (scratch fw') = length (scratch fw)"
  using keeps_call by (fastforce simp: biosdisk_get_diskinfo_std_def split: prod.splits if_splits)

lemma drp_totals_some: "26 \<le> length m \<Longrightarrow> \<exists>total bps. drp_totals m = Some (total, bps)"
  by (simp add: drp_totals_def get64_def get32_def get16_def peek_def)

lemma fill_data_some:
  assumes k: "keeps_scratch int13" and l: "90 \<le> length (scratch fw)"
  shows "\<exists>d fw'. biosdisk_fill_data int13 drv fw = Some (d, fw') \<and> length (scratch fw') = length (scratch fw)"
proof -
  let ?none = "\<lparr>cylinders = 0, heads = 0, sectors_per_track = 0\<rparr>"
  obtain v fw1 where 1: "biosdisk_check_int13_ext int13 drv fw = (v, fw1)" by (cases "biosdisk_check_int13_ext int13 drv fw")
  have l1: "length (scratch fw1) = length (scratch fw)" by (rule keeps_check [OF k 1])
  let ?probe = "if v = 0 then Some (False, 0, 9, fw1)
        else do {
          m \<leftarrow> poke (scratch fw1) 0 (le_bytes 2 (90 :: u16) @ replicate 88 0);
          let (rc, fw) = biosdisk_get_diskinfo_int13_ext int13 drv SCRATCH_ADDR (fw1\<lparr>scratch := m\<rparr>);
          if rc \<noteq> 0 then Some (False, 0, 9, fw)
          else do {
            (total, bps) \<leftarrow> drp_totals (scratch fw);
            Some (True, total,
              (if bps \<noteq> 0 \<and> bps AND (bps - 1) = 0 \<and> 512 \<le> bps \<and> bps \<le> 16384
               then sector_log2 0 (unat bps) else 9), fw) } }"
  have "\<exists>lba total log fw2. ?probe = Some (lba, total, log, fw2) \<and> length (scratch fw2) = length (scratch fw)"
  proof (cases "v = 0")
    case False
    obtain m where m: "poke (scratch fw1) 0 (le_bytes 2 (90 :: u16) @ replicate 88 0) = Some m"
        "length m = length (scratch fw)"
      using l l1 by (simp add: poke_def)
    obtain rc fw2 where 2: "biosdisk_get_diskinfo_int13_ext int13 drv SCRATCH_ADDR (fw1\<lparr>scratch := m\<rparr>) = (rc, fw2)"
      by (cases "biosdisk_get_diskinfo_int13_ext int13 drv SCRATCH_ADDR (fw1\<lparr>scratch := m\<rparr>)")
    have l2: "length (scratch fw2) = length (scratch fw)"
      using keeps_real [OF k 2 [unfolded biosdisk_get_diskinfo_int13_ext_def]] m(2) by simp
    obtain total bps where "drp_totals (scratch fw2) = Some (total, bps)"
      using drp_totals_some [of "scratch fw2"] l l2 by auto
    then show ?thesis using False m(1) 2 l2 by (cases "rc = 0") auto
  qed (auto simp: l1)
  then obtain lba total log fw2 where p: "?probe = Some (lba, total, log, fw2)" "length (scratch fw2) = length (scratch fw)"
    by blast
  obtain rc g fw3 where 3: "biosdisk_get_diskinfo_std int13 drv ?none fw2 = (rc, g, fw3)"
    by (cases "biosdisk_get_diskinfo_std int13 drv ?none fw2")
  have l3: "length (scratch fw3) = length (scratch fw)" using keeps_std [OF k 3] p(2) by simp
  show ?thesis
    unfolding biosdisk_fill_data_def Let_def 1 case_prod_conv p(1) [unfolded Let_def] Option.bind.simps 3
    using l3 by (auto split: option.splits)
qed

interpretation biosdisk: sector_disk "biosdisk_reader int13 d fw" for int13 :: "'w int13" and d fw
proof
  fix lba n bs
  assume "biosdisk_reader int13 d fw lba n = Some bs"
  then obtain d' fw' where "biosdisk_read int13 d fw lba n = Some (Some bs, d', fw')"
    by (auto simp: biosdisk_reader_def split: option.splits)
  then show "length bs = n"
    by (auto simp: biosdisk_read_def bind_eq_Some_conv split: if_splits dest: peek_length)
qed

text \<open>One drive: no fault, and the walk goes on to the next drive or ends.\<close>

lemma drive_pass_some:
  assumes k: "keeps_scratch int13" and l: "90 \<le> length (scratch fw)" and a: "search_args args"
  shows "\<exists>r. drive_pass fuel debug int13 (drv, args, fw) = Some r \<and>
    (\<forall>drv' args' fw'. r = Inl (drv', args', fw') \<longrightarrow>
       drv < 0x90 \<and> drv' = drv + 1 \<and> args' = args \<and> 90 \<le> length (scratch fw'))"
proof (cases "drv \<ge> 0x90")
  case True
  then show ?thesis by (simp add: drive_pass_def)
next
  case False
  obtain rc fw1 where 1: "biosdisk_rw_std int13 2 drv 0 0 1 1 SCRATCH_SEG fw = (rc, fw1)"
    by (cases "biosdisk_rw_std int13 2 drv 0 0 1 1 SCRATCH_SEG fw")
  have l1: "90 \<le> length (scratch fw1)" using keeps_tries [OF k 1 [unfolded biosdisk_rw_std_def]] l by simp
  obtain d fw2 where 2: "biosdisk_fill_data int13 drv fw1 = Some (d, fw2)" "90 \<le> length (scratch fw2)"
    using fill_data_some [OF k l1] l1 by metis
  note run = drive_pass_def case_prod_conv if_not_P [OF False] Let_def 1 2(1) Option.bind.simps
  show ?thesis
  proof (cases "rc \<noteq> 0 \<or> d = None")
    case True
    then show ?thesis unfolding run using False 2(2) by (cases "rc = 0") auto
  next
    case go: False
    then obtain d' where d': "d = Some d'" and rc: "\<not> rc \<noteq> 0" by blast
    let ?disk = "biosdisk_reader int13 d' fw2"
    have b: "build_sizes type_sizes_ilp32" by (simp add: build_sizes_def)
    obtain r where r: "check_msdos_partmap fuel debug type_sizes_ilp32 ?disk args = Some r"
        "mbr_outcome ?disk args r"
      using biosdisk.check_mbr_outcome [OF b a] unfolding check_msdos_partmap_def by blast
    obtain found args2 where q: "check_gpt_partmap type_sizes_ilp32 ?disk args = Some (found, args2)"
        "\<not> found \<longrightarrow> args2 = args"
      using biosdisk.gpt_partmap_total [OF b a] by blast
    note run' = run if_not_P [OF rc] d' option.case r(1)
    show ?thesis
    proof (cases r)
      case (Inl u)
      then show ?thesis unfolding run' by simp
    next
      case (Inr x)
      obtain found1 n args1 where x: "x = (found1, n, args1)" by (cases x)
      show ?thesis
      proof (cases found1)
        case True
        then show ?thesis unfolding run' Inr x by simp
      next
        case no: False
        then have a1: "args1 = args" using r(2) Inr x by (simp add: mbr_outcome_def)
        show ?thesis unfolding run' Inr x a1 using no False q 2(2) by auto
      qed
    qed
  qed
qed

lemma disk_walk_safe:
  assumes "keeps_scratch int13" and "90 \<le> length (scratch fw)" and "search_args args"
  shows "\<exists>r. biosdisk_iterate fuel debug int13 args fw = Some (Inr r)"
proof -
  have "\<exists>r. iterate n (drive_pass fuel debug int13) (drv, args, fw) = Some (Inr r)"
    if "90 \<le> length (scratch fw)" "0x90 - unat drv < n" for n drv fw
    using that
  proof (induction n arbitrary: drv fw)
    case (Suc n)
    obtain r where r: "drive_pass fuel debug int13 (drv, args, fw) = Some r"
        "\<And>drv' args' fw'. r = Inl (drv', args', fw') \<Longrightarrow>
          drv < 0x90 \<and> drv' = drv + 1 \<and> args' = args \<and> 90 \<le> length (scratch fw')"
      using drive_pass_some [OF assms(1) Suc.prems(1) assms(3)] by metis
    show ?case
    proof (cases r)
      case (Inl s)
      obtain drv' args' fw' where s: "s = (drv', args', fw')" by (cases s)
      note next_drive = r(2) [OF Inl [unfolded s]]
      then have "unat drv < 0x90" by (simp add: word_less_nat_alt)
      then have "unat (drv + 1) = unat drv + 1" by (simp add: unat_word_ariths)
      then have "\<exists>r. iterate n (drive_pass fuel debug int13) (drv + 1, args, fw') = Some (Inr r)"
        using next_drive Suc.prems(2) \<open>unat drv < 0x90\<close> by (intro Suc.IH) simp_all
      then show ?thesis using r(1) Inl s next_drive by simp
    qed (use r(1) in simp)
  qed simp
  from this [of fw "0x80" 17] show ?thesis using assms(2) by (simp add: biosdisk_iterate_def)
qed


text \<open>A firmware without disks.\<close>

definition no_disks :: "unit int13" where
  "no_disks = (\<lambda>r fw. (r\<lparr>eax := 0x0100, carry := True\<rparr>, fw))"


theorem read_chs_request_witness:
  "\<exists>req. read_chs no_disks \<lparr>drive = 0x80, geom = \<lparr>cylinders = 1024, heads = 255, sectors_per_track = 63\<rparr>,
        lba_flag = False, total_sectors = 16450560, log_sector_size = 9\<rparr> 16450559 1 SCRATCH_SEG
        \<lparr>scratch = [], hidden = ()\<rparr> =
      Some (let (rc, fw) = rw_std_tries 3 no_disks req 0x80 0 \<lparr>scratch = [], hidden = ()\<rparr> in (rc = 0, fw)) \<and>
    addressed \<lparr>cylinders = 1024, heads = 255, sectors_per_track = 63\<rparr> req = 16450559"
  using read_chs_request [of "\<lparr>drive = 0x80, geom = \<lparr>cylinders = 1024, heads = 255, sectors_per_track = 63\<rparr>,
        lba_flag = False, total_sectors = 16450560, log_sector_size = 9\<rparr>" 16450559 no_disks 1 SCRATCH_SEG
        "\<lparr>scratch = [], hidden = ()\<rparr>"] by auto

end
