(* ===== verification/Int13Safe.thy ===== *)
theory Int13Safe
  imports Int13 BiosdiskSafe
begin

text \<open>
  What bootmgr sees of the interrupts: the sectors of the virtual disk on the emulated drive, the
  firmware's own answers everywhere else.
\<close>

section \<open>Whole sectors\<close>

lemma disk_sector_length:
  assumes "disk_files files cs"
  shows "length (disk_sector lp64 files cs t) = 512"
proof (cases "sector_builder t")
  case (Some b)
  consider "fixed_builder b" | "b = B_fat" | "b = B_dir_files" | "b = B_file"
    by (auto simp: fixed_builder_def)
  then show ?thesis
  proof cases
    case 1
    have "disk_sector lp64 files cs t = (case build lp64 files b t 1 of None \<Rightarrow> [] | Some d \<Rightarrow> d)"
      using 1 Some by (cases b) (simp_all add: disk_sector_def fixed_builder_def del: build.simps)
    then show ?thesis using fixed_sector [OF 1, of lp64 files t 1] by auto
  next
    case 2
    have "length (concat (map (\<lambda>c. le_bytes 4 (f c :: u32)) [k..<k + n])) = 4 * n" for f k n
      by (induction n) simp_all
    then show ?thesis using Some 2 by (simp add: disk_sector_def)
  next
    case 3
    then have "holds_file (files ! VDISK_FILE_DIRENT_IDX t) (cs ! VDISK_FILE_DIRENT_IDX t)"
      using assms dir_file_sectors [of t] Some by (simp add: disk_files_def)
    then show ?thesis using Some 3 file_entry_ok by (simp add: disk_sector_def)
  qed (use Some in \<open>simp add: disk_sector_def\<close>)
qed (simp add: disk_sector_def)

text \<open>The bytes of a range of sectors.\<close>

definition disk_image :: "bool \<Rightarrow> vfile list \<Rightarrow> bytes list \<Rightarrow> nat \<Rightarrow> nat \<Rightarrow> bytes" where
  "disk_image lp64 files cs lba count = concat (map (disk_sector lp64 files cs) [lba..<lba + count])"

lemma disk_image_length: "disk_files files cs \<Longrightarrow> length (disk_image lp64 files cs lba count) = 512 * count"
  unfolding disk_image_def by (induction count) (simp_all add: disk_sector_length)

text \<open>A range the disk can be read over: not empty, on the disk, and within one of its two areas.\<close>

definition sectors_ok :: "bool \<Rightarrow> nat \<Rightarrow> nat \<Rightarrow> bool" where
  "sectors_ok lp64 lba count \<longleftrightarrow> 0 < count \<and> count < 0x800000 \<and> lba + count \<le> readable lp64 \<and>
     (lba + count \<le> VDISK_FILE_COUNT \<or> VDISK_FILE_COUNT \<le> lba)"

lemma vdisk_read_sectors:
  assumes "disk_files files cs" and "sectors_ok lp64 lba count" and "count \<le> fuel"
  shows "vdisk_read fuel lp64 files lba count = Some (Inr (disk_image lp64 files cs lba count))"
  using vdisk_read_range [OF assms(1)] assms(2,3) by (simp add: sectors_ok_def disk_image_def)

section \<open>Reading the emulated drive\<close>

text \<open>A disk address packet in memory: count, buffer and first sector.\<close>

definition packet_at :: "bytes \<Rightarrow> nat \<Rightarrow> byte \<Rightarrow> nat \<Rightarrow> u64 \<Rightarrow> bool" where
  "packet_at m dap count buf lba \<longleftrightarrow> rd m (dap + 2) = Some count \<and> get64 m (dap + 8) = Some lba \<and>
     (\<exists>offset segment. get16 m (dap + 4) = Some offset \<and> get16 m (dap + 6) = Some segment \<and>
        buf = REAL_PTR (ucast segment) offset)"

text \<open>A call of a service of the emulated drive.\<close>

definition drive_call :: "u32 \<Rightarrow> byte \<Rightarrow> regs \<Rightarrow> bool" where
  "drive_call drv command r \<longleftrightarrow>
     interrupt r = 0x13 \<and> high8 (eax r) = command \<and> ucast (low8 (edx r)) = drv"

lemma extended_read_delivers:
  assumes "disk_files files cs" and "packet_at (low s) (REAL_PTR (ds r) (low16 (esi r))) count buf lba"
    and "sectors_ok lp64 (unat lba) (unat count)" and "unat count \<le> fuel"
    and "buf + 512 * unat count \<le> length (low s)"
  shows "\<exists>m. poke (low s) buf (disk_image lp64 files cs (unat lba) (unat count)) = Some m \<and>
    int13_extended_read fuel lp64 files r s = Some (Inr (r\<lparr>eax := set_high8 0 (eax r)\<rparr>, s\<lparr>low := m\<rparr>))"
proof -
  let ?image = "disk_image lp64 files cs (unat lba) (unat count)"
  obtain m where m: "poke (low s) buf ?image = Some m"
    using assms(5) disk_image_length [OF assms(1)] by (auto simp: poke_def)
  then show ?thesis
    using assms(2) vdisk_read_sectors [OF assms(1,3,4)]
    by (auto simp: int13_extended_read_def packet_at_def Let_def)
qed

lemma wrapper_emulates:
  "interrupt r = 0x13 \<Longrightarrow>
   call_interrupt_wrapper fuel lp64 files bios drv args pdpt_addr state m r s =
     map_option (map_sum id (\<lambda>(r, s). (m, r, s))) (emulate_int13 fuel lp64 files bios drv r s)"
  using paging_restored [of pdpt_addr m state]
  by (cases "enable_paging pdpt_addr m state") (simp add: call_interrupt_wrapper_def)

lemma high8_set_high8 [simp]: "high8 (set_high8 b w) = b"
proof -
  have m: "(0xff00 :: u32) = push_bit 8 (mask 8)" by (simp add: mask_eq_exp_minus_1 push_bit_eq_mult)
  show ?thesis
    unfolding high8_def set_high8_def m by (rule bit_word_eqI) (auto simp: bit_simps dest: bit_imp_le_length)
qed


section \<open>Everything else\<close>

lemma low8_set_low8: "low8 (set_low8 b w) = b" "drop_bit 8 (set_low8 b w) = drop_bit 8 w"
  unfolding low8_def set_low8_def field_masks
  by (rule bit_word_eqI; auto simp: bit_simps dest: bit_imp_le_length)+

lemma unat_min_num_drives:
  assumes "0x80 \<le> unat drv" and "unat drv < 0x100"
  shows "unat (min_num_drives drv) = unat drv - 0x7f"
proof -
  have "(0x7f :: u32) = mask 7" by (simp add: mask_eq_exp_minus_1)
  then have "unat (drv AND 0x7f) = unat drv mod 128" using unat_and_mask [of drv 7] by simp
  also have "unat drv mod 128 = unat drv - 128" using assms by (simp add: mod_if)
  finally show ?thesis using assms by (simp add: min_num_drives_def unat_word_ariths)
qed

lemma unat_ucast_byte: "unat (ucast (b :: byte) :: u32) = unat b"
  using unat_bound [of b] by (simp add: unsigned_ucast_eq take_bit_nat_eq_self)

lemma unat_to_byte: "unat (w :: u32) < 0x100 \<Longrightarrow> unat (ucast w :: byte) = unat w"
  by (simp add: unsigned_ucast_eq take_bit_nat_eq_self)

lemma same_edx: "r\<lparr>edx := edx r\<rparr> = r"
  by simp


section \<open>A first drive\<close>

text \<open>A machine, a packet that asks for the first sector behind the boot records, and the call.\<close>

definition plain_machine :: machine where
  "plain_machine = \<lparr>paging = True, pdpt = [], pd = [], cpu = \<lparr>cr0 = 0x11, cr3 = 0, cr4 = 0\<rparr>, mem = (\<lambda>_. 0)\<rparr>"

definition packet_memory :: bytes where
  "packet_memory = [16, 0, 1, 0, 32, 0, 0, 0, 0, 0, 0x80, 0, 0, 0, 0, 0] @ replicate 528 0"

definition drive_regs :: "byte \<Rightarrow> regs" where
  "drive_regs command = no_regs\<lparr>interrupt := 0x13, eax := push_bit 8 (ucast command), edx := 0x80\<rparr>"

definition other_drive :: "unit real_int" where
  "other_drive = (\<lambda>r s. (r\<lparr>eax := 0, edx := 0x0f01\<rparr>, s))"

lemma drive_regs_call: "drive_call 0x80 command (drive_regs command)"
proof -
  have "high8 (push_bit 8 (ucast command)) = command"
    unfolding high8_def by (rule bit_word_eqI) (auto simp: bit_simps dest: bit_imp_le_length)
  then show ?thesis by (simp add: drive_call_def drive_regs_def low8_def)
qed


lemma packet_memory_at: "packet_at packet_memory 0 1 32 0x800000"
proof -
  have "rd packet_memory 2 = Some 1" "get16 packet_memory 4 = Some 32" "get16 packet_memory 6 = Some 0"
      "get64 packet_memory 8 = Some 0x800000"
    by (simp_all add: packet_memory_def rd_def get16_def get64_def peek_def eval_simps)
  then show ?thesis unfolding packet_at_def REAL_PTR_def add_0 by simp
qed


end
