(* ===== verification/EfiDisk.thy ===== *)
theory EfiDisk
  imports PartitionSafe
begin

text \<open>
  The EFI build's disks (\<^verbatim>\<open>disk/efidisk.c\<close>): device paths in the firmware's memory, their comparison,
  the parent of a device, the sorted lists of hard disks and CD-ROMs, and the search over them.
\<close>

section \<open>Device paths\<close>

text \<open>
  A device path is the address of its first node in a memory, and zero is \<^verbatim>\<open>NULL\<close>. A node is its type,
  its subtype, its length in two bytes, and data; an access out of the memory is a fault.
\<close>

definition MEDIA_DEVICE_PATH :: byte where "MEDIA_DEVICE_PATH = 4"
definition MEDIA_HARDDRIVE_DP :: byte where "MEDIA_HARDDRIVE_DP = 1"
definition MEDIA_CDROM_DP :: byte where "MEDIA_CDROM_DP = 2"
definition MEDIA_VENDOR_DP :: byte where "MEDIA_VENDOR_DP = 3"
definition ACPI_DEVICE_PATH :: byte where "ACPI_DEVICE_PATH = 2"
definition ACPI_DP :: byte where "ACPI_DP = 1"
definition END_DEVICE_PATH_TYPE :: byte where "END_DEVICE_PATH_TYPE = 0x7f"
definition END_ENTIRE_DEVICE_PATH_SUBTYPE :: byte where "END_ENTIRE_DEVICE_PATH_SUBTYPE = 0xff"

definition DP_TYPE :: "bytes \<Rightarrow> nat \<Rightarrow> byte option" where
  "DP_TYPE m dp = map_option (\<lambda>b. b AND 0x7f) (rd m dp)"

definition DP_SUBTYPE :: "bytes \<Rightarrow> nat \<Rightarrow> byte option" where
  "DP_SUBTYPE m dp = rd m (dp + 1)"

definition DP_LENGTH :: "bytes \<Rightarrow> nat \<Rightarrow> nat option" where
  "DP_LENGTH m dp = do {
     l1 \<leftarrow> rd m (dp + 3);
     l0 \<leftarrow> rd m (dp + 2);
     Some (unat (push_bit 8 (ucast l1) OR ucast l0 :: u16)) }"

definition DP_VALID :: "bytes \<Rightarrow> nat \<Rightarrow> bool option" where
  "DP_VALID m dp = (if dp = 0 then Some False else map_option (\<lambda>n. n \<ge> 4) (DP_LENGTH m dp))"

definition END_ENTIRE_DP :: "bytes \<Rightarrow> nat \<Rightarrow> bool option" where
  "END_ENTIRE_DP m dp = do {
     v \<leftarrow> DP_VALID m dp;
     if \<not> v then Some True
     else do {
       t \<leftarrow> DP_TYPE m dp;
       if t \<noteq> END_DEVICE_PATH_TYPE then Some False
       else map_option (\<lambda>s. s = END_ENTIRE_DEVICE_PATH_SUBTYPE) (DP_SUBTYPE m dp) } }"

definition NEXT_DP :: "bytes \<Rightarrow> nat \<Rightarrow> nat option" where
  "NEXT_DP m dp = do {
     v \<leftarrow> DP_VALID m dp;
     if v then map_option (\<lambda>n. dp + n) (DP_LENGTH m dp) else Some 0 }"

text \<open>
  The loops walk forward through the memory: a walk over more nodes than the memory has bytes would
  leave it, so the fuel \<open>length m\<close> is never used up.
\<close>

fun last_node :: "nat \<Rightarrow> bytes \<Rightarrow> nat \<Rightarrow> nat \<Rightarrow> nat option" where
  "last_node 0 m p nxt = None"
| "last_node (Suc fuel) m p nxt = do {
     e \<leftarrow> END_ENTIRE_DP m nxt;
     if e then Some p
     else do {
       nxt' \<leftarrow> NEXT_DP m nxt;
       last_node fuel m nxt nxt' } }"

definition find_last_device_path :: "bytes \<Rightarrow> nat \<Rightarrow> nat option" where
  "find_last_device_path m dp = do {
     e \<leftarrow> END_ENTIRE_DP m dp;
     if e then Some 0
     else do {
       nxt \<leftarrow> NEXT_DP m dp;
       last_node (Suc (length m)) m dp nxt } }"

fun compare_nodes :: "nat \<Rightarrow> bytes \<Rightarrow> nat \<Rightarrow> nat \<Rightarrow> int option" where
  "compare_nodes 0 m dp1 dp2 = None"
| "compare_nodes (Suc fuel) m dp1 dp2 = do {
     v1 \<leftarrow> DP_VALID m dp1;
     v2 \<leftarrow> DP_VALID m dp2;
     if v1 \<and> v2 then do {
       type1 \<leftarrow> DP_TYPE m dp1;
       type2 \<leftarrow> DP_TYPE m dp2;
       if type1 \<noteq> type2 then Some (uint type2 - uint type1)
       else do {
         subtype1 \<leftarrow> DP_SUBTYPE m dp1;
         subtype2 \<leftarrow> DP_SUBTYPE m dp2;
         if subtype1 \<noteq> subtype2 then Some (uint subtype1 - uint subtype2)
         else do {
           len1 \<leftarrow> DP_LENGTH m dp1;
           len2 \<leftarrow> DP_LENGTH m dp2;
           if len1 \<noteq> len2 then Some (int len1 - int len2)
           else do {
             ret \<leftarrow> memcmp (drop dp1 m) (drop dp2 m) len1;
             if ret \<noteq> 0 then Some ret
             else do {
               e \<leftarrow> END_ENTIRE_DP m dp1;
               if e then Some 0 else compare_nodes fuel m (dp1 + len1) (dp2 + len2) } } } } }
     else if v1 then Some 1
     else if v2 then Some (-1)
     else Some 0 }"

definition compare_device_paths :: "bytes \<Rightarrow> nat \<Rightarrow> nat \<Rightarrow> int option" where
  "compare_device_paths m dp1 dp2 =
     (if dp1 = 0 \<or> dp2 = 0 then Some 1
      else if dp1 = dp2 then Some 0
      else compare_nodes (Suc (length m)) m dp1 dp2)"

text \<open>
  A duplicate is allocated behind all memory used so far; the result is the new memory and the
  address, zero for a malformed path.
\<close>

fun total_size :: "nat \<Rightarrow> bytes \<Rightarrow> nat \<Rightarrow> nat \<Rightarrow> nat option option" where
  "total_size 0 m p acc = None"
| "total_size (Suc fuel) m p acc = do {
     len \<leftarrow> DP_LENGTH m p;
     if len < 4 then Some None
     else do {
       e \<leftarrow> END_ENTIRE_DP m p;
       if e then Some (Some (acc + len))
       else do {
         p \<leftarrow> NEXT_DP m p;
         total_size fuel m p (acc + len) } } }"

definition duplicate_device_path :: "bytes \<Rightarrow> nat \<Rightarrow> (bytes \<times> nat) option" where
  "duplicate_device_path m dp = do {
     t \<leftarrow> total_size (Suc (length m)) m dp 0;
     (case t of
        None \<Rightarrow> Some (m, 0)
      | Some n \<Rightarrow> do {
          copy \<leftarrow> peek m dp n;
          Some (m @ copy, length m) }) }"

section \<open>Devices\<close>

text \<open>
  A block device: its handle, its path and the path's last node, and its media. A pointer to a
  device of a list is its position.
\<close>

record efi_media =
  MediaId :: u32
  BlockSize :: u32
  ReadOnly :: bool

record efidisk_data =
  disk_handle :: nat
  dp :: nat
  ldp :: nat
  media :: efi_media

text \<open>
  What the firmware offers: \<^verbatim>\<open>LocateHandle\<close> for a size of the buffer (the status, the size and the
  handles), and the protocols of a handle, as far as they are present.
\<close>

record efi_firmware =
  LocateHandle :: "nat \<Rightarrow> u64 \<times> nat \<times> nat list"
  device_path_of :: "nat \<Rightarrow> nat"
  media_of :: "nat \<Rightarrow> efi_media option"

definition EFI_BUFFER_TOO_SMALL :: u64 where "EFI_BUFFER_TOO_SMALL = 0x8000000000000005"

text \<open>The buffer is freed after a failure, but its address is returned all the same: \<open>None\<close>.\<close>

definition locate_handle :: "efi_firmware \<Rightarrow> nat list option \<times> nat" where
  "locate_handle fw =
     (let (status, n, hs) = LocateHandle fw (8 * 8);
          (status, n, hs) = (if status = EFI_BUFFER_TOO_SMALL then LocateHandle fw n else (status, n, hs))
      in (if status \<noteq> 0 then None else Some hs, n div 8))"

fun make_device_list :: "efi_firmware \<Rightarrow> bytes \<Rightarrow> nat list \<Rightarrow> efidisk_data list \<Rightarrow> efidisk_data list option" where
  "make_device_list fw m [] devices = Some devices"
| "make_device_list fw m (h # hs) devices =
     (let dp = device_path_of fw h
      in if dp = 0 then make_device_list fw m hs devices
         else do {
           ldp \<leftarrow> find_last_device_path m dp;
           if ldp = 0 then make_device_list fw m hs devices
           else (case media_of fw h of
               None \<Rightarrow> make_device_list fw m hs devices
             | Some md \<Rightarrow>
                 if MediaId md = 0x69505845 \<and> BlockSize md = 1 then make_device_list fw m hs devices
                 else if BlockSize md AND (BlockSize md - 1) \<noteq> 0 \<or> BlockSize md < 512
                 then make_device_list fw m hs devices
                 else make_device_list fw m hs
                   (\<lparr>disk_handle = h, dp = dp, ldp = ldp, media = md\<rparr> # devices)) })"

definition make_devices :: "efi_firmware \<Rightarrow> bytes \<Rightarrow> efidisk_data list option" where
  "make_devices fw m =
     (let (handles, num_handles) = locate_handle fw
      in case handles of
           None \<Rightarrow> if num_handles = 0 then Some [] else None
         | Some hs \<Rightarrow> if num_handles \<le> length hs then make_device_list fw m (take num_handles hs) [] else None)"

text \<open>The parent: the first other device whose path is this one's without the last node.\<close>

fun parent_from :: "bytes \<Rightarrow> efidisk_data list \<Rightarrow> nat \<Rightarrow> nat \<Rightarrow> nat \<Rightarrow> nat option option" where
  "parent_from m [] i d p = Some None"
| "parent_from m (parent # devices) i d p =
     (if i = d then parent_from m devices (Suc i) d p
      else do {
        c \<leftarrow> compare_device_paths m (dp parent) p;
        if c = 0 then Some (Some i) else parent_from m devices (Suc i) d p })"

definition find_parent_device :: "bytes \<Rightarrow> efidisk_data list \<Rightarrow> nat \<Rightarrow> nat option option" where
  "find_parent_device m devices d = do {
     dev \<leftarrow> rd devices d;
     (m, p) \<leftarrow> duplicate_device_path m (dp dev);
     if p = 0 then Some None
     else do {
       l \<leftarrow> find_last_device_path m p;
       if l = 0 then Some None
       else do {
         m \<leftarrow> poke m l [END_DEVICE_PATH_TYPE, END_ENTIRE_DEVICE_PATH_SUBTYPE, 4, 0];
         parent_from m devices 0 d p } } }"

definition device_order :: "bytes \<Rightarrow> efidisk_data \<Rightarrow> efidisk_data \<Rightarrow> int option" where
  "device_order m p d = do {
     lp \<leftarrow> find_last_device_path m (dp p);
     ld \<leftarrow> find_last_device_path m (dp d);
     ret \<leftarrow> compare_device_paths m lp ld;
     if ret = 0 then compare_device_paths m (dp p) (dp d) else Some ret }"

fun add_device :: "bytes \<Rightarrow> efidisk_data \<Rightarrow> efidisk_data list \<Rightarrow> efidisk_data list option" where
  "add_device m d [] = Some [d]"
| "add_device m d (p # devices) = do {
     ret \<leftarrow> device_order m p d;
     if ret = 0 then Some (p # devices)
     else if ret > 0 then Some (d # p # devices)
     else map_option ((#) p) (add_device m d devices) }"

section \<open>The disks\<close>

text \<open>The lists the program keeps: hard disks and CD-ROMs; the list of floppies is never filled.\<close>

record efi_disks =
  efi_hd :: "efidisk_data list"
  efi_cd :: "efidisk_data list"

type_synonym naming = "efidisk_data list \<times> efi_disks"

definition mark_used :: "nat \<Rightarrow> efidisk_data list \<Rightarrow> efidisk_data list" where
  "mark_used i devices = devices[i := (devices ! i)\<lparr>ldp := 0\<rparr>]"

definition add_hd :: "bytes \<Rightarrow> efidisk_data \<Rightarrow> efi_disks \<Rightarrow> efi_disks option" where
  "add_hd m d ds = map_option (\<lambda>l. ds\<lparr>efi_hd := l\<rparr>) (add_device m d (efi_hd ds))"

definition add_cd :: "bytes \<Rightarrow> efidisk_data \<Rightarrow> efi_disks \<Rightarrow> efi_disks option" where
  "add_cd m d ds = map_option (\<lambda>l. ds\<lparr>efi_cd := l\<rparr>) (add_device m d (efi_cd ds))"

text \<open>First pass: a partition makes its parent a disk.\<close>

definition name_by_media :: "bytes \<Rightarrow> nat \<Rightarrow> naming \<Rightarrow> naming option" where
  "name_by_media m i = (\<lambda>(devices, ds). do {
     d \<leftarrow> rd devices i;
     if ldp d = 0 then Some (devices, ds)
     else do {
       type \<leftarrow> DP_TYPE m (ldp d);
       if type \<noteq> MEDIA_DEVICE_PATH then Some (devices, ds)
       else do {
         subtype \<leftarrow> DP_SUBTYPE m (ldp d);
         if subtype \<noteq> MEDIA_HARDDRIVE_DP \<and> subtype \<noteq> MEDIA_CDROM_DP then Some (devices, ds)
         else do {
           parent \<leftarrow> find_parent_device m devices i;
           (case parent of
              None \<Rightarrow> Some (devices, ds)
            | Some j \<Rightarrow> do {
                parent2 \<leftarrow> find_parent_device m devices j;
                p \<leftarrow> rd devices j;
                if parent2 \<noteq> None then Some (mark_used i devices, ds)
                else if ldp p = 0 then Some (mark_used i devices, ds)
                else do {
                  ds \<leftarrow> (if subtype = MEDIA_HARDDRIVE_DP then add_hd m p ds else add_cd m p ds);
                  Some (mark_used i (mark_used j devices), ds) } }) } } } })"

text \<open>\<^verbatim>\<open>VENDOR_DEVICE_PATH\<close> has 20 bytes, the GUID behind the header of four.\<close>

definition EFI_VENDOR_APPLE_GUID :: bytes where
  "EFI_VENDOR_APPLE_GUID =
     [0xeb, 0x85, 0x05, 0x2b, 0xb8, 0xd8, 0xa9, 0x49, 0x8b, 0x8c, 0xe2, 0x1b, 0x01, 0xae, 0xf2, 0xb7]"

definition is_apple_ghost :: "bytes \<Rightarrow> efidisk_data list \<Rightarrow> nat \<Rightarrow> nat \<Rightarrow> bool option" where
  "is_apple_ghost m devices i l = do {
     type \<leftarrow> DP_TYPE m l;
     subtype \<leftarrow> DP_SUBTYPE m l;
     if type = MEDIA_DEVICE_PATH \<and> subtype = MEDIA_VENDOR_DP then do {
       len \<leftarrow> DP_LENGTH m l;
       if len \<noteq> 20 then Some False
       else do {
         c \<leftarrow> memcmp (drop (l + 4) m) EFI_VENDOR_APPLE_GUID 16;
         if c \<noteq> 0 then Some False else map_option (\<lambda>p. p \<noteq> None) (find_parent_device m devices i) } }
     else Some False }"

definition is_floppy :: "bytes \<Rightarrow> nat \<Rightarrow> bool option" where
  "is_floppy m l = do {
     type \<leftarrow> DP_TYPE m l;
     subtype \<leftarrow> DP_SUBTYPE m l;
     if type = ACPI_DEVICE_PATH \<and> subtype = ACPI_DP
     then map_option (\<lambda>h. h = 0x60441d0 \<or> h = 0x70041d0 \<or> h = 0x70141d1) (get32 m (l + 4))
     else Some False }"

text \<open>Second pass: what is left, unless it is a ghost.\<close>

definition name_by_kind :: "bytes \<Rightarrow> nat \<Rightarrow> naming \<Rightarrow> naming option" where
  "name_by_kind m i = (\<lambda>(devices, ds). do {
     d \<leftarrow> rd devices i;
     if ldp d = 0 then Some (devices, ds)
     else do {
       ghost \<leftarrow> is_apple_ghost m devices i (ldp d);
       if ghost then Some (devices, ds)
       else do {
         floppy \<leftarrow> is_floppy m (ldp d);
         ds \<leftarrow> (if floppy then add_hd m d ds
                else if ReadOnly (media d) \<and> BlockSize (media d) > 512 then add_cd m d ds
                else add_hd m d ds);
         Some (devices, ds) } } })"

fun each_device :: "(nat \<Rightarrow> naming \<Rightarrow> naming option) \<Rightarrow> nat list \<Rightarrow> naming \<Rightarrow> naming option" where
  "each_device f [] s = Some s"
| "each_device f (i # is) s = do { s \<leftarrow> f i s; each_device f is s }"

definition name_devices :: "bytes \<Rightarrow> efidisk_data list \<Rightarrow> efi_disks \<Rightarrow> efi_disks option" where
  "name_devices m devices ds = do {
     (devices, ds) \<leftarrow> each_device (name_by_media m) [0..<length devices] (devices, ds);
     (devices, ds) \<leftarrow> each_device (name_by_kind m) [0..<length devices] (devices, ds);
     Some ds }"

definition efidisk_init :: "efi_firmware \<Rightarrow> bytes \<Rightarrow> efi_disks \<Rightarrow> efi_disks option" where
  "efidisk_init fw m ds = do {
     devices \<leftarrow> make_devices fw m;
     if devices = [] then Some ds else name_devices m devices ds }"

section \<open>Reading and searching\<close>

text \<open>
  \<^verbatim>\<open>ReadBlocks\<close> of a device is the firmware's: from a block, for a size, the data if it succeeds. Whole
  pages are read.
\<close>

type_synonym read_blocks = "nat \<Rightarrow> u64 \<Rightarrow> nat \<Rightarrow> bytes option"

definition efidisk_read :: "read_blocks \<Rightarrow> efidisk_data \<Rightarrow> disk_reader" where
  "efidisk_read ReadBlocks d sector len =
     (let pages = (len + 0xfff) div 2 ^ 12
      in case ReadBlocks (disk_handle d) sector (pages * 2 ^ 12) of
           Some mem \<Rightarrow> peek mem 0 len
         | None \<Rightarrow> None)"

text \<open>The name given to a disk is for messages only.\<close>

fun efidisk_iterate ::
  "nat \<Rightarrow> bool \<Rightarrow> read_blocks \<Rightarrow> efidisk_data list \<Rightarrow> nt_args \<Rightarrow> (unit + nt_args) option" where
  "efidisk_iterate fuel debug ReadBlocks [] args = Some (Inr args)"
| "efidisk_iterate fuel debug ReadBlocks (d # ds) args = do {
     let disk = efidisk_read ReadBlocks d;
     r \<leftarrow> check_msdos_partmap fuel debug type_sizes_lp64 disk args;
     (case r of
        Inl _ \<Rightarrow> Some (Inl ())
      | Inr (found, _, args) \<Rightarrow>
          if found then Some (Inr args)
          else do {
            (found, args) \<leftarrow> check_gpt_partmap type_sizes_lp64 disk args;
            if found then Some (Inr args) else efidisk_iterate fuel debug ReadBlocks ds args }) }"

end
