(* ===== verification/Cpio.thy ===== *)
theory Cpio
  imports CString
begin

text \<open>
  The archive reader of \<^verbatim>\<open>libnt/cpio.c\<close>.

  The memory that holds the archive is a list of bytes and a pointer into it is a word, its
  offset; \<open>'w\<close> is the width of \<^verbatim>\<open>size_t\<close>, \<^verbatim>\<open>unsigned long\<close> and of pointers, so that pointer
  and length arithmetic wraps as it does in the 32-bit BIOS build and in the 64-bit EFI
  builds. The file handler is a parameter over a state of the client's: it is given the
  memory, the two pointers and the length, and returns its status.
\<close>

section \<open>The reader\<close>

definition cpio_align :: "'w::len word \<Rightarrow> 'w word" where
  "cpio_align len = (len + 3) AND NOT 3"

definition cpio_value :: "bytes \<Rightarrow> 'w::len word \<Rightarrow> 'w word option" where
  "cpio_value m field = do {
     f \<leftarrow> peek m (unat field) 8;
     (v, _) \<leftarrow> strtoul (f @ [0]) 16;
     Some v }"

text \<open>\<^verbatim>\<open>struct cpio_header\<close>: its size and the offsets of the fields the reader uses.\<close>

definition cpio_header_size :: nat where "cpio_header_size = 110"
definition c_filesize :: nat where "c_filesize = 54"
definition c_namesize :: nat where "c_namesize = 94"

definition CPIO_MAGIC :: bytes where
  "CPIO_MAGIC = [0x30, 0x37, 0x30, 0x37, 0x30, 0x31]"

definition CPIO_TRAILER :: bytes where
  "CPIO_TRAILER = [0x54, 0x52, 0x41, 0x49, 0x4C, 0x45, 0x52, 0x21, 0x21, 0x21]"

function skip_padding :: "bytes \<Rightarrow> 'w::len word \<Rightarrow> nat \<Rightarrow> ('w word \<times> nat) option" where
  "skip_padding m data len =
     (if len \<ge> 4 then do {
        pad \<leftarrow> get32 m (unat data);
        if pad \<noteq> 0 then Some (data, len) else skip_padding m (data + 4) (len - 4) }
      else Some (data, len))"
  by pat_completeness auto
termination
  by (relation "measure (\<lambda>(_, _, len). len)") auto

declare skip_padding.simps [simp del]

type_synonym ('w, 's) file_handler =
  "bytes \<Rightarrow> 'w word \<Rightarrow> 'w word \<Rightarrow> 'w word \<Rightarrow> 's \<Rightarrow> ('s \<times> int) option"

text \<open>
  One pass of the \<^verbatim>\<open>while (1)\<close>: the loop goes round with \<^verbatim>\<open>data\<close>, \<^verbatim>\<open>len\<close> and the client's
  state, or returns the status with the client's state.
\<close>

definition cpio_pass ::
  "('w::len, 's) file_handler \<Rightarrow> bytes \<Rightarrow> 'w word \<times> 'w word \<times> 's
     \<Rightarrow> (('w word \<times> 'w word \<times> 's) + ('s \<times> int)) option" where
  "cpio_pass file m = (\<lambda>(data, len, s). do {
     (data, n) \<leftarrow> skip_padding m data (unat len);
     let len = (of_nat n :: 'w word);
     if len = 0 then Some (Inr (s, 0))
     else if unat len < cpio_header_size then Some (Inr (s, -1))
     else do {
       c_magic \<leftarrow> peek m (unat data) 6;
       diff \<leftarrow> memcmp c_magic CPIO_MAGIC 6;
       if diff \<noteq> 0 then Some (Inr (s, -1))
       else do {
         let file_name = data + of_nat cpio_header_size;
         file_name_len \<leftarrow> cpio_value m (data + of_nat c_namesize);
         let file_data = data + cpio_align (of_nat cpio_header_size + file_name_len);
         file_len \<leftarrow> cpio_value m (data + of_nat c_filesize);
         let cpio_len = file_data + file_len - data;
         let cpio_len = (if cpio_len < len then cpio_align cpio_len else cpio_len);
         if cpio_len > len then Some (Inr (s, -1))
         else do {
           cmp \<leftarrow> strcmp (drop (unat file_name) m) (CPIO_TRAILER @ [0]);
           if cmp = 0 then Some (Inr (s, 0))
           else do {
             (s, rc) \<leftarrow> file m file_name file_data file_len s;
             if rc \<noteq> 0 then Some (Inr (s, rc))
             else Some (Inl (data + cpio_len, len - cpio_len, s)) } } } } })"

definition cpio_extract ::
  "nat \<Rightarrow> ('w::len, 's) file_handler \<Rightarrow> bytes \<Rightarrow> 'w word \<Rightarrow> 'w word \<Rightarrow> 's
     \<Rightarrow> (('w word \<times> 'w word \<times> 's) + ('s \<times> int)) option" where
  "cpio_extract fuel file m data len s = iterate fuel (cpio_pass file m) (data, len, s)"

section \<open>Alignment\<close>

definition align4 :: "nat \<Rightarrow> nat" where
  "align4 n = (n + 3) div 4 * 4"

lemma align4_bounds: "n \<le> align4 n" "align4 n \<le> n + 3" "align4 n mod 4 = 0"
  unfolding align4_def by presburger+

lemma cpio_align_of_nat:
  assumes "n + 3 < 2 ^ LENGTH('w)" and "2 \<le> LENGTH('w)"
  shows "cpio_align (of_nat n) = (of_nat (align4 n) :: 'w::len word)"
proof -
  have m: "(3 :: 'w word) = mask 2" by (simp add: mask_eq_exp_minus_1)
  have "unat (of_nat n + 3 :: 'w word) = n + 3"
    using unat_of_nat_small [OF assms(1)] by (simp add: add.commute)
  then have "unat (cpio_align (of_nat n) :: 'w word) = align4 n"
    unfolding cpio_align_def align4_def by (subst (2) m, subst unat_and_not_mask) simp
  then show ?thesis by (metis word_of_nat_unat)
qed

lemma skip_padding_stop:
  "get32 m (unat data) = Some pad \<Longrightarrow> pad \<noteq> 0 \<Longrightarrow> skip_padding m data len = Some (data, len)"
  by (simp add: skip_padding.simps)

section \<open>The interface to the client\<close>

text \<open>
  What \<^verbatim>\<open>cpio_extract\<close> promises its file handler, and what it expects of it: given a pointer
  to a terminated name and a pointer and length of content inside the memory, the handler
  does what \<open>spec\<close> says of the name and the content, in every state its invariant \<open>good\<close> admits,
  and keeps the invariant when it accepts the file.
\<close>

locale file_handler =
  fixes handler :: "('w::len, 's) file_handler"
    and spec :: "bytes \<Rightarrow> bytes \<Rightarrow> 's \<Rightarrow> 's \<times> int"
    and good :: "'s \<Rightarrow> bool"
  assumes handles:
    "good s \<Longrightarrow> no_nul nm \<Longrightarrow> peek m (unat np) (length nm + 1) = Some (nm @ [0]) \<Longrightarrow>
     peek m (unat dp) (unat len) = Some body \<Longrightarrow> handler m np dp len s = Some (spec nm body s)"
    and keeps: "good s \<Longrightarrow> no_nul nm \<Longrightarrow> spec nm body s = (s', 0) \<Longrightarrow> good s'"

text \<open>The client's status decides whether the next file is handed over.\<close>

fun run_files :: "(bytes \<Rightarrow> bytes \<Rightarrow> 's \<Rightarrow> 's \<times> int) \<Rightarrow> (bytes \<times> bytes) list \<Rightarrow> 's \<Rightarrow> 's \<times> int" where
  "run_files spec [] s = (s, 0)"
| "run_files spec ((nm, body) # fs) s =
     (let (s', rc) = spec nm body s in if rc \<noteq> 0 then (s', rc) else run_files spec fs s')"

text \<open>A client that records what it is given.\<close>

definition collect :: "('w::len, (bytes \<times> bytes) list) file_handler" where
  "collect m name data len s = do {
     nm \<leftarrow> until_nul (drop (unat name) m);
     body \<leftarrow> peek m (unat data) (unat len);
     Some (s @ [(nm, body)], 0) }"

definition collect_spec :: "bytes \<Rightarrow> bytes \<Rightarrow> (bytes \<times> bytes) list \<Rightarrow> (bytes \<times> bytes) list \<times> int" where
  "collect_spec nm body s = (s @ [(nm, body)], 0)"

lemma run_collect: "run_files collect_spec fs s = (s @ fs, 0)"
  by (induction fs arbitrary: s) (auto simp: collect_spec_def)

lemma peek_drop: "peek m p n = Some xs \<Longrightarrow> \<exists>y. drop p m = xs @ y \<and> length xs = n"
  by (auto simp: peek_def split: if_splits) (metis append_take_drop_id)

lemma collect_handles:
  assumes "no_nul nm" and "peek m (unat np) (length nm + 1) = Some (nm @ [0])"
    and "peek m (unat dp) (unat len) = Some body"
  shows "collect m np dp len s = Some (collect_spec nm body s)"
  using assms peek_drop [of m "unat np" "length nm + 1" "nm @ [0]"]
  by (auto simp: collect_def collect_spec_def until_nul_append)

interpretation collecting: file_handler collect collect_spec "\<lambda>_. True"
  by unfold_locales (simp_all add: collect_handles)

end
