(* ===== verification/Mkinitrd.thy ===== *)
theory Mkinitrd
  imports Cpio
begin

text \<open>
  The archive writer \<^verbatim>\<open>utils/mkinitrd.c\<close>.

  The output file is what was written and the room left on its medium, so that \<^verbatim>\<open>fwrite\<close> can
  come back short; an input file is its content and whether reading past it is an error
  rather than the end of the file. A directory is the list of its entries in the order
  \<^verbatim>\<open>readdir\<close> gives them.
\<close>

record ofile =
  written :: bytes
  room :: nat

record ifile =
  content :: bytes
  ferror :: bool

record dirent =
  d_name :: bytes
  st :: "(u32 \<times> u64) option"
  opened :: "ifile option"

definition fwrite :: "bytes \<Rightarrow> ofile \<Rightarrow> nat \<times> ofile" where
  "fwrite bs out =
     (let n = min (room out) (length bs)
      in (n, out\<lparr>written := written out @ take n bs, room := room out - n\<rparr>))"

definition fread :: "nat \<Rightarrow> ifile \<Rightarrow> bytes \<times> ifile" where
  "fread n inp = (take n (content inp), inp\<lparr>content := drop n (content inp)\<rparr>)"

definition hex :: "byte \<Rightarrow> byte" where
  "hex val = (if val < 10 then 0x30 + val else 0x61 + val - 10)"

definition set_field :: "u32 \<Rightarrow> bytes" where
  "set_field val = map (\<lambda>i. hex (ucast (drop_bit i val AND 0xF))) [28, 24, 20, 16, 12, 8, 4, 0]"

definition ALIGN_UP_OVERHEAD :: "u64 \<Rightarrow> u64 \<Rightarrow> u64" where
  "ALIGN_UP_OVERHEAD addr align = (- addr) AND (align - 1)"

text \<open>\<^verbatim>\<open>struct cpio_header\<close> as \<^verbatim>\<open>write_header\<close> fills it in.\<close>

definition cpio_header :: "u32 \<Rightarrow> u32 \<Rightarrow> u32 \<Rightarrow> bytes" where
  "cpio_header mode fsize len =
     CPIO_MAGIC @ set_field 0 @ set_field mode @ set_field 0 @ set_field 0 @ set_field 1
       @ set_field 0 @ set_field fsize @ set_field 0 @ set_field 0 @ set_field 0 @ set_field 0
       @ set_field len @ set_field 0"

definition write_header :: "bytes \<Rightarrow> u32 \<Rightarrow> u32 \<Rightarrow> ofile \<Rightarrow> (int \<times> ofile) option" where
  "write_header name mode fsize out = do {
     n \<leftarrow> strlen name;
     let len = (of_nat (n + 1) :: u32);
     let header = cpio_header mode fsize len;
     let (w, out) = fwrite header out;
     if w \<noteq> length header then Some (-1, out)
     else do {
       nm \<leftarrow> peek name 0 (unat len);
       let (w, out) = fwrite nm out;
       if w \<noteq> unat len then Some (-1, out)
       else do {
         let total = of_nat (length header) + ucast len;
         let pad = unat (ALIGN_UP_OVERHEAD total 4);
         let (w, out) = fwrite (replicate pad 0) out;
         if w \<noteq> pad then Some (-1, out) else Some (0, out) } } }"

function copy_loop :: "nat \<Rightarrow> ifile \<Rightarrow> ofile \<Rightarrow> int \<times> ifile \<times> ofile" where
  "copy_loop remaining inp out =
     (if remaining > 0 then
        (let to_read = (if remaining < 4096 then remaining else 4096);
             (buffer, inp) = fread to_read inp
         in if buffer = [] then (if ferror inp then (-1, inp, out) else (0, inp, out))
            else
              (let (w, out) = fwrite buffer out
               in if w \<noteq> length buffer then (-1, inp, out)
                  else copy_loop (remaining - length buffer) inp out))
      else (0, inp, out))"
  by pat_completeness auto
termination
  by (relation "measure (\<lambda>(remaining, _, _). remaining)") (auto simp: fread_def)

declare copy_loop.simps [simp del]

definition copy_data :: "ofile \<Rightarrow> ifile \<Rightarrow> nat \<Rightarrow> int \<times> ofile" where
  "copy_data out inp fsize =
     (let (rc, inp, out) = copy_loop fsize inp out
      in if rc \<noteq> 0 then (rc, out)
         else (let pad = unat (ALIGN_UP_OVERHEAD (of_nat fsize) 4);
                   (w, out) = fwrite (replicate pad 0) out
               in if w \<noteq> pad then (-1, out) else (0, out)))"

definition process_file :: "dirent \<Rightarrow> u32 \<Rightarrow> u64 \<Rightarrow> ofile \<Rightarrow> (int \<times> ofile) option" where
  "process_file de mode sz out = do {
     let fsize = (ucast sz :: u32);
     (rc, out) \<leftarrow> write_header (d_name de) mode fsize out;
     if rc \<noteq> 0 then Some (-1, out)
     else case opened de of
            None \<Rightarrow> Some (-1, out)
          | Some inp \<Rightarrow>
              (let (rc, out) = copy_data out inp (unat fsize)
               in Some (if rc \<noteq> 0 then (-1, out) else (0, out))) }"

definition S_ISREG :: "u32 \<Rightarrow> bool" where
  "S_ISREG mode \<longleftrightarrow> mode AND 0xF000 = 0x8000"

fun process_entries :: "dirent list \<Rightarrow> ofile \<Rightarrow> (int \<times> ofile) option" where
  "process_entries [] out = Some (0, out)"
| "process_entries (de # ds) out = do {
     dot \<leftarrow> strcmp (d_name de) [0x2E, 0];
     dotdot \<leftarrow> strcmp (d_name de) [0x2E, 0x2E, 0];
     if dot = 0 \<or> dotdot = 0 then process_entries ds out
     else case st de of
            None \<Rightarrow> Some (-1, out)
          | Some (mode, sz) \<Rightarrow>
              if S_ISREG mode then do {
                (rc, out) \<leftarrow> process_file de mode sz out;
                if rc \<noteq> 0 then Some (-1, out) else process_entries ds out }
              else process_entries ds out }"

definition process_root :: "dirent list option \<Rightarrow> ofile \<Rightarrow> (int \<times> ofile) option" where
  "process_root dir out =
     (case dir of None \<Rightarrow> Some (-1, out) | Some ds \<Rightarrow> process_entries ds out)"

text \<open>\<^verbatim>\<open>main\<close>: the exit status and the archive.\<close>

definition mkinitrd :: "dirent list option \<Rightarrow> ofile option \<Rightarrow> (int \<times> ofile option) option" where
  "mkinitrd dir outfile =
     (case outfile of
        None \<Rightarrow> Some (1, None)
      | Some out \<Rightarrow> do {
          (rc, out) \<leftarrow> process_root dir out;
          if rc \<noteq> 0 then Some (1, Some out)
          else do {
            (rc, out) \<leftarrow> write_header (CPIO_TRAILER @ [0]) 0 0 out;
            Some (if rc \<noteq> 0 then 1 else 0, Some out) } })"

section \<open>Header fields read back\<close>

lemma hex_digit:
  assumes "unat b < 16"
  shows "strtoul_digit (hex b) = ucast b \<and> \<not> isspace (sint (hex b)) \<and> hex b \<noteq> 43 \<and> hex b \<noteq> 45"
  using small_cases [OF assms] by (elim disjE) (simp_all add: hex_def strtoul_digit_def isspace_def)

definition nibble :: "u32 \<Rightarrow> nat \<Rightarrow> byte" where
  "nibble val i = ucast (drop_bit i val AND 0xF)"

lemma unat_nibble: "unat (nibble val i) = unat val div 2 ^ i mod 16"
proof -
  have m: "(0xF :: u32) = mask 4" by (simp add: mask_eq_exp_minus_1)
  have "unat (drop_bit i val AND 0xF) = unat val div 2 ^ i mod 16"
    unfolding m unat_and_mask by (simp only: unat_drop_bit_eq drop_bit_nat_def) simp
  then show ?thesis by (simp add: nibble_def unsigned_ucast_eq take_bit_eq_mod)
qed

lemma set_field_nibbles: "set_field val = map (\<lambda>i. hex (nibble val i)) [28, 24, 20, 16, 12, 8, 4, 0]"
  by (simp add: set_field_def nibble_def)

lemma set_field_length [simp]: "length (set_field val) = 8"
  by (simp add: set_field_def)

lemma hex_nibble: "strtoul_digit (hex (nibble val i)) < 16"
  and unat_hex_nibble: "unat (strtoul_digit (hex (nibble val i))) = unat val div 2 ^ i mod 16"
proof -
  have lt: "unat (nibble val i) < 16" by (simp add: unat_nibble)
  then have d: "strtoul_digit (hex (nibble val i)) = ucast (nibble val i)" using hex_digit by blast
  show u: "unat (strtoul_digit (hex (nibble val i))) = unat val div 2 ^ i mod 16"
    unfolding d by (simp add: unsigned_ucast_eq unat_nibble take_bit_eq_mod)
  show "strtoul_digit (hex (nibble val i)) < 16"
    by (simp add: word_less_nat_alt u)
qed

lemma join_nibble: "v div (d * 16) * 16 + v div d mod 16 = v div (d :: nat)"
  by (simp add: div_mult2_eq mult.commute)

lemma set_field_value: "digits_value 16 (set_field val) = unat val"
proof -
  let ?v = "unat val"
  have "?v < 2 ^ 32" using unat_bound [of val] by simp
  then have top: "?v div 2 ^ 28 mod 16 = ?v div 2 ^ 28" by (simp add: less_mult_imp_div_less)
  have j: "?v div 2 ^ (i + 4) * 16 + ?v div 2 ^ i mod 16 = ?v div 2 ^ i" for i
    using join_nibble [of ?v "2 ^ i"] by (simp add: power_add)
  have "digits_value 16 (set_field val) = ?v div 2 ^ 0"
    unfolding set_field_nibbles digits_value_def list.map foldl.simps unat_hex_nibble top
    using j [of 24] j [of 20] j [of 16] j [of 12] j [of 8] j [of 4] j [of 0] by simp
  then show ?thesis by simp
qed

lemma set_field_strtoul:
  "strtoul (set_field val @ [0]) 16 = Some (ucast val :: 'w::len word, [0])"
proof -
  let ?ds = "set_field val"
  obtain c ds where f: "?ds = c # ds" and c: "c = hex (nibble val 28)"
    by (simp add: set_field_nibbles)
  have lt: "unat (nibble val 28) < 16" by (simp add: unat_nibble)
  have nul: "16 \<le> strtoul_digit 0" by (simp add: strtoul_digit_def)
  have dig: "\<forall>d\<in>set ?ds. strtoul_digit d < 16" by (auto simp: set_field_nibbles hex_nibble)
  have d: "strtoul_digits (?ds @ [0]) 16 (0 :: 'w word) = Some (ucast val, [0])"
    using strtoul_digits_value [OF dig nul, of "[]", where 'w = 'w] by (simp add: set_field_value)
  with d f c hex_digit [OF lt] show ?thesis
    by (simp add: strtoul_def strtoul_sign_def strtoul_base_def rd_def)
qed

section \<open>What the writer writes\<close>

definition pad4 :: "nat \<Rightarrow> nat" where
  "pad4 n = (4 - n mod 4) mod 4"

definition append_to :: "ofile \<Rightarrow> bytes \<Rightarrow> ofile" where
  "append_to out bs = out\<lparr>written := written out @ bs, room := room out - length bs\<rparr>"

lemma append_to_simps [simp]:
  "written (append_to out bs) = written out @ bs"
  "room (append_to out bs) = room out - length bs"
  "append_to (append_to out bs) cs = append_to out (bs @ cs)"
  "append_to out [] = out"
  by (simp_all add: append_to_def)

lemma fwrite_fits: "length bs \<le> room out \<Longrightarrow> fwrite bs out = (length bs, append_to out bs)"
  by (simp add: fwrite_def append_to_def Let_def min_absorb2)

lemma int_pad4: "int (pad4 n) = (- int n) mod 4"
  by (auto simp: pad4_def zmod_zminus1_eq_if of_nat_diff zmod_int)

lemma uint_low_bits: "uint (take_bit 2 (word_of_int (- int n) :: u64)) = (- int n) mod 4"
proof -
  have "uint (take_bit 2 (word_of_int (- int n) :: u64)) = take_bit 2 (take_bit LENGTH(64) (- int n))"
    by (simp only: unsigned_take_bit_eq unsigned_of_int) (simp add: take_bit_int_def)
  also have "\<dots> = take_bit 2 (- int n)" by (simp add: take_bit_take_bit)
  also have "\<dots> = (- int n) mod 4" by (simp add: take_bit_int_def)
  finally show ?thesis by simp
qed

lemma pad_overhead: "unat (ALIGN_UP_OVERHEAD (of_nat n) 4) = pad4 n"
proof -
  have m: "(4 - 1 :: u64) = mask 2" by (simp add: mask_eq_exp_minus_1)
  have "ALIGN_UP_OVERHEAD (of_nat n) 4 = take_bit 2 (word_of_int (- int n))"
    unfolding ALIGN_UP_OVERHEAD_def m take_bit_eq_mask by simp
  then have "uint (ALIGN_UP_OVERHEAD (of_nat n) 4) = int (pad4 n)"
    by (simp only: uint_low_bits int_pad4)
  then show ?thesis by (metis nat_int unat_eq_nat_uint)
qed

lemma copy_loop_all:
  assumes "length (content inp) = n" and "n \<le> room out"
  shows "\<exists>inp'. copy_loop n inp out = (0, inp', append_to out (content inp))"
  using assms
proof (induction n inp out rule: copy_loop.induct)
  case (1 n inp out)
  show ?case
  proof (cases "n = 0")
    case True
    with "1.prems" show ?thesis by (simp add: copy_loop.simps)
  next
    case False
    let ?k = "if n < 4096 then n else 4096"
    let ?buf = "take ?k (content inp)"
    let ?inp = "inp\<lparr>content := drop ?k (content inp)\<rparr>"
    let ?out = "append_to out ?buf"
    have buf: "?buf \<noteq> []" "length ?buf = ?k" using False "1.prems" by (auto simp: min_def)
    then have w: "fwrite ?buf out = (?k, ?out)"
      using "1.prems" fwrite_fits [of ?buf out] by simp
    have "\<exists>inp'. copy_loop (n - length ?buf) ?inp ?out = (0, inp', append_to ?out (content ?inp))"
    proof (rule "1.IH" [OF _ refl _ refl buf(1) _ refl])
      show "(?buf, ?inp) = fread ?k inp" by (simp add: fread_def)
      show "(?k, ?out) = fwrite ?buf out" using w by simp
    qed (use False "1.prems" buf(2) in auto)
    then show ?thesis
      using False buf w by (subst copy_loop.simps) (simp add: fread_def Let_def)
  qed
qed

lemma copy_data_all:
  assumes "length (content inp) = n" and "n + pad4 n \<le> room out"
  shows "copy_data out inp n = (0, append_to out (content inp @ replicate (pad4 n) 0))"
proof -
  obtain inp' where c: "copy_loop n inp out = (0, inp', append_to out (content inp))"
    using copy_loop_all [OF assms(1), of out] assms(2) by auto
  have "fwrite (replicate (pad4 n) 0) (append_to out (content inp)) =
      (pad4 n, append_to (append_to out (content inp)) (replicate (pad4 n) 0))"
    using fwrite_fits [of "replicate (pad4 n) 0" "append_to out (content inp)"] assms by simp
  then show ?thesis using c by (simp add: copy_data_def pad_overhead)
qed

text \<open>The archive format: a header with the name, padded, then the content, padded.\<close>

definition name_part :: "u32 \<Rightarrow> bytes \<Rightarrow> nat \<Rightarrow> bytes" where
  "name_part mode nm sz =
     cpio_header mode (of_nat sz) (of_nat (length nm + 1)) @ nm @ [0]
       @ replicate (pad4 (110 + (length nm + 1))) 0"

definition archive_member :: "u32 \<times> bytes \<times> bytes \<Rightarrow> bytes" where
  "archive_member f = (case f of (mode, nm, body) \<Rightarrow>
     name_part mode nm (length body) @ body @ replicate (pad4 (length body)) 0)"

definition archive :: "(u32 \<times> bytes \<times> bytes) list \<Rightarrow> bytes" where
  "archive fs = concat (map archive_member fs) @ name_part 0 CPIO_TRAILER 0"

lemma cpio_header_length [simp]: "length (cpio_header mode fsize len) = 110"
  by (simp add: cpio_header_def CPIO_MAGIC_def)

lemma write_header_ok:
  assumes "no_nul nm" and "length nm + 1 < 2 ^ 32"
    and "length (name_part mode nm (unat fsize)) \<le> room out"
  shows "write_header (nm @ 0 # x) mode fsize out =
    Some (0, append_to out (name_part mode nm (unat fsize)))"
proof -
  let ?len = "of_nat (length nm + 1) :: u32"
  let ?h = "cpio_header mode fsize ?len"
  let ?pad = "pad4 (110 + (length nm + 1))"
  have len: "unat ?len = length nm + 1" using assms(2) by (intro unat_of_nat_small) simp
  have t: "of_nat (length ?h) + ucast ?len = (of_nat (110 + (length nm + 1)) :: u64)"
  proof -
    have "ucast ?len = (of_nat (unat ?len) :: u64)" by simp
    then show ?thesis unfolding len by simp
  qed
  have room: "110 + (length nm + 1) + ?pad \<le> room out"
    using assms(3) by (simp add: name_part_def)
  have 1: "fwrite ?h out = (110, append_to out ?h)"
    using fwrite_fits [of ?h out] room by simp
  have 2: "fwrite (nm @ [0]) (append_to out ?h) = (length nm + 1, append_to out (?h @ nm @ [0]))"
    using fwrite_fits [of "nm @ [0]" "append_to out ?h"] room by simp
  have 3: "fwrite (replicate ?pad 0) (append_to out (?h @ nm @ [0])) =
      (?pad, append_to out (name_part mode nm (unat fsize)))"
    using fwrite_fits [of "replicate ?pad 0" "append_to out (?h @ nm @ [0])"] room
    by (simp add: name_part_def)
  have p: "peek (nm @ 0 # x) 0 (length nm + 1) = Some (nm @ [0])"
    by (simp add: peek_def)
  show ?thesis
    unfolding write_header_def strlen_eq [OF assms(1)] bind.bind_lunit Let_def
      cpio_header_length 1 prod.case len p 2 t [unfolded cpio_header_length] pad_overhead 3
    by simp
qed

lemma name_part_length:
  "length (name_part mode nm sz) = 110 + (length nm + 1) + pad4 (110 + (length nm + 1))"
  by (simp add: name_part_def)

lemma process_file_ok:
  assumes "no_nul nm" and "length nm + 1 < 2 ^ 32" and "length body < 2 ^ 32"
    and "length (archive_member (mode, nm, body)) \<le> room out"
  shows "process_file \<lparr>d_name = nm @ [0], st = s, opened = Some \<lparr>content = body, ferror = e\<rparr>\<rparr>
      mode (of_nat (length body)) out = Some (0, append_to out (archive_member (mode, nm, body)))"
proof -
  let ?fs = "of_nat (length body) :: u32"
  have fs: "unat ?fs = length body" using assms(3) by (intro unat_of_nat_small) simp
  have u: "(ucast (of_nat (length body) :: u64) :: u32) = ?fs"
    using assms(3) by (simp add: ucast_eq unsigned_of_nat take_bit_nat_eq_self)
  have hd: "write_header (nm @ 0 # []) mode ?fs out =
      Some (0, append_to out (name_part mode nm (length body)))"
    using write_header_ok [OF assms(1,2), of mode ?fs out] assms(4) fs
    by (simp add: archive_member_def)
  have "copy_data (append_to out (name_part mode nm (length body))) \<lparr>content = body, ferror = e\<rparr>
      (length body) = (0, append_to out (archive_member (mode, nm, body)))"
    using copy_data_all [of "\<lparr>content = body, ferror = e\<rparr>" "length body"
        "append_to out (name_part mode nm (length body))"] assms(4)
    by (simp add: archive_member_def)
  then show ?thesis using hd by (simp add: process_file_def u fs)
qed

text \<open>Which entries a directory contributes, and what makes one archivable.\<close>

definition dot_entry :: "dirent \<Rightarrow> bool" where
  "dot_entry de \<longleftrightarrow> d_name de = [0x2E, 0] \<or> d_name de = [0x2E, 0x2E, 0]"

definition good_entry :: "dirent \<Rightarrow> bool" where
  "good_entry de \<longleftrightarrow>
     d_name de \<noteq> [] \<and> last (d_name de) = 0 \<and> no_nul (butlast (d_name de)) \<and>
     length (d_name de) < 2 ^ 32 \<and>
     (case st de of None \<Rightarrow> False
      | Some (mode, sz) \<Rightarrow> S_ISREG mode \<longrightarrow>
          (case opened de of None \<Rightarrow> False
           | Some inp \<Rightarrow> length (content inp) < 2 ^ 32 \<and> sz = of_nat (length (content inp))))"

definition entry_files :: "dirent \<Rightarrow> (u32 \<times> bytes \<times> bytes) list" where
  "entry_files de =
     (if dot_entry de then [] else
      case (st de, opened de) of
        (Some (mode, _), Some inp) \<Rightarrow>
          if S_ISREG mode then [(mode, butlast (d_name de), content inp)] else []
      | _ \<Rightarrow> [])"

lemma process_entries_ok:
  assumes "list_all good_entry ds"
    and "length (concat (map archive_member (concat (map entry_files ds)))) \<le> room out"
  shows "process_entries ds out =
     Some (0, append_to out (concat (map archive_member (concat (map entry_files ds)))))"
  using assms
proof (induction ds arbitrary: out)
  case Nil
  then show ?case by simp
next
  case (Cons de ds)
  obtain n s fd where de: "de = \<lparr>d_name = n, st = s, opened = fd\<rparr>" by (cases de)
  have good: "n \<noteq> []" "last n = 0" "no_nul (butlast n)" "length n < 2 ^ 32"
    using Cons.prems(1) by (auto simp: de good_entry_def)
  obtain nm where n: "n = nm @ [0]" and nm: "no_nul nm" "length nm + 1 < 2 ^ 32"
  proof
    show "n = butlast n @ [0]" using good(1,2) append_butlast_last_id [of n] by simp
  qed (use good in auto)
  obtain x y where x: "strcmp n [0x2E, 0] = Some x" "x = 0 \<longleftrightarrow> n = [0x2E, 0]"
    and y: "strcmp n [0x2E, 0x2E, 0] = Some y" "y = 0 \<longleftrightarrow> n = [0x2E, 0x2E, 0]"
    using strcmp_returns [OF nm(1), of "[0x2E]" "[]" "[]"] strcmp_zero_iff [OF nm(1), of "[0x2E]" "[]" "[]"]
      strcmp_returns [OF nm(1), of "[0x2E, 0x2E]" "[]" "[]"]
      strcmp_zero_iff [OF nm(1), of "[0x2E, 0x2E]" "[]" "[]"]
    by (auto simp: n no_nul_def)
  show ?case
  proof (cases "dot_entry de")
    case True
    then show ?thesis
      using Cons x y by (simp add: de dot_entry_def entry_files_def)
  next
    case False
    obtain mode sz where s: "s = Some (mode, sz)"
      using Cons.prems(1) by (auto simp: de good_entry_def split: option.splits)
    show ?thesis
    proof (cases "S_ISREG mode")
      case reg: True
      obtain body e where fd: "fd = Some \<lparr>content = body, ferror = e\<rparr>"
        and sz: "length body < 2 ^ 32" "sz = of_nat (length body)"
        using Cons.prems(1) reg s
        by (auto simp: de good_entry_def split: option.splits) (metis ifile.surjective old.unit.exhaust)
      have ef: "entry_files de = [(mode, nm, body)]"
        using False reg by (simp add: entry_files_def de s fd n)
      have "process_file de mode sz out = Some (0, append_to out (archive_member (mode, nm, body)))"
        using process_file_ok [OF nm sz(1), of mode out] Cons.prems(2) ef by (simp add: de n fd sz(2))
      then show ?thesis
        using Cons.IH [of "append_to out (archive_member (mode, nm, body))"] Cons.prems False x y reg ef
        by (simp add: de s dot_entry_def)
    next
      case False
      then show ?thesis
        using Cons x y \<open>\<not> dot_entry de\<close> by (simp add: de s dot_entry_def entry_files_def split: option.splits)
    qed
  qed
qed

lemma mkinitrd_archive:
  assumes "list_all good_entry ds"
    and "length (archive (concat (map entry_files ds))) \<le> room out"
  shows "mkinitrd (Some ds) (Some out) =
     Some (0, Some (append_to out (archive (concat (map entry_files ds)))))"
proof -
  let ?fs = "concat (map entry_files ds)"
  let ?out = "append_to out (concat (map archive_member ?fs))"
  have 1: "process_entries ds out = Some (0, ?out)"
    using assms by (intro process_entries_ok) (simp_all add: archive_def)
  have "write_header (CPIO_TRAILER @ 0 # []) 0 0 ?out = Some (0, append_to ?out (name_part 0 CPIO_TRAILER 0))"
    using write_header_ok [of CPIO_TRAILER 0 0 ?out "[]"] assms(2)
    by (simp add: archive_def) (simp add: no_nul_def CPIO_TRAILER_def)
  then show ?thesis
    using 1 by (simp add: mkinitrd_def process_root_def archive_def)
qed

end
