(* ===== verification/CpioArchive.thy ===== *)
theory CpioArchive
  imports Mkinitrd
begin

text \<open>
  Reader and writer together: \<^verbatim>\<open>cpio_extract\<close> hands its client exactly the files an archive
  written by \<^verbatim>\<open>utils/mkinitrd.c\<close> holds.
\<close>

lemma header_fields:
  "take 6 (cpio_header mode fsize len) = CPIO_MAGIC"
  "take 8 (drop 54 (cpio_header mode fsize len)) = set_field fsize"
  "take 8 (drop 94 (cpio_header mode fsize len)) = set_field len"
  by (simp_all add: cpio_header_def CPIO_MAGIC_def)

lemma peek_at:
  assumes "drop d m = xs @ y" and "d \<le> length m" and "k + n \<le> length xs"
  shows "peek m (d + k) n = Some (take n (drop k xs))"
proof -
  have "length (drop d m) = length (xs @ y)" by (simp only: assms(1))
  then have len: "d + k + n \<le> length m" using assms(2,3) by simp
  have "drop (d + k) m = drop k (drop d m)" by (simp only: drop_drop add.commute)
  then have "take n (drop (d + k) m) = take n (drop k (xs @ y))" by (simp only: assms(1))
  also have "\<dots> = take n (drop k xs)" using assms(3) by simp
  finally show ?thesis using len by (simp only: peek_def if_True)
qed

lemma align4_split: "align4 (r + 4 * q) = (r + 3) div 4 * 4 + 4 * q"
proof -
  have "r + 4 * q + 3 = (r + 3) + 4 * q" by simp
  then show ?thesis unfolding align4_def by (simp only: div_mult_self2) simp
qed
lemma pad4_split: "pad4 (r + 4 * q) = (4 - r mod 4) mod 4"
  by (simp add: pad4_def)
lemma pad4_align4: "n + pad4 n = align4 n"
proof -
  have "r + 4 * q + pad4 (r + 4 * q) = align4 (r + 4 * q)" if "r < 4" for r q
  proof -
    from that consider "r = 0" | "r = 1" | "r = 2" | "r = 3" by linarith
    then show ?thesis unfolding align4_split pad4_split by cases simp_all
  qed
  from this [of "n mod 4" "n div 4"] show ?thesis by simp
qed

lemma align4_pad4: "a mod 4 = 0 \<Longrightarrow> align4 (a + n) = a + n + pad4 n"
  by (auto simp: mod_eq_0_iff_dvd pad4_def simp flip: pad4_align4 elim!: dvdE)

lemma cpio_value_at:
  assumes "peek m d 8 = Some (set_field v)" and "d < 2 ^ LENGTH('w::len)"
  shows "cpio_value m (of_nat d) = Some (ucast v :: 'w word)"
  unfolding cpio_value_def unat_of_nat_small [OF assms(2)] assms(1) bind.bind_lunit
    set_field_strtoul prod.case ..

lemma cpio_value_field:
  assumes "drop d m = cpio_header mode fsize len @ y" and "d \<le> length m"
    and "d + 110 < 2 ^ LENGTH('w::len)"
  shows "cpio_value m (of_nat (d + 54)) = Some (ucast fsize :: 'w word)"
    and "cpio_value m (of_nat (d + 94)) = Some (ucast len :: 'w word)"
proof -
  have a: "54 + 8 \<le> length (cpio_header mode fsize len)" "94 + 8 \<le> length (cpio_header mode fsize len)"
    by simp_all
  have b: "d + 54 < 2 ^ LENGTH('w)" "d + 94 < 2 ^ LENGTH('w)" using assms(3) by linarith+
  show "cpio_value m (of_nat (d + 54)) = Some (ucast fsize :: 'w word)"
    using peek_at [OF assms(1,2) a(1)] b(1) by (intro cpio_value_at) (simp_all only: header_fields)
  show "cpio_value m (of_nat (d + 94)) = Some (ucast len :: 'w word)"
    using peek_at [OF assms(1,2) a(2)] b(2) by (intro cpio_value_at) (simp_all only: header_fields)
qed

context file_handler begin

lemma pass_member:
  assumes m: "drop d m = archive_member (mode, nm, body) @ rest @ x" "d \<le> length m"
    and size: "length m + 4 < 2 ^ LENGTH('w)" "2 \<le> LENGTH('w)"
    and nm: "no_nul nm" "length nm + 1 < 2 ^ 32" "nm \<noteq> CPIO_TRAILER"
    and body: "length body < 2 ^ 32" and rest: "rest \<noteq> []"
    and n: "n = length (archive_member (mode, nm, body))" and inv: "good s"
  shows "cpio_pass handler m (of_nat d, of_nat (n + length rest), s) =
    Some (case spec nm body s of (s', rc) \<Rightarrow>
      if rc \<noteq> 0 then Inr (s', rc) else Inl (of_nat (d + n), of_nat (length rest), s'))"
proof -
  let ?N = "length nm + 1" and ?L = "length body"
  let ?A = "align4 (110 + ?N)"
  let ?hdr = "cpio_header mode (of_nat ?L) (of_nat ?N)"
  let ?np = "replicate (pad4 (110 + ?N)) (0 :: byte)" and ?bp = "replicate (pad4 ?L) (0 :: byte)"
  have m': "drop d m = (?hdr @ nm @ [0] @ ?np @ body @ ?bp @ rest) @ x"
    using m(1) by (simp add: archive_member_def name_part_def)
  have lA: "length (?hdr @ nm @ [0] @ ?np) = ?A"
    using pad4_align4 [of "110 + ?N"] by simp
  have nA: "n = ?A + ?L + pad4 ?L" using n lA by (simp add: archive_member_def name_part_def)
  have A4: "?A mod 4 = 0" "110 + ?N \<le> ?A" using align4_bounds [of "110 + ?N"] by auto
  have nal: "align4 (?A + ?L) = n"
    using align4_pad4 [OF A4(1)] nA by simp
  have "length (drop d m) = length ((archive_member (mode, nm, body) @ rest) @ x)"
    using m(1) by simp
  then have lm: "d + n + length rest \<le> length m" using m(2) n by simp
  have lr: "0 < length rest" using rest by simp
  have u: "unat (of_nat k :: 'w word) = k" if "k \<le> length m + 4" for k
    using that size(1) by (intro unat_of_nat_small) simp
  have fld: "ucast (of_nat k :: u32) = (of_nat k :: 'w word)" if "k < 2 ^ 32" for k
  proof -
    have "ucast (of_nat k :: u32) = (of_nat (unat (of_nat k :: u32)) :: 'w word)" by simp
    then show ?thesis using that by (simp add: unat_of_nat_small del: of_nat_unat)
  qed
  have hdr: "drop d m = ?hdr @ (nm @ [0] @ ?np @ body @ ?bp @ rest @ x)" using m' by simp
  have d: "d + 110 < 2 ^ LENGTH('w)" using lm A4 nA size(1) by linarith
  have v1: "cpio_value m (of_nat d + 54) = Some (of_nat ?L :: 'w word)"
    and v2: "cpio_value m (of_nat d + 94) = Some (of_nat ?N :: 'w word)"
    using cpio_value_field [OF hdr m(2) d] fld [OF body] fld [OF nm(2)] by simp_all
  have pad: "get32 m (unat (of_nat d :: 'w word)) = Some 0x37303730"
    using peek_at [OF hdr m(2), of 0 4] u [of d] m(2)
    by (simp add: get32_def cpio_header_def CPIO_MAGIC_def)
  have magic: "peek m (unat (of_nat d :: 'w word)) 6 = Some CPIO_MAGIC"
    using peek_at [OF hdr m(2), of 0 6] u [of d] m(2) header_fields(1) by simp
  have "memcmp CPIO_MAGIC CPIO_MAGIC 6 = Some 0"
    using memcmp_zero_iff [of 6 CPIO_MAGIC CPIO_MAGIC] by (simp add: CPIO_MAGIC_def)
  have name_ptr: "(of_nat d + of_nat 110 :: 'w word) = of_nat (d + 110)" by simp
  have dA: "drop (d + 110) m = nm @ 0 # (?np @ body @ ?bp @ rest @ x)"
  proof -
    have "drop (d + 110) m = drop 110 (drop d m)" by (simp only: drop_drop add.commute)
    also have "\<dots> = nm @ 0 # (?np @ body @ ?bp @ rest @ x)"
      unfolding hdr using cpio_header_length by simp
    finally show ?thesis .
  qed
  have np: "unat (of_nat (d + 110) :: 'w word) = d + 110" using lm A4 nA by (intro u) linarith
  have dp: "unat (of_nat (d + ?A) :: 'w word) = d + ?A" using lm nA by (intro u) linarith
  have ul: "unat (of_nat ?L :: 'w word) = ?L" using lm nA by (intro u) linarith
  obtain cmp where cmp: "strcmp (drop (d + 110) m) (CPIO_TRAILER @ [0]) = Some cmp" "cmp \<noteq> 0"
    using strcmp_returns [OF nm(1), of CPIO_TRAILER "?np @ body @ ?bp @ rest @ x" "[]"]
      strcmp_zero_iff [OF nm(1), of CPIO_TRAILER "?np @ body @ ?bp @ rest @ x" "[]"] nm(3)
    unfolding dA by (auto simp: no_nul_def CPIO_TRAILER_def)
  have name: "peek m (d + 110) ?N = Some (nm @ [0])"
    using peek_at [of "d + 110" m "nm @ [0]" "?np @ body @ ?bp @ rest @ x" 0 ?N] dA lm nA A4 by simp
  have dB: "drop (d + ?A) m = body @ (?bp @ rest @ x)"
  proof -
    have "drop (d + ?A) m = drop ?A (drop d m)" by (simp only: drop_drop add.commute)
    also have "\<dots> = drop ?A ((?hdr @ nm @ [0] @ ?np) @ (body @ ?bp @ rest @ x))"
      unfolding hdr by (simp only: append_assoc)
    finally show ?thesis by (simp only: drop_exact [OF lA])
  qed
  have content: "peek m (d + ?A) ?L = Some body"
    using peek_at [OF dB, of 0 ?L] lm nA by simp
  have call: "handler m (of_nat (d + 110)) (of_nat (d + ?A)) (of_nat ?L) s = Some (spec nm body s)"
    by (rule handles [OF inv nm(1)]) (simp_all only: np dp ul name content)
  have skip: "skip_padding m (of_nat d :: 'w word) (n + length rest) = Some (of_nat d, n + length rest)"
    using pad by (rule skip_padding_stop) simp
  have ulen: "unat (of_nat (n + length rest) :: 'w word) = n + length rest"
    using lm by (intro u) linarith
  have len0: "(of_nat (n + length rest) :: 'w word) \<noteq> 0"
    using ulen lr by (metis add_is_0 less_numeral_extra(3) unsigned_0)
  have big: "\<not> n + length rest < 110" using nA A4 by linarith
  have al1: "cpio_align (of_nat 110 + of_nat ?N) = (of_nat ?A :: 'w word)"
    using cpio_align_of_nat [of "110 + ?N", where 'w = 'w] lm nA A4 size by simp
  have al2: "cpio_align (of_nat (?A + ?L)) = (of_nat n :: 'w word)"
    using cpio_align_of_nat [of "?A + ?L", where 'w = 'w] lm nA size nal by simp
  have uAL: "unat (of_nat (?A + ?L) :: 'w word) = ?A + ?L" using lm nA by (intro u) linarith
  have un: "unat (of_nat n :: 'w word) = n" using lm by (intro u) linarith
  have lt: "(of_nat (?A + ?L) :: 'w word) < of_nat (n + length rest)"
    unfolding word_less_nat_alt uAL ulen using nA lr by linarith
  have le: "\<not> (of_nat (n + length rest) :: 'w word) < of_nat n"
    unfolding word_less_nat_alt un ulen by linarith
  have cl: "of_nat d + of_nat ?A + of_nat ?L - of_nat d = (of_nat (?A + ?L) :: 'w word)" by simp
  have fd: "(of_nat d + of_nat ?A :: 'w word) = of_nat (d + ?A)" by simp
  have nx: "(of_nat d + of_nat n :: 'w word) = of_nat (d + n)"
    "(of_nat (n + length rest) - of_nat n :: 'w word) = of_nat (length rest)" by simp_all
  have off: "of_nat c_namesize = (94 :: 'w word)" "of_nat c_filesize = (54 :: 'w word)"
    by (simp_all add: c_namesize_def c_filesize_def)
  obtain s' rc where sp: "spec nm body s = (s', rc)" by fastforce
  show ?thesis
    unfolding cpio_pass_def prod.case ulen skip bind.bind_lunit Let_def cpio_header_size_def
      magic \<open>memcmp CPIO_MAGIC CPIO_MAGIC 6 = Some 0\<close> off v1 v2 name_ptr al1 fd cl
    unfolding cl [unfolded fd] al2 np cmp(1) bind.bind_lunit
    using len0 big lt le cmp(2) call by (simp add: sp nx del: of_nat_add)
qed

lemma pass_trailer:
  assumes m: "drop d m = name_part 0 CPIO_TRAILER 0 @ x" "d \<le> length m"
    and size: "length m + 4 < 2 ^ LENGTH('w)" "2 \<le> LENGTH('w)"
  shows "cpio_pass handler m (of_nat d, of_nat 124, s) = Some (Inr (s, 0))"
proof -
  let ?hdr = "cpio_header 0 0 11"
  have tr: "name_part 0 CPIO_TRAILER 0 = ?hdr @ CPIO_TRAILER @ [0, 0, 0, 0]"
  proof -
    have "length CPIO_TRAILER + 1 = 11" by (simp add: CPIO_TRAILER_def)
    moreover have "pad4 121 = 3" by (simp add: pad4_def)
    ultimately show ?thesis by (simp add: name_part_def numeral_3_eq_3)
  qed
  have hdr: "drop d m = ?hdr @ (CPIO_TRAILER @ [0, 0, 0, 0] @ x)" using m(1) unfolding tr by simp
  have "length (drop d m) = 124 + length x" unfolding hdr by (simp add: CPIO_TRAILER_def)
  then have lm: "d + 124 \<le> length m" by simp
  have u: "unat (of_nat k :: 'w word) = k" if "k \<le> length m + 4" for k
    using that size(1) by (intro unat_of_nat_small) simp
  have u124: "unat (of_nat 124 :: 'w word) = 124" using lm by (intro u) linarith
  have np: "unat (of_nat (d + 110) :: 'w word) = d + 110" using lm by (intro u) linarith
  have d: "d + 110 < 2 ^ LENGTH('w)" using lm size(1) by linarith
  have v1: "cpio_value m (of_nat d + 54) = Some (0 :: 'w word)"
    and v2: "cpio_value m (of_nat d + 94) = Some (of_nat 11 :: 'w word)"
    using cpio_value_field [OF hdr m(2) d] by simp_all
  have pad: "get32 m (unat (of_nat d :: 'w word)) = Some 0x37303730"
    using peek_at [OF hdr m(2), of 0 4] u [of d] m(2)
    by (simp add: get32_def cpio_header_def CPIO_MAGIC_def)
  have magic: "peek m (unat (of_nat d :: 'w word)) 6 = Some CPIO_MAGIC"
    using peek_at [OF hdr m(2), of 0 6] u [of d] m(2) header_fields(1) by simp
  have mc: "memcmp CPIO_MAGIC CPIO_MAGIC 6 = Some 0"
    using memcmp_zero_iff [of 6 CPIO_MAGIC CPIO_MAGIC] by (simp add: CPIO_MAGIC_def)
  have "drop (d + 110) m = drop 110 (drop d m)" by (simp only: drop_drop add.commute)
  then have dA: "drop (d + 110) m = CPIO_TRAILER @ 0 # ([0, 0, 0] @ x)"
    unfolding hdr using cpio_header_length by simp
  have nn: "no_nul CPIO_TRAILER" by (simp add: no_nul_def CPIO_TRAILER_def)
  have cmp: "strcmp (drop (d + 110) m) (CPIO_TRAILER @ [0]) = Some 0"
    using strcmp_zero_iff [OF nn nn] unfolding dA by simp
  have skip: "skip_padding m (of_nat d :: 'w word) 124 = Some (of_nat d, 124)"
    using pad by (rule skip_padding_stop) simp
  have len0: "(of_nat 124 :: 'w word) \<noteq> 0"
    using u124 by (metis unsigned_0 zero_neq_numeral)
  have "align4 (110 + 11) = 124" by (simp add: align4_def)
  then have al: "cpio_align (of_nat 110 + of_nat 11) = (of_nat 124 :: 'w word)"
    using cpio_align_of_nat [of "110 + 11", where 'w = 'w] lm size by simp
  have np_w: "(of_nat d + of_nat 110 :: 'w word) = of_nat (d + 110)" by simp
  have off: "of_nat c_namesize = (94 :: 'w word)" "of_nat c_filesize = (54 :: 'w word)"
    by (simp_all add: c_namesize_def c_filesize_def)
  have cl: "of_nat d + of_nat 124 + 0 - of_nat d = (of_nat 124 :: 'w word)" by simp
  have ll: "((of_nat 124 :: 'w word) < of_nat 124) = False" "\<not> (124::nat) < 110" by simp_all
  show ?thesis
    unfolding cpio_pass_def prod.case u124 skip bind.bind_lunit Let_def cpio_header_size_def
      magic mc off v1 v2 np_w al cl ll if_False np cmp
    using len0 ll(2) by (simp del: of_nat_numeral)
qed

lemma extract_members:
  assumes "drop d m = concat (map archive_member fs) @ name_part 0 CPIO_TRAILER 0 @ x" "d \<le> length m"
    and "length m + 4 < 2 ^ LENGTH('w)" "2 \<le> LENGTH('w)"
    and "\<forall>(mode, nm, body) \<in> set fs. no_nul nm \<and> length nm + 1 < 2 ^ 32 \<and> nm \<noteq> CPIO_TRAILER
           \<and> length body < 2 ^ 32"
    and "good s"
  shows "iterate (Suc (length fs)) (cpio_pass handler m)
      (of_nat d, of_nat (length (concat (map archive_member fs)) + 124), s)
     = Some (Inr (run_files spec (map snd fs) s))"
  using assms(1,2,5,6)
proof (induction fs arbitrary: d s)
  case Nil
  then show ?case using pass_trailer [of d m x s] assms(3,4) by (simp del: of_nat_numeral)
next
  case (Cons f fs)
  obtain mode nm body where f: "f = (mode, nm, body)" by (cases f)
  let ?n = "length (archive_member (mode, nm, body))"
  let ?rest = "concat (map archive_member fs) @ name_part 0 CPIO_TRAILER 0"
  have t: "length (name_part 0 CPIO_TRAILER 0) = 124"
    by (simp add: name_part_length CPIO_TRAILER_def pad4_def)
  then have rest: "?rest \<noteq> []" "length ?rest = length (concat (map archive_member fs)) + 124" by auto
  have m: "drop d m = archive_member (mode, nm, body) @ ?rest @ x"
    using Cons.prems(1) by (simp add: f)
  have ok: "no_nul nm" "length nm + 1 < 2 ^ 32" "nm \<noteq> CPIO_TRAILER" "length body < 2 ^ 32"
    using Cons.prems(3) by (auto simp: f)
  have pass: "cpio_pass handler m (of_nat d, of_nat (?n + length ?rest), s) =
    Some (case spec nm body s of (s', rc) \<Rightarrow>
      if rc \<noteq> 0 then Inr (s', rc) else Inl (of_nat (d + ?n), of_nat (length ?rest), s'))"
    using pass_member [OF m Cons.prems(2) assms(3,4) ok(1,2,3,4) rest(1) refl Cons.prems(4)] .
  have "drop (d + ?n) m = drop ?n (drop d m)" by (simp only: drop_drop add.commute)
  then have m': "drop (d + ?n) m = concat (map archive_member fs) @ name_part 0 CPIO_TRAILER 0 @ x"
    unfolding m by simp
  have "length (drop d m) = ?n + length ?rest + length x" unfolding m by simp
  then have "d + ?n \<le> length m" using Cons.prems(2) rest by simp
  then have IH: "iterate (Suc (length fs)) (cpio_pass handler m)
      (of_nat (d + ?n), of_nat (length ?rest), s') = Some (Inr (run_files spec (map snd fs) s'))" if "good s'" for s'
    unfolding rest(2) using m' Cons.prems(3) that by (intro Cons.IH) auto
  have len: "length (concat (map archive_member (f # fs))) + 124 = ?n + length ?rest"
    using rest(2) by (simp add: f)
  obtain s' rc where sp: "spec nm body s = (s', rc)" by fastforce
  show ?case
    unfolding len iterate.simps(2) [of "length (f # fs)"] pass
    using IH [of s'] keeps [OF Cons.prems(4) ok(1)] sp by (auto simp: f)
qed

end

lemmas collect_members = collecting.extract_members

lemma entry_files_good:
  assumes "good_entry de" and "(mode, nm, body) \<in> set (entry_files de)"
  shows "no_nul nm \<and> length nm + 1 < 2 ^ 32 \<and> length body < 2 ^ 32"
proof -
  obtain sz inp where s: "st de = Some (mode, sz)" "opened de = Some inp" "S_ISREG mode"
    and nm: "nm = butlast (d_name de)" "body = content inp"
    using assms(2) by (cases "st de"; cases "opened de") (auto simp: entry_files_def split: if_splits)
  have "d_name de \<noteq> []" "length (d_name de) < 2 ^ 32" "no_nul nm" "length body < 2 ^ 32"
    using assms(1) s nm by (auto simp: good_entry_def)
  then show ?thesis using nm(1) by (cases "d_name de" rule: rev_cases) auto
qed

text \<open>C15: an archive that \<^verbatim>\<open>utils/mkinitrd.c\<close> writes from a directory with no file called
  \<^verbatim>\<open>TRAILER!!!\<close> is extracted to exactly the names and contents of the directory's regular
  files, in order, with status 0, within one pass per file.\<close>

theorem cpio_roundtrip:
  assumes "list_all good_entry ds"
    and "length (archive (concat (map entry_files ds))) \<le> k"
    and "length (archive (concat (map entry_files ds))) + 4 < 2 ^ 64"
    and "\<forall>(mode, nm, body) \<in> set (concat (map entry_files ds)). nm \<noteq> CPIO_TRAILER"
  shows "\<exists>a r. mkinitrd (Some ds) (Some \<lparr>written = [], room = k\<rparr>)
                 = Some (0, Some \<lparr>written = a, room = r\<rparr>)
    \<and> cpio_extract (Suc (length (concat (map entry_files ds)))) collect a (0 :: u64) (of_nat (length a)) []
        = Some (Inr (map snd (concat (map entry_files ds)), 0))"
proof -
  let ?fs = "concat (map entry_files ds)"
  let ?a = "archive ?fs"
  have t: "length (name_part 0 CPIO_TRAILER 0) = 124"
    by (simp add: name_part_length CPIO_TRAILER_def pad4_def)
  have "mkinitrd (Some ds) (Some \<lparr>written = [], room = k\<rparr>)
      = Some (0, Some \<lparr>written = ?a, room = k - length ?a\<rparr>)"
    using mkinitrd_archive [OF assms(1), of "\<lparr>written = [], room = k\<rparr>"] assms(2)
    by (simp add: append_to_def)
  moreover have all: "\<forall>(mode, nm, body) \<in> set ?fs. no_nul nm \<and> length nm + 1 < 2 ^ 32 \<and>
      nm \<noteq> CPIO_TRAILER \<and> length body < 2 ^ 32"
  proof (intro ballI, clarify)
    fix mode nm body assume f: "(mode, nm, body) \<in> set ?fs"
    then obtain de where "de \<in> set ds" "(mode, nm, body) \<in> set (entry_files de)" by auto
    moreover from this have "good_entry de" using assms(1) by (simp add: list_all_iff)
    ultimately show "no_nul nm \<and> length nm + 1 < 2 ^ 32 \<and> nm \<noteq> CPIO_TRAILER \<and> length body < 2 ^ 32"
      using entry_files_good [of de mode nm body] assms(4) f by fast
  qed
  have "iterate (Suc (length ?fs)) (cpio_pass collect ?a)
      (of_nat 0 :: u64, of_nat (length (concat (map archive_member ?fs)) + 124), [])
      = Some (Inr (run_files collect_spec (map snd ?fs) []))"
    using assms(3) by (intro collect_members [where x = "[]", OF _ _ _ _ all]) (simp_all add: archive_def)
  then have "cpio_extract (Suc (length ?fs)) collect ?a (0 :: u64) (of_nat (length ?a)) []
      = Some (Inr (map snd ?fs, 0))"
    unfolding cpio_extract_def run_collect archive_def length_append t by simp
  ultimately show ?thesis by blast
qed

definition sample_dir :: "dirent list" where
  "sample_dir =
     [\<lparr>d_name = [0x2E, 0], st = Some (0x4000, 0), opened = None\<rparr>,
      \<lparr>d_name = [0x61, 0], st = Some (0x8000, 2), opened = Some \<lparr>content = [1, 2], ferror = False\<rparr>\<rparr>]"

lemma sample_files: "concat (map entry_files sample_dir) = [(0x8000, [0x61], [1, 2])]"
  by (simp add: sample_dir_def entry_files_def dot_entry_def S_ISREG_def)

lemma cpio_roundtrip_witness:
  "\<exists>a r. mkinitrd (Some sample_dir) (Some \<lparr>written = [], room = 500\<rparr>)
           = Some (0, Some \<lparr>written = a, room = r\<rparr>)
    \<and> cpio_extract 2 collect a (0 :: u64) (of_nat (length a)) [] = Some (Inr ([([0x61], [1, 2])], 0))"
proof -
  have "length (archive (concat (map entry_files sample_dir))) = 240"
    unfolding sample_files
    by (simp add: archive_def archive_member_def name_part_def CPIO_TRAILER_def pad4_def)
  moreover have "list_all good_entry sample_dir"
    by (simp add: sample_dir_def good_entry_def S_ISREG_def no_nul_def)
  ultimately show ?thesis
    using cpio_roundtrip [of sample_dir 500] unfolding sample_files
    by (simp add: CPIO_TRAILER_def flip: numeral_2_eq_2)
qed

section \<open>A signed size\<close>

text \<open>
  \<^verbatim>\<open>strtoul\<close> accepts a sign, so a size field may read \<^verbatim>\<open>-0000070\<close>. The length of such a
  member comes out as zero: the handler is called with a length of nearly \<open>2 ^ 64\<close>, and the loop
  comes back to the same member for ever.
\<close>

definition signed_member :: bytes where
  "signed_member = CPIO_MAGIC @ replicate 48 0x30 @ [0x2D, 0x30, 0x30, 0x30, 0x30, 0x30, 0x37, 0x30]
     @ replicate 32 0x30 @ [0x30, 0x30, 0x30, 0x30, 0x30, 0x30, 0x30, 0x31] @ replicate 8 0x30
     @ [0, 0] @ CPIO_MAGIC"

definition accept :: "('w::len, unit) file_handler" where
  "accept m name data len s = Some (s, 0)"

lemma signed_member_pass:
  "cpio_pass accept signed_member (0 :: u64, 118, ()) = Some (Inl (0, 118, ()))"
  by code_simp

lemma cpio_signed_size_loops: "\<not> returns (cpio_pass accept signed_member) (0 :: u64, 118, ())"
  using signed_member_pass by (rule stuck_not_returns)

end
