(* ===== verification/Registry.thy ===== *)
theory Registry
  imports CString
begin

text \<open>
  The registry hive reader of \<^verbatim>\<open>libnt/reg.c\<close> and \<^verbatim>\<open>include/reg.h\<close>.

  The hive is the memory \<^verbatim>\<open>h->data\<close> points to; a structure is the offset it lies at and its
  fields are read through their offsets. A key handle is a 32-bit word. The code computes the
  address of a cell in two ways: as \<^verbatim>\<open>0x1000 + cell\<close> in 32 bits where a handle or a size is
  meant, and as a pointer sum where a structure is meant; both are kept. \<^verbatim>\<open>wchar_t\<close> is 16 bits
  wide, \<^verbatim>\<open>size_t\<close> 64.
\<close>

datatype reg_err =
    REG_ERR_NONE | REG_ERR_OUT_OF_MEMORY | REG_ERR_BAD_FILE_TYPE | REG_ERR_FILE_NOT_FOUND
  | REG_ERR_FILE_READ_ERROR | REG_ERR_BAD_FILENAME | REG_ERR_BAD_ARGUMENT | REG_ERR_BAD_SIGNATURE

type_synonym hive = bytes
type_synonym hkey = u32

text \<open>The error of a call, or what it delivers.\<close>

type_synonym 'a reg = "(reg_err + 'a) option"

definition HV_HBLOCK_SIGNATURE :: u32 where "HV_HBLOCK_SIGNATURE = 0x66676572"
definition HV_HBIN_SIGNATURE :: u32 where "HV_HBIN_SIGNATURE = 0x6e696268"
definition CM_KEY_FAST_LEAF :: u16 where "CM_KEY_FAST_LEAF = 0x666c"
definition CM_KEY_HASH_LEAF :: u16 where "CM_KEY_HASH_LEAF = 0x686c"
definition CM_KEY_INDEX_ROOT :: u16 where "CM_KEY_INDEX_ROOT = 0x6972"
definition CM_KEY_NODE_SIGNATURE :: u16 where "CM_KEY_NODE_SIGNATURE = 0x6b6e"
definition CM_KEY_VALUE_SIGNATURE :: u16 where "CM_KEY_VALUE_SIGNATURE = 0x6b76"
definition KEY_COMP_NAME :: u16 where "KEY_COMP_NAME = 0x0020"
definition VALUE_COMP_NAME :: u16 where "VALUE_COMP_NAME = 0x0001"
definition CM_KEY_VALUE_SPECIAL_SIZE :: u32 where "CM_KEY_VALUE_SPECIAL_SIZE = 0x80000000"

section \<open>The header\<close>

text \<open>The size of a cell is stored negated in an allocated cell; \<^verbatim>\<open>-ret\<close> wraps.\<close>

definition get_int32_size :: "hive \<Rightarrow> nat \<Rightarrow> u32 option" where
  "get_int32_size data offset = map_option uminus (get32 data offset)"

definition header_sum :: "hive \<Rightarrow> u32 option" where
  "header_sum h = foldl (\<lambda>acc i. do { c \<leftarrow> acc; d \<leftarrow> get32 h (4 * i); Some (c XOR d) }) (Some 0) [0..<127]"

definition check_header :: "hive \<Rightarrow> (bool \<times> hive) option" where
  "check_header h = do {
     signature \<leftarrow> get32 h 0;
     if signature \<noteq> HV_HBLOCK_SIGNATURE then Some (False, h)
     else do {
       major \<leftarrow> get32 h 20;
       if major \<noteq> 1 then Some (False, h)
       else do {
         minor \<leftarrow> get32 h 24;
         if minor < 3 then Some (False, h)
         else do {
           type \<leftarrow> get32 h 28;
           if type \<noteq> 0 then Some (False, h)
           else do {
             format \<leftarrow> get32 h 32;
             if format \<noteq> 1 then Some (False, h)
             else do {
               cluster \<leftarrow> get32 h 44;
               if cluster \<noteq> 1 then Some (False, h)
               else do {
                 seq1 \<leftarrow> get32 h 4;
                 seq2 \<leftarrow> get32 h 8;
                 h \<leftarrow> (if seq1 \<noteq> seq2 then put32 h 8 seq1 else Some h);
                 csum \<leftarrow> header_sum h;
                 let csum = (if csum = 0xffffffff then 0xfffffffe else if csum = 0 then 1 else csum);
                 stored \<leftarrow> get32 h 508;
                 h \<leftarrow> (if csum \<noteq> stored then put32 h 508 csum else Some h);
                 Some (True, h) } } } } } } }"

definition reg_find_root :: "hive \<Rightarrow> hkey option" where
  "reg_find_root h = map_option (\<lambda>root. 0x1000 + root) (get32 h 36)"

section \<open>Keys\<close>

text \<open>
  The check every operation makes of the node of a key, and of the index of its children. The
  result is the offset of the structure behind the size of its cell.
\<close>

definition key_node :: "hive \<Rightarrow> hkey \<Rightarrow> nat reg" where
  "key_node h key = do {
     sz \<leftarrow> get_int32_size h (unat key);
     if sint sz < 0 then Some (Inl REG_ERR_FILE_NOT_FOUND)
     else if unat sz < 4 + 76 then Some (Inl REG_ERR_BAD_ARGUMENT)
     else do {
       let nk = unat key + 4;
       signature \<leftarrow> get16 h nk;
       if signature \<noteq> CM_KEY_NODE_SIGNATURE then Some (Inl REG_ERR_BAD_ARGUMENT)
       else do {
         name_length \<leftarrow> get16 h (nk + 72);
         if unat sz < 4 + 76 + unat name_length then Some (Inl REG_ERR_BAD_ARGUMENT)
         else Some (Inr nk) } } }"

text \<open>The index cell of a node: its size and the offset of the index.\<close>

definition key_index :: "hive \<Rightarrow> nat \<Rightarrow> (u32 \<times> nat) reg" where
  "key_index h nk = do {
     list \<leftarrow> get32 h (nk + 28);
     sz \<leftarrow> get_int32_size h (unat (0x1000 + list));
     if sint sz < 0 then Some (Inl REG_ERR_FILE_NOT_FOUND)
     else if unat sz < 4 + 4 then Some (Inl REG_ERR_BAD_ARGUMENT)
     else Some (Inr (sz, 0x1000 + unat list + 4)) }"

definition is_leaf :: "u16 \<Rightarrow> bool" where
  "is_leaf signature \<longleftrightarrow> signature = CM_KEY_HASH_LEAF \<or> signature = CM_KEY_FAST_LEAF"

text \<open>
  The leaf of a node's children, as the operations that do not follow an index root read it: its
  offset. The check of the child count comes before.
\<close>

definition key_leaf :: "hive \<Rightarrow> hkey \<Rightarrow> (nat \<times> nat) reg" where
  "key_leaf h parent = do {
     r \<leftarrow> key_node h parent;
     case r of
       Inl e \<Rightarrow> Some (Inl e)
     | Inr nk \<Rightarrow> do {
         count \<leftarrow> get32 h (nk + 20);
         list \<leftarrow> get32 h (nk + 28);
         if count = 0 \<or> list = 0xffffffff then Some (Inl REG_ERR_FILE_NOT_FOUND)
         else do {
           r \<leftarrow> key_index h nk;
           case r of
             Inl e \<Rightarrow> Some (Inl e)
           | Inr (sz, lh) \<Rightarrow> do {
               signature \<leftarrow> get16 h lh;
               if \<not> is_leaf signature then Some (Inl REG_ERR_BAD_ARGUMENT)
               else do {
                 n \<leftarrow> get16 h (lh + 2);
                 if unat sz < 4 + 4 + unat n * 8 then Some (Inl REG_ERR_BAD_ARGUMENT)
                 else Some (Inr (nk, lh)) } } } } }"

text \<open>\<^verbatim>\<open>lh->List[i].Cell\<close>.\<close>

definition leaf_cell :: "hive \<Rightarrow> nat \<Rightarrow> nat \<Rightarrow> u32 option" where
  "leaf_cell h lh i = get32 h (lh + 4 + 8 * i)"

text \<open>A character of a name: a sign-extended \<^verbatim>\<open>char\<close> of a compressed name, or 16 bits.\<close>

definition name_char :: "hive \<Rightarrow> nat \<Rightarrow> bool \<Rightarrow> nat \<Rightarrow> u16 option" where
  "name_char h name packed j =
     (if packed then map_option scast (rd h (name + j)) else get16 h (name + 2 * j))"

text \<open>
  Copy a name out: \<open>n\<close> characters are left of it, \<open>i\<close> are copied. The result tells whether the
  name was cut off; the terminator goes to index \<open>i\<close> in either case.
\<close>

fun copy_name :: "hive \<Rightarrow> nat \<Rightarrow> bool \<Rightarrow> nat \<Rightarrow> nat \<Rightarrow> nat \<Rightarrow> u16 list \<Rightarrow> (bool \<times> u16 list) option" where
  "copy_name h name packed 0 i NameLength Name = map_option (Pair False) (wr Name i 0)"
| "copy_name h name packed (Suc n) i NameLength Name =
     (if i \<ge> NameLength then map_option (Pair True) (wr Name i 0)
      else do {
        c \<leftarrow> name_char h name packed i;
        Name \<leftarrow> wr Name i c;
        copy_name h name packed n (Suc i) NameLength Name })"

definition name_count :: "bool \<Rightarrow> u16 \<Rightarrow> nat" where
  "name_count packed name_length = (if packed then unat name_length else unat name_length div 2)"

text \<open>
  The loop over an index root: the leaf that holds the index, and the index within it. When the
  leaves run out the index root itself is kept, as in the code.
\<close>

fun find_leaf :: "hive \<Rightarrow> nat \<Rightarrow> nat \<Rightarrow> nat \<Rightarrow> nat \<Rightarrow> (nat \<times> nat) reg" where
  "find_leaf h ri 0 i index = Some (Inr (ri, index))"
| "find_leaf h ri (Suc n) i index = do {
     cell \<leftarrow> get32 h (ri + 4 + 4 * i);
     let lh2 = 0x1000 + unat cell + 4;
     signature \<leftarrow> get16 h lh2;
     if signature = CM_KEY_INDEX_ROOT then Some (Inl REG_ERR_BAD_ARGUMENT)
     else if \<not> is_leaf signature then Some (Inl REG_ERR_BAD_ARGUMENT)
     else do {
       count \<leftarrow> get16 h (lh2 + 2);
       if unat count > index then Some (Inr (lh2, index))
       else find_leaf h ri n (Suc i) (index - unat count) } }"

definition reg_enum_keys ::
  "hive \<Rightarrow> hkey \<Rightarrow> nat \<Rightarrow> u16 list \<Rightarrow> nat \<Rightarrow> (reg_err \<times> u16 list) option" where
  "reg_enum_keys h Key Index Name NameLength = do {
     r \<leftarrow> key_node h Key;
     case r of
       Inl e \<Rightarrow> Some (e, Name)
     | Inr nk \<Rightarrow> do {
         subkeys \<leftarrow> get32 h (nk + 20);
         list \<leftarrow> get32 h (nk + 28);
         if Index \<ge> unat subkeys \<or> list = 0xffffffff then Some (REG_ERR_FILE_NOT_FOUND, Name)
         else do {
           r \<leftarrow> key_index h nk;
           case r of
             Inl e \<Rightarrow> Some (e, Name)
           | Inr (sz, lh) \<Rightarrow> do {
               signature \<leftarrow> get16 h lh;
               r \<leftarrow> (if signature = CM_KEY_INDEX_ROOT then do {
                       n \<leftarrow> get16 h (lh + 2);
                       find_leaf h lh (unat n) 0 Index }
                     else if \<not> is_leaf signature then Some (Inl REG_ERR_BAD_ARGUMENT)
                     else Some (Inr (lh, Index)));
               case r of
                 Inl e \<Rightarrow> Some (e, Name)
               | Inr (lh, index) \<Rightarrow> do {
                   count \<leftarrow> get16 h (lh + 2);
                   if unat sz < 4 + 4 + unat count * 8 then Some (REG_ERR_BAD_ARGUMENT, Name)
                   else if index \<ge> unat count then Some (REG_ERR_BAD_ARGUMENT, Name)
                   else do {
                     cell \<leftarrow> leaf_cell h lh index;
                     sz \<leftarrow> get_int32_size h (unat (0x1000 + cell));
                     if sint sz < 0 then Some (REG_ERR_FILE_NOT_FOUND, Name)
                     else if unat sz < 4 + 76 then Some (REG_ERR_BAD_ARGUMENT, Name)
                     else do {
                       let nk2 = 0x1000 + unat cell + 4;
                       signature \<leftarrow> get16 h nk2;
                       if signature \<noteq> CM_KEY_NODE_SIGNATURE then Some (REG_ERR_BAD_ARGUMENT, Name)
                       else do {
                         name_length \<leftarrow> get16 h (nk2 + 72);
                         if unat sz < 4 + 76 + unat name_length then Some (REG_ERR_BAD_ARGUMENT, Name)
                         else do {
                           flags \<leftarrow> get16 h (nk2 + 2);
                           let packed = (flags AND KEY_COMP_NAME \<noteq> 0);
                           (overflow, Name) \<leftarrow>
                             copy_name h (nk2 + 76) packed (name_count packed name_length) 0 NameLength Name;
                           Some (if overflow then REG_ERR_OUT_OF_MEMORY else REG_ERR_NONE, Name) } } } } } } } } }"

section \<open>Looking keys up\<close>

definition fold_case :: "u16 \<Rightarrow> u16" where
  "fold_case c = (if 0x41 \<le> c \<and> c \<le> 0x5A then c - 0x41 + 0x61 else c)"

text \<open>The loop that compares a name with \<^verbatim>\<open>namebit\<close>, from character \<open>j\<close> on.\<close>

fun same_name :: "hive \<Rightarrow> nat \<Rightarrow> bool \<Rightarrow> nat \<Rightarrow> nat \<Rightarrow> u16 list \<Rightarrow> bool option" where
  "same_name h name packed 0 j namebit = Some True"
| "same_name h name packed (Suc n) j namebit = do {
     c1 \<leftarrow> name_char h name packed j;
     c2 \<leftarrow> rd namebit j;
     if fold_case c1 \<noteq> fold_case c2 then Some False
     else same_name h name packed n (Suc j) namebit }"

text \<open>Whether the child in a cell is a node with the name; a malformed one is skipped.\<close>

definition child_matches :: "hive \<Rightarrow> u32 \<Rightarrow> u16 list \<Rightarrow> nat \<Rightarrow> bool option" where
  "child_matches h cell namebit nblen = do {
     sz \<leftarrow> get_int32_size h (unat (0x1000 + cell));
     if sint sz < 0 then Some False
     else if unat sz < 4 + 76 then Some False
     else do {
       let nk2 = 0x1000 + unat cell + 4;
       signature \<leftarrow> get16 h nk2;
       if signature \<noteq> CM_KEY_NODE_SIGNATURE then Some False
       else do {
         name_length \<leftarrow> get16 h (nk2 + 72);
         if unat sz < 4 + 76 + unat name_length then Some False
         else do {
           flags \<leftarrow> get16 h (nk2 + 2);
           let packed = (flags AND KEY_COMP_NAME \<noteq> 0);
           if name_count packed name_length \<noteq> nblen then Some False
           else same_name h (nk2 + 76) packed nblen 0 namebit } } } }"

fun search_children :: "hive \<Rightarrow> nat \<Rightarrow> nat \<Rightarrow> nat \<Rightarrow> u16 list \<Rightarrow> nat \<Rightarrow> hkey reg" where
  "search_children h lh 0 i namebit nblen = Some (Inl REG_ERR_FILE_NOT_FOUND)"
| "search_children h lh (Suc n) i namebit nblen = do {
     cell \<leftarrow> leaf_cell h lh i;
     found \<leftarrow> child_matches h cell namebit nblen;
     if found then Some (Inr (0x1000 + cell))
     else search_children h lh n (Suc i) namebit nblen }"

definition find_child_key :: "hive \<Rightarrow> hkey \<Rightarrow> u16 list \<Rightarrow> nat \<Rightarrow> hkey reg" where
  "find_child_key h parent namebit nblen = do {
     r \<leftarrow> key_leaf h parent;
     case r of
       Inl e \<Rightarrow> Some (Inl e)
     | Inr (nk, lh) \<Rightarrow> do {
         n \<leftarrow> get16 h (lh + 2);
         search_children h lh (unat n) 0 namebit nblen } }"

text \<open>The length of the first component of a path.\<close>

fun component_length :: "u16 list \<Rightarrow> nat option" where
  "component_length (c # path) =
     (if c \<noteq> 0x5C \<and> c \<noteq> 0 then map_option Suc (component_length path) else Some 0)"
| "component_length [] = None"

function reg_find_key :: "hive \<Rightarrow> hkey \<Rightarrow> u16 list \<Rightarrow> hkey reg" where
  "reg_find_key h Parent Path = do {
     nblen \<leftarrow> component_length Path;
     r \<leftarrow> find_child_key h Parent Path nblen;
     case r of
       Inl e \<Rightarrow> Some (Inl e)
     | Inr k \<Rightarrow> do {
         c \<leftarrow> rd Path nblen;
         if c = 0 then Some (Inr k)
         else do {
           c' \<leftarrow> rd Path (nblen + 1);
           if c' = 0 then Some (Inr k)
           else reg_find_key h k (drop (nblen + 1) Path) } } }"
  by pat_completeness auto
termination
  by (relation "measure (\<lambda>(_, _, path). length path)") (auto simp: rd_Some_iff)

declare reg_find_key.simps [simp del]

section \<open>Deleting a key\<close>

text \<open>
  The index of the first entry that names the key, and the loop that moves the entries behind
  it down, \<^verbatim>\<open>memcpy\<close> of one eight-byte entry at a time.
\<close>

fun find_entry :: "hive \<Rightarrow> nat \<Rightarrow> nat \<Rightarrow> nat \<Rightarrow> hkey \<Rightarrow> nat option option" where
  "find_entry h lh 0 i key = Some None"
| "find_entry h lh (Suc n) i key = do {
     cell \<leftarrow> leaf_cell h lh i;
     if key \<noteq> 0x1000 + cell then find_entry h lh n (Suc i) key else Some (Some i) }"

fun shift_entries :: "hive \<Rightarrow> nat \<Rightarrow> nat \<Rightarrow> nat \<Rightarrow> hive option" where
  "shift_entries h lh 0 j = Some h"
| "shift_entries h lh (Suc n) j = do {
     e \<leftarrow> peek h (lh + 4 + 8 * (j + 1)) 8;
     h \<leftarrow> poke h (lh + 4 + 8 * j) e;
     shift_entries h lh n (Suc j) }"

definition reg_delete_key :: "hive \<Rightarrow> hkey \<Rightarrow> hkey \<Rightarrow> (reg_err \<times> hive) option" where
  "reg_delete_key h parent key = do {
     r \<leftarrow> key_leaf h parent;
     case r of
       Inl e \<Rightarrow> Some (e, h)
     | Inr (nk, lh) \<Rightarrow> do {
         n \<leftarrow> get16 h (lh + 2);
         found \<leftarrow> find_entry h lh (unat n) 0 key;
         case found of
           None \<Rightarrow> Some (REG_ERR_FILE_NOT_FOUND, h)
         | Some i \<Rightarrow> do {
             h \<leftarrow> put16 h (lh + 2) (n - 1);
             h \<leftarrow> shift_entries h lh (unat (n - 1) - i) i;
             subkeys \<leftarrow> get32 h (nk + 20);
             h \<leftarrow> put32 h (nk + 20) (subkeys - 1);
             Some (REG_ERR_NONE, h) } } }"

section \<open>Values\<close>

text \<open>
  The list of the values of a key: its offset. Both operations on values begin with it; what
  differs is the condition under which the key has no such value. The size of the list is a
  product of type \<^verbatim>\<open>size_t\<close>, which does not wrap in 64 bits.
\<close>

definition value_list :: "hive \<Rightarrow> hkey \<Rightarrow> (u32 \<Rightarrow> bool) \<Rightarrow> (u32 \<times> nat) reg" where
  "value_list h Key none = do {
     r \<leftarrow> key_node h Key;
     case r of
       Inl e \<Rightarrow> Some (Inl e)
     | Inr nk \<Rightarrow> do {
         count \<leftarrow> get32 h (nk + 36);
         vals \<leftarrow> get32 h (nk + 40);
         if none count \<or> vals = 0xffffffff then Some (Inl REG_ERR_FILE_NOT_FOUND)
         else do {
           sz \<leftarrow> get_int32_size h (unat (0x1000 + vals));
           if sint sz < 0 then Some (Inl REG_ERR_FILE_NOT_FOUND)
           else if unat sz < 4 + 4 * unat count then Some (Inl REG_ERR_BAD_ARGUMENT)
           else Some (Inr (count, 0x1000 + unat vals + 4)) } } }"

text \<open>The check of the node of a value, and its offset.\<close>

definition value_node :: "hive \<Rightarrow> u32 \<Rightarrow> nat reg" where
  "value_node h cell = do {
     sz \<leftarrow> get_int32_size h (unat (0x1000 + cell));
     if sint sz < 0 then Some (Inl REG_ERR_FILE_NOT_FOUND)
     else if unat sz < 4 + 20 then Some (Inl REG_ERR_BAD_ARGUMENT)
     else do {
       let vk = 0x1000 + unat cell + 4;
       signature \<leftarrow> get16 h vk;
       if signature \<noteq> CM_KEY_VALUE_SIGNATURE then Some (Inl REG_ERR_BAD_ARGUMENT)
       else do {
         name_length \<leftarrow> get16 h (vk + 2);
         if unat sz < 4 + 20 + unat name_length then Some (Inl REG_ERR_BAD_ARGUMENT)
         else Some (Inr vk) } } }"

definition reg_enum_values ::
  "hive \<Rightarrow> hkey \<Rightarrow> nat \<Rightarrow> u16 list \<Rightarrow> nat \<Rightarrow> (reg_err \<times> u16 list \<times> u32 option) option" where
  "reg_enum_values h Key Index Name NameLength = do {
     r \<leftarrow> value_list h Key (\<lambda>count. Index \<ge> unat count);
     case r of
       Inl e \<Rightarrow> Some (e, Name, None)
     | Inr (count, list) \<Rightarrow> do {
         cell \<leftarrow> get32 h (list + 4 * Index);
         r \<leftarrow> value_node h cell;
         case r of
           Inl e \<Rightarrow> Some (e, Name, None)
         | Inr vk \<Rightarrow> do {
             name_length \<leftarrow> get16 h (vk + 2);
             flags \<leftarrow> get16 h (vk + 16);
             let packed = (flags AND VALUE_COMP_NAME \<noteq> 0);
             (overflow, Name) \<leftarrow>
               copy_name h (vk + 20) packed (name_count packed name_length) 0 NameLength Name;
             type \<leftarrow> get32 h (vk + 12);
             Some (if overflow then REG_ERR_OUT_OF_MEMORY else REG_ERR_NONE, Name, Some type) } } }"

text \<open>Whether the value in a cell has the name; a malformed one is skipped.\<close>

definition value_matches :: "hive \<Rightarrow> u32 \<Rightarrow> u16 list \<Rightarrow> nat \<Rightarrow> bool option" where
  "value_matches h cell Name namelen = do {
     r \<leftarrow> value_node h cell;
     case r of
       Inl e \<Rightarrow> Some False
     | Inr vk \<Rightarrow> do {
         name_length \<leftarrow> get16 h (vk + 2);
         flags \<leftarrow> get16 h (vk + 16);
         let packed = (flags AND VALUE_COMP_NAME \<noteq> 0);
         if name_count packed name_length \<noteq> namelen then Some False
         else same_name h (vk + 20) packed namelen 0 Name } }"

text \<open>
  What \<^verbatim>\<open>*Data\<close>, \<^verbatim>\<open>*DataLength\<close> and \<^verbatim>\<open>*Type\<close> are set to: an offset into the hive, \<open>None\<close>
  for \<^verbatim>\<open>NULL\<close>.
\<close>

type_synonym reg_value = "nat option \<times> u32 \<times> u32"

definition value_data :: "hive \<Rightarrow> nat \<Rightarrow> reg_value reg" where
  "value_data h vk = do {
     len \<leftarrow> get32 h (vk + 4);
     type \<leftarrow> get32 h (vk + 12);
     let datalen = len AND NOT CM_KEY_VALUE_SPECIAL_SIZE;
     if len AND CM_KEY_VALUE_SPECIAL_SIZE \<noteq> 0
     then if datalen = 4 \<or> datalen = 2 \<or> datalen = 1 then Some (Inr (Some (vk + 8), datalen, type))
          else if datalen = 0 then Some (Inr (None, datalen, type))
          else Some (Inl REG_ERR_BAD_ARGUMENT)
     else do {
       dat \<leftarrow> get32 h (vk + 8);
       sz \<leftarrow> get_int32_size h (unat (0x1000 + dat));
       if sz < len then Some (Inl REG_ERR_BAD_ARGUMENT)
       else Some (Inr (Some (0x1000 + unat dat + 4), datalen, type)) } }"

fun search_values :: "hive \<Rightarrow> nat \<Rightarrow> nat \<Rightarrow> nat \<Rightarrow> u16 list \<Rightarrow> nat \<Rightarrow> reg_value reg" where
  "search_values h list 0 i Name namelen = Some (Inl REG_ERR_FILE_NOT_FOUND)"
| "search_values h list (Suc n) i Name namelen = do {
     cell \<leftarrow> get32 h (list + 4 * i);
     found \<leftarrow> value_matches h cell Name namelen;
     if found then value_data h (0x1000 + unat cell + 4)
     else search_values h list n (Suc i) Name namelen }"

definition reg_query_value :: "hive \<Rightarrow> hkey \<Rightarrow> u16 list \<Rightarrow> reg_value reg" where
  "reg_query_value h Key Name = do {
     namelen \<leftarrow> wcslen Name;
     r \<leftarrow> value_list h Key (\<lambda>count. count = 0);
     case r of
       Inl e \<Rightarrow> Some (Inl e)
     | Inr (count, list) \<Rightarrow> search_values h list (unat count) 0 Name namelen }"

section \<open>Opening a hive\<close>

text \<open>
  \<^verbatim>\<open>clear_volatile\<close> follows the hive's own links, so nothing bounds it: it has a fuel that every
  call and every pass of its two loops decreases, and \<open>Inl ()\<close> is what is left when the fuel is
  not enough. The loops read the count afresh in every pass, as the code does; \<open>stride\<close> is the
  size of an entry.
\<close>

fun clear_volatile :: "nat \<Rightarrow> hive \<Rightarrow> hkey \<Rightarrow> (unit + hive) option"
and clear_children :: "nat \<Rightarrow> hive \<Rightarrow> nat \<Rightarrow> nat \<Rightarrow> nat \<Rightarrow> (unit + hive) option" where
  "clear_volatile 0 h key = Some (Inl ())"
| "clear_volatile (Suc fuel) h key = do {
     sz \<leftarrow> get_int32_size h (unat key);
     if sint sz < 0 then Some (Inr h)
     else if unat sz < 4 + 76 then Some (Inr h)
     else do {
       let nk = unat key + 4;
       signature \<leftarrow> get16 h nk;
       if signature \<noteq> CM_KEY_NODE_SIGNATURE then Some (Inr h)
       else do {
         h \<leftarrow> put32 h (nk + 32) 0xbaadf00d;
         h \<leftarrow> put32 h (nk + 24) 0;
         count \<leftarrow> get32 h (nk + 20);
         list \<leftarrow> get32 h (nk + 28);
         if count = 0 \<or> list = 0xffffffff then Some (Inr h)
         else do {
           _ \<leftarrow> get_int32_size h (unat (0x1000 + list));
           let lh = 0x1000 + unat list + 4;
           sig \<leftarrow> get16 h lh;
           if is_leaf sig then clear_children fuel h lh 8 0
           else if sig = CM_KEY_INDEX_ROOT then clear_children fuel h lh 4 0
           else Some (Inr h) } } } }"
| "clear_children 0 h lh stride i = Some (Inl ())"
| "clear_children (Suc fuel) h lh stride i = do {
     count \<leftarrow> get16 h (lh + 2);
     if i < unat count then do {
       cell \<leftarrow> get32 h (lh + 4 + stride * i);
       r \<leftarrow> clear_volatile fuel h (0x1000 + cell);
       case r of
         Inl u \<Rightarrow> Some (Inl u)
       | Inr h \<Rightarrow> clear_children fuel h lh stride (Suc i) }
     else Some (Inr h) }"

text \<open>A pass of the loop over the bins, at offset \<open>off\<close>.\<close>

definition validate_bin :: "hive \<Rightarrow> nat \<Rightarrow> nat \<Rightarrow> (nat + bool) option" where
  "validate_bin data len off =
     (if off < len then do {
        let hb = 0x1000 + off;
        signature \<leftarrow> get32 data hb;
        if signature \<noteq> HV_HBIN_SIGNATURE then Some (Inr False)
        else do {
          file_offset \<leftarrow> get32 data (hb + 4);
          if unat file_offset \<noteq> off then Some (Inr False)
          else do {
            sz \<leftarrow> get32 data (hb + 8);
            if unat sz > len - off then Some (Inr False)
            else if sz AND 0xfff \<noteq> 0 then Some (Inr False)
            else Some (Inl (off + unat sz)) } } }
      else Some (Inr True))"

definition validate_bins :: "nat \<Rightarrow> hive \<Rightarrow> nat \<Rightarrow> (nat + bool) option" where
  "validate_bins fuel data len = iterate fuel (validate_bin data len) 0"

definition reg_open_hive :: "nat \<Rightarrow> hive \<Rightarrow> (unit + reg_err \<times> hive) option" where
  "reg_open_hive fuel h = do {
     (ok, h) \<leftarrow> check_header h;
     if \<not> ok then Some (Inr (REG_ERR_BAD_ARGUMENT, h))
     else do {
       len \<leftarrow> get32 h 40;
       r \<leftarrow> validate_bins fuel h (unat len);
       case r of
         Inl off \<Rightarrow> Some (Inl ())
       | Inr False \<Rightarrow> Some (Inr (REG_ERR_BAD_ARGUMENT, h))
       | Inr True \<Rightarrow> do {
           root \<leftarrow> get32 h 36;
           r \<leftarrow> clear_volatile fuel h (0x1000 + root);
           case r of
             Inl u \<Rightarrow> Some (Inl ())
           | Inr h \<Rightarrow> Some (Inr (REG_ERR_NONE, h)) } } }"

section \<open>Fields of a hive\<close>

lemma put16_length: "put16 m off v = Some m' \<Longrightarrow> length m' = length m"
  by (simp add: put16_def poke_length)

lemma put32_length: "put32 m off v = Some m' \<Longrightarrow> length m' = length m"
  by (simp add: put32_def poke_length)

lemma get32_put32_other:
  "put32 m off v = Some m' \<Longrightarrow> p + 4 \<le> off \<or> off + 4 \<le> p \<Longrightarrow> get32 m' p = get32 m p"
  by (simp add: put32_def get32_def peek_poke_disjoint)

lemma get16_put32_other:
  "put32 m off v = Some m' \<Longrightarrow> p + 2 \<le> off \<or> off + 4 \<le> p \<Longrightarrow> get16 m' p = get16 m p"
  by (simp add: put32_def get16_def peek_poke_disjoint)

lemma get32_put16_other:
  "put16 m off v = Some m' \<Longrightarrow> p + 4 \<le> off \<or> off + 2 \<le> p \<Longrightarrow> get32 m' p = get32 m p"
  by (simp add: put16_def get32_def peek_poke_disjoint)

lemma peek_put16_other:
  "put16 m off v = Some m' \<Longrightarrow> p + n \<le> off \<or> off + 2 \<le> p \<Longrightarrow> peek m' p n = peek m p n"
  by (simp add: put16_def peek_poke_disjoint)

lemma peek_put32_other:
  "put32 m off v = Some m' \<Longrightarrow> p + n \<le> off \<or> off + 4 \<le> p \<Longrightarrow> peek m' p n = peek m p n"
  by (simp add: put32_def peek_poke_disjoint)

section \<open>The header check repairs the header\<close>

lemma foldl_sum_cong:
  "(\<And>i. i \<in> set is \<Longrightarrow> get32 h (4 * i) = get32 h' (4 * i)) \<Longrightarrow>
     foldl (\<lambda>acc i. do { c \<leftarrow> acc; d \<leftarrow> get32 h (4 * i); Some (c XOR d) }) a is =
     foldl (\<lambda>acc i. do { c \<leftarrow> acc; d \<leftarrow> get32 h' (4 * i); Some (c XOR d) }) a is"
  by (induction "is" arbitrary: a) auto

lemma header_sum_cong:
  assumes "\<And>i. i < 127 \<Longrightarrow> get32 h (4 * i) = get32 h' (4 * i)"
  shows "header_sum h = header_sum h'"
  unfolding header_sum_def by (rule foldl_sum_cong) (use assms in simp)

lemma header_sum_put: "put32 h 508 v = Some h' \<Longrightarrow> header_sum h' = header_sum h"
  by (rule header_sum_cong, rule get32_put32_other, assumption) arith

definition stored_sum :: "u32 \<Rightarrow> u32" where
  "stored_sum csum = (if csum = 0xffffffff then 0xfffffffe else if csum = 0 then 1 else csum)"

lemma failed_check:
  "(if b then Some (False, h) else m) = Some (True, h') \<longleftrightarrow> \<not> b \<and> m = Some (True, h')"
  by auto

lemma check_header_True:
  "check_header h = Some (True, h') \<longleftrightarrow>
     get32 h 0 = Some HV_HBLOCK_SIGNATURE \<and> get32 h 20 = Some 1 \<and>
     (\<exists>minor. get32 h 24 = Some minor \<and> \<not> minor < 3) \<and> get32 h 28 = Some 0 \<and>
     get32 h 32 = Some 1 \<and> get32 h 44 = Some 1 \<and>
     (\<exists>seq1 seq2 h1 csum stored. get32 h 4 = Some seq1 \<and> get32 h 8 = Some seq2 \<and>
        (if seq1 \<noteq> seq2 then put32 h 8 seq1 else Some h) = Some h1 \<and>
        header_sum h1 = Some csum \<and> get32 h1 508 = Some stored \<and>
        (if stored_sum csum \<noteq> stored then put32 h1 508 (stored_sum csum) else Some h1) = Some h')"
  unfolding check_header_def stored_sum_def [symmetric] Let_def
  by (simp only: bind_eq_Some_conv failed_check) (simp, blast)



lemma maybe_put32:
  assumes "(if b then put32 m off v else Some m) = Some m'"
  shows "p + 4 \<le> off \<or> off + 4 \<le> p \<Longrightarrow> get32 m' p = get32 m p"
    and "length m' = length m"
    and "i < off \<or> off + 4 \<le> i \<Longrightarrow> rd m' i = rd m i"
    and "b \<Longrightarrow> get32 m' off = Some v"
proof -
  show "p + 4 \<le> off \<or> off + 4 \<le> p \<Longrightarrow> get32 m' p = get32 m p"
    using assms by (auto simp: get32_put32_other split: if_splits)
  show "length m' = length m"
    using assms by (auto simp: put32_length split: if_splits)
  show "i < off \<or> off + 4 \<le> i \<Longrightarrow> rd m' i = rd m i"
    using assms rd_poke_disjoint [of m off "le_bytes 4 v" m' i] by (auto simp: put32_def split: if_splits)
  show "b \<Longrightarrow> get32 m' off = Some v"
    using assms by (auto simp: get_put32)
qed

lemma maybe_header_sum:
  "(if b then put32 h 508 v else Some h) = Some h' \<Longrightarrow> header_sum h' = header_sum h"
  by (cases b) (simp_all add: header_sum_put)

lemma check_header_facts:
  assumes "check_header h = Some (True, h')"
  shows "check_header h' = Some (True, h')"
    and "get32 h' 8 = get32 h' 4"
    and "get32 h' 508 = map_option stored_sum (header_sum h')"
    and "length h' = length h"
    and "i \<notin> {8..<12} \<union> {508..<512} \<Longrightarrow> rd h' i = rd h i"
proof -
  from assms obtain minor seq1 seq2 h1 csum stored where
    f: "get32 h 0 = Some HV_HBLOCK_SIGNATURE" "get32 h 20 = Some 1" "get32 h 24 = Some minor"
       "\<not> minor < 3" "get32 h 28 = Some 0" "get32 h 32 = Some 1" "get32 h 44 = Some 1"
    and s: "get32 h 4 = Some seq1" "get32 h 8 = Some seq2"
    and h1: "(if seq1 \<noteq> seq2 then put32 h 8 seq1 else Some h) = Some h1"
    and c: "header_sum h1 = Some csum" "get32 h1 508 = Some stored"
    and h': "(if stored_sum csum \<noteq> stored then put32 h1 508 (stored_sum csum) else Some h1) = Some h'"
    unfolding check_header_True by blast
  note k1 = maybe_put32 [OF h1] and k2 = maybe_put32 [OF h']
  have same: "get32 h' p = get32 h p" if "p + 4 \<le> 8 \<or> 12 \<le> p \<and> p + 4 \<le> 508" for p
    using k1(1) [of p] k2(1) [of p] that by auto
  have f': "get32 h' 0 = Some HV_HBLOCK_SIGNATURE" "get32 h' 20 = Some 1" "get32 h' 24 = Some minor"
    "get32 h' 28 = Some 0" "get32 h' 32 = Some 1" "get32 h' 44 = Some 1" "get32 h' 4 = Some seq1"
    using f s by (simp_all add: same)
  have "get32 h1 8 = Some seq1" using h1 s k1(4) by (cases "seq1 = seq2") auto
  then have seq: "get32 h' 8 = Some seq1" using k2(1) [of 8] by simp
  have sum: "header_sum h' = Some csum" using maybe_header_sum [OF h'] c by simp
  have st: "get32 h' 508 = Some (stored_sum csum)"
    using h' c k2(4) by (cases "stored_sum csum = stored") auto
  show "check_header h' = Some (True, h')"
    unfolding check_header_True using f' f(4) seq sum st by simp
  show "get32 h' 8 = get32 h' 4" using seq f' by simp
  show "get32 h' 508 = map_option stored_sum (header_sum h')" using st sum by simp
  show "length h' = length h" using k1(2) k2(2) by simp
  show "i \<notin> {8..<12} \<union> {508..<512} \<Longrightarrow> rd h' i = rd h i" using k1(3) [of i] k2(3) [of i] by auto
qed

text \<open>C22: a header that passes the check comes out with equal sequence numbers and a correct
  check sum, and passes again unchanged; nothing else of the hive is written.\<close>

theorem check_header_repairs:
  assumes "check_header h = Some (True, h')"
  shows "check_header h' = Some (True, h') \<and> get32 h' 8 = get32 h' 4 \<and>
    get32 h' 508 = map_option stored_sum (header_sum h') \<and> length h' = length h \<and>
    (\<forall>i. i \<notin> {8..<12} \<union> {508..<512} \<longrightarrow> rd h' i = rd h i)"
  using check_header_facts [OF assms] by blast

lemma get32_defined: "p + 4 \<le> length m \<Longrightarrow> \<exists>v. get32 m p = Some v"
  by (simp add: get32_def peek_def)

lemma put32_defined: "p + 4 \<le> length m \<Longrightarrow> \<exists>m'. put32 m p v = Some m'"
  by (simp add: put32_def poke_def)

lemma sum_defined:
  "(\<And>i. i \<in> set is \<Longrightarrow> 4 * i + 4 \<le> length h) \<Longrightarrow>
     \<exists>c. foldl (\<lambda>acc i. do { c \<leftarrow> acc; d \<leftarrow> get32 h (4 * i); Some (c XOR d) }) (Some a) is = Some c"
proof (induction "is" arbitrary: a)
  case (Cons i "is")
  then obtain d where "get32 h (4 * i) = Some d" using get32_defined [of "4 * i" h] by auto
  then show ?case using Cons by simp
qed simp

lemma header_sum_defined: "508 \<le> length h \<Longrightarrow> \<exists>c. header_sum h = Some c"
  unfolding header_sum_def by (rule sum_defined) auto

text \<open>The fields alone decide whether a header is accepted.\<close>

lemma check_header_accepts:
  assumes "512 \<le> length h" "get32 h 0 = Some HV_HBLOCK_SIGNATURE" "get32 h 20 = Some 1"
    "get32 h 24 = Some minor" "\<not> minor < 3" "get32 h 28 = Some 0" "get32 h 32 = Some 1"
    "get32 h 44 = Some 1"
  shows "\<exists>h'. check_header h = Some (True, h')"
proof -
  obtain seq1 seq2 where s: "get32 h 4 = Some seq1" "get32 h 8 = Some seq2"
    using get32_defined [of 4 h] get32_defined [of 8 h] assms(1) by auto
  obtain h1 where h1: "(if seq1 \<noteq> seq2 then put32 h 8 seq1 else Some h) = Some h1"
    using put32_defined [of 8 h seq1] assms(1) by (cases "seq1 = seq2") auto
  then have len: "length h1 = length h" by (rule maybe_put32)
  obtain csum stored where c: "header_sum h1 = Some csum" "get32 h1 508 = Some stored"
    using header_sum_defined [of h1] get32_defined [of 508 h1] assms(1) len by auto
  obtain h' where
    "(if stored_sum csum \<noteq> stored then put32 h1 508 (stored_sum csum) else Some h1) = Some h'"
    using put32_defined [of 508 h1 "stored_sum csum"] assms(1) len
    by (cases "stored_sum csum = stored") auto
  then show ?thesis unfolding check_header_True using assms s h1 c by blast
qed

text \<open>A header with unequal sequence numbers and a wrong check sum.\<close>

definition torn_header :: bytes where
  "torn_header = [0x72, 0x65, 0x67, 0x66, 2, 0, 0, 0, 1, 0, 0, 0, 0, 0, 0, 0, 0, 0, 0, 0,
     1, 0, 0, 0, 5, 0, 0, 0, 0, 0, 0, 0, 1, 0, 0, 0, 0x20, 0, 0, 0, 0, 0x10, 0, 0, 1, 0, 0, 0] @
     replicate 464 0"

lemma torn_header_fields:
  "get32 torn_header 0 = Some HV_HBLOCK_SIGNATURE" "get32 torn_header 20 = Some 1"
  "get32 torn_header 24 = Some 5" "get32 torn_header 28 = Some 0" "get32 torn_header 32 = Some 1"
  "get32 torn_header 44 = Some 1" "get32 torn_header 4 = Some 2" "get32 torn_header 8 = Some 1"
  by (simp_all add: torn_header_def get32_def peek_def HV_HBLOCK_SIGNATURE_def push_bit_eq_mult)

theorem check_header_repairs_witness:
  "\<exists>h'. check_header torn_header = Some (True, h') \<and> get32 torn_header 8 \<noteq> get32 torn_header 4 \<and>
     get32 h' 8 = get32 h' 4"
proof -
  obtain h' where "check_header torn_header = Some (True, h')"
    using check_header_accepts [of torn_header 5] torn_header_fields by (auto simp: torn_header_def)
  then show ?thesis using check_header_repairs [of torn_header h'] torn_header_fields by auto
qed

section \<open>Deleting a key removes its entry\<close>

text \<open>An entry of a leaf, all of its eight bytes.\<close>

definition leaf_entry :: "hive \<Rightarrow> nat \<Rightarrow> nat \<Rightarrow> bytes option" where
  "leaf_entry h lh i = peek h (lh + 4 + 8 * i) 8"

lemma find_entry_found:
  "find_entry h lh n i key = Some (Some k) \<Longrightarrow>
     i \<le> k \<and> k < i + n \<and> leaf_cell h lh k = Some (key - 0x1000) \<and>
     (\<forall>j. i \<le> j \<and> j < k \<longrightarrow> leaf_cell h lh j \<noteq> Some (key - 0x1000))"
proof (induction n arbitrary: i)
  case (Suc n)
  then obtain cell where c: "leaf_cell h lh i = Some cell" by (auto simp: bind_eq_Some_conv)
  show ?case
  proof (cases "key = 0x1000 + cell")
    case True
    then show ?thesis using Suc.prems c by auto
  next
    case False
    then have "find_entry h lh n (Suc i) key = Some (Some k)" using Suc.prems c by simp
    from Suc.IH [OF this] have ih: "Suc i \<le> k" "k < Suc i + n" "leaf_cell h lh k = Some (key - 0x1000)"
      "\<And>j. Suc i \<le> j \<Longrightarrow> j < k \<Longrightarrow> leaf_cell h lh j \<noteq> Some (key - 0x1000)" by blast+
    have "leaf_cell h lh i \<noteq> Some (key - 0x1000)" using c False by auto
    then have "leaf_cell h lh j \<noteq> Some (key - 0x1000)" if "i \<le> j" "j < k" for j
      using ih(4) [of j] that by (cases "j = i") auto
    then show ?thesis using ih(1-3) by simp
  qed
qed simp

lemma shift_entries_outside:
  "shift_entries h lh n j = Some h' \<Longrightarrow> p + k \<le> lh + 4 + 8 * j \<or> lh + 4 + 8 * (j + n) \<le> p \<Longrightarrow>
     peek h' p k = peek h p k"
proof (induction n arbitrary: h j)
  case (Suc n)
  then obtain e h1 where e: "peek h (lh + 4 + 8 * (j + 1)) 8 = Some e"
    and h1: "poke h (lh + 4 + 8 * j) e = Some h1" and r: "shift_entries h1 lh n (Suc j) = Some h'"
    by (auto simp: bind_eq_Some_conv)
  have "length e = 8" using e by (rule peek_length)
  then have "peek h1 p k = peek h p k" using peek_poke_disjoint [OF h1, of p k] Suc.prems(2) by auto
  moreover have "peek h' p k = peek h1 p k" using Suc.IH [OF r] Suc.prems(2) by auto
  ultimately show ?case by simp
qed simp

lemma shift_entries_inside:
  "shift_entries h lh n j = Some h' \<Longrightarrow> j \<le> i \<Longrightarrow> i < j + n \<Longrightarrow>
     leaf_entry h' lh i = leaf_entry h lh (Suc i)"
proof (induction n arbitrary: h j)
  case (Suc n)
  then obtain e h1 where e: "peek h (lh + 4 + 8 * (j + 1)) 8 = Some e"
    and h1: "poke h (lh + 4 + 8 * j) e = Some h1" and r: "shift_entries h1 lh n (Suc j) = Some h'"
    by (auto simp: bind_eq_Some_conv)
  have len: "length e = 8" using e by (rule peek_length)
  show ?case
  proof (cases "i = j")
    case True
    have "leaf_entry h' lh j = leaf_entry h1 lh j"
      using shift_entries_outside [OF r] by (simp add: leaf_entry_def)
    also have "\<dots> = Some e" using peek_poke_same [OF h1] len by (simp add: leaf_entry_def)
    finally show ?thesis using e True by (simp add: leaf_entry_def)
  next
    case False
    have "leaf_entry h1 lh (Suc i) = leaf_entry h lh (Suc i)"
      using peek_poke_disjoint [OF h1] len Suc.prems False by (simp add: leaf_entry_def)
    then show ?thesis using Suc.IH [OF r] Suc.prems False by simp
  qed
qed simp

text \<open>C18: a successful deletion removes exactly the first entry that names the key, keeps the
  others with their hashes in their order, and decrements both counts, where the node and the
  leaf do not overlap.\<close>

theorem reg_delete_key_removes:
  assumes "key_leaf h parent = Some (Inr (nk, lh))" and "get16 h (lh + 2) = Some n"
    and "reg_delete_key h parent key = Some (REG_ERR_NONE, h')"
    and "nk + 24 \<le> lh + 2 \<or> lh + 4 + 8 * unat n \<le> nk + 20"
  shows "\<exists>i < unat n. leaf_cell h lh i = Some (key - 0x1000) \<and>
    (\<forall>j < i. leaf_cell h lh j \<noteq> Some (key - 0x1000)) \<and>
    get16 h' (lh + 2) = Some (n - 1) \<and>
    map (leaf_entry h' lh) [0..<unat n - 1] =
      map (leaf_entry h lh) [0..<i] @ map (leaf_entry h lh) [Suc i..<unat n] \<and>
    get32 h' (nk + 20) = map_option (\<lambda>c. c - 1) (get32 h (nk + 20))"
proof -
  from assms(1-3) obtain i h1 h2 c where
    f: "find_entry h lh (unat n) 0 key = Some (Some i)"
    and h1: "put16 h (lh + 2) (n - 1) = Some h1"
    and h2: "shift_entries h1 lh (unat (n - 1) - i) i = Some h2"
    and c: "get32 h2 (nk + 20) = Some c" and h': "put32 h2 (nk + 20) (c - 1) = Some h'"
    unfolding reg_delete_key_def by (auto simp: bind_eq_Some_conv split: option.splits)
  note fe = find_entry_found [OF f]
  then have i: "i < unat n" by simp
  then have n1: "unat (n - 1) = unat n - 1" by (simp add: unat_minus_one unat_gt_0 [symmetric])
  have sep: "peek h' p k = peek h2 p k" if "lh + 2 \<le> p" "p + k \<le> lh + 4 + 8 * unat n" for p k
    using peek_put32_other [OF h', of p k] assms(4) that by auto
  have "get16 h' (lh + 2) = get16 h1 (lh + 2)"
    using sep [of "lh + 2" 2] shift_entries_outside [OF h2, of "lh + 2" 2] by (simp add: get16_def)
  then have cnt: "get16 h' (lh + 2) = Some (n - 1)" using get_put16 [OF h1] by simp
  have e1: "leaf_entry h1 lh k = leaf_entry h lh k" for k
    using peek_put16_other [OF h1] by (simp add: leaf_entry_def)
  have below: "leaf_entry h' lh k = leaf_entry h lh k" if "k < i" for k
    using sep [of "lh + 4 + 8 * k" 8] shift_entries_outside [OF h2, of "lh + 4 + 8 * k" 8] that i e1 [of k]
    by (simp add: leaf_entry_def)
  have above: "leaf_entry h' lh k = leaf_entry h lh (Suc k)" if "i \<le> k" "k < unat n - 1" for k
    using sep [of "lh + 4 + 8 * k" 8] shift_entries_inside [OF h2, of k] that i n1 e1 [of "Suc k"]
    by (simp add: leaf_entry_def)
  have es: "map (leaf_entry h' lh) [0..<unat n - 1] =
      map (leaf_entry h lh) [0..<i] @ map (leaf_entry h lh) [Suc i..<unat n]"
    by (rule nth_equalityI) (use i below above in \<open>auto simp: nth_append\<close>)
  have "get32 h2 (nk + 20) = get32 h (nk + 20)"
  proof -
    have "peek h2 (nk + 20) 4 = peek h1 (nk + 20) 4"
      using shift_entries_outside [OF h2, of "nk + 20" 4] assms(4) i n1 by auto
    also have "\<dots> = peek h (nk + 20) 4" using peek_put16_other [OF h1, of "nk + 20" 4] assms(4) i by auto
    finally show ?thesis by (simp add: get32_def)
  qed
  then have "get32 h' (nk + 20) = map_option (\<lambda>c. c - 1) (get32 h (nk + 20))"
    using c get_put32 [OF h'] by (metis option.simps(9))
  then show ?thesis using i fe cnt es by blast
qed


section \<open>Small hives\<close>

text \<open>A hive whose header is blank; what lies behind it is addressed from \<^verbatim>\<open>0x1000\<close> on.\<close>

definition hive_of :: "bytes \<Rightarrow> hive" where
  "hive_of bins = replicate 4096 0 @ bins"

lemma peek_hive_of [eval_simps]: "4096 \<le> p \<Longrightarrow> peek (hive_of bins) p n = peek bins (p - 4096) n"
  by (auto simp: hive_of_def peek_def)

lemma poke_hive_of [eval_simps]:
  "4096 \<le> p \<Longrightarrow> poke (hive_of bins) p ys = map_option hive_of (poke bins (p - 4096) ys)"
  by (auto simp: hive_of_def poke_def)

lemma rd_hive_of [eval_simps]: "4096 \<le> p \<Longrightarrow> rd (hive_of bins) p = rd bins (p - 4096)"
  by (auto simp: hive_of_def rd_def nth_append)

lemma get16_hive_of [eval_simps]: "4096 \<le> p \<Longrightarrow> get16 (hive_of bins) p = get16 bins (p - 4096)"
  by (simp add: get16_def peek_hive_of)

lemma get32_hive_of [eval_simps]: "4096 \<le> p \<Longrightarrow> get32 (hive_of bins) p = get32 bins (p - 4096)"
  by (simp add: get32_def peek_hive_of)

lemma put16_hive_of [eval_simps]:
  "4096 \<le> p \<Longrightarrow> put16 (hive_of bins) p v = map_option hive_of (put16 bins (p - 4096) v)"
  by (simp add: put16_def poke_hive_of)

lemma put32_hive_of [eval_simps]:
  "4096 \<le> p \<Longrightarrow> put32 (hive_of bins) p v = map_option hive_of (put32 bins (p - 4096) v)"
  by (simp add: put32_def poke_hive_of)

text \<open>A key, cell 0, with the children A in cell 104 and b in cell 188, in a leaf in cell 80.\<close>

definition two_children :: bytes where
  "two_children = [
     176, 255, 255, 255, 110, 107, 32, 0, 0, 0, 0, 0, 0, 0, 0, 0, 0, 0, 0, 0,
     0, 0, 0, 0, 2, 0, 0, 0, 0, 0, 0, 0, 80, 0, 0, 0, 255, 255, 255, 255,
     0, 0, 0, 0, 255, 255, 255, 255, 0, 0, 0, 0, 0, 0, 0, 0, 0, 0, 0, 0,
     0, 0, 0, 0, 0, 0, 0, 0, 0, 0, 0, 0, 0, 0, 0, 0, 0, 0, 0, 0,
     232, 255, 255, 255, 108, 102, 2, 0, 104, 0, 0, 0, 111, 0, 0, 0, 188, 0, 0, 0,
     195, 0, 0, 0, 172, 255, 255, 255, 110, 107, 32, 0, 0, 0, 0, 0, 0, 0, 0, 0,
     0, 0, 0, 0, 0, 0, 0, 0, 0, 0, 0, 0, 0, 0, 0, 0, 255, 255, 255, 255,
     255, 255, 255, 255, 0, 0, 0, 0, 255, 255, 255, 255, 0, 0, 0, 0, 0, 0, 0, 0,
     0, 0, 0, 0, 0, 0, 0, 0, 0, 0, 0, 0, 0, 0, 0, 0, 0, 0, 0, 0,
     1, 0, 0, 0, 65, 0, 0, 0, 172, 255, 255, 255, 110, 107, 32, 0, 0, 0, 0, 0,
     0, 0, 0, 0, 0, 0, 0, 0, 0, 0, 0, 0, 0, 0, 0, 0, 0, 0, 0, 0,
     255, 255, 255, 255, 255, 255, 255, 255, 0, 0, 0, 0, 255, 255, 255, 255, 0, 0, 0, 0,
     0, 0, 0, 0, 0, 0, 0, 0, 0, 0, 0, 0, 0, 0, 0, 0, 0, 0, 0, 0,
     0, 0, 0, 0, 1, 0, 0, 0, 98, 0, 0, 0]"

lemma two_children_fields:
  "get32 two_children 0 = Some 0xFFFFFFB0" "get32 two_children 24 = Some 2"
  "get32 two_children 32 = Some 80" "get32 two_children 80 = Some 0xFFFFFFE8"
  "get32 two_children 88 = Some 104" "get32 two_children 96 = Some 188"
  "get32 two_children 104 = Some 0xFFFFFFAC" "get32 two_children 188 = Some 0xFFFFFFAC"
  "get16 two_children 4 = Some 0x6b6e" "get16 two_children 76 = Some 0"
  "get16 two_children 84 = Some 0x666c" "get16 two_children 86 = Some 2"
  "get16 two_children 108 = Some 0x6b6e" "get16 two_children 110 = Some 0x20"
  "get16 two_children 180 = Some 1" "get16 two_children 192 = Some 0x6b6e"
  "get16 two_children 194 = Some 0x20" "get16 two_children 264 = Some 1"
  "rd two_children 184 = Some 65" "rd two_children 268 = Some 98"
  by code_simp+

lemmas reg_consts = HV_HBLOCK_SIGNATURE_def HV_HBIN_SIGNATURE_def CM_KEY_FAST_LEAF_def
  CM_KEY_HASH_LEAF_def CM_KEY_INDEX_ROOT_def CM_KEY_NODE_SIGNATURE_def CM_KEY_VALUE_SIGNATURE_def
  KEY_COMP_NAME_def VALUE_COMP_NAME_def CM_KEY_VALUE_SPECIAL_SIZE_def is_leaf_def
  get_int32_size_def

lemma two_children_leaf: "key_leaf (hive_of two_children) 4096 = Some (Inr (4100, 4180))"
  by (simp add: key_leaf_def key_node_def key_index_def eval_simps two_children_fields reg_consts)

lemma shift_entries_defined:
  "lh + 4 + 8 * (j + n + 1) \<le> length h \<Longrightarrow> \<exists>h'. shift_entries h lh n j = Some h' \<and> length h' = length h"
proof (induction n arbitrary: h j)
  case (Suc n)
  obtain e where e: "peek h (lh + 4 + 8 * (j + 1)) 8 = Some e"
    using Suc.prems by (auto simp: peek_def)
  then have "length e = 8" by (rule peek_length)
  then obtain h1 where h1: "poke h (lh + 4 + 8 * j) e = Some h1"
    using Suc.prems by (auto simp: poke_def)
  then have "length h1 = length h" by (rule poke_length)
  then show ?case using Suc.IH [where h = h1 and j = "Suc j"] Suc.prems e h1 by auto
qed simp

lemma reg_delete_key_returns:
  assumes "key_leaf h parent = Some (Inr (nk, lh))" and "get16 h (lh + 2) = Some n"
    and "find_entry h lh (unat n) 0 key = Some (Some i)"
    and "lh + 4 + 8 * unat n \<le> length h" and "nk + 24 \<le> length h"
  shows "\<exists>h'. reg_delete_key h parent key = Some (REG_ERR_NONE, h')"
proof -
  have i: "i < unat n" using find_entry_found [OF assms(3)] by simp
  then have n1: "unat (n - 1) = unat n - 1" by (simp add: unat_minus_one unat_gt_0 [symmetric])
  obtain h1 where h1: "put16 h (lh + 2) (n - 1) = Some h1"
    using assms(4) i by (simp add: put16_def poke_def)
  then have "length h1 = length h" by (rule put16_length)
  then obtain h2 where h2: "shift_entries h1 lh (unat (n - 1) - i) i = Some h2" "length h2 = length h"
    using shift_entries_defined [of lh i "unat (n - 1) - i" h1] assms(4) i n1 by auto
  then obtain c h' where "get32 h2 (nk + 20) = Some c" "put32 h2 (nk + 20) (c - 1) = Some h'"
    using get32_defined [of "nk + 20" h2] put32_defined [of "nk + 20" h2] assms(5) by fastforce
  then show ?thesis using assms(1-3) h1 h2 by (simp add: reg_delete_key_def)
qed

lemma two_children_find: "find_entry (hive_of two_children) 4180 (unat (2 :: u16)) 0 4200 = Some (Some 0)"
proof -
  have "unat (2 :: u16) = Suc (Suc 0)" by simp
  then show ?thesis by (simp only: find_entry.simps(2))
    (simp add: leaf_cell_def eval_simps two_children_fields)
qed

theorem reg_delete_key_removes_witness:
  "\<exists>h'. reg_delete_key (hive_of two_children) 4096 4200 = Some (REG_ERR_NONE, h') \<and>
     get16 h' 4182 = Some 1 \<and> get32 h' 4120 = Some 1"
proof -
  have n: "get16 (hive_of two_children) (4180 + 2) = Some 2"
    by (simp add: eval_simps two_children_fields)
  obtain h' where h': "reg_delete_key (hive_of two_children) 4096 4200 = Some (REG_ERR_NONE, h')"
    using reg_delete_key_returns [OF two_children_leaf n two_children_find]
    by (auto simp: hive_of_def two_children_def)
  show ?thesis
    using reg_delete_key_removes [OF two_children_leaf n h'] h'
    by (auto simp: eval_simps two_children_fields)
qed

section \<open>Looking keys up\<close>

text \<open>The name of the node at an offset, as the characters the operations compare.\<close>

fun name_from :: "hive \<Rightarrow> nat \<Rightarrow> bool \<Rightarrow> nat \<Rightarrow> nat \<Rightarrow> u16 list option" where
  "name_from h name packed 0 j = Some []"
| "name_from h name packed (Suc n) j = do {
     c \<leftarrow> name_char h name packed j;
     cs \<leftarrow> name_from h name packed n (Suc j);
     Some (c # cs) }"

definition node_name :: "hive \<Rightarrow> nat \<Rightarrow> u16 list option" where
  "node_name h nk = do {
     name_length \<leftarrow> get16 h (nk + 72);
     flags \<leftarrow> get16 h (nk + 2);
     let packed = (flags AND KEY_COMP_NAME \<noteq> 0);
     name_from h (nk + 76) packed (name_count packed name_length) 0 }"

lemma same_name_True:
  "same_name h name packed n j namebit = Some True \<Longrightarrow>
     \<exists>cs. name_from h name packed n j = Some cs \<and>
       map fold_case cs = map fold_case (take n (drop j namebit))"
proof (induction n arbitrary: j)
  case (Suc n)
  then obtain c1 c2 where c: "name_char h name packed j = Some c1" "j < length namebit"
      "namebit ! j = c2" "fold_case c1 = fold_case c2" "same_name h name packed n (Suc j) namebit = Some True"
    by (auto simp: bind_eq_Some_conv mem_simps split: if_splits)
  then have "drop j namebit = c2 # drop (Suc j) namebit" by (metis Cons_nth_drop_Suc)
  then show ?case using c Suc.IH [OF c(5)] by auto
qed simp

lemma child_matches_name:
  assumes "child_matches h cell namebit nblen = Some True"
  shows "\<exists>cs. node_name h (0x1000 + unat cell + 4) = Some cs \<and> length cs = nblen \<and>
    map fold_case cs = map fold_case (take nblen namebit)"
proof -
  let ?nk2 = "0x1000 + unat cell + 4"
  from assms obtain len flags where
    f: "get16 h (?nk2 + 72) = Some len" "get16 h (?nk2 + 2) = Some flags"
       "name_count (flags AND KEY_COMP_NAME \<noteq> 0) len = nblen"
       "same_name h (?nk2 + 76) (flags AND KEY_COMP_NAME \<noteq> 0) nblen 0 namebit = Some True"
    unfolding child_matches_def by (auto simp: bind_eq_Some_conv Let_def split: if_splits)
  have "length cs = n" if "name_from h a p n j = Some cs" for a p n j cs
    using that by (induction n arbitrary: j cs) (auto simp: bind_eq_Some_conv)
  then show ?thesis
    using same_name_True [OF f(4)] f(1-3) by (auto simp: node_name_def Let_def)
qed

end
