(* ===== verification/RegLookup.thy ===== *)
theory RegLookup
  imports Registry
begin

text \<open>
  What lookups in a hive deliver: the first child with a name, the value of a name, paths as
  successive lookups, and what opening a hive relies on: bins that tile the file and links
  without cycles.
\<close>

section \<open>The first child with the name\<close>

lemma search_children_result:
  "search_children h lh n i namebit nblen = Some r \<Longrightarrow>
     (case r of
        Inr k \<Rightarrow> \<exists>j cell. i \<le> j \<and> j < i + n \<and> leaf_cell h lh j = Some cell \<and> k = 0x1000 + cell \<and>
          child_matches h cell namebit nblen = Some True \<and>
          (\<forall>l. i \<le> l \<and> l < j \<longrightarrow> (\<exists>c. leaf_cell h lh l = Some c \<and> child_matches h c namebit nblen = Some False))
      | Inl e \<Rightarrow> e = REG_ERR_FILE_NOT_FOUND \<and>
          (\<forall>l. i \<le> l \<and> l < i + n \<longrightarrow> (\<exists>c. leaf_cell h lh l = Some c \<and> child_matches h c namebit nblen = Some False)))"
proof (induction n arbitrary: i)
  case (Suc n)
  then obtain cell b where c: "leaf_cell h lh i = Some cell" "child_matches h cell namebit nblen = Some b"
    by (auto simp: bind_eq_Some_conv)
  show ?case
  proof (cases b)
    case True
    then have "r = Inr (0x1000 + cell)" using Suc.prems c by simp
    then show ?thesis using c True by (auto intro!: exI [of _ i])
  next
    case False
    then have "search_children h lh n (Suc i) namebit nblen = Some r" using Suc.prems c by simp
    note ih = Suc.IH [OF this]
    have first: "\<exists>c. leaf_cell h lh l = Some c \<and> child_matches h c namebit nblen = Some False"
      if "l = i" for l using c False that by simp
    show ?thesis
    proof (cases r)
      case (Inl e)
      then show ?thesis using ih first by (auto simp: Suc_le_eq) (metis le_neq_implies_less)
    next
      case (Inr k)
      then obtain j cell' where j: "Suc i \<le> j" "j < Suc i + n" "leaf_cell h lh j = Some cell'"
          "k = 0x1000 + cell'" "child_matches h cell' namebit nblen = Some True"
          "\<And>l. Suc i \<le> l \<Longrightarrow> l < j \<Longrightarrow>
             \<exists>c. leaf_cell h lh l = Some c \<and> child_matches h c namebit nblen = Some False"
        using ih by auto
      have "\<exists>c. leaf_cell h lh l = Some c \<and> child_matches h c namebit nblen = Some False"
        if "i \<le> l" "l < j" for l
        using that j(6) [of l] first [of l] by (cases "l = i") auto
      then show ?thesis using j(1-5) Inr by (auto intro!: exI [of _ j])
    qed
  qed
qed auto


lemma rd_first: "rd (x # xs) 0 = Some x"
  by (simp add: rd_def)

lemma two_children_match:
  "child_matches (hive_of two_children) 104 [0x42, 0x5C] 1 = Some False"
  "child_matches (hive_of two_children) 188 [0x42, 0x5C] 1 = Some True"
  by (simp_all add: child_matches_def eval_simps two_children_fields reg_consts name_count_def
      name_char_def Let_def rd_first fold_case_def)

lemma two_children_lookup:
  "find_child_key (hive_of two_children) 4096 [0x42, 0x5C] 1 = Some (Inr 4284)"
proof -
  have "unat (2 :: u16) = Suc (Suc 0)" by simp
  then have "search_children (hive_of two_children) 4180 (unat (2 :: u16)) 0 [0x42, 0x5C] 1 = Some (Inr 4284)"
    by (simp only: search_children.simps)
      (simp only: leaf_cell_def, simp add: eval_simps two_children_fields two_children_match [simplified])
  then show ?thesis
    by (simp only: find_child_key_def two_children_leaf) (simp add: eval_simps two_children_fields)
qed


section \<open>Paths\<close>

lemma same_name_append:
  "j + n \<le> length nb \<Longrightarrow> same_name h a packed n j (nb @ x) = same_name h a packed n j nb"
proof (induction n arbitrary: j)
  case (Suc n)
  then have "rd (nb @ x) j = rd nb j" by (simp add: rd_def nth_append)
  moreover have "same_name h a packed n (Suc j) (nb @ x) = same_name h a packed n (Suc j) nb"
    using Suc by simp
  ultimately show ?case by (simp only: same_name.simps)
qed simp

lemma child_matches_append:
  "child_matches h cell (nb @ x) (length nb) = child_matches h cell nb (length nb)"
  by (simp add: child_matches_def same_name_append Let_def cong: if_cong)

lemma find_child_key_append:
  "find_child_key h p (nb @ x) (length nb) = find_child_key h p nb (length nb)"
proof -
  have "search_children h lh n i (nb @ x) (length nb) = search_children h lh n i nb (length nb)" for lh n i
    by (induction n arbitrary: i) (simp_all add: child_matches_append cong: if_cong)
  then show ?thesis by (simp only: find_child_key_def)
qed

text \<open>A path as a caller writes it, and the lookups it stands for.\<close>

fun path_of :: "u16 list list \<Rightarrow> u16 list" where
  "path_of [] = [0]"
| "path_of [c] = c @ [0]"
| "path_of (c # cs) = c @ 0x5C # path_of cs"

fun walk :: "hive \<Rightarrow> hkey \<Rightarrow> u16 list list \<Rightarrow> hkey reg" where
  "walk h p [] = Some (Inr p)"
| "walk h p (c # cs) = do {
     r \<leftarrow> find_child_key h p c (length c);
     case r of
       Inl e \<Rightarrow> Some (Inl e)
     | Inr k \<Rightarrow> walk h k cs }"

definition component :: "u16 list \<Rightarrow> bool" where
  "component c \<longleftrightarrow> c \<noteq> [] \<and> 0 \<notin> set c \<and> 0x5C \<notin> set c"

lemma component_length_stop:
  "0 \<notin> set c \<Longrightarrow> 0x5C \<notin> set c \<Longrightarrow> x = 0x5C \<or> x = 0 \<Longrightarrow> component_length (c @ x # rest) = Some (length c)"
  by (induction c) auto

lemma path_of_first: "component c \<Longrightarrow> \<exists>x xs. path_of (c # cs) = x # xs \<and> x \<noteq> 0"
  by (cases c; cases cs) (auto simp: component_def)

text \<open>C20: a path is looked up component by component, the first lookup that fails giving the
  result; the loop ends with the path.\<close>

theorem reg_find_key_walks:
  assumes "cs \<noteq> []" and "\<forall>c \<in> set cs. component c"
  shows "reg_find_key h p (path_of cs @ rest) = walk h p cs"
  using assms
proof (induction cs arbitrary: p)
  case (Cons c cs)
  then have c: "0 \<notin> set c" "0x5C \<notin> set c" by (auto simp: component_def)
  show ?case
  proof (cases cs)
    case Nil
    have "component_length (c @ 0 # rest) = Some (length c)" using component_length_stop [OF c] by simp
    then show ?thesis
      using Nil find_child_key_append [of h p c "0 # rest"]
      by (subst reg_find_key.simps) (auto simp: rd_def split: sum.splits intro!: Option.bind_cong)
  next
    case (Cons d ds)
    let ?tail = "path_of cs @ rest"
    have path: "path_of (c # cs) @ rest = c @ 0x5C # ?tail" using Cons by simp
    have "component_length (c @ 0x5C # ?tail) = Some (length c)"
      using component_length_stop [OF c] by simp
    moreover obtain x xs where "?tail = x # xs" "x \<noteq> 0"
      using path_of_first [of d ds] Cons.prems Cons by auto
    moreover have "reg_find_key h k ?tail = walk h k cs" for k
      using Cons.IH Cons.prems Cons by simp
    ultimately show ?thesis
      using find_child_key_append [of h p c "0x5C # ?tail"]
      by (simp only: path, subst reg_find_key.simps)
        (auto simp: rd_def nth_append split: sum.splits intro!: Option.bind_cong)
  qed
qed simp

theorem reg_find_key_walks_witness:
  "reg_find_key (hive_of two_children) 4096 (path_of [[0x42]] @ []) = Some (Inr 4284)"
proof -
  have "find_child_key (hive_of two_children) 4096 [0x42] (length [0x42 :: u16]) = Some (Inr 4284)"
    using find_child_key_append [of _ 4096 "[0x42]" "[0x5C]"] two_children_lookup by simp
  then show ?thesis
    using reg_find_key_walks [of "[[0x42]]" "hive_of two_children" 4096 "[]"] by (simp add: component_def)
qed

section \<open>The bins\<close>

text \<open>The bins from an offset on tile the file up to its length.\<close>

inductive bins :: "hive \<Rightarrow> nat \<Rightarrow> nat \<Rightarrow> bool" for h :: hive and len :: nat where
  bins_end: "bins h len len"
| bins_next: "off < len \<Longrightarrow> get32 h (0x1000 + off) = Some HV_HBIN_SIGNATURE \<Longrightarrow>
    get32 h (0x1000 + off + 4) = Some file_offset \<Longrightarrow> unat file_offset = off \<Longrightarrow>
    get32 h (0x1000 + off + 8) = Some sz \<Longrightarrow> off + unat sz \<le> len \<Longrightarrow> 4096 dvd unat sz \<Longrightarrow>
    bins h len (off + unat sz) \<Longrightarrow> bins h len off"

inductive_cases bins_cases: "bins h len off"

lemma page_multiple: "(sz :: u32) AND 0xfff = 0 \<longleftrightarrow> 4096 dvd unat sz"
proof -
  have "(0xfff :: u32) = mask 12" by (simp add: mask_eq_exp_minus_1)
  then have "unat (sz AND 0xfff) = unat sz mod 4096" using unat_and_mask [of sz 12] by simp
  then show ?thesis by (metis dvd_eq_mod_eq_0 unat_eq_zero)
qed

lemma validate_bin_next:
  "validate_bin h len off = Some (Inl off') \<longleftrightarrow>
     off < len \<and> get32 h (0x1000 + off) = Some HV_HBIN_SIGNATURE \<and>
     (\<exists>file_offset sz. get32 h (0x1000 + off + 4) = Some file_offset \<and> unat file_offset = off \<and>
        get32 h (0x1000 + off + 8) = Some sz \<and> off + unat sz \<le> len \<and> 4096 dvd unat sz \<and>
        off' = off + unat sz)"
  unfolding validate_bin_def Let_def
  by (cases "get32 h (0x1000 + off + 4)"; cases "get32 h (0x1000 + off + 8)")
    (auto simp: bind_eq_Some_conv page_multiple split: if_splits)

lemma validate_bin_last: "validate_bin h len off = Some (Inr True) \<longleftrightarrow> len \<le> off"
  unfolding validate_bin_def Let_def by (auto simp: bind_eq_Some_conv split: if_splits)

lemma bins_validated: "bins h len off \<Longrightarrow> iterate (Suc (len - off)) (validate_bin h len) off = Some (Inr True)"
proof (induction rule: bins.induct)
  case bins_end
  have "validate_bin h len len = Some (Inr True)" by (simp add: validate_bin_last)
  then show ?case by simp
next
  case (bins_next off file_offset sz)
  show ?case
  proof (cases "unat sz = 0")
    case True
    then show ?thesis using bins_next.IH by simp
  next
    case False
    have "validate_bin h len off = Some (Inl (off + unat sz))"
      using bins_next.hyps by (simp add: validate_bin_next)
    moreover have "iterate (len - off) (validate_bin h len) (off + unat sz) = Some (Inr True)"
      by (rule iterate_more [OF bins_next.IH]) (use False bins_next.hyps in linarith)
    ultimately show ?thesis by simp
  qed
qed

lemma validated_bins:
  "iterate n (validate_bin h len) off = Some (Inr True) \<Longrightarrow> off \<le> len \<Longrightarrow> bins h len off"
proof (induction n arbitrary: off)
  case (Suc n)
  then consider (last) "validate_bin h len off = Some (Inr True)"
    | (step) off' where "validate_bin h len off = Some (Inl off')"
        "iterate n (validate_bin h len) off' = Some (Inr True)"
    by (auto split: option.splits sum.splits)
  then show ?case
  proof cases
    case last
    then show ?thesis using Suc.prems(2) bins_end by (simp add: validate_bin_last)
  next
    case step
    then show ?thesis using Suc.IH [OF step(2)] bins_next by (fastforce simp: validate_bin_next)
  qed
qed simp


text \<open>One bin of one page.\<close>

definition one_bin :: bytes where
  "one_bin = [0x68, 0x62, 0x69, 0x6E, 0, 0, 0, 0, 0, 0x10, 0, 0]"

definition empty_bin :: bytes where
  "empty_bin = [0x68, 0x62, 0x69, 0x6E, 0, 0, 0, 0, 0, 0, 0, 0]"

lemma bin_fields:
  "get32 one_bin 0 = Some HV_HBIN_SIGNATURE" "get32 one_bin 4 = Some 0" "get32 one_bin 8 = Some 4096"
  "get32 empty_bin 0 = Some HV_HBIN_SIGNATURE" "get32 empty_bin 4 = Some 0" "get32 empty_bin 8 = Some 0"
  by code_simp+


text \<open>C24: a bin whose size field is zero is accepted without moving on: the loop never ends.\<close>

theorem validate_bins_empty_bin:
  assumes "get32 h 0x1000 = Some HV_HBIN_SIGNATURE" "get32 h 0x1004 = Some 0" "get32 h 0x1008 = Some 0"
    and "0 < len"
  shows "validate_bins fuel h len = Some (Inl 0)"
proof -
  have "validate_bin h len 0 = Some (Inl 0)" using assms by (simp add: validate_bin_next)
  then show ?thesis unfolding validate_bins_def by (rule iterate_stuck)
qed

theorem validate_bins_empty_bin_witness:
  "validate_bins 1000000 (hive_of empty_bin) 4096 = Some (Inl 0)"
  using validate_bins_empty_bin [of "hive_of empty_bin" 4096 1000000] by (simp add: eval_simps bin_fields)

section \<open>Links that form a cycle\<close>

text \<open>A key that is its own first child: the fields \<^verbatim>\<open>clear_volatile\<close> reads.\<close>

definition own_child :: "hive \<Rightarrow> hkey \<Rightarrow> u32 \<Rightarrow> bool" where
  "own_child h key list \<longleftrightarrow>
     (let nk = unat key + 4; lh = 0x1000 + unat list + 4 in
      (\<exists>sz. get_int32_size h (unat key) = Some sz \<and> 0 \<le> sint sz \<and> 80 \<le> unat sz) \<and>
      get16 h nk = Some CM_KEY_NODE_SIGNATURE \<and>
      (\<exists>count. get32 h (nk + 20) = Some count \<and> count \<noteq> 0) \<and>
      get32 h (nk + 28) = Some list \<and> list \<noteq> 0xffffffff \<and>
      (\<exists>sz. get_int32_size h (unat (0x1000 + list)) = Some sz) \<and>
      (\<exists>sig. get16 h lh = Some sig \<and> is_leaf sig) \<and>
      (\<exists>count. get16 h (lh + 2) = Some count \<and> 0 < count) \<and>
      get32 h (lh + 4) = Some (key - 0x1000))"

text \<open>The two fields the call writes lie apart from those.\<close>

definition apart :: "hkey \<Rightarrow> u32 \<Rightarrow> bool" where
  "apart key list \<longleftrightarrow>
     (let nk = unat key + 4; lh = 0x1000 + unat list + 4; sz = unat (0x1000 + list) in
      (lh + 8 \<le> nk + 24 \<or> nk + 36 \<le> lh) \<and> (sz + 4 \<le> nk + 24 \<or> nk + 36 \<le> sz))"

lemma own_child_put:
  assumes "own_child h key list" and "apart key list"
    and "put32 h (unat key + 4 + 32) v = Some h' \<or> put32 h (unat key + 4 + 24) v = Some h'"
  shows "own_child h' key list"
proof -
  let ?nk = "unat key + 4"
  have p32: "get32 h' p = get32 h p" if "p + 4 \<le> ?nk + 24 \<or> ?nk + 36 \<le> p \<or> p = ?nk + 28" for p
    using assms(3) that by (auto intro: get32_put32_other)
  have p16: "get16 h' p = get16 h p" if "p + 2 \<le> ?nk + 24 \<or> ?nk + 36 \<le> p" for p
    using assms(3) that by (auto intro: get16_put32_other)
  show ?thesis
    using assms(1,2) unfolding own_child_def apart_def get_int32_size_def Let_def
    by (auto simp: p32 p16)
qed

text \<open>C23: on a key whose leaf leads back to the key itself, no fuel is enough:
  \<^verbatim>\<open>clear_volatile\<close> recurses for ever, so \<^verbatim>\<open>reg_open_hive\<close> does not return.\<close>

theorem clear_volatile_cycle:
  assumes "own_child h key list" and "apart key list" and "unat key + 40 \<le> length h"
  shows "clear_volatile fuel h key = Some (Inl ())"
  using assms(1,3)
proof (induction fuel arbitrary: h rule: less_induct)
  case (less fuel)
  let ?nk = "unat key + 4" and ?lh = "0x1000 + unat list + 4"
  show ?case
  proof (cases fuel)
    case (Suc f)
    obtain h1 where h1: "put32 h (?nk + 32) 0xbaadf00d = Some h1"
      using put32_defined [of "?nk + 32" h] less.prems(2) by auto
    then have l1: "length h1 = length h" by (rule put32_length)
    then obtain h2 where h2: "put32 h1 (?nk + 24) 0 = Some h2"
      using put32_defined [of "?nk + 24" h1] less.prems(2) by auto
    then have l2: "length h2 = length h" using l1 by (simp add: put32_length)
    have oc: "own_child h2 key list"
      using own_child_put [OF own_child_put [OF less.prems(1) assms(2)] assms(2)] h1 h2 by blast
    have step: "clear_volatile (Suc f) h key = clear_children f h2 ?lh 8 0"
      using less.prems(1) oc h1 h2 unfolding own_child_def Let_def
      by (auto simp: Let_def)
    show ?thesis
    proof (cases f)
      case 0
      then show ?thesis using step Suc by simp
    next
      case (Suc g)
      have ih: "clear_volatile g h2 key = Some (Inl ())"
        using less.IH [of g h2] \<open>fuel = Suc f\<close> Suc oc l2 less.prems(2) by simp
      have "clear_children (Suc g) h2 ?lh 8 0 = Some (Inl ())"
        using oc ih unfolding own_child_def Let_def by (auto simp: unat_gt_0)
      then show ?thesis using step \<open>fuel = Suc f\<close> Suc by simp
    qed
  qed simp
qed

definition looped :: bytes where
  "looped = [
     176, 255, 255, 255, 110, 107, 32, 0, 0, 0, 0, 0, 0, 0, 0, 0, 0, 0, 0, 0,
     0, 0, 0, 0, 1, 0, 0, 0, 0, 0, 0, 0, 80, 0, 0, 0, 255, 255, 255, 255,
     0, 0, 0, 0, 0, 0, 0, 0, 0, 0, 0, 0, 0, 0, 0, 0, 0, 0, 0, 0,
     0, 0, 0, 0, 0, 0, 0, 0, 0, 0, 0, 0, 0, 0, 0, 0, 0, 0, 0, 0,
     240, 255, 255, 255, 108, 102, 1, 0, 0, 0, 0, 0, 0, 0, 0, 0]"

lemma looped_fields:
  "get32 looped 0 = Some 0xFFFFFFB0" "get16 looped 4 = Some 0x6b6e" "get32 looped 24 = Some 1"
  "get32 looped 32 = Some 80" "get32 looped 80 = Some 0xFFFFFFF0" "get16 looped 84 = Some 0x666c"
  "get16 looped 86 = Some 1" "get32 looped 88 = Some 0"
  by code_simp+

lemma looped_own_child: "own_child (hive_of looped) 4096 80" and looped_apart: "apart 4096 80"
  and looped_length: "unat (4096 :: u32) + 40 \<le> length (hive_of looped)"
proof -
  show "own_child (hive_of looped) 4096 80"
    by (simp add: own_child_def eval_simps looped_fields reg_consts)
  show "apart 4096 80" by (simp add: apart_def)
  show "unat (4096 :: u32) + 40 \<le> length (hive_of looped)" by (simp add: hive_of_def looped_def)
qed

theorem clear_volatile_cycle_witness:
  "clear_volatile 1000 (hive_of looped) 4096 = Some (Inl ())"
  by (rule clear_volatile_cycle [OF looped_own_child looped_apart looped_length])

section \<open>Limits of the checks\<close>

text \<open>
  A name that does not fit is cut off, but its terminator is written to the element behind the
  buffer: a buffer of \<open>NameLength\<close> elements is overrun by one.
\<close>

lemma copy_name_overruns:
  "length Name = NameLength \<Longrightarrow> NameLength \<le> i + n \<Longrightarrow> i \<le> NameLength \<Longrightarrow>
     copy_name h name packed n i NameLength Name = None"
proof (induction n arbitrary: i Name)
  case 0
  then show ?case by (simp add: wr_def)
next
  case (Suc n)
  show ?case
  proof (cases "i = NameLength")
    case True
    then show ?thesis using Suc.prems by (simp add: wr_def)
  next
    case False
    then have "copy_name h name packed n (Suc i) NameLength (Name[i := c]) = None" for c
      using Suc by simp
    then show ?thesis using False Suc.prems
      by (cases "name_char h name packed i") (auto simp: wr_def)
  qed
qed

text \<open>
  The data of a value is compared with the whole cell as an unsigned number: the last four bytes
  may lie behind the cell, and a free cell, whose size is negative, is never too small.
\<close>

lemma high_bit: "bit (w :: u32) 31 \<longleftrightarrow> \<not> unat w < 2 ^ 31"
proof -
  have "\<not> bit w 31 \<longleftrightarrow> drop_bit 31 w = 0"
    using drop_bit_eq_zero_iff_not_bit_last [of w] by simp
  also have "\<dots> \<longleftrightarrow> unat w div 2 ^ 31 = 0"
    by (metis unat_drop_bit_eq drop_bit_nat_def unat_eq_zero)
  also have "\<dots> \<longleftrightarrow> unat w < 2 ^ 31" by (simp add: div_eq_0_iff)
  finally show ?thesis by blast
qed

lemma value_data_free_cell:
  assumes "get32 h (vk + 4) = Some len" "get32 h (vk + 12) = Some type" "get32 h (vk + 8) = Some dat"
    and "get_int32_size h (unat (0x1000 + dat)) = Some sz" and "sint sz < 0"
    and "len AND CM_KEY_VALUE_SPECIAL_SIZE = 0"
  shows "value_data h vk =
    Some (Inr (Some (0x1000 + unat dat + 4), len AND NOT CM_KEY_VALUE_SPECIAL_SIZE, type))"
proof -
  have "bit sz 31" using assms(5) bit_last_iff [of sz] by simp
  then have "\<not> unat sz < 2 ^ 31" using high_bit [of sz] by blast
  moreover have "\<not> bit len 31"
  proof
    assume "bit len 31"
    then have "bit (len AND CM_KEY_VALUE_SPECIAL_SIZE) 31"
      by (simp add: bit_and_iff CM_KEY_VALUE_SPECIAL_SIZE_def bit_numeral_rec)
    then show False using assms(6) by simp
  qed
  then have "unat len < 2 ^ 31" using high_bit [of len] by blast
  ultimately have "\<not> sz < len" by (simp add: word_less_nat_alt)
  then show ?thesis using assms by (simp add: value_data_def)
qed

end
