(* ===== verification/Charset.thy ===== *)
theory Charset
  imports NtPrelude
begin

text \<open>
  The character set conversions of \<^verbatim>\<open>libnt/charset.c\<close>. The source is the memory from the
  pointer on, the result the code units written to the destination; the pointer the C
  functions return is the destination advanced by their number.
\<close>

definition is_utf8_trailing_octet :: "byte \<Rightarrow> bool" where
  "is_utf8_trailing_octet c \<longleftrightarrow> 0x80 \<le> c \<and> c \<le> 0xBF"

definition trailing :: "bytes \<Rightarrow> nat \<Rightarrow> bool option" where
  "trailing src i = map_option is_utf8_trailing_octet (rd src i)"

function utf8_to_ucs2 :: "nat \<Rightarrow> bytes \<Rightarrow> u16 list option" where
  "utf8_to_ucs2 destsize src =
     (case src of [] \<Rightarrow> None
      | c # _ \<Rightarrow>
        if c = 0 \<or> destsize = 0 then Some []
        else if c \<le> 0x7F then
          map_option ((#) (0x007F AND ucast c)) (utf8_to_ucs2 (destsize - 1) (drop 1 src))
        else do {
          two \<leftarrow> (if c \<le> 0xDF then trailing src 1 else Some False);
          if two then
            map_option ((#) (push_bit 6 (0x001F AND ucast c) OR (0x003F AND ucast (src ! 1))))
              (utf8_to_ucs2 (destsize - 1) (drop 2 src))
          else do {
            three \<leftarrow> (if c \<le> 0xEF then do {
                         t \<leftarrow> trailing src 1;
                         if t then trailing src 2 else Some False }
                       else Some False);
            if three then
              map_option ((#) (push_bit 12 (0x000F AND ucast c)
                               OR push_bit 6 (0x003F AND ucast (src ! 1))
                               OR (0x003F AND ucast (src ! 2))))
                (utf8_to_ucs2 (destsize - 1) (drop 3 src))
            else Some [0] } })"
  by pat_completeness auto
termination
  by (relation "measure (\<lambda>(_, src). length src)") auto

declare utf8_to_ucs2.simps [simp del]

fun ucs2_to_utf8 :: "u16 list \<Rightarrow> nat \<Rightarrow> bytes option" where
  "ucs2_to_utf8 src 0 = Some []"
| "ucs2_to_utf8 [] (Suc n) = None"
| "ucs2_to_utf8 (w # src) (Suc n) =
     (if w \<le> 0x007F then map_option ((#) (ucast w)) (ucs2_to_utf8 src n)
      else if w \<le> 0x07FF then
        map_option ((@) [ucast (drop_bit 6 w) OR 0xC0, ucast (w AND 0x3F) OR 0x80])
          (ucs2_to_utf8 src n)
      else if 0xD800 \<le> w \<and> w \<le> 0xDFFF then Some [0]
      else
        map_option ((@) [ucast (drop_bit 12 w) OR 0xE0,
                         ucast (drop_bit 6 w AND 0x3F) OR 0x80,
                         ucast (w AND 0x3F) OR 0x80])
          (ucs2_to_utf8 src n))"

section \<open>Encoded bytes\<close>

lemma lead2:
  assumes "x \<le> 0x1F"
  shows "x OR 0xC0 \<le> (0xDF :: byte) \<and> \<not> x OR 0xC0 \<le> 0x7F \<and> x OR 0xC0 \<noteq> 0
         \<and> 0x1F AND (x OR 0xC0) = x"
  by (rule small_byte [of _ "0x1F"]) (simp add: upt_rec, use assms in \<open>simp add: word_le_nat_alt\<close>)

lemma lead3:
  assumes "x \<le> 0x0F"
  shows "x OR 0xE0 \<le> (0xEF :: byte) \<and> \<not> x OR 0xE0 \<le> 0xDF \<and> \<not> x OR 0xE0 \<le> 0x7F
         \<and> x OR 0xE0 \<noteq> 0 \<and> 0x0F AND (x OR 0xE0) = x"
  by (rule small_byte [of _ "0x0F"]) (simp add: upt_rec, use assms in \<open>simp add: word_le_nat_alt\<close>)

lemma trail:
  assumes "x \<le> 0x3F"
  shows "is_utf8_trailing_octet (x OR 0x80) \<and> 0x3F AND (x OR 0x80) = (x :: byte)"
  unfolding is_utf8_trailing_octet_def
  by (rule small_byte [of _ "0x3F"]) (simp add: upt_rec, use assms in \<open>simp add: word_le_nat_alt\<close>)

lemma ucast_and: "(ucast (a AND b) :: 'b::len word) = ucast (a :: 'a::len word) AND ucast b"
  by (rule bit_word_eqI) (auto simp: bit_simps)

text \<open>What a lead or a trailing octet contributes once it is widened to 16 bits.\<close>

lemma widen_lead2: "x \<le> 0x1F \<Longrightarrow> (0x1F :: u16) AND ucast (x OR 0xC0 :: byte) = ucast x"
  using ucast_and [of "0x1F" "x OR 0xC0", where 'b = 16] lead2 [of x] by simp

lemma widen_lead3: "x \<le> 0x0F \<Longrightarrow> (0x0F :: u16) AND ucast (x OR 0xE0 :: byte) = ucast x"
  using ucast_and [of "0x0F" "x OR 0xE0", where 'b = 16] lead3 [of x] by simp

lemma widen_trail: "x \<le> 0x3F \<Longrightarrow> (0x3F :: u16) AND ucast (x OR 0x80 :: byte) = ucast x"
  using ucast_and [of "0x3F" "x OR 0x80", where 'b = 16] trail [of x] by simp

lemma ucast_le_byte:
  "w \<le> of_nat n \<Longrightarrow> n < 256 \<Longrightarrow> (ucast (w :: u16) :: byte) \<le> of_nat n"
  by (simp add: word_le_nat_alt unat_of_nat unsigned_ucast_eq unsigned_take_bit_eq take_bit_eq_mod)

lemma mask_6: "(0x3F :: 'a::len word) = mask 6"
  by (simp add: mask_eq_exp_minus_1)

lemma six_bits: "(ucast ((w :: u16) AND 0x3F) :: byte) \<le> 0x3F"
  using ucast_le_byte [of "w AND 0x3F" "0x3F"] by (simp add: word_and_le1)

lemma join2:
  assumes "w \<le> 0x07FF"
  shows "push_bit 6 (ucast (ucast (drop_bit 6 w) :: byte)) OR ucast (ucast (w AND 0x3F) :: byte)
         = (w :: u16)"
proof (rule bit_word_eqI)
  fix n
  have "w < 2 ^ 11" using assms by (simp add: word_le_nat_alt word_less_nat_alt)
  from bit_less_exp [OF this, of n]
  show "bit (push_bit 6 (ucast (ucast (drop_bit 6 w) :: byte) :: u16) OR
          ucast (ucast (w AND 0x3F) :: byte)) n = bit w n" if "n < LENGTH(16)"
    using that by (auto simp: bit_simps mask_6)
qed

lemma join3:
  "push_bit 12 (ucast (ucast (drop_bit 12 w) :: byte)) OR
   push_bit 6 (ucast (ucast (drop_bit 6 w AND 0x3F) :: byte)) OR
   ucast (ucast (w AND 0x3F) :: byte) = (w :: u16)" (is "?l = w")
proof (rule bit_word_eqI)
  show "bit ?l n = bit w n" if "n < LENGTH(16)" for n
    using that by (cases "n < 6"; cases "n < 12") (auto simp: bit_simps mask_6)
qed

lemma drop_bit_le:
  "(w :: u16) \<le> of_nat n \<Longrightarrow> n < 2 ^ 16 \<Longrightarrow> n div 2 ^ k = m \<Longrightarrow> m < 256 \<Longrightarrow>
     (ucast (drop_bit k w) :: byte) \<le> of_nat m"
proof (rule ucast_le_byte)
  assume n: "w \<le> of_nat n" "n < 2 ^ 16" "n div 2 ^ k = m" "m < 256"
  then have "unat w div 2 ^ k \<le> m" by (simp add: word_le_nat_alt unat_of_nat div_le_mono flip: n(3))
  then have "unat (drop_bit k w) \<le> m" by (simp only: unat_drop_bit_eq drop_bit_nat_def)
  then show "drop_bit k w \<le> of_nat m" using n by (simp add: word_le_nat_alt unat_of_nat)
qed

section \<open>Decoding inverts encoding\<close>

text \<open>A code unit the encoder passes on: not the terminator and not a surrogate.\<close>

definition plain_unit :: "u16 \<Rightarrow> bool" where
  "plain_unit w \<longleftrightarrow> w \<noteq> 0 \<and> \<not> (0xD800 \<le> w \<and> w \<le> 0xDFFF)"

fun utf8_unit :: "u16 \<Rightarrow> bytes" where
  "utf8_unit w =
     (if w \<le> 0x007F then [ucast w]
      else if w \<le> 0x07FF then [ucast (drop_bit 6 w) OR 0xC0, ucast (w AND 0x3F) OR 0x80]
      else [ucast (drop_bit 12 w) OR 0xE0, ucast (drop_bit 6 w AND 0x3F) OR 0x80,
            ucast (w AND 0x3F) OR 0x80])"

declare utf8_unit.simps [simp del]

lemma ucs2_to_utf8_units:
  "n \<le> length ws \<Longrightarrow> list_all plain_unit (take n ws) \<Longrightarrow>
     ucs2_to_utf8 ws n = Some (concat (map utf8_unit (take n ws)))"
  by (induction ws n rule: ucs2_to_utf8.induct) (auto simp: plain_unit_def utf8_unit.simps)

lemma decode_unit1:
  assumes "w \<noteq> 0" "w \<le> 0x7F"
  shows "utf8_to_ucs2 (Suc d) (ucast w # r) = map_option ((#) w) (utf8_to_ucs2 d r)"
proof -
  have le: "(ucast w :: byte) \<le> 0x7F" using ucast_le_byte [of w "0x7F"] assms by simp
  have "w < 2 ^ 7" using assms by (simp add: word_le_nat_alt word_less_nat_alt)
  note bits = bit_less_exp [OF this]
  have eq: "0x7F AND ucast (ucast w :: byte) = w"
  proof (rule bit_word_eqI)
    have m: "(0x7F :: u16) = mask 7" by (simp add: mask_eq_exp_minus_1)
    show "bit (0x7F AND ucast (ucast w :: byte) :: u16) n = bit w n" if "n < LENGTH(16)" for n
      using bits [of n] that by (auto simp: bit_simps m)
  qed
  then have "(ucast w :: byte) \<noteq> 0" using assms(1) by auto
  then show ?thesis using le eq by (simp add: utf8_to_ucs2.simps [of "Suc d"])
qed

lemma decode_unit2:
  assumes "\<not> w \<le> 0x7F" "w \<le> 0x7FF"
  shows "utf8_to_ucs2 (Suc d) (utf8_unit w @ r) = map_option ((#) w) (utf8_to_ucs2 d r)"
proof -
  have lead: "(ucast (drop_bit 6 w) :: byte) \<le> 0x1F"
    using drop_bit_le [of w "0x7FF" 6 "0x1F"] assms by simp
  show ?thesis
    using assms lead2 [OF lead] trail [OF six_bits, of w] widen_lead2 [OF lead]
      widen_trail [OF six_bits, of w] join2 [OF assms(2)]
    by (simp add: utf8_unit.simps utf8_to_ucs2.simps [of "Suc d"] trailing_def rd_def)
qed

lemma decode_unit3:
  assumes "\<not> w \<le> 0x7FF"
  shows "utf8_to_ucs2 (Suc d) (utf8_unit w @ r) = map_option ((#) w) (utf8_to_ucs2 d r)"
proof -
  have lead: "(ucast (drop_bit 12 w) :: byte) \<le> 0xF"
    using drop_bit_le [of w "0xFFFF" 12 "0xF"] unat_bound [of w] by (simp add: word_le_nat_alt)
  have "\<not> w \<le> 0x7F" using assms by (auto simp: word_le_nat_alt)
  then show ?thesis
    using assms lead3 [OF lead] trail [OF six_bits, of w] trail [OF six_bits, of "drop_bit 6 w"]
      widen_lead3 [OF lead] widen_trail [OF six_bits, of w]
      widen_trail [OF six_bits, of "drop_bit 6 w"] join3 [of w]
    by (simp add: utf8_unit.simps utf8_to_ucs2.simps [of "Suc d"] trailing_def rd_def)
qed

lemma decode_unit:
  "plain_unit w \<Longrightarrow> utf8_to_ucs2 (Suc d) (utf8_unit w @ r) = map_option ((#) w) (utf8_to_ucs2 d r)"
  using decode_unit1 [of w d r] decode_unit2 [of w d r] decode_unit3 [of w d r]
  by (auto simp: plain_unit_def utf8_unit.simps split: if_splits)

lemma decode_units:
  "list_all plain_unit ws \<Longrightarrow> length ws \<le> d \<Longrightarrow>
     utf8_to_ucs2 d (concat (map utf8_unit ws) @ 0 # r) = Some ws"
proof (induction ws arbitrary: d)
  case Nil
  then show ?case by (simp add: utf8_to_ucs2.simps)
next
  case (Cons w ws)
  then obtain d' where "d = Suc d'" by (cases d) auto
  with Cons show ?case by (simp add: decode_unit)
qed

section \<open>What the conversions may write\<close>

lemma utf8_to_ucs2_bound: "utf8_to_ucs2 d src = Some ws \<Longrightarrow> length ws \<le> d"
proof (induction d arbitrary: src ws)
  case 0
  then show ?case by (auto simp: utf8_to_ucs2.simps [of 0] split: list.splits)
next
  case (Suc d)
  then show ?case
    by (auto simp: utf8_to_ucs2.simps [of "Suc d"] split: list.splits if_splits Option.bind_splits)
qed

lemma ucs2_to_utf8_bound: "ucs2_to_utf8 ws n = Some bs \<Longrightarrow> length bs \<le> 3 * n"
  by (induction ws n arbitrary: bs rule: ucs2_to_utf8.induct) (fastforce split: if_splits)+

lemma ucs2_to_utf8_returns: "n \<le> length ws \<Longrightarrow> \<exists>bs. ucs2_to_utf8 ws n = Some bs"
  by (induction ws n rule: ucs2_to_utf8.induct) auto

text \<open>A terminated text is decoded without a look behind the terminator.\<close>

lemma utf8_to_ucs2_path:
  "n < length src \<Longrightarrow> src ! n = 0 \<Longrightarrow> \<exists>ws. utf8_to_ucs2 d src = Some ws \<and> length ws \<le> n"
proof (induction d arbitrary: src n)
  case 0
  then show ?case by (cases src) (auto simp: utf8_to_ucs2.simps)
next
  case (Suc d)
  obtain c r where src: "src = c # r" using Suc.prems(1) by (cases src) auto
  show ?case
  proof (cases "c = 0")
    case True
    then show ?thesis by (simp add: src utf8_to_ucs2.simps)
  next
    case False
    have step: "\<exists>ws. utf8_to_ucs2 d (drop k src) = Some ws \<and> Suc (length ws) \<le> n" if "0 < k" "k \<le> n" for k
      using Suc.IH [of "n - k" "drop k src"] Suc.prems that by fastforce
    have n: "1 \<le> n" using False Suc.prems(2) src by (cases n) auto
    have zero: "\<not> is_utf8_trailing_octet 0" by (simp add: is_utf8_trailing_octet_def)
    have look: "k \<le> n \<Longrightarrow> trailing src k = Some (is_utf8_trailing_octet (src ! k))" for k
      using Suc.prems(1) by (simp add: trailing_def rd_def)
    have past: "k \<le> n \<Longrightarrow> is_utf8_trailing_octet (src ! k) \<Longrightarrow> Suc k \<le> n" for k
      using Suc.prems(2) zero by (cases "k = n") auto
    let ?t1 = "is_utf8_trailing_octet (src ! 1)" and ?t2 = "is_utf8_trailing_octet (src ! 2)"
    have l1: "trailing src 1 = Some ?t1" using look n by blast
    have n2: "?t1 \<Longrightarrow> 2 \<le> n" using past [OF n] by simp
    then have l2: "?t1 \<Longrightarrow> trailing src 2 = Some ?t2" using look by blast
    have n3: "?t1 \<Longrightarrow> ?t2 \<Longrightarrow> 3 \<le> n" using past [of 2] n2 by simp
    note run = utf8_to_ucs2.simps [of "Suc d" src]
    consider "c \<le> 0x7F" | "\<not> c \<le> 0x7F" "c \<le> 0xDF" ?t1 | "\<not> c \<le> 0x7F" "\<not> (c \<le> 0xDF \<and> ?t1)" "c \<le> 0xEF" ?t1 ?t2
      | "\<not> c \<le> 0x7F" "\<not> (c \<le> 0xDF \<and> ?t1)" "\<not> (c \<le> 0xEF \<and> ?t1 \<and> ?t2)"
      by blast
    then show ?thesis
    proof cases
      case 1
      then show ?thesis using step [of 1] n False unfolding run by (auto simp: src)
    next
      case 2
      then show ?thesis using step [of 2] n2 l1 False unfolding run by (auto simp: src)
    next
      case 3
      then show ?thesis using step [of 3] n3 l1 l2 False unfolding run by (auto simp: src)
    next
      case 4
      then show ?thesis using l1 l2 n False unfolding run by (cases ?t1) (auto simp: src)
    qed
  qed
qed

text \<open>Whatever text of code units without NUL and surrogates is encoded and terminated,
  decoding it into a buffer that is large enough gives it back.\<close>

theorem utf8_ucs2_roundtrip:
  assumes "n \<le> length ws" "list_all plain_unit (take n ws)" "n \<le> d"
  shows "\<exists>bs. ucs2_to_utf8 ws n = Some bs \<and> utf8_to_ucs2 d (bs @ 0 # r) = Some (take n ws)"
  using assms ucs2_to_utf8_units [of n ws] decode_units [of "take n ws" d r] by simp

end
