(* ===== verification/Bcd.thy ===== *)
theory Bcd
  imports RegLookup Cmdline Charset
begin

text \<open>
  Patching the boot configuration hive: \<^verbatim>\<open>libnt/bcd.c\<close> and \<^verbatim>\<open>include/bcd.h\<close>. The hive is the
  memory \<^verbatim>\<open>nt_cmdline->bcd\<close> points to, the arguments are those of the command line. A call of
  \<^verbatim>\<open>die\<close> ends the program and is a value; the error of a registry call leads to one.
\<close>

datatype bcd_death =
    Bad_hive
  | No_key "u16 list"
  | No_value "u16 list"
  | No_deletion "u16 list"
  | Invalid_bool u32
  | Invalid_u64 u32
  | Invalid_wchar nat
  | Short_path u32 u32
  | Unsupported_boot u32

text \<open>\<^verbatim>\<open>L"..."\<close>, with its NUL, and 16-bit units in memory.\<close>

definition wcs :: "string \<Rightarrow> u16 list" where
  "wcs s = map of_char s @ [0]"

definition units :: "u16 list \<Rightarrow> bytes" where
  "units ws = concat (map (le_bytes 2) ws)"

lemma units_length [simp]: "length (units ws) = 2 * length ws"
  by (induction ws) (auto simp: units_def)

definition GUID_WIMB :: "u16 list" where "GUID_WIMB = wcs ''{19260817-6666-8888-abcd-000000000000}''"
definition GUID_VHDB :: "u16 list" where "GUID_VHDB = wcs ''{19260817-6666-8888-abcd-000000000001}''"
definition GUID_WOSB :: "u16 list" where "GUID_WOSB = wcs ''{19260817-6666-8888-abcd-000000000002}''"
definition GUID_HIBR :: "u16 list" where "GUID_HIBR = wcs ''{19260817-6666-8888-abcd-000000000003}''"
definition GUID_OPTN :: "u16 list" where "GUID_OPTN = wcs ''{19260817-6666-8888-abcd-100000000000}''"
definition GUID_BOOTMGR :: "u16 list" where "GUID_BOOTMGR = wcs ''{9dea862c-5cdd-4e70-acc1-f32b344d4795}''"
definition GUID_RAMDISK :: "u16 list" where "GUID_RAMDISK = wcs ''{ae5534e0-a924-466c-b836-758539a3ee3a}''"

definition GUID_BIN_RAMDISK :: bytes where
  "GUID_BIN_RAMDISK = [0xe0, 0x34, 0x55, 0xae, 0x24, 0xa9, 0x6c, 0x46,
                       0xb8, 0x36, 0x75, 0x85, 0x39, 0xa3, 0xee, 0x3a]"

definition BCD_REG_ROOT :: "u16 list" where "BCD_REG_ROOT = wcs ''Objects''"
definition BCD_REG_HKEY :: "u16 list" where "BCD_REG_HKEY = wcs ''Elements''"
definition BCD_REG_HVAL :: "u16 list" where "BCD_REG_HVAL = wcs ''Element''"

definition BCDOPT_APPDEV :: "u16 list" where "BCDOPT_APPDEV = wcs ''11000001''"
definition BCDOPT_WINLOAD :: "u16 list" where "BCDOPT_WINLOAD = wcs ''12000002''"
definition BCDOPT_CMDLINE :: "u16 list" where "BCDOPT_CMDLINE = wcs ''12000030''"
definition BCDOPT_GFXMODE :: "u16 list" where "BCDOPT_GFXMODE = wcs ''15000052''"
definition BCDOPT_ADVOPT :: "u16 list" where "BCDOPT_ADVOPT = wcs ''16000040''"
definition BCDOPT_OPTEDIT :: "u16 list" where "BCDOPT_OPTEDIT = wcs ''16000041''"
definition BCDOPT_TEXT :: "u16 list" where "BCDOPT_TEXT = wcs ''16000046''"
definition BCDOPT_TESTMODE :: "u16 list" where "BCDOPT_TESTMODE = wcs ''16000049''"
definition BCDOPT_HIGHRES :: "u16 list" where "BCDOPT_HIGHRES = wcs ''16000054''"
definition BCDOPT_OSDDEV :: "u16 list" where "BCDOPT_OSDDEV = wcs ''21000001''"
definition BCDOPT_SYSROOT :: "u16 list" where "BCDOPT_SYSROOT = wcs ''22000002''"
definition BCDOPT_OBJECT :: "u16 list" where "BCDOPT_OBJECT = wcs ''23000003''"
definition BCDOPT_ORDER :: "u16 list" where "BCDOPT_ORDER = wcs ''24000001''"
definition BCDOPT_TIMEOUT :: "u16 list" where "BCDOPT_TIMEOUT = wcs ''25000004''"
definition BCDOPT_NX :: "u16 list" where "BCDOPT_NX = wcs ''25000020''"
definition BCDOPT_PAE :: "u16 list" where "BCDOPT_PAE = wcs ''25000021''"
definition BCDOPT_SAFEMODE :: "u16 list" where "BCDOPT_SAFEMODE = wcs ''25000080''"
definition BCDOPT_DETHAL :: "u16 list" where "BCDOPT_DETHAL = wcs ''26000010''"
definition BCDOPT_WINPE :: "u16 list" where "BCDOPT_WINPE = wcs ''26000022''"
definition BCDOPT_NOVESA :: "u16 list" where "BCDOPT_NOVESA = wcs ''26000042''"
definition BCDOPT_NOVGA :: "u16 list" where "BCDOPT_NOVGA = wcs ''26000043''"
definition BCDOPT_ALTSHELL :: "u16 list" where "BCDOPT_ALTSHELL = wcs ''26000081''"
definition BCDOPT_SDIDEV :: "u16 list" where "BCDOPT_SDIDEV = wcs ''31000003''"
definition BCDOPT_SDIPATH :: "u16 list" where "BCDOPT_SDIPATH = wcs ''32000004''"
definition BCDOPT_IMGOFS :: "u16 list" where "BCDOPT_IMGOFS = wcs ''35000001''"
definition BCDOPT_EXPORTCD :: "u16 list" where "BCDOPT_EXPORTCD = wcs ''36000006''"

definition BCD_DEFAULT_WINRESUME :: bytes where
  "BCD_DEFAULT_WINRESUME = cstr (CHR 0x5C # ''Windows'' @ CHR 0x5C # ''System32'' @ CHR 0x5C # ''winresume.efi'')"

definition BCD_DEFAULT_HIBERFIL :: bytes where
  "BCD_DEFAULT_HIBERFIL = cstr (CHR 0x5C # ''hiberfil.sys'')"

section \<open>Values of the hive\<close>

type_synonym 'a bcd = "(bcd_death + 'a) option"

definition bcd_bind :: "'a bcd \<Rightarrow> ('a \<Rightarrow> 'b bcd) \<Rightarrow> 'b bcd" where
  "bcd_bind m f = do {
     r \<leftarrow> m;
     case r of Inl e \<Rightarrow> Some (Inl e) | Inr x \<Rightarrow> f x }"

text \<open>\<^verbatim>\<open>if (... != REG_ERR_NONE) die (...)\<close>.\<close>

definition or_die :: "bcd_death \<Rightarrow> 'a reg \<Rightarrow> 'a bcd" where
  "or_die d m = do {
     r \<leftarrow> m;
     case r of Inl e \<Rightarrow> Some (Inl d) | Inr x \<Rightarrow> Some (Inr x) }"

definition bcd_find_hive ::
  "hive \<Rightarrow> hkey \<Rightarrow> u16 list \<Rightarrow> u16 list \<Rightarrow> (nat option \<times> u32) bcd" where
  "bcd_find_hive h objects guid keyname =
     bcd_bind (or_die (No_key guid) (reg_find_key h objects guid)) (\<lambda>entry.
     bcd_bind (or_die (No_key BCD_REG_HKEY) (reg_find_key h entry BCD_REG_HKEY)) (\<lambda>elements.
     bcd_bind (or_die (No_key keyname) (reg_find_key h elements keyname)) (\<lambda>key.
     bcd_bind (or_die (No_value BCD_REG_HVAL) (reg_query_value h key BCD_REG_HVAL)) (\<lambda>(dat, len, type).
     Some (Inr (dat, len))))))"

definition bcd_delete_key :: "hive \<Rightarrow> hkey \<Rightarrow> u16 list \<Rightarrow> u16 list \<Rightarrow> hive bcd" where
  "bcd_delete_key h objects guid keyname =
     bcd_bind (or_die (No_key guid) (reg_find_key h objects guid)) (\<lambda>entry.
     bcd_bind (or_die (No_key BCD_REG_HKEY) (reg_find_key h entry BCD_REG_HKEY)) (\<lambda>elements.
     bcd_bind (or_die (No_key keyname) (reg_find_key h elements keyname)) (\<lambda>key. do {
       (err, h) \<leftarrow> reg_delete_key h elements key;
       if err \<noteq> REG_ERR_NONE then Some (Inl (No_deletion keyname)) else Some (Inr h) })))"

text \<open>A write through the pointer a query delivered: through \<^verbatim>\<open>NULL\<close> only of nothing.\<close>

definition store_at :: "hive \<Rightarrow> nat option \<Rightarrow> nat \<Rightarrow> bytes \<Rightarrow> hive option" where
  "store_at h dat ofs bs =
     (case dat of None \<Rightarrow> (if bs = [] then Some h else None) | Some p \<Rightarrow> poke h (p + ofs) bs)"

definition bcd_patch_bool :: "hive \<Rightarrow> hkey \<Rightarrow> u16 list \<Rightarrow> u16 list \<Rightarrow> byte \<Rightarrow> hive bcd" where
  "bcd_patch_bool h objects guid keyname val =
     bcd_bind (bcd_find_hive h objects guid keyname) (\<lambda>(dat, len).
     if len \<noteq> 1 then Some (Inl (Invalid_bool len))
     else map_option Inr (store_at h dat 0 [val]))"

definition bcd_patch_u64 :: "hive \<Rightarrow> hkey \<Rightarrow> u16 list \<Rightarrow> u16 list \<Rightarrow> u64 \<Rightarrow> hive bcd" where
  "bcd_patch_u64 h objects guid keyname val =
     bcd_bind (bcd_find_hive h objects guid keyname) (\<lambda>(dat, len).
     if len \<noteq> 8 then Some (Inl (Invalid_u64 len))
     else map_option Inr (store_at h dat 0 (le_bytes 8 val)))"

definition bcd_patch_sz :: "hive \<Rightarrow> hkey \<Rightarrow> u16 list \<Rightarrow> u16 list \<Rightarrow> bytes \<Rightarrow> hive bcd" where
  "bcd_patch_sz h objects guid keyname str =
     bcd_bind (bcd_find_hive h objects guid keyname) (\<lambda>(dat, len). do {
     h \<leftarrow> store_at h dat 0 (replicate (unat len) 0);
     ws \<leftarrow> utf8_to_ucs2 (unat len div 2) str;
     h \<leftarrow> store_at h dat 0 (units ws);
     Some (Inr h) })"

definition bcd_patch_szw :: "hive \<Rightarrow> hkey \<Rightarrow> u16 list \<Rightarrow> u16 list \<Rightarrow> u16 list \<Rightarrow> hive bcd" where
  "bcd_patch_szw h objects guid keyname str = do {
     n \<leftarrow> wcslen str;
     let wlen = n * 2;
     bcd_bind (bcd_find_hive h objects guid keyname) (\<lambda>(dat, len).
       if wlen > unat len then Some (Inl (Invalid_wchar wlen))
       else do {
         h \<leftarrow> store_at h dat 0 (replicate (unat len) 0);
         h \<leftarrow> store_at h dat 0 (units (take n str));
         Some (Inr h) }) }"

section \<open>Device paths\<close>

text \<open>Single bytes stored one after the other.\<close>

fun store_bytes :: "hive \<Rightarrow> nat option \<Rightarrow> (nat \<times> byte) list \<Rightarrow> hive option" where
  "store_bytes h dat [] = Some h"
| "store_bytes h dat ((ofs, b) # bs) = do {
     h \<leftarrow> store_at h dat ofs [b];
     store_bytes h dat bs }"

definition dp_wim :: "hive \<Rightarrow> nat option \<Rightarrow> hive option" where
  "dp_wim h dat = do {
     h \<leftarrow> store_at h dat 0 GUID_BIN_RAMDISK;
     store_bytes h dat
       [(0x0014, 0x01), (0x0018, 0x7a), (0x0019, 0x02), (0x0020, 0x03), (0x0038, 0x01),
        (0x003c, 0x52), (0x003d, 0x02), (0x0040, 0x05)] }"

definition dp_vhd :: "hive \<Rightarrow> nat option \<Rightarrow> hive option" where
  "dp_vhd h dat = store_bytes h dat
     [(0x0010, 0x08), (0x0018, 0xac), (0x0019, 0x02), (0x0024, 0x02), (0x0027, 0x12),
      (0x0028, 0x1e), (0x0036, 0x8e), (0x0037, 0x02), (0x003e, 0x06), (0x005e, 0x66),
      (0x005f, 0x02), (0x0066, 0x05), (0x006a, 0x01), (0x006e, 0x52), (0x006f, 0x02),
      (0x0072, 0x05)]"

text \<open>The device of the operating system, at \<open>ofs\<close>.\<close>

definition dp_disk :: "hive \<Rightarrow> nat option \<Rightarrow> nat \<Rightarrow> nt_args \<Rightarrow> hive option" where
  "dp_disk h dat ofs args = do {
     u \<leftarrow> rd (fsuuid args) 0;
     h \<leftarrow> store_at h dat ofs [if u \<noteq> 0 then 0x06 else 0x05];
     h \<leftarrow> store_at h dat (ofs + 0x08) [0x48];
     id \<leftarrow> peek (partid args) 0 16;
     h \<leftarrow> store_at h dat (ofs + 0x10) id;
     h \<leftarrow> store_at h dat (ofs + 0x24) [partmap args];
     id \<leftarrow> peek (diskid args) 0 16;
     store_at h dat (ofs + 0x28) id }"

definition dp_path :: "hive \<Rightarrow> nat option \<Rightarrow> nat \<Rightarrow> nt_args \<Rightarrow> hive option" where
  "dp_path h dat ofs args = do {
     ws \<leftarrow> utf8_to_ucs2 MAX_PATH (filepath args);
     store_at h dat (ofs + 0x48) (units ws) }"

definition bcd_patch_dp ::
  "hive \<Rightarrow> hkey \<Rightarrow> u32 \<Rightarrow> u16 list \<Rightarrow> u16 list \<Rightarrow> nt_args \<Rightarrow> hive bcd" where
  "bcd_patch_dp h objects type guid keyname args =
     bcd_bind (bcd_find_hive h objects guid keyname) (\<lambda>(dat, len). do {
     h \<leftarrow> store_at h dat 0 (replicate (unat len) 0);
     if type = NTBOOT_WIM \<or> type = NTBOOT_RAM then
       if len < 0x028a then Some (Inl (Short_path type len))
       else do {
         h \<leftarrow> dp_wim h dat;
         h \<leftarrow> dp_disk h dat 0x0044 args;
         map_option Inr (dp_path h dat 0x0044 args) }
     else if type = NTBOOT_VHD then
       if len < 0x02bc then Some (Inl (Short_path type len))
       else do {
         h \<leftarrow> dp_vhd h dat;
         h \<leftarrow> dp_disk h dat 0x0076 args;
         map_option Inr (dp_path h dat 0x0076 args) }
     else if type = NTBOOT_WOS \<or> type = NTBOOT_REC then
       if len < 0x0058 then Some (Inl (Short_path type len))
       else map_option Inr (dp_disk h dat 0x0010 args)
     else Some (Inl (Unsupported_boot type)) })"

section \<open>The whole configuration\<close>

text \<open>The calls \<^verbatim>\<open>bcd_patch_data\<close> makes, as data.\<close>

datatype bcd_op =
    Patch_bool "u16 list" "u16 list" byte
  | Patch_u64 "u16 list" "u16 list" u64
  | Patch_sz "u16 list" "u16 list" bytes
  | Patch_szw "u16 list" "u16 list" "u16 list"
  | Patch_dp u32 "u16 list" "u16 list"
  | Delete_key "u16 list" "u16 list"

fun run_op :: "nt_args \<Rightarrow> hkey \<Rightarrow> bcd_op \<Rightarrow> hive \<Rightarrow> hive bcd" where
  "run_op args objects (Patch_bool guid key val) h = bcd_patch_bool h objects guid key val"
| "run_op args objects (Patch_u64 guid key val) h = bcd_patch_u64 h objects guid key val"
| "run_op args objects (Patch_sz guid key str) h = bcd_patch_sz h objects guid key str"
| "run_op args objects (Patch_szw guid key str) h = bcd_patch_szw h objects guid key str"
| "run_op args objects (Patch_dp type guid key) h = bcd_patch_dp h objects type guid key args"
| "run_op args objects (Delete_key guid key) h = bcd_delete_key h objects guid key"

fun run_ops :: "nt_args \<Rightarrow> hkey \<Rightarrow> bcd_op list \<Rightarrow> hive \<Rightarrow> hive bcd" where
  "run_ops args objects [] h = Some (Inr h)"
| "run_ops args objects (op # ops) h = bcd_bind (run_op args objects op h) (run_ops args objects ops)"

definition entry_guid :: "u32 \<Rightarrow> u16 list" where
  "entry_guid type =
     (if type = NTBOOT_VHD then GUID_VHDB else if type = NTBOOT_WOS then GUID_WOSB else GUID_WIMB)"

definition bcd_ops :: "nt_args \<Rightarrow> bcd_op list" where
  "bcd_ops args =
     (let entry = entry_guid (boottype args) in
      [Patch_szw GUID_BOOTMGR BCDOPT_OBJECT entry,
       Patch_szw GUID_BOOTMGR BCDOPT_ORDER entry,
       Patch_u64 GUID_BOOTMGR BCDOPT_TIMEOUT (timeout args),
       Patch_dp NTBOOT_REC GUID_HIBR BCDOPT_APPDEV,
       Patch_dp NTBOOT_REC GUID_HIBR BCDOPT_OSDDEV,
       Patch_sz GUID_HIBR BCDOPT_WINLOAD BCD_DEFAULT_WINRESUME,
       Patch_sz GUID_HIBR BCDOPT_SYSROOT BCD_DEFAULT_HIBERFIL] @
      (if boottype args = NTBOOT_RAM
       then [Delete_key GUID_RAMDISK BCDOPT_SDIDEV,
             Delete_key GUID_RAMDISK BCDOPT_SDIPATH,
             Patch_bool GUID_RAMDISK BCDOPT_EXPORTCD (exportcd args),
             Patch_u64 GUID_RAMDISK BCDOPT_IMGOFS (imgofs args)]
       else [Delete_key GUID_RAMDISK BCDOPT_EXPORTCD,
             Delete_key GUID_RAMDISK BCDOPT_IMGOFS]) @
      [Patch_sz GUID_OPTN BCDOPT_CMDLINE (loadopt args),
       Patch_bool GUID_OPTN BCDOPT_TESTMODE (testmode args),
       Patch_bool GUID_OPTN BCDOPT_DETHAL (hal args),
       Patch_bool GUID_OPTN BCDOPT_WINPE (minint args),
       Patch_bool GUID_OPTN BCDOPT_NOVGA (novga args),
       Patch_bool GUID_OPTN BCDOPT_NOVESA (novesa args),
       Patch_bool GUID_OPTN BCDOPT_ADVOPT (advmenu args),
       Patch_bool GUID_OPTN BCDOPT_OPTEDIT (optedit args),
       Patch_bool GUID_OPTN BCDOPT_TEXT (textmode args),
       Patch_u64 GUID_OPTN BCDOPT_NX (nx args),
       Patch_u64 GUID_OPTN BCDOPT_PAE (pae args)] @
      (if hires args = NTARG_BOOL_NA
       then [Delete_key GUID_OPTN BCDOPT_HIGHRES,
             Patch_u64 GUID_OPTN BCDOPT_GFXMODE (gfxmode args)]
       else [Delete_key GUID_OPTN BCDOPT_GFXMODE,
             Patch_bool GUID_OPTN BCDOPT_HIGHRES (hires args)]) @
      (if safemode args \<noteq> 0
       then [Patch_u64 GUID_OPTN BCDOPT_SAFEMODE (safeboot args),
             Patch_bool GUID_OPTN BCDOPT_ALTSHELL (altshell args)]
       else [Delete_key GUID_OPTN BCDOPT_SAFEMODE,
             Delete_key GUID_OPTN BCDOPT_ALTSHELL]) @
      [Patch_dp (boottype args) entry BCDOPT_APPDEV,
       Patch_dp (boottype args) entry BCDOPT_OSDDEV,
       Patch_sz entry BCDOPT_WINLOAD (winload args),
       Patch_sz entry BCDOPT_SYSROOT (sysroot args)])"

text \<open>\<^verbatim>\<open>for (ofs = 0; ofs + len < bcd_length; ofs++)\<close>, over the offsets left.\<close>

fun replace_from :: "bytes \<Rightarrow> bytes \<Rightarrow> nat list \<Rightarrow> hive \<Rightarrow> hive option" where
  "replace_from src dst [] h = Some h"
| "replace_from src dst (ofs # is) h = do {
     d \<leftarrow> memcmp (drop ofs h) src 10;
     h \<leftarrow> (if d = 0 then poke h ofs dst else Some h);
     replace_from src dst is h }"

definition bcd_replace_suffix :: "nat \<Rightarrow> string \<Rightarrow> string \<Rightarrow> hive \<Rightarrow> hive option" where
  "bcd_replace_suffix bcd_length src dst =
     replace_from (units (wcs src)) (units (wcs dst)) [0..<bcd_length - 10]"

text \<open>The memory behind the hive is its whole allocation, of \<open>bcd_length\<close> bytes.\<close>

definition bcd_patch_data ::
  "nat \<Rightarrow> bool \<Rightarrow> nt_args \<Rightarrow> hive \<Rightarrow> (unit + (bcd_death + hive)) option" where
  "bcd_patch_data fuel efi args h = do {
     r \<leftarrow> reg_open_hive fuel h;
     case r of
       Inl u \<Rightarrow> Some (Inl u)
     | Inr (err, h) \<Rightarrow>
         if err \<noteq> REG_ERR_NONE then Some (Inr (Inl Bad_hive))
         else do {
           root \<leftarrow> reg_find_root h;
           r \<leftarrow> bcd_bind (or_die (No_key BCD_REG_ROOT) (reg_find_key h root BCD_REG_ROOT))
                 (\<lambda>objects. run_ops args objects (bcd_ops args) h);
           case r of
             Inl e \<Rightarrow> Some (Inr (Inl e))
           | Inr h \<Rightarrow> do {
               h \<leftarrow> (if efi then bcd_replace_suffix (length h) ''.exe'' ''.efi'' h
                      else bcd_replace_suffix (length h) ''.efi'' ''.exe'' h);
               Some (Inr (Inr h)) } } }"

end
