(* ===== verification/Payload.thy ===== *)
theory Payload
  imports VdiskRead CpioArchive Bcd
begin

text \<open>
  Unpacking the initrd into the virtual disk (\<^verbatim>\<open>kern/payload.c\<close>): the archive reader hands every
  file to \<^verbatim>\<open>add_file\<close>, which enters it into the disk's array of files and picks out the boot
  manager; the BCD store comes first and is patched at the end.
\<close>

section \<open>The file handler\<close>

text \<open>\<^verbatim>\<open>die\<close> ends the program: its messages.\<close>

datatype payload_death = Too_many_files | No_initrd | No_bootmgr | Bad_bcd bcd_death

text \<open>
  The disk's files and how many they are, and the boot manager: its bytes (the pointer's target) and
  its length.
\<close>

record payload =
  vd_index :: nat
  vd_files :: "vfile list"
  bootmgr :: "(bytes \<times> nat) option"

text \<open>The last component of the path the firmware looks for, \<^verbatim>\<open>EFI_REMOVABLE_MEDIA_FILE_NAME\<close>.\<close>

fun after_backslash :: "u16 list \<Rightarrow> u16 list \<Rightarrow> u16 list option" where
  "after_backslash best (c # cs) =
     (if c = 0 then Some best else after_backslash (if c = 0x5c then cs else best) cs)"
| "after_backslash best [] = None"

definition efi_bootarch :: "u16 list \<Rightarrow> u16 list option" where
  "efi_bootarch bootarch_full = after_backslash bootarch_full bootarch_full"

definition BOOTMGR_EXE :: bytes where "BOOTMGR_EXE = map of_char ''bootmgr.exe'' @ [0]"

text \<open>
  The handler. \<open>efi\<close> tells whether there is a system table, \<open>boot_path\<close> is the build's path. The
  contents are the memory the data pointer points to, as far as the length goes. Once the program
  has ended the state is the message, and the status stops the reader.
\<close>

definition add_file ::
  "bool \<Rightarrow> u16 list \<Rightarrow> ('w::len, payload_death + payload) file_handler" where
  "add_file efi boot_path m name data len s =
     (case s of
        Inl e \<Rightarrow> Some (Inl e, -1)
      | Inr p \<Rightarrow> do {
          arch \<leftarrow> efi_bootarch boot_path;
          (_, bootarch) \<leftarrow> vsnprintf type_sizes_lp64 (replicate 32 0) 32 [37, 108, 115, 0] [AWStr (Some arch)];
          let nm = drop (unat name) m;
          let dat = take (unat len) (drop (unat data) m);
          r \<leftarrow> vdisk_add_file (vd_index p, vd_files p) nm (unat len) (read_mem_file dat);
          (case r of
             Inl _ \<Rightarrow> Some (Inl Too_many_files, -1)
           | Inr (index, files) \<Rightarrow> do {
               d \<leftarrow> strcasecmp nm (if efi then bootarch else BOOTMGR_EXE);
               let p = p\<lparr>vd_index := index, vd_files := files\<rparr>;
               Some (Inr (if d = 0 then p\<lparr>bootmgr := Some (dat, unat len)\<rparr> else p), 0) }) })"

section \<open>Unpacking\<close>

text \<open>
  The entry for the BCD store reads the store's memory, so it delivers the patched store after the
  patch. \<open>Inl\<close> is a loop that has not come to its end within the fuel.
\<close>

definition extract_initrd ::
  "nat \<Rightarrow> bool \<Rightarrow> u16 list \<Rightarrow> nt_args \<Rightarrow> hive \<Rightarrow> bytes \<Rightarrow> 'w::len word \<Rightarrow> 'w word \<Rightarrow>
     (unit + (payload_death + payload)) option" where
  "extract_initrd fuel efi boot_path args bcd_raw m ptr len = do {
     r \<leftarrow> vdisk_add_file (0, replicate VDISK_MAX_FILES no_file) (map of_char ''BCD'' @ [0]) (length bcd_raw)
            (read_mem_file bcd_raw);
     (case r of
        Inl _ \<Rightarrow> Some (Inr (Inl Too_many_files))
      | Inr (index, files) \<Rightarrow> do {
          r \<leftarrow> cpio_extract fuel (add_file efi boot_path) m ptr len
                 (Inr \<lparr>vd_index = index, vd_files = files, bootmgr = None\<rparr>);
          (case r of
             Inl _ \<Rightarrow> Some (Inl ())
           | Inr (Inl e, _) \<Rightarrow> Some (Inr (Inl e))
           | Inr (Inr p, rc) \<Rightarrow>
               if rc \<noteq> 0 then Some (Inr (Inl No_initrd))
               else if bootmgr p = None then Some (Inr (Inl No_bootmgr))
               else do {
                 r \<leftarrow> bcd_patch_data fuel efi args bcd_raw;
                 (case r of
                    Inl _ \<Rightarrow> Some (Inl ())
                  | Inr (Inl e) \<Rightarrow> Some (Inr (Inl (Bad_bcd e)))
                  | Inr (Inr bcd) \<Rightarrow> do {
                      f \<leftarrow> rd (vd_files p) 0;
                      Some (Inr (Inr (p\<lparr>vd_files :=
                        (vd_files p)[0 := f\<lparr>file_read := Some (read_mem_file bcd)\<rparr>]\<rparr>))) }) }) }) }"

end
