(* ===== verification/EfiMain.thy ===== *)
theory EfiMain
  imports EfiDisk Payload Charset
begin

text \<open>
  The EFI build's main program (\<^verbatim>\<open>kern/efimain.c\<close>, \<^verbatim>\<open>kern/efifile.c\<close>, \<^verbatim>\<open>kern/efiblock.c\<close>,
  \<^verbatim>\<open>kern/efiboot.c\<close>, \<^verbatim>\<open>kern/efiterm.c\<close>): the load options, the search for the boot volume, the
  initrd, the block devices of the virtual disk and the start of the boot manager.
\<close>

section \<open>The firmware\<close>

text \<open>
  Fatal errors, by the call of \<^verbatim>\<open>die\<close> that reports them.
\<close>

datatype efi_death =
  Bad_cmdline death | No_loaded_image u64 | No_LoadFile2 | No_initrd_size | Initrd_unreadable
  | No_file_system | No_root | No_initrd_file | No_file_size | File_unreadable
  | Bad_payload payload_death | No_disk_blocks u64 | No_partition_blocks u64
  | Bootmgr_not_loaded u64 | No_bootmgr_image u64

text \<open>
  The firmware's answers: statuses, sizes and data. Memory it hands out holds anything; the size and
  the data of a file are given for the length asked for.
\<close>

record efi_system =
  disk_firmware :: efi_firmware
  path_memory :: bytes
  blocks_reader :: read_blocks
  pool_memory :: "nat \<Rightarrow> bytes"
  page_memory :: "nat \<Rightarrow> bytes"
  loaded_image :: u64
  LoadOptionsSize :: nat
  LoadOptions :: "u16 list"
  LocateDevicePath :: u64
  HandleProtocol :: u64
  LoadFile_size :: nat
  LoadFile :: "nat \<Rightarrow> u64 \<times> nat \<times> bytes"
  file_system :: u64
  OpenVolume :: u64
  OpenFile :: "u16 list \<Rightarrow> u64"
  file_end :: nat
  ReadFile :: "nat \<Rightarrow> u64 \<times> nat \<times> bytes"
  install_status :: "u64 \<times> u64"
  LoadImage :: "bytes \<Rightarrow> nat \<Rightarrow> u64"
  bootmgr_image :: u64

definition EFI_INVALID_PARAMETER :: u64 where "EFI_INVALID_PARAMETER = 0x8000000000000002"
definition EFI_WRITE_PROTECTED :: u64 where "EFI_WRITE_PROTECTED = 0x8000000000000008"

definition BYTES_TO_PAGES :: "nat \<Rightarrow> nat" where
  "BYTES_TO_PAGES n = (n + 0xfff) div 2 ^ 12"

section \<open>The command line\<close>

text \<open>The load options become a command line in a buffer of the pool; it is as long as the fuel.\<close>

definition efi_cmdline :: "efi_system \<Rightarrow> (cmd_state + (death + bytes \<times> nt_args)) option" where
  "efi_cmdline sys = do {
     let cmdline_len = LoadOptionsSize sys div 2;
     let cmdline = pool_memory sys (4 * cmdline_len + 1);
     bs \<leftarrow> ucs2_to_utf8 (LoadOptions sys) cmdline_len;
     cmdline \<leftarrow> poke cmdline 0 (bs @ [0]);
     process_cmdline (length cmdline) True cmdline }"

section \<open>The initrd\<close>

text \<open>Both loaders give the pages and the length; \<open>Inr None\<close> is no initrd media.\<close>

definition efi_load_lf2_initrd :: "efi_system \<Rightarrow> (efi_death + (bytes \<times> nat) option) option" where
  "efi_load_lf2_initrd sys =
     (if LocateDevicePath sys \<noteq> 0 then Some (Inr None)
      else if HandleProtocol sys \<noteq> 0 then Some (Inl No_LoadFile2)
      else if LoadFile_size sys = 0 then Some (Inl No_initrd_size)
      else do {
        let (efirc, len, contents) = LoadFile sys (LoadFile_size sys);
        initrd \<leftarrow> poke (page_memory sys (BYTES_TO_PAGES (LoadFile_size sys))) 0 contents;
        if efirc \<noteq> 0 then Some (Inl Initrd_unreadable) else Some (Inr (Some (initrd, len))) })"

definition efi_load_sfs_initrd :: "efi_system \<Rightarrow> nt_args \<Rightarrow> (efi_death + bytes \<times> nat) option" where
  "efi_load_sfs_initrd sys args = do {
     ws \<leftarrow> utf8_to_ucs2 (MAX_PATH + 1) (initrd_path args);
     wpath \<leftarrow> poke (replicate (MAX_PATH + 1) 0) 0 (ws @ [0]);
     if file_system sys \<noteq> 0 then Some (Inl No_file_system)
     else if OpenVolume sys \<noteq> 0 then Some (Inl No_root)
     else if OpenFile sys wpath \<noteq> 0 then Some (Inl No_initrd_file)
     else if file_end sys = 0 then Some (Inl No_file_size)
     else do {
       let (efirc, len, contents) = ReadFile sys (file_end sys);
       initrd \<leftarrow> poke (page_memory sys (BYTES_TO_PAGES (file_end sys))) 0 contents;
       if efirc \<noteq> 0 then Some (Inl File_unreadable) else Some (Inr (initrd, len)) } }"

definition efi_load_initrd :: "efi_system \<Rightarrow> nt_args \<Rightarrow> (efi_death + bytes \<times> nat) option" where
  "efi_load_initrd sys args = do {
     r \<leftarrow> efi_load_lf2_initrd sys;
     (case r of
        Inl e \<Rightarrow> Some (Inl e)
      | Inr (Some f) \<Rightarrow> Some (Inr f)
      | Inr None \<Rightarrow> efi_load_sfs_initrd sys args) }"

text \<open>Addresses count from the initrd's first page.\<close>

definition efi_extract ::
  "nat \<Rightarrow> u16 list \<Rightarrow> hive \<Rightarrow> efi_system \<Rightarrow> nt_args \<Rightarrow> (unit + (efi_death + payload)) option" where
  "efi_extract fuel boot_path bcd_raw sys args = do {
     r \<leftarrow> efi_load_initrd sys args;
     (case r of
        Inl e \<Rightarrow> Some (Inr (Inl e))
      | Inr (initrd, len) \<Rightarrow>
          map_option (map_sum id (map_sum Bad_payload id))
            (extract_initrd fuel True boot_path args bcd_raw initrd (0 :: u64) (of_nat len))) }"

section \<open>Block devices\<close>

text \<open>A device is its first sector on the virtual disk, its media and its path.\<close>

definition HARDWARE_DEVICE_PATH :: byte where "HARDWARE_DEVICE_PATH = 1"
definition HW_VENDOR_DP :: byte where "HW_VENDOR_DP = 4"
definition MESSAGING_DEVICE_PATH :: byte where "MESSAGING_DEVICE_PATH = 3"
definition MSG_ATAPI_DP :: byte where "MSG_ATAPI_DP = 1"
definition MEDIA_FILEPATH_DP :: byte where "MEDIA_FILEPATH_DP = 4"

definition EFI_DEVPATH_INIT :: "byte \<Rightarrow> byte \<Rightarrow> bytes \<Rightarrow> bytes" where
  "EFI_DEVPATH_INIT type subtype body =
     (let n = 4 + length body in [type, subtype, of_nat n AND 0xff, of_nat (n div 2 ^ 8)] @ body)"

definition EFI_DEVPATH_END_INIT :: bytes where
  "EFI_DEVPATH_END_INIT = EFI_DEVPATH_INIT END_DEVICE_PATH_TYPE END_ENTIRE_DEVICE_PATH_SUBTYPE []"

definition EFIBLOCK_GUID :: bytes where
  "EFIBLOCK_GUID =
     [0x97, 0xd1, 0x22, 0x13, 0xdc, 0x15, 0x45, 0x4a, 0xa6, 0xa4, 0xfa, 0x57, 0x05, 0x4e, 0xa6, 0x14]"

definition EFIBLOCK_DEVPATH_VENDOR_INIT :: bytes where
  "EFIBLOCK_DEVPATH_VENDOR_INIT = EFI_DEVPATH_INIT HARDWARE_DEVICE_PATH HW_VENDOR_DP EFIBLOCK_GUID"

definition EFIBLOCK_DEVPATH_ATA_INIT :: bytes where
  "EFIBLOCK_DEVPATH_ATA_INIT = EFI_DEVPATH_INIT MESSAGING_DEVICE_PATH MSG_ATAPI_DP [0, 0, 0, 0]"

definition EFIBLOCK_DEVPATH_HD_INIT :: bytes where
  "EFIBLOCK_DEVPATH_HD_INIT = EFI_DEVPATH_INIT MEDIA_DEVICE_PATH MEDIA_HARDDRIVE_DP
     (le_bytes 4 (1 :: u32) @ le_bytes 8 (of_nat VDISK_PARTITION_LBA :: u64) @
      le_bytes 8 (of_nat VDISK_PARTITION_COUNT :: u64) @ le_bytes 4 VDISK_MBR_SIGNATURE @ replicate 12 0 @ [1, 1])"

record efi_block =
  block_lba :: nat
  last_block :: nat
  logical_partition :: bool
  block_path :: "bytes list"

definition efi_vdisk :: efi_block where
  "efi_vdisk = \<lparr>block_lba = 0, last_block = VDISK_COUNT - 1, logical_partition = False,
     block_path = [EFIBLOCK_DEVPATH_VENDOR_INIT, EFIBLOCK_DEVPATH_ATA_INIT, EFI_DEVPATH_END_INIT]\<rparr>"

definition efi_vpartition :: efi_block where
  "efi_vpartition = \<lparr>block_lba = VDISK_PARTITION_LBA, last_block = VDISK_PARTITION_COUNT - 1,
     logical_partition = True,
     block_path = [EFIBLOCK_DEVPATH_VENDOR_INIT, EFIBLOCK_DEVPATH_ATA_INIT, EFIBLOCK_DEVPATH_HD_INIT,
       EFI_DEVPATH_END_INIT]\<rparr>"

text \<open>The path of the boot manager on the partition; the name is the firmware's for removable media.\<close>

definition efi_bootmgfw_path :: "u16 list \<Rightarrow> bytes list" where
  "efi_bootmgfw_path boot_path =
     [EFIBLOCK_DEVPATH_VENDOR_INIT, EFIBLOCK_DEVPATH_ATA_INIT, EFIBLOCK_DEVPATH_HD_INIT,
      EFI_DEVPATH_INIT MEDIA_DEVICE_PATH MEDIA_FILEPATH_DP (concat (map (le_bytes 2) boot_path)),
      EFI_DEVPATH_END_INIT]"

text \<open>
  Reading: the status is always zero, and nothing compares the blocks with the media's last one.
\<close>

definition efi_reset_blocks :: u64 where "efi_reset_blocks = 0"
definition efi_flush_blocks :: u64 where "efi_flush_blocks = 0"
definition efi_write_blocks :: u64 where "efi_write_blocks = EFI_WRITE_PROTECTED"

definition efi_read_blocks ::
  "nat \<Rightarrow> bool \<Rightarrow> vfile list \<Rightarrow> efi_block \<Rightarrow> nat \<Rightarrow> nat \<Rightarrow> ((nat \<times> bytes) + u64 \<times> bytes) option" where
  "efi_read_blocks fuel lp64 files block lba len =
     map_option (map_sum id (\<lambda>bs. (0, bs)))
       (vdisk_read fuel lp64 files ((lba + block_lba block) mod 2 ^ 64) (len div VDISK_SECTOR_SIZE))"

definition efi_install :: "efi_system \<Rightarrow> efi_death + unit" where
  "efi_install sys =
     (let (disk_rc, partition_rc) = install_status sys
      in if disk_rc \<noteq> 0 then Inl (No_disk_blocks disk_rc)
         else if partition_rc \<noteq> 0 then Inl (No_partition_blocks partition_rc)
         else Inr ())"

section \<open>Starting the boot manager\<close>

text \<open>
  The image handed to the firmware, with its length. A boot manager that comes back ends the program.
\<close>

definition efi_boot :: "efi_system \<Rightarrow> bytes \<times> nat \<Rightarrow> (efi_death + bytes \<times> nat) option" where
  "efi_boot sys = (\<lambda>(bootmgr, bootmgr_length). do {
     src \<leftarrow> peek bootmgr 0 bootmgr_length;
     data \<leftarrow> poke (page_memory sys (BYTES_TO_PAGES bootmgr_length)) 0 src;
     let efirc = LoadImage sys data bootmgr_length;
     if efirc \<noteq> 0 then Some (Inl (Bootmgr_not_loaded efirc))
     else if bootmgr_image sys \<noteq> 0 then Some (Inl (No_bootmgr_image (bootmgr_image sys)))
     else Some (Inr (data, bootmgr_length)) })"

text \<open>
  The boot manager's calls of \<^verbatim>\<open>OpenProtocol\<close> in the text mode debug build: \<open>blocked\<close> installs the mark
  on a handle in the firmware's state, once.
\<close>

definition efi_open_protocol_wrapper ::
  "(nat \<Rightarrow> 's \<Rightarrow> u64 \<times> 's) \<Rightarrow> bytes \<Rightarrow> byte \<Rightarrow> u64 \<Rightarrow> nat \<Rightarrow> bytes \<Rightarrow> 's \<Rightarrow> u64 \<times> 's" where
  "efi_open_protocol_wrapper blocked efi_gop_guid text_mode efirc handle protocol s =
     (if efirc \<noteq> 0 then (efirc, s)
      else if protocol = efi_gop_guid then
        (let (rc, s) = blocked handle s
         in (if rc = 0 \<and> text_mode \<noteq> 0 then EFI_INVALID_PARAMETER else 0, s))
      else (0, s))"

text \<open>
  The console: absent, or the status and the mode of \<^verbatim>\<open>GetMode\<close> and the status of \<^verbatim>\<open>SetMode\<close>. The
  result is the function's and the mode that is set.
\<close>

definition efi_set_text_mode :: "bool \<Rightarrow> (u64 \<times> nat \<times> u64) option \<Rightarrow> int \<times> nat option" where
  "efi_set_text_mode on console =
     (case console of
        None \<Rightarrow> (1, None)
      | Some (got, mode, set_status) \<Rightarrow>
          if got \<noteq> 0 then (0, None)
          else let new_mode = (if on then 0 else 1)
            in if mode \<noteq> new_mode then (if set_status \<noteq> 0 then 0 else 1, Some new_mode) else (1, None))"

section \<open>The main program\<close>

text \<open>
  \<open>Inl ()\<close> is a loop that has not come to its end within the fuel. The program ends with an error, or
  it starts the boot manager on the virtual disk's files.
\<close>

datatype efi_run = Dies efi_death | Starts bytes nat "vfile list"

definition efi_args :: "nat \<Rightarrow> bool \<Rightarrow> efi_system \<Rightarrow> (unit + (efi_death + nt_args)) option" where
  "efi_args fuel debug sys =
     (if loaded_image sys \<noteq> 0 then Some (Inr (Inl (No_loaded_image (loaded_image sys))))
      else do {
        r \<leftarrow> efi_cmdline sys;
        (case r of
           Inl _ \<Rightarrow> Some (Inl ())
         | Inr (Inl e) \<Rightarrow> Some (Inr (Inl (Bad_cmdline e)))
         | Inr (Inr (_, args)) \<Rightarrow> do {
             disks \<leftarrow> efidisk_init (disk_firmware sys) (path_memory sys) \<lparr>efi_hd = [], efi_cd = []\<rparr>;
             r \<leftarrow> efidisk_iterate fuel debug (blocks_reader sys) (efi_hd disks) args;
             Some (map_sum id Inr r) }) })"

definition efi_main ::
  "nat \<Rightarrow> bool \<Rightarrow> u16 list \<Rightarrow> hive \<Rightarrow> efi_system \<Rightarrow> (unit + efi_run) option" where
  "efi_main fuel debug boot_path bcd_raw sys = do {
     r \<leftarrow> efi_args fuel debug sys;
     (case r of
        Inl _ \<Rightarrow> Some (Inl ())
      | Inr (Inl e) \<Rightarrow> Some (Inr (Dies e))
      | Inr (Inr args) \<Rightarrow> do {
          r \<leftarrow> efi_extract fuel boot_path bcd_raw sys args;
          (case r of
             Inl _ \<Rightarrow> Some (Inl ())
           | Inr (Inl e) \<Rightarrow> Some (Inr (Dies e))
           | Inr (Inr p) \<Rightarrow>
               (case efi_install sys of
                  Inl e \<Rightarrow> Some (Inr (Dies e))
                | Inr _ \<Rightarrow> do {
                    b \<leftarrow> bootmgr p;
                    r \<leftarrow> efi_boot sys b;
                    Some (Inr (case r of Inl e \<Rightarrow> Dies e | Inr (data, len) \<Rightarrow> Starts data len (vd_files p))) })) }) }"

end
