(* ===== verification/EfiDiskOrder.thy ===== *)
theory EfiDiskOrder
  imports EfiDisk "HOL-Library.List_Lexorder" "HOL-Library.Product_Lexorder"
begin

text \<open>
  Device paths as lists of nodes, their linear order, and the comparison that decides it.
\<close>

section \<open>Nodes\<close>

definition node_ok :: "bytes \<Rightarrow> bool" where
  "node_ok n \<longleftrightarrow> 4 \<le> length n \<and> unat (push_bit 8 (ucast (n ! 3)) OR ucast (n ! 2) :: u16) = length n"

definition node_end :: "bytes \<Rightarrow> bool" where
  "node_end n \<longleftrightarrow> n ! 0 AND 0x7f = END_DEVICE_PATH_TYPE \<and> n ! 1 = END_ENTIRE_DEVICE_PATH_SUBTYPE"

text \<open>The nodes of a path: all of the length they claim, the last one and no other ends the path.\<close>

fun path_nodes :: "bytes list \<Rightarrow> bool" where
  "path_nodes [] = False"
| "path_nodes [n] = (node_ok n \<and> node_end n)"
| "path_nodes (n # n' # ns) = (node_ok n \<and> \<not> node_end n \<and> path_nodes (n' # ns))"

definition path_at :: "bytes \<Rightarrow> nat \<Rightarrow> bytes list \<Rightarrow> bool" where
  "path_at m p ns \<longleftrightarrow> p \<noteq> 0 \<and> path_nodes ns \<and> take (length (concat ns)) (drop p m) = concat ns"

lemma path_at_iff:
  "path_at m p ns \<longleftrightarrow> p \<noteq> 0 \<and> path_nodes ns \<and> (\<exists>x. drop p m = concat ns @ x)"
  unfolding path_at_def by (metis append_eq_conv_conj append_take_drop_id)

lemma path_nodes_Cons:
  "path_nodes (n # ns) \<longleftrightarrow> node_ok n \<and> (if ns = [] then node_end n else \<not> node_end n \<and> path_nodes ns)"
  by (cases ns) auto

lemma drop_at:
  assumes "drop p m = n @ x"
  shows "i < length n \<Longrightarrow> rd m (p + i) = Some (n ! i)" and "drop (p + length n) m = x"
proof -
  have "length (drop p m) = length n + length x" by (simp add: assms)
  then have "i < length n \<Longrightarrow> p + i < length m" by simp
  moreover have "i < length n \<Longrightarrow> m ! (p + i) = drop p m ! i" using calculation by simp
  ultimately show "i < length n \<Longrightarrow> rd m (p + i) = Some (n ! i)"
    by (simp add: rd_def assms nth_append)
  have "drop (p + length n) m = drop (length n) (drop p m)" by (simp only: drop_drop add.commute)
  then show "drop (p + length n) m = x" by (simp add: assms)
qed

text \<open>What the macros read off a node.\<close>

lemma node_fields:
  assumes "drop p m = n @ x" and "node_ok n" and "p \<noteq> 0"
  shows "DP_TYPE m p = Some (n ! 0 AND 0x7f)" and "DP_SUBTYPE m p = Some (n ! 1)"
    and "DP_LENGTH m p = Some (length n)" and "DP_VALID m p = Some True"
    and "END_ENTIRE_DP m p = Some (node_end n)" and "NEXT_DP m p = Some (p + length n)"
proof -
  have l: "4 \<le> length n" using assms(2) by (simp add: node_ok_def)
  have r: "rd m (p + i) = Some (n ! i)" if "i < 4" for i
    using drop_at(1) [OF assms(1), of i] that l by simp
  show t: "DP_TYPE m p = Some (n ! 0 AND 0x7f)" using r [of 0] by (simp add: DP_TYPE_def)
  show s: "DP_SUBTYPE m p = Some (n ! 1)" using r [of 1] by (simp add: DP_SUBTYPE_def)
  show n: "DP_LENGTH m p = Some (length n)"
    using r [of 2] r [of 3] assms(2) by (simp add: DP_LENGTH_def node_ok_def)
  show v: "DP_VALID m p = Some True" using n l assms(3) by (simp add: DP_VALID_def)
  show "END_ENTIRE_DP m p = Some (node_end n)" using v t s by (auto simp: END_ENTIRE_DP_def node_end_def)
  show "NEXT_DP m p = Some (p + length n)" using v n by (simp add: NEXT_DP_def)
qed

lemma path_at_head:
  assumes "path_at m p (n # ns)"
  shows "node_ok n" and "\<exists>x. drop p m = n @ x" and "ns \<noteq> [] \<Longrightarrow> path_at m (p + length n) ns"
    and "node_end n \<longleftrightarrow> ns = []" and "p \<noteq> 0"
proof -
  obtain x where x: "drop p m = n @ concat ns @ x" using assms by (auto simp: path_at_iff)
  show "node_ok n" "node_end n \<longleftrightarrow> ns = []" "p \<noteq> 0"
    using assms by (auto simp: path_at_iff path_nodes_Cons split: if_splits)
  show "\<exists>x. drop p m = n @ x" using x by blast
  have "drop (p + length n) m = concat ns @ x" using drop_at(2) [OF x] .
  then show "path_at m (p + length n) ns" if "ns \<noteq> []"
    using assms that by (auto simp: path_at_iff path_nodes_Cons)
qed

lemma path_at_short: "path_at m p ns \<Longrightarrow> length ns \<le> length m"
proof -
  assume a: "path_at m p ns"
  then obtain x where x: "drop p m = concat ns @ x" and ok: "path_nodes ns" by (auto simp: path_at_iff)
  have "length ns \<le> length (concat ns)"
    using ok by (induction ns rule: path_nodes.induct) (auto simp: node_ok_def)
  also have "\<dots> \<le> length (drop p m)" unfolding x by simp
  finally show ?thesis by simp
qed

section \<open>The order\<close>

text \<open>
  Types in descending order, then subtypes, lengths and bytes in ascending order: a linear order of
  nodes, and with it the lexicographic order of paths.
\<close>

datatype dev_node = Dev_node (node_bytes: bytes)

definition node_key :: "dev_node \<Rightarrow> nat \<times> nat \<times> nat \<times> nat list" where
  "node_key n = (let b = node_bytes n
     in (127 - unat (b ! 0 AND 0x7f), unat (b ! 1), length b, map unat b))"

lemma map_unat_inj: "map unat xs = map unat ys \<longleftrightarrow> xs = (ys :: bytes)"
  by (rule inj_map_eq_map) (auto simp: inj_on_def intro: unsigned_word_eqI)

lemma node_key_inj: "node_key a = node_key b \<longleftrightarrow> a = b"
  by (cases a; cases b) (auto simp: node_key_def Let_def map_unat_inj)

instantiation dev_node :: linorder
begin

definition less_eq_dev_node :: "dev_node \<Rightarrow> dev_node \<Rightarrow> bool" where
  "less_eq_dev_node a b \<longleftrightarrow> node_key a \<le> node_key b"

definition less_dev_node :: "dev_node \<Rightarrow> dev_node \<Rightarrow> bool" where
  "less_dev_node a b \<longleftrightarrow> node_key a < node_key b"

instance
  by standard (auto simp: less_eq_dev_node_def less_dev_node_def node_key_inj [symmetric])

end

definition path_key :: "bytes list \<Rightarrow> dev_node list" where
  "path_key ns = map Dev_node ns"

lemma path_key_inj: "path_key a = path_key b \<longleftrightarrow> a = b"
  unfolding path_key_def by (rule inj_map_eq_map) (auto simp: inj_on_def)

lemma memcmp_order:
  assumes "n \<le> length s" and "n \<le> length t"
  shows "\<exists>r. memcmp s t n = Some r \<and> (r = 0 \<longleftrightarrow> take n s = take n t) \<and>
    (r < 0 \<longleftrightarrow> map unat (take n s) < map unat (take n t))"
  using assms
proof (induction s t n rule: memcmp.induct)
  case (2 b s c t n)
  show ?case
  proof (cases "b = c")
    case True
    then show ?thesis using 2 by (simp add: Let_def)
  next
    case False
    then have "uint b \<noteq> uint c" "unat b \<noteq> unat c" by (auto intro: unsigned_word_eqI)
    then show ?thesis using False by (simp add: Let_def word_less_def [symmetric] word_less_nat_alt)
  qed
qed auto


section \<open>The comparison\<close>

text \<open>Two nodes of which the first does not come later decide a comparison, unless they are equal.\<close>

lemma key_order:
  assumes "node_ok a" and "node_ok b"
  shows "Dev_node a < Dev_node b \<longleftrightarrow>
    (let t1 = a ! 0 AND 0x7f; t2 = b ! 0 AND 0x7f
     in unat t2 < unat t1 \<or> t1 = t2 \<and> (unat (a ! 1) < unat (b ! 1) \<or> a ! 1 = b ! 1 \<and>
        (length a < length b \<or> length a = length b \<and> map unat a < map unat b)))"
proof -
  have m: "(0x7f :: byte) = mask 7" by (simp add: mask_eq_exp_minus_1)
  have t: "unat (w AND 0x7f) \<le> 127" for w :: byte
    unfolding m unat_and_mask by (simp add: order.strict_implies_order [of _ 128] less_Suc_eq_le [symmetric])
  have d: "127 - unat (a ! 0 AND 0x7f) < 127 - unat (b ! 0 AND 0x7f) \<longleftrightarrow> unat (b ! 0 AND 0x7f) < unat (a ! 0 AND 0x7f)"
    "127 - unat (a ! 0 AND 0x7f) = 127 - unat (b ! 0 AND 0x7f) \<longleftrightarrow> a ! 0 AND 0x7f = b ! 0 AND 0x7f"
    using t [of "a ! 0"] t [of "b ! 0"] by (auto simp: word_eq_iff_unsigned [where ?'a = nat])
  have pr: "(x, y) < (x', y') \<longleftrightarrow> x < x' \<or> x = x' \<and> y < y'"
    for x x' :: "'p :: linorder" and y y' :: "'q :: linorder"
    by auto
  show ?thesis
    unfolding less_dev_node_def node_key_def Let_def dev_node.sel pr d
    by (simp add: word_eq_iff_unsigned [where ?'a = nat])
qed

lemma compare_nodes_order:
  "path_at m p ns \<Longrightarrow> path_at m q ks \<Longrightarrow> length ns \<le> fuel \<Longrightarrow>
     \<exists>r. compare_nodes fuel m p q = Some r \<and> (r = 0 \<longleftrightarrow> ns = ks) \<and> (r < 0 \<longleftrightarrow> path_key ns < path_key ks)"
proof (induction fuel arbitrary: p q ns ks)
  case 0
  then show ?case by (simp add: path_at_iff)
next
  case (Suc fuel)
  obtain a as b bs where n: "ns = a # as" "ks = b # bs"
    using Suc.prems(1,2) by (metis path_at_iff path_nodes.simps(1) list.exhaust)
  note A = path_at_head [OF Suc.prems(1) [unfolded n(1)]] and B = path_at_head [OF Suc.prems(2) [unfolded n(2)]]
  obtain x y where x: "drop p m = a @ x" and y: "drop q m = b @ y" using A(2) B(2) by blast
  note fa = node_fields [OF x A(1,5)] and fb = node_fields [OF y B(1,5)]
  let ?t1 = "a ! 0 AND 0x7f" and ?t2 = "b ! 0 AND 0x7f"
  have lt: "path_key ns < path_key ks \<longleftrightarrow> Dev_node a < Dev_node b \<or> a = b \<and> path_key as < path_key bs"
    by (simp add: n path_key_def)
  have u: "uint w < uint v \<longleftrightarrow> unat w < unat v" "uint w - uint v = 0 \<longleftrightarrow> w = v" for w v :: byte
    by (simp_all add: word_less_def [symmetric] word_less_nat_alt word_uint_eq_iff)
  note run = compare_nodes.simps(2) fa(1-5) fb(1-4) Option.bind.simps simp_thms(21) if_True
  consider "?t1 \<noteq> ?t2" | "?t1 = ?t2" "a ! 1 \<noteq> b ! 1" | "?t1 = ?t2" "a ! 1 = b ! 1" "length a \<noteq> length b"
    | "?t1 = ?t2" "a ! 1 = b ! 1" "length a = length b"
    by blast
  then show ?case
  proof cases
    case 1
    then have "a \<noteq> b" "unat ?t1 \<noteq> unat ?t2" by (auto simp: word_eq_iff_unsigned [where ?'a = nat])
    then show ?thesis
      unfolding run if_P [OF 1] using 1 u [of ?t2 ?t1] lt n key_order [OF A(1) B(1)] by (simp add: Let_def)
  next
    case 2
    then have "a \<noteq> b" by auto
    then show ?thesis
      unfolding run using 2 u [of "a ! 1" "b ! 1"] lt n key_order [OF A(1) B(1)] by (simp add: Let_def)
  next
    case 3
    then have "a \<noteq> b" by auto
    then show ?thesis
      unfolding run using 3 lt n key_order [OF A(1) B(1)] by (simp add: Let_def)
  next
    case 4
    obtain r where r: "memcmp (drop p m) (drop q m) (length a) = Some r" "r = 0 \<longleftrightarrow> a = b"
        "r < 0 \<longleftrightarrow> map unat a < map unat b"
      using memcmp_order [of "length a" "drop p m" "drop q m"] 4(3) by (auto simp: x y)
    show ?thesis
    proof (cases "a = b")
      case False
      then show ?thesis
        unfolding run using 4 r lt n key_order [OF A(1) B(1)] by (simp add: Let_def)
    next
      case True
      then have e: "as = [] \<longleftrightarrow> bs = []" using A(4) B(4) by simp
      show ?thesis
      proof (cases "as = []")
        case True
        then show ?thesis unfolding run using 4 r e n A(4) \<open>a = b\<close> lt by simp
      next
        case False
        then obtain r' where r': "compare_nodes fuel m (p + length a) (q + length b) = Some r'"
            "r' = 0 \<longleftrightarrow> as = bs" "r' < 0 \<longleftrightarrow> path_key as < path_key bs"
          using Suc.IH [OF A(3) [OF False] B(3)] e Suc.prems(3) n(1) by auto
        then show ?thesis unfolding run using 4 r n A(4) False \<open>a = b\<close> lt by simp
      qed
    qed
  qed
qed

lemma path_at_unique: "path_at m p ns \<Longrightarrow> path_at m p ks \<Longrightarrow> ns = ks"
proof (induction ns arbitrary: p ks)
  case (Cons a as)
  then obtain b bs where k: "ks = b # bs" by (cases ks) (auto simp: path_at_iff)
  note A = path_at_head [OF Cons.prems(1)] and B = path_at_head [OF Cons.prems(2) [unfolded k]]
  obtain x y where x: "drop p m = a @ x" and y: "drop p m = b @ y" using A(2) B(2) by blast
  have l: "length a = length b" using node_fields(3) [OF x A(1,5)] node_fields(3) [OF y B(1,5)] by simp
  then have ab: "a = b" using x y by simp
  then have "as = [] \<longleftrightarrow> bs = []" using A(4) B(4) by simp
  moreover have "as = bs" if "as \<noteq> []" "bs \<noteq> []"
    using Cons.IH [OF A(3) [OF that(1)], of bs] B(3) [OF that(2)] l by simp
  ultimately show ?case using ab k by blast
qed (simp add: path_at_iff)

lemma compare_paths:
  assumes "path_at m p ns" and "path_at m q ks"
  shows "\<exists>r. compare_device_paths m p q = Some r \<and> (r = 0 \<longleftrightarrow> ns = ks) \<and> (r < 0 \<longleftrightarrow> path_key ns < path_key ks)"
proof -
  have len: "length ns \<le> Suc (length m)" using path_at_short [OF assms(1)] by simp
  obtain r where r: "compare_nodes (Suc (length m)) m p q = Some r" "r = 0 \<longleftrightarrow> ns = ks"
      "r < 0 \<longleftrightarrow> path_key ns < path_key ks"
    using compare_nodes_order [OF assms len] by blast
  have z: "p \<noteq> 0" "q \<noteq> 0" using assms by (auto simp: path_at_iff)
  show ?thesis
  proof (cases "p = q")
    case True
    then have "ns = ks" using path_at_unique assms by blast
    then show ?thesis using True z by (simp add: compare_device_paths_def)
  next
    case False
    then show ?thesis using r z by (simp add: compare_device_paths_def)
  qed
qed

end
