(* ===== verification/EfiDiskSafe.thy ===== *)
theory EfiDiskSafe
  imports EfiDiskOrder
begin

text \<open>
  The lists of disks: naming the devices of a well-behaved firmware never leaves the memory, and both
  lists stay strictly ascending, so no path is listed twice.
\<close>

section \<open>Sorted insertion\<close>

text \<open>A comparison that decides the order of keys, and an insertion that stops at the first later key.\<close>

locale ordered_insertion =
  fixes good :: "'a \<Rightarrow> bool" and key :: "'a \<Rightarrow> 'k :: linorder" and cmp :: "'a \<Rightarrow> 'a \<Rightarrow> int option"
    and ins :: "'a \<Rightarrow> 'a list \<Rightarrow> 'a list option"
  assumes compares: "good a \<Longrightarrow> good b \<Longrightarrow>
      \<exists>r. cmp a b = Some r \<and> (r = 0 \<longleftrightarrow> key a = key b) \<and> (r < 0 \<longleftrightarrow> key a < key b)"
    and ins_Nil: "ins x [] = Some [x]"
    and ins_Cons: "ins x (y # ys) = do {
        r \<leftarrow> cmp y x;
        if r = 0 then Some (y # ys) else if r > 0 then Some (x # y # ys) else map_option ((#) y) (ins x ys) }"
begin

definition ordered :: "'a list \<Rightarrow> bool" where
  "ordered xs \<longleftrightarrow> sorted_wrt (<) (map key xs) \<and> (\<forall>x\<in>set xs. good x)"

lemma insert_ordered:
  assumes "good x" and "ordered ys"
  shows "\<exists>zs. ins x ys = Some zs \<and> ordered zs \<and> key ` set zs = insert (key x) (key ` set ys)"
  using assms(2)
proof (induction ys)
  case Nil
  then show ?case using assms(1) by (simp add: ins_Nil ordered_def)
next
  case (Cons y ys)
  then have y: "good y" "\<forall>z\<in>set ys. key y < key z" "ordered ys" by (auto simp: ordered_def)
  obtain zs where zs: "ins x ys = Some zs" "ordered zs" "key ` set zs = insert (key x) (key ` set ys)"
    using Cons.IH y(3) by blast
  obtain r where r: "cmp y x = Some r" "r = 0 \<longleftrightarrow> key y = key x" "r < 0 \<longleftrightarrow> key y < key x"
    using compares [OF y(1) assms(1)] by blast
  consider "key y = key x" | "key x < key y" | "key y < key x" using less_linear [of "key y" "key x"] by blast
  then show ?case
  proof cases
    case 1
    then show ?thesis using r Cons.prems by (simp add: ins_Cons)
  next
    case 2
    then have "r > 0" "r \<noteq> 0" using r by auto
    moreover have "ordered (x # y # ys)"
      using 2 y assms(1) Cons.prems by (simp add: ordered_def) (meson order.strict_trans)
    ultimately show ?thesis using r(1) by (simp add: ins_Cons)
  next
    case 3
    then have "ins x (y # ys) = Some (y # zs)" using r zs(1) by (auto simp: ins_Cons)
    moreover have "\<forall>z\<in>set zs. key y < key z"
    proof
      fix z
      assume "z \<in> set zs"
      then have "key z \<in> insert (key x) (key ` set ys)" using zs(3) by blast
      then show "key y < key z" using 3 y(2) by auto
    qed
    then have "ordered (y # zs)" using zs(2) y(1) by (simp add: ordered_def)
    ultimately show ?thesis using zs(3) by (simp add: insert_commute)
  qed
qed

end

section \<open>The last node\<close>

definition last_nodes :: "bytes list \<Rightarrow> bytes list" where
  "last_nodes ns = drop (length ns - 2) ns"

lemma last_node_at:
  "path_at m p (n # ns) \<Longrightarrow> path_at m (p + length n) ns \<Longrightarrow> length ns \<le> fuel \<Longrightarrow>
     \<exists>l. last_node fuel m p (p + length n) = Some l \<and> path_at m l (last_nodes (n # ns)) \<and>
       l = p + length (concat (n # ns)) - length (concat (last_nodes (n # ns)))"
proof (induction fuel arbitrary: p n ns)
  case 0
  then show ?case by (simp add: path_at_iff)
next
  case (Suc fuel)
  obtain k ks where k: "ns = k # ks" using Suc.prems(2) by (cases ns) (auto simp: path_at_iff)
  note K = path_at_head [OF Suc.prems(2) [unfolded k]]
  obtain x where x: "drop (p + length n) m = k @ x" using K(2) by blast
  note f = node_fields [OF x K(1,5)]
  show ?case
  proof (cases "ks = []")
    case True
    then show ?thesis using Suc.prems(1) f K(4) by (simp add: k last_nodes_def)
  next
    case False
    then have "last_nodes (n # ns) = last_nodes (k # ks)" by (cases ks) (auto simp: last_nodes_def k)
    then show ?thesis
      using Suc.IH [OF Suc.prems(2) [unfolded k] K(3) [OF False]] Suc.prems(3) f K(4) False k
      by (simp add: add.assoc)
  qed
qed

lemma find_last_at:
  assumes "path_at m p ns" and "2 \<le> length ns"
  shows "\<exists>l. find_last_device_path m p = Some l \<and> path_at m l (last_nodes ns) \<and>
    l = p + length (concat ns) - length (concat (last_nodes ns))"
proof -
  obtain n ks where n: "ns = n # ks" "ks \<noteq> []" 
    using assms(2) by (cases ns; cases "tl ns") auto
  note A = path_at_head [OF assms(1) [unfolded n(1)]]
  obtain x where x: "drop p m = n @ x" using A(2) by blast
  note f = node_fields [OF x A(1,5)]
  have "length ks \<le> Suc (length m)" using path_at_short [OF assms(1)] n by simp
  from last_node_at [OF assms(1) [unfolded n(1)] A(3) [OF n(2)] this]
  show ?thesis using f A(4) n by (simp add: find_last_device_path_def)
qed

lemma find_last_single: "path_at m p [n] \<Longrightarrow> find_last_device_path m p = Some 0"
  using path_at_head [of m p n "[]"] node_fields by (fastforce simp: find_last_device_path_def)

section \<open>The order of devices\<close>

text \<open>The nodes at an address, read the way the loops walk over them.\<close>

fun nodes_from :: "nat \<Rightarrow> bytes \<Rightarrow> nat \<Rightarrow> bytes list" where
  "nodes_from 0 m p = []"
| "nodes_from (Suc fuel) m p = (case (DP_LENGTH m p, END_ENTIRE_DP m p) of
     (Some len, Some e) \<Rightarrow> take len (drop p m) # (if e then [] else nodes_from fuel m (p + len))
   | _ \<Rightarrow> [])"

definition nodes_at :: "bytes \<Rightarrow> nat \<Rightarrow> bytes list" where
  "nodes_at m p = nodes_from (length m) m p"

lemma nodes_from_at: "path_at m p ns \<Longrightarrow> length ns \<le> fuel \<Longrightarrow> nodes_from fuel m p = ns"
proof (induction fuel arbitrary: p ns)
  case 0
  then show ?case by (simp add: path_at_iff)
next
  case (Suc fuel)
  obtain n ks where n: "ns = n # ks" using Suc.prems(1) by (cases ns) (auto simp: path_at_iff)
  note A = path_at_head [OF Suc.prems(1) [unfolded n]]
  obtain x where x: "drop p m = n @ x" using A(2) by blast
  note f = node_fields [OF x A(1,5)]
  show ?case
    using Suc.IH [OF A(3)] Suc.prems(2) f(3,5) A(4) x n by (cases "ks = []") auto
qed

lemma nodes_at: "path_at m p ns \<Longrightarrow> nodes_at m p = ns"
  unfolding nodes_at_def by (rule nodes_from_at [OF _ path_at_short])

text \<open>Devices are ordered by their last nodes first, then by the whole path.\<close>

definition device_key :: "bytes \<Rightarrow> efidisk_data \<Rightarrow> dev_node list \<times> dev_node list" where
  "device_key m d = (let ns = nodes_at m (dp d) in (path_key (last_nodes ns), path_key ns))"

definition good_device :: "bytes \<Rightarrow> efidisk_data \<Rightarrow> bool" where
  "good_device m d \<longleftrightarrow> (let ns = nodes_at m (dp d) in path_at m (dp d) ns \<and> 2 \<le> length ns)"

lemma good_device_iff: "good_device m d \<longleftrightarrow> (\<exists>ns. path_at m (dp d) ns \<and> 2 \<le> length ns)"
  unfolding good_device_def Let_def using nodes_at by metis

lemma device_order_key:
  assumes "good_device m a" and "good_device m b"
  shows "\<exists>r. device_order m a b = Some r \<and> (r = 0 \<longleftrightarrow> device_key m a = device_key m b) \<and>
    (r < 0 \<longleftrightarrow> device_key m a < device_key m b)"
proof -
  obtain ns ks where p: "path_at m (dp a) ns" "2 \<le> length ns" "path_at m (dp b) ks" "2 \<le> length ks"
    using assms by (auto simp: good_device_iff)
  obtain la lb where l: "find_last_device_path m (dp a) = Some la" "path_at m la (last_nodes ns)"
      "find_last_device_path m (dp b) = Some lb" "path_at m lb (last_nodes ks)"
    using find_last_at [OF p(1,2)] find_last_at [OF p(3,4)] by blast
  obtain r where r: "compare_device_paths m la lb = Some r" "r = 0 \<longleftrightarrow> last_nodes ns = last_nodes ks"
      "r < 0 \<longleftrightarrow> path_key (last_nodes ns) < path_key (last_nodes ks)"
    using compare_paths [OF l(2,4)] by blast
  obtain r' where r': "compare_device_paths m (dp a) (dp b) = Some r'" "r' = 0 \<longleftrightarrow> ns = ks"
      "r' < 0 \<longleftrightarrow> path_key ns < path_key ks"
    using compare_paths [OF p(1,3)] by blast
  have k: "device_key m a = (path_key (last_nodes ns), path_key ns)"
    "device_key m b = (path_key (last_nodes ks), path_key ks)"
    using nodes_at [OF p(1)] nodes_at [OF p(3)] by (simp_all add: device_key_def Let_def)
  show ?thesis
    using r r' by (cases "r = 0") (auto simp: device_order_def l k path_key_inj)
qed

interpretation disks: ordered_insertion "good_device m" "device_key m" "device_order m" "add_device m" for m
  by unfold_locales (auto intro: device_order_key)

section \<open>The parent\<close>

text \<open>A path without its last node, ended by the node the code writes in its place.\<close>

definition parent_nodes :: "bytes list \<Rightarrow> bytes list" where
  "parent_nodes ns = take (length ns - 2) ns @ [[END_DEVICE_PATH_TYPE, END_ENTIRE_DEVICE_PATH_SUBTYPE, 4, 0]]"

lemma path_at_append: "path_at m p ns \<Longrightarrow> path_at (m @ x) p ns"
proof -
  assume a: "path_at m p ns"
  then obtain y where y: "drop p m = concat ns @ y" and ok: "path_nodes ns" "p \<noteq> 0"
    by (auto simp: path_at_iff)
  obtain n ks where n: "ns = n # ks" using ok(1) by (cases ns) auto
  have "n \<noteq> []" using ok(1) n by (auto simp: path_nodes_Cons node_ok_def)
  then have "drop p m \<noteq> []" using y n by simp
  then have "p < length m" by simp
  then have "drop p (m @ x) = concat ns @ y @ x" using y by simp
  then show ?thesis using ok by (auto simp: path_at_iff)
qed

lemma total_size_at:
  "path_at m p ns \<Longrightarrow> length ns \<le> fuel \<Longrightarrow> total_size fuel m p acc = Some (Some (acc + length (concat ns)))"
proof (induction fuel arbitrary: p ns acc)
  case 0
  then show ?case by (simp add: path_at_iff)
next
  case (Suc fuel)
  obtain n ks where n: "ns = n # ks" using Suc.prems(1) by (cases ns) (auto simp: path_at_iff)
  note A = path_at_head [OF Suc.prems(1) [unfolded n]]
  obtain x where x: "drop p m = n @ x" using A(2) by blast
  note f = node_fields [OF x A(1,5)]
  have "4 \<le> length n" using A(1) by (simp add: node_ok_def)
  then show ?case
    using Suc.IH [OF A(3), of "acc + length n"] Suc.prems(2) f(3,5,6) A(4) n by (cases "ks = []") auto
qed

lemma duplicate_at:
  assumes "path_at m p ns"
  shows "duplicate_device_path m p = Some (m @ concat ns, length m)"
    and "path_at (m @ concat ns @ x) (length m) ns" and "length m \<noteq> 0"
proof -
  obtain y where y: "drop p m = concat ns @ y" and ok: "path_nodes ns" "p \<noteq> 0"
    using assms by (auto simp: path_at_iff)
  have "length m - p = length (concat ns) + length y" using y by (metis length_append length_drop)
  moreover have "length ns \<le> Suc (length m)" using path_at_short [OF assms] by simp
  moreover have "length (concat ns) \<noteq> 0" using ok(1) by (cases ns) (auto simp: path_nodes_Cons node_ok_def)
  ultimately have b: "p + length (concat ns) \<le> length m" "length m \<noteq> 0" by arith+
  show "duplicate_device_path m p = Some (m @ concat ns, length m)"
    using total_size_at [OF assms \<open>length ns \<le> Suc (length m)\<close>, of 0] b y
    by (simp add: duplicate_device_path_def peek_def)
  show "path_at (m @ concat ns @ x) (length m) ns" using ok b by (simp add: path_at_iff)
  show "length m \<noteq> 0" by (fact b(2))
qed

lemma parent_path_nodes: "path_nodes ns \<Longrightarrow> path_nodes (parent_nodes ns)"
proof (induction ns rule: path_nodes.induct)
  case (3 n k ks)
  show ?case
  proof (cases "ks = []")
    case True
    then show ?thesis
      by (simp add: parent_nodes_def node_ok_def node_end_def END_DEVICE_PATH_TYPE_def
          END_ENTIRE_DEVICE_PATH_SUBTYPE_def)
  next
    case False
    then have "parent_nodes (n # k # ks) = n # parent_nodes (k # ks)"
      by (cases ks) (auto simp: parent_nodes_def)
    then show ?thesis using 3 by (simp add: path_nodes_Cons parent_nodes_def)
  qed
qed (simp_all add: parent_nodes_def node_ok_def node_end_def END_DEVICE_PATH_TYPE_def
    END_ENTIRE_DEVICE_PATH_SUBTYPE_def)

text \<open>The copy, cut before its last node.\<close>

lemma cut_copy:
  assumes "path_at m p ns" and "2 \<le> length ns"
  shows "\<exists>l x. find_last_device_path (m @ concat ns) (length m) = Some l \<and> l \<noteq> 0 \<and>
    poke (m @ concat ns) l [END_DEVICE_PATH_TYPE, END_ENTIRE_DEVICE_PATH_SUBTYPE, 4, 0] = Some (m @ x) \<and>
    path_at (m @ x) (length m) (parent_nodes ns)"
proof -
  let ?end4 = "[END_DEVICE_PATH_TYPE, END_ENTIRE_DEVICE_PATH_SUBTYPE, 4, 0]"
  let ?pre = "take (length ns - 2) ns"
  note D = duplicate_at(2) [OF assms(1), of "[]", unfolded append_Nil2]
  obtain l where l: "find_last_device_path (m @ concat ns) (length m) = Some l"
      "path_at (m @ concat ns) l (last_nodes ns)"
      "l = length m + length (concat ns) - length (concat (last_nodes ns))"
    using find_last_at [OF D assms(2)] by blast
  have ns: "concat ns = concat ?pre @ concat (last_nodes ns)"
    unfolding last_nodes_def concat_append [symmetric] by simp
  have p: "l = length m + length (concat ?pre)" unfolding l(3) by (subst ns) simp
  have ok: "path_nodes (last_nodes ns)" using l(2) by (simp add: path_at_iff)
  then have four: "4 \<le> length (concat (last_nodes ns))"
    by (cases "last_nodes ns") (auto simp: path_nodes_Cons node_ok_def)
  let ?x = "concat ?pre @ ?end4 @ drop 4 (concat (last_nodes ns))"
  have "poke (m @ concat ns) l ?end4 = Some (m @ ?x)"
    using four unfolding p ns by (simp add: poke_def)
  moreover have "path_at (m @ ?x) (length m) (parent_nodes ns)"
    using duplicate_at(3) [OF assms(1)] parent_path_nodes assms(1)
    by (auto simp: path_at_iff parent_nodes_def)
  ultimately show ?thesis using l(1,2) by (auto simp: path_at_iff)
qed

lemma parent_from_finds:
  assumes "path_at m p ks" and "\<forall>d\<in>set devices. \<exists>ns. path_at m (dp d) ns"
  shows "parent_from m devices i d p = Some (map_option ((+) i)
    (find (\<lambda>j. i + j \<noteq> d \<and> nodes_at m (dp (devices ! j)) = ks) [0..<length devices]))"
  using assms(2)
proof (induction devices arbitrary: i)
  case (Cons a devices)
  obtain ns where a: "path_at m (dp a) ns" using Cons.prems by auto
  obtain r where r: "compare_device_paths m (dp a) p = Some r" "r = 0 \<longleftrightarrow> ns = ks"
    using compare_paths [OF a assms(1)] by blast
  have up: "[0..<length (a # devices)] = 0 # map Suc [0..<length devices]"
    by (simp add: map_Suc_upt upt_conv_Cons del: upt_Suc)
  have fm: "find P (map Suc xs) = map_option Suc (find (\<lambda>j. P (Suc j)) xs)" for P xs
    by (induction xs) auto
  show ?case
    unfolding up using Cons.IH [of "Suc i"] Cons.prems r nodes_at [OF a]
    by (auto simp: fm option.map_comp comp_def)
qed simp

lemma find_parent:
  assumes "d < length devices" and "\<forall>d\<in>set devices. good_device m d"
  shows "find_parent_device m devices d = Some (find (\<lambda>i. i \<noteq> d \<and>
    nodes_at m (dp (devices ! i)) = parent_nodes (nodes_at m (dp (devices ! d)))) [0..<length devices])"
proof -
  have "good_device m (devices ! d)" using assms by simp
  then obtain ns where ns: "path_at m (dp (devices ! d)) ns" "2 \<le> length ns" by (auto simp: good_device_iff)
  obtain l x where l: "find_last_device_path (m @ concat ns) (length m) = Some l" "l \<noteq> 0"
      "poke (m @ concat ns) l [END_DEVICE_PATH_TYPE, END_ENTIRE_DEVICE_PATH_SUBTYPE, 4, 0] = Some (m @ x)"
      "path_at (m @ x) (length m) (parent_nodes ns)"
    using cut_copy [OF ns] by blast
  have same: "nodes_at (m @ x) (dp (devices ! i)) = nodes_at m (dp (devices ! i))" if "i < length devices" for i
  proof -
    have "good_device m (devices ! i)" using assms(2) that by simp
    then obtain ks where "path_at m (dp (devices ! i)) ks" by (auto simp: good_device_iff)
    then show ?thesis using path_at_append nodes_at by metis
  qed
  have all: "\<forall>d\<in>set devices. \<exists>ks. path_at (m @ x) (dp d) ks"
    using assms(2) path_at_append by (fastforce simp: good_device_iff)
  have "find_parent_device m devices d = parent_from (m @ x) devices 0 d (length m)"
    using assms(1) l duplicate_at(1,3) [OF ns(1)] by (simp add: find_parent_device_def rd_def)
  also have "\<dots> = Some (find (\<lambda>i. i \<noteq> d \<and> nodes_at (m @ x) (dp (devices ! i)) = parent_nodes ns)
      [0..<length devices])"
    unfolding parent_from_finds [OF l(4) all] add_0 add_0 [THEN eq_reflection, abs_def] option.map_ident ..
  also have "\<dots> = Some (find (\<lambda>i. i \<noteq> d \<and> nodes_at m (dp (devices ! i)) = parent_nodes ns)
      [0..<length devices])"
    by (intro arg_cong [where f = Some] find_cong) (auto simp: same)
  finally show ?thesis unfolding nodes_at [OF ns(1)] .
qed

section \<open>The devices\<close>

definition last_type :: "bytes \<Rightarrow> efidisk_data \<Rightarrow> byte" where
  "last_type m d = hd (last_nodes (nodes_at m (dp d))) ! 0 AND 0x7f"

definition device_ok :: "bytes \<Rightarrow> efidisk_data \<Rightarrow> bool" where
  "device_ok m d \<longleftrightarrow> good_device m d \<and>
     (ldp d = 0 \<or> path_at m (ldp d) (last_nodes (nodes_at m (dp d))))"

text \<open>A disk the program can use: a path of two nodes or more, and media of blocks it can read.\<close>

definition usable :: "efi_firmware \<Rightarrow> bytes \<Rightarrow> nat \<Rightarrow> bool" where
  "usable fw m h \<longleftrightarrow> device_path_of fw h \<noteq> 0 \<and> 2 \<le> length (nodes_at m (device_path_of fw h)) \<and>
     (case media_of fw h of
        None \<Rightarrow> False
      | Some md \<Rightarrow> \<not> (MediaId md = 0x69505845 \<and> BlockSize md = 1) \<and>
          BlockSize md AND (BlockSize md - 1) = 0 \<and> 512 \<le> BlockSize md)"

lemma make_device_list_ok:
  assumes "\<forall>h\<in>set hs. device_path_of fw h = 0 \<or> (\<exists>ns. path_at m (device_path_of fw h) ns)"
    and "\<forall>d\<in>set devs. device_ok m d \<and> ldp d \<noteq> 0"
  shows "\<exists>devs'. make_device_list fw m hs devs = Some devs' \<and> (\<forall>d\<in>set devs'. device_ok m d \<and> ldp d \<noteq> 0) \<and>
    dp ` set devs' = dp ` set devs \<union> device_path_of fw ` {h \<in> set hs. usable fw m h}"
  using assms
proof (induction hs arbitrary: devs)
  case (Cons h hs)
  let ?p = "device_path_of fw h"
  have skip: ?case if "\<not> usable fw m h" "make_device_list fw m (h # hs) devs = make_device_list fw m hs devs"
  proof -
    have "{k \<in> set (h # hs). usable fw m k} = {k \<in> set hs. usable fw m k}" using that(1) by auto
    moreover have "\<forall>h\<in>set hs. device_path_of fw h = 0 \<or> (\<exists>ns. path_at m (device_path_of fw h) ns)"
      using Cons.prems(1) by simp
    ultimately show ?thesis using Cons.IH [OF _ Cons.prems(2)] unfolding that(2) by metis
  qed
  show ?case
  proof (cases "?p = 0")
    case True
    then show ?thesis using skip by (simp add: usable_def)
  next
    case False
    then obtain ns where ns: "path_at m ?p ns" using Cons.prems(1) by auto
    note nodes = nodes_at [OF ns]
    show ?thesis
    proof (cases "2 \<le> length ns")
      case short: False
      moreover have "ns \<noteq> []" using ns by (auto simp: path_at_iff)
      ultimately obtain n where "ns = [n]" by (cases ns; cases "tl ns") auto
      then have "find_last_device_path m ?p = Some 0" using ns find_last_single by blast
      then show ?thesis using skip short False nodes by (simp add: usable_def)
    next
      case True
      obtain l where l: "find_last_device_path m ?p = Some l" "path_at m l (last_nodes ns)"
        using find_last_at [OF ns True] by blast
      then have l0: "l \<noteq> 0" by (simp add: path_at_iff)
      show ?thesis
      proof (cases "usable fw m h")
        case unusable: False
        then show ?thesis
          using False True l l0 nodes
          by (intro skip) (auto simp: usable_def not_le split: option.splits)
      next
        case use: True
        then obtain md where md: "media_of fw h = Some md" by (auto simp: usable_def split: option.splits)
        let ?d = "\<lparr>disk_handle = h, dp = ?p, ldp = l, media = md\<rparr>"
        have d: "device_ok m ?d" using ns True l nodes by (auto simp: device_ok_def good_device_iff)
        have "make_device_list fw m (h # hs) devs = make_device_list fw m hs (?d # devs)"
          using use False l l0 md by (auto simp: usable_def not_le)
        moreover obtain devs' where "make_device_list fw m hs (?d # devs) = Some devs'"
            "\<forall>d\<in>set devs'. device_ok m d \<and> ldp d \<noteq> 0"
            "dp ` set devs' = dp ` set (?d # devs) \<union> device_path_of fw ` {h \<in> set hs. usable fw m h}"
          using Cons.IH [of "?d # devs"] Cons.prems d l0 by auto
        ultimately show ?thesis using use by auto
      qed
    qed
  qed
qed simp

section \<open>Naming\<close>

text \<open>
  The invariant of both passes: the devices keep their paths, the lists stay ordered, and a device
  that no longer has a last node is on a list, unless that node is a media node.
\<close>

definition listed :: "bytes \<Rightarrow> efi_disks \<Rightarrow> efidisk_data \<Rightarrow> bool" where
  "listed m ds d \<longleftrightarrow> device_key m d \<in> device_key m ` (set (efi_hd ds) \<union> set (efi_cd ds))"

definition lists_ok :: "bytes \<Rightarrow> efi_disks \<Rightarrow> bool" where
  "lists_ok m ds \<longleftrightarrow> disks.ordered m (efi_hd ds) \<and> disks.ordered m (efi_cd ds)"

definition naming_ok :: "bytes \<Rightarrow> naming \<Rightarrow> bool" where
  "naming_ok m = (\<lambda>(devices, ds). (\<forall>d\<in>set devices. device_ok m d) \<and> lists_ok m ds \<and>
     (\<forall>d\<in>set devices. ldp d = 0 \<and> last_type m d \<noteq> MEDIA_DEVICE_PATH \<longrightarrow> listed m ds d))"

lemma add_ok:
  assumes "lists_ok m ds" and "good_device m d"
  shows "\<exists>ds'. add_hd m d ds = Some ds' \<and> lists_ok m ds' \<and> listed m ds' d \<and> (\<forall>e. listed m ds e \<longrightarrow> listed m ds' e)"
    and "\<exists>ds'. add_cd m d ds = Some ds' \<and> lists_ok m ds' \<and> listed m ds' d \<and> (\<forall>e. listed m ds e \<longrightarrow> listed m ds' e)"
proof -
  have o: "disks.ordered m (efi_hd ds)" "disks.ordered m (efi_cd ds)" using assms(1) by (auto simp: lists_ok_def)
  obtain a b where a: "add_device m d (efi_hd ds) = Some a" "disks.ordered m a"
      "device_key m ` set a = insert (device_key m d) (device_key m ` set (efi_hd ds))"
    and b: "add_device m d (efi_cd ds) = Some b" "disks.ordered m b"
      "device_key m ` set b = insert (device_key m d) (device_key m ` set (efi_cd ds))"
    using disks.insert_ordered [OF assms(2) o(1)] disks.insert_ordered [OF assms(2) o(2)] by blast
  show "\<exists>ds'. add_hd m d ds = Some ds' \<and> lists_ok m ds' \<and> listed m ds' d \<and> (\<forall>e. listed m ds e \<longrightarrow> listed m ds' e)"
    using a o by (simp add: add_hd_def lists_ok_def listed_def image_Un)
  show "\<exists>ds'. add_cd m d ds = Some ds' \<and> lists_ok m ds' \<and> listed m ds' d \<and> (\<forall>e. listed m ds e \<longrightarrow> listed m ds' e)"
    using b o by (simp add: add_cd_def lists_ok_def listed_def image_Un)
qed

text \<open>What the code reads off the last node of a device.\<close>

lemma last_fields:
  assumes "device_ok m d" and "ldp d \<noteq> 0"
  shows "DP_TYPE m (ldp d) = Some (last_type m d)" and "\<exists>s. DP_SUBTYPE m (ldp d) = Some s"
    and "\<exists>n. DP_LENGTH m (ldp d) = Some n \<and> ldp d + n + 4 \<le> length m" and "ldp d + 8 \<le> length m"
proof -
  have p: "path_at m (ldp d) (last_nodes (nodes_at m (dp d)))" using assms by (simp add: device_ok_def)
  obtain ns where "path_at m (dp d) ns" "2 \<le> length ns" using assms(1) by (auto simp: device_ok_def good_device_iff)
  then have "length (last_nodes (nodes_at m (dp d))) = 2" using nodes_at by (simp add: last_nodes_def)
  then obtain k e where ke: "last_nodes (nodes_at m (dp d)) = [k, e]"
    by (auto simp: numeral_2_eq_2 length_Suc_conv)
  note A = path_at_head [OF p [unfolded ke]]
  obtain x where x: "drop (ldp d) m = k @ x" using A(2) by blast
  note f = node_fields [OF x A(1,5)]
  show "DP_TYPE m (ldp d) = Some (last_type m d)" using f(1) ke by (simp add: last_type_def)
  show "\<exists>s. DP_SUBTYPE m (ldp d) = Some s" using f(2) by blast
  have E: "path_at m (ldp d + length k) [e]" using A(3) by simp
  then obtain y where y: "drop (ldp d + length k) m = e @ y" using path_at_head(2) by blast
  have e: "4 \<le> length e" and k: "4 \<le> length k"
    using path_at_head(1) [OF E] A(1) by (simp_all add: node_ok_def)
  have "length m - (ldp d + length k) = length e + length y" using y by (metis length_append length_drop)
  then have b: "ldp d + length k + 4 \<le> length m" using e by arith
  then show "\<exists>n. DP_LENGTH m (ldp d) = Some n \<and> ldp d + n + 4 \<le> length m" using f(3) by blast
  show "ldp d + 8 \<le> length m" using b k by arith
qed

text \<open>Marking a device as used, once it is on a list or was a medium.\<close>

lemma mark_ok:
  assumes "naming_ok m (devices, ds)" and "i < length devices"
    and "last_type m (devices ! i) = MEDIA_DEVICE_PATH \<or> listed m ds (devices ! i)"
  shows "naming_ok m (mark_used i devices, ds)"
proof -
  let ?d = "(devices ! i)\<lparr>ldp := 0\<rparr>"
  have same: "last_type m ?d = last_type m (devices ! i)" "listed m ds ?d = listed m ds (devices ! i)"
      "device_ok m (devices ! i) \<Longrightarrow> device_ok m ?d"
    by (simp_all add: last_type_def listed_def device_key_def device_ok_def good_device_iff)
  have "device_ok m (devices ! i)" using assms(1,2) by (simp add: naming_ok_def)
  moreover have "d = ?d \<or> d \<in> set devices" if "d \<in> set (mark_used i devices)" for d
    using that set_update_subset_insert [of devices i ?d] by (auto simp: mark_used_def)
  ultimately show ?thesis
    using assms(1,3) same unfolding naming_ok_def prod.case by (metis (no_types, lifting))
qed

lemma listed_mono:
  assumes "naming_ok m (devices, ds)" and "lists_ok m ds'" and "\<forall>e. listed m ds e \<longrightarrow> listed m ds' e"
  shows "naming_ok m (devices, ds')"
  using assms by (auto simp: naming_ok_def)

lemma good_all: "naming_ok m (devices, ds) \<Longrightarrow> \<forall>d\<in>set devices. good_device m d"
  by (auto simp: naming_ok_def device_ok_def)

lemma parent_returns:
  assumes "naming_ok m (devices, ds)" and "i < length devices"
  shows "\<exists>r. find_parent_device m devices i = Some r \<and> (\<forall>j. r = Some j \<longrightarrow> j < length devices \<and> j \<noteq> i)"
  using find_parent [OF assms(2) good_all [OF assms(1)]] by (auto simp: find_Some_iff)

lemma name_by_media_ok:
  assumes "naming_ok m (devices, ds)" and "i < length devices"
  shows "\<exists>devices' ds'. name_by_media m i (devices, ds) = Some (devices', ds') \<and> naming_ok m (devices', ds') \<and>
    map dp devices' = map dp devices"
proof -
  let ?d = "devices ! i"
  have ok: "device_ok m ?d" using assms by (simp add: naming_ok_def)
  have rd: "rd devices i = Some ?d" using assms(2) by (simp add: rd_def)
  have keep: "map dp (mark_used k ds) = map dp ds" for k ds
    by (cases "k < length ds") (simp_all add: mark_used_def map_update list_update_same_conv list_update_beyond)
  show ?thesis
  proof (cases "ldp ?d = 0")
    case True
    then show ?thesis using assms(1) rd by (simp add: name_by_media_def)
  next
    case False
    note f = last_fields [OF ok False]
    obtain s where s: "DP_SUBTYPE m (ldp ?d) = Some s" using f(2) by blast
    obtain r where r: "find_parent_device m devices i = Some r" "\<And>j. r = Some j \<Longrightarrow> j < length devices"
      using parent_returns [OF assms] by blast
    show ?thesis
    proof (cases "last_type m ?d = MEDIA_DEVICE_PATH \<and> (s = MEDIA_HARDDRIVE_DP \<or> s = MEDIA_CDROM_DP) \<and> r \<noteq> None")
      case no: False
      then show ?thesis
        using assms(1) rd False f(1) s r(1) by (auto simp: name_by_media_def)
    next
      case yes: True
      then obtain j where j: "r = Some j" "j < length devices" using r(2) by blast
      obtain r2 where r2: "find_parent_device m devices j = Some r2"
        using parent_returns [OF assms(1) j(2)] by blast
      have rj: "rd devices j = Some (devices ! j)" using j(2) by (simp add: rd_def)
      have mark: "naming_ok m (mark_used i devices, ds)" using mark_ok assms yes by blast
      show ?thesis
      proof (cases "r2 \<noteq> None \<or> ldp (devices ! j) = 0")
        case True
        then have "name_by_media m i (devices, ds) = Some (mark_used i devices, ds)"
          using rd False f(1) s r(1) j(1) r2 rj yes by (auto simp: name_by_media_def)
        then show ?thesis using mark keep by blast
      next
        case new: False
        have "good_device m (devices ! j)" using good_all [OF assms(1)] j(2) by simp
        moreover have L: "lists_ok m ds" using assms(1) by (simp add: naming_ok_def)
        ultimately obtain ds' where ds': "(if s = MEDIA_HARDDRIVE_DP then add_hd m (devices ! j) ds
              else add_cd m (devices ! j) ds) = Some ds'" "lists_ok m ds'" "listed m ds' (devices ! j)"
            "\<forall>e. listed m ds e \<longrightarrow> listed m ds' e"
          using add_ok [of m ds "devices ! j"] by (cases "s = MEDIA_HARDDRIVE_DP") auto
        have "name_by_media m i (devices, ds) = Some (mark_used i (mark_used j devices), ds')"
          using rd False f(1) s r(1) j(1) r2 rj yes new ds'(1) by (auto simp: name_by_media_def)
        moreover have nj: "naming_ok m (mark_used j devices, ds')"
          using mark_ok [OF listed_mono [OF assms(1) ds'(2,4)] j(2)] ds'(3) by blast
        have "last_type m (mark_used j devices ! i) = MEDIA_DEVICE_PATH"
          using yes assms(2) by (cases "i = j") (simp_all add: mark_used_def last_type_def)
        then have "naming_ok m (mark_used i (mark_used j devices), ds')"
          using mark_ok [OF nj, of i] assms(2) by (simp add: mark_used_def)
        ultimately show ?thesis using keep by metis
      qed
    qed
  qed
qed

lemma ghost_returns:
  assumes "naming_ok m (devices, ds)" and "i < length devices" and "ldp (devices ! i) \<noteq> 0"
  shows "\<exists>g. is_apple_ghost m devices i (ldp (devices ! i)) = Some g \<and>
    (g \<longrightarrow> last_type m (devices ! i) = MEDIA_DEVICE_PATH)"
proof -
  let ?l = "ldp (devices ! i)"
  have ok: "device_ok m (devices ! i)" using assms by (simp add: naming_ok_def)
  note f = last_fields [OF ok assms(3)]
  obtain s n where s: "DP_SUBTYPE m ?l = Some s" and n: "DP_LENGTH m ?l = Some n" "?l + n + 4 \<le> length m"
    using f(2,3) by blast
  obtain r where r: "find_parent_device m devices i = Some r" using parent_returns [OF assms(1,2)] by blast
  have c: "\<exists>c. memcmp (drop (?l + 4) m) EFI_VENDOR_APPLE_GUID 16 = Some c" if "n = 20"
    using n(2) that by (intro memcmp_returns) (simp_all add: EFI_VENDOR_APPLE_GUID_def)
  show ?thesis
    using f(1) s n(1) r c by (cases "n = 20") (auto simp: is_apple_ghost_def)
qed

lemma floppy_returns:
  assumes "device_ok m d" and "ldp d \<noteq> 0"
  shows "is_floppy m (ldp d) \<noteq> None"
proof -
  note f = last_fields [OF assms]
  obtain s where "DP_SUBTYPE m (ldp d) = Some s" using f(2) by blast
  then show ?thesis using f(1,4) by (auto simp: is_floppy_def get32_def peek_def intro: exI [of Not False])
qed

lemma name_by_kind_ok:
  assumes "naming_ok m (devices, ds)" and "i < length devices"
  shows "\<exists>ds'. name_by_kind m i (devices, ds) = Some (devices, ds') \<and> naming_ok m (devices, ds') \<and>
    (\<forall>e. listed m ds e \<longrightarrow> listed m ds' e) \<and>
    (last_type m (devices ! i) \<noteq> MEDIA_DEVICE_PATH \<longrightarrow> listed m ds' (devices ! i))"
proof -
  let ?d = "devices ! i"
  have mem: "?d \<in> set devices" using assms(2) by simp
  have ok: "device_ok m ?d" using assms by (simp add: naming_ok_def)
  have rd: "rd devices i = Some ?d" using assms(2) by (simp add: rd_def)
  show ?thesis
  proof (cases "ldp ?d = 0")
    case True
    then have "name_by_kind m i (devices, ds) = Some (devices, ds)" using rd by (simp add: name_by_kind_def)
    moreover have "last_type m ?d \<noteq> MEDIA_DEVICE_PATH \<longrightarrow> listed m ds ?d"
      using assms(1) True mem by (simp add: naming_ok_def)
    ultimately show ?thesis using assms(1) by blast
  next
    case False
    obtain g where g: "is_apple_ghost m devices i (ldp ?d) = Some g"
        "g \<longrightarrow> last_type m ?d = MEDIA_DEVICE_PATH"
      using ghost_returns [OF assms False] by blast
    obtain b where b: "is_floppy m (ldp ?d) = Some b" using floppy_returns [OF ok False] by blast
    show ?thesis
    proof (cases g)
      case True
      then show ?thesis using assms(1) rd False g by (simp add: name_by_kind_def)
    next
      case new: False
      let ?cd = "\<not> b \<and> ReadOnly (media ?d) \<and> BlockSize (media ?d) > 512"
      have L: "lists_ok m ds" "good_device m ?d" using assms(1) ok by (simp_all add: naming_ok_def device_ok_def)
      obtain ds' where ds': "(if ?cd then add_cd m ?d ds else add_hd m ?d ds) = Some ds'"
          "lists_ok m ds'" "listed m ds' ?d" "\<forall>e. listed m ds e \<longrightarrow> listed m ds' e"
        using add_ok [OF L] by (cases ?cd) auto
      have "name_by_kind m i (devices, ds) = Some (devices, ds')"
        using rd False g(1) b new ds'(1) by (cases ?cd) (auto simp: name_by_kind_def)
      then show ?thesis using listed_mono [OF assms(1) ds'(2,4)] ds'(3,4) by blast
    qed
  qed
qed

lemma first_pass:
  "naming_ok m (devices, ds) \<Longrightarrow> \<forall>i\<in>set is. i < length devices \<Longrightarrow>
     \<exists>devices' ds'. each_device (name_by_media m) is (devices, ds) = Some (devices', ds') \<and>
       naming_ok m (devices', ds') \<and> map dp devices' = map dp devices"
proof (induction "is" arbitrary: devices ds)
  case (Cons i "is")
  obtain devices' ds' where s: "name_by_media m i (devices, ds) = Some (devices', ds')"
      "naming_ok m (devices', ds')" "map dp devices' = map dp devices"
    using name_by_media_ok [OF Cons.prems(1)] Cons.prems(2) by (meson list.set_intros(1))
  have "length devices' = length devices" using s(3) by (metis length_map)
  then show ?case using Cons.IH [OF s(2)] Cons.prems(2) s by auto
qed simp

lemma second_pass:
  "naming_ok m (devices, ds) \<Longrightarrow> \<forall>i\<in>set is. i < length devices \<Longrightarrow>
     \<exists>ds'. each_device (name_by_kind m) is (devices, ds) = Some (devices, ds') \<and> naming_ok m (devices, ds') \<and>
       (\<forall>e. listed m ds e \<longrightarrow> listed m ds' e) \<and>
       (\<forall>i\<in>set is. last_type m (devices ! i) \<noteq> MEDIA_DEVICE_PATH \<longrightarrow> listed m ds' (devices ! i))"
proof (induction "is" arbitrary: ds)
  case (Cons i "is")
  obtain ds' where s: "name_by_kind m i (devices, ds) = Some (devices, ds')" "naming_ok m (devices, ds')"
      "\<forall>e. listed m ds e \<longrightarrow> listed m ds' e"
      "last_type m (devices ! i) \<noteq> MEDIA_DEVICE_PATH \<longrightarrow> listed m ds' (devices ! i)"
    using name_by_kind_ok [OF Cons.prems(1)] Cons.prems(2) by (meson list.set_intros(1))
  then show ?case using Cons.IH [OF s(2)] Cons.prems(2) by fastforce
qed simp

definition fresh_disks :: efi_disks where
  "fresh_disks = \<lparr>efi_hd = [], efi_cd = []\<rparr>"

text \<open>A well-behaved firmware: it lists its handles, and their paths are well-formed.\<close>

definition firmware_ok :: "efi_firmware \<Rightarrow> bytes \<Rightarrow> nat list \<Rightarrow> bool" where
  "firmware_ok fw m hs \<longleftrightarrow> locate_handle fw = (Some hs, length hs) \<and>
     (\<forall>h\<in>set hs. device_path_of fw h = 0 \<or> path_at m (device_path_of fw h) (nodes_at m (device_path_of fw h)))"

lemma efidisk_init_ok:
  assumes "firmware_ok fw m hs"
  shows "\<exists>ds. efidisk_init fw m fresh_disks = Some ds \<and> lists_ok m ds \<and>
    (\<forall>h\<in>set hs. usable fw m h \<longrightarrow> (\<exists>d. dp d = device_path_of fw h \<and>
       (last_type m d \<noteq> MEDIA_DEVICE_PATH \<longrightarrow> listed m ds d)))"
proof -
  have paths: "\<forall>h\<in>set hs. device_path_of fw h = 0 \<or> (\<exists>ns. path_at m (device_path_of fw h) ns)"
    using assms by (auto simp: firmware_ok_def)
  obtain devs where d: "make_device_list fw m hs [] = Some devs" "\<forall>d\<in>set devs. device_ok m d \<and> ldp d \<noteq> 0"
      "dp ` set devs = device_path_of fw ` {h \<in> set hs. usable fw m h}"
    using make_device_list_ok [OF paths, of "[]"] by auto
  have md: "make_devices fw m = Some devs" using assms d(1) by (simp add: make_devices_def firmware_ok_def)
  have L: "lists_ok m fresh_disks" by (simp add: lists_ok_def fresh_disks_def disks.ordered_def)
  show ?thesis
  proof (cases "devs = []")
    case True
    then show ?thesis using md L d(3) by (auto simp: efidisk_init_def)
  next
    case False
    have n0: "naming_ok m (devs, fresh_disks)" using d(2) L by (auto simp: naming_ok_def)
    obtain devs' ds1 where p1: "each_device (name_by_media m) [0..<length devs] (devs, fresh_disks) = Some (devs', ds1)"
        "naming_ok m (devs', ds1)" "map dp devs' = map dp devs"
      using first_pass [OF n0, of "[0..<length devs]"] by auto
    obtain ds where p2: "each_device (name_by_kind m) [0..<length devs'] (devs', ds1) = Some (devs', ds)"
        "naming_ok m (devs', ds)"
        "\<forall>i\<in>set [0..<length devs']. last_type m (devs' ! i) \<noteq> MEDIA_DEVICE_PATH \<longrightarrow> listed m ds (devs' ! i)"
      using second_pass [OF p1(2), of "[0..<length devs']"] by auto
    have run: "efidisk_init fw m fresh_disks = Some ds"
      using False md p1(1) p2(1) by (simp add: efidisk_init_def name_devices_def)
    have all: "\<exists>d. dp d = device_path_of fw h \<and> (last_type m d \<noteq> MEDIA_DEVICE_PATH \<longrightarrow> listed m ds d)"
      if "h \<in> set hs" "usable fw m h" for h
    proof -
      have "device_path_of fw h \<in> set (map dp devs')" unfolding p1(3) using d(3) that by auto
      then obtain d where "d \<in> set devs'" "dp d = device_path_of fw h" by auto
      then show ?thesis using p2(3) by (auto simp: in_set_conv_nth)
    qed
    show ?thesis using run p2(2) all by (auto simp: naming_ok_def)
  qed
qed

section \<open>The search\<close>

interpretation efidisk: sector_disk "efidisk_read ReadBlocks d" for ReadBlocks d
  by unfold_locales (auto simp: efidisk_read_def Let_def split: option.splits dest: peek_length)

text \<open>
  Whatever the firmware reads, the search over the disks makes no access out of bounds, and changes
  only where the boot volume is.
\<close>

lemma efidisk_iterate_returns:
  "search_args args \<Longrightarrow> \<exists>r. efidisk_iterate fuel debug ReadBlocks ds args = Some r \<and>
     (\<forall>a. r = Inr a \<longrightarrow> initrd_path a = initrd_path args)"
proof (induction ds)
  case (Cons d ds)
  let ?disk = "efidisk_read ReadBlocks d"
  have b: "build_sizes type_sizes_lp64" by (simp add: build_sizes_def)
  obtain r where r: "check_msdos_partmap fuel debug type_sizes_lp64 ?disk args = Some r" "mbr_outcome ?disk args r"
    using efidisk.check_mbr_outcome [OF b Cons.prems] unfolding check_msdos_partmap_def by blast
  show ?case
  proof (cases r)
    case (Inr x)
    obtain found n args1 where x: "x = (found, n, args1)" by (cases x)
    have args1: "if found then initrd_path args1 = initrd_path args else args1 = args"
      using r(2) Inr x by (auto simp: mbr_outcome_def split: if_splits)
    obtain found2 args2 where g: "check_gpt_partmap type_sizes_lp64 ?disk args = Some (found2, args2)"
        "\<not> found2 \<longrightarrow> args2 = args" "initrd_path args2 = initrd_path args"
      using efidisk.gpt_partmap_total [OF b Cons.prems] by blast
    show ?thesis using r(1) Inr x args1 g Cons by (cases found; cases found2) auto
  qed (use r(1) in simp)
qed simp

section \<open>The properties\<close>

text \<open>C37: The parent of a device is the first other device whose path is the device's path without its last node.\<close>

theorem find_parent_device_finds:
  assumes "d < length devices" and "list_all (good_device m) devices"
  shows "find_parent_device m devices d = Some (find (\<lambda>i. i \<noteq> d \<and>
    nodes_at m (dp (devices ! i)) = parent_nodes (nodes_at m (dp (devices ! d)))) [0..<length devices])"
  using find_parent [OF assms(1)] assms(2) by (simp add: list_all_iff)


text \<open>
  A firmware with a disk that has two partitions, a CD-ROM, and a device at the root of all of them.
\<close>

definition a_root :: bytes where "a_root = [2, 1, 12, 0, 0xd0, 0x41, 0x03, 0x0a, 0, 0, 0, 0]"
definition a_disk :: "byte \<Rightarrow> bytes" where "a_disk n = [3, 1, 8, 0, n, 0, 0, 0]"
definition a_part :: "byte \<Rightarrow> bytes" where "a_part n = [4, 1, 6, 0, n, 0]"
definition a_fini :: bytes where "a_fini = [0x7f, 0xff, 4, 0]"

definition some_paths :: "bytes list list" where
  "some_paths =
     [[a_root, a_disk 1, a_part 1, a_fini], [a_root, a_disk 1, a_fini], [a_root, a_disk 0, a_fini],
      [a_root, a_disk 1, a_part 2, a_fini], [a_root, a_fini]]"

definition some_memory :: bytes where
  "some_memory = 0 # concat (map concat some_paths)"

definition some_firmware :: efi_firmware where
  "some_firmware = \<lparr>
     LocateHandle = (\<lambda>n. (0, 40, [10, 11, 12, 13, 14])),
     device_path_of = (\<lambda>h. 1 + length (concat (concat (take (h - 10) some_paths)))),
     media_of = (\<lambda>h. Some \<lparr>MediaId = 0, BlockSize = (if h = 12 then 2048 else 512), ReadOnly = (h = 12)\<rparr>)\<rparr>"

definition some_devices :: "efidisk_data list" where
  "some_devices = map (\<lambda>h. \<lparr>disk_handle = h, dp = device_path_of some_firmware h, ldp = 0,
     media = \<lparr>MediaId = 0, BlockSize = 512, ReadOnly = False\<rparr>\<rparr>) [10, 11, 12, 13, 14]"

lemma some_firmware_ok: "firmware_ok some_firmware some_memory [10, 11, 12, 13, 14]"
  by code_simp

theorem find_parent_device_finds_witness:
  "find_parent_device some_memory some_devices 3 = Some (find (\<lambda>i. i \<noteq> 3 \<and>
     nodes_at some_memory (dp (some_devices ! i)) =
     parent_nodes (nodes_at some_memory (dp (some_devices ! 3)))) [0..<length some_devices]) \<and>
   find_parent_device some_memory some_devices 3 = Some (Some 1)"
proof (rule conjI)
  have "list_all (good_device some_memory) some_devices" by code_simp
  then show "find_parent_device some_memory some_devices 3 = Some (find (\<lambda>i. i \<noteq> 3 \<and>
     nodes_at some_memory (dp (some_devices ! i)) =
     parent_nodes (nodes_at some_memory (dp (some_devices ! 3)))) [0..<length some_devices])"
    using find_parent_device_finds [of 3 some_devices some_memory] by (simp add: some_devices_def)
  show "find_parent_device some_memory some_devices 3 = Some (Some 1)" by code_simp
qed


end
