(* ===== verification/BcdSafe.thy ===== *)
theory BcdSafe
  imports Bcd
begin

text \<open>
  Every patch of the configuration stays inside the data of the value it patches: the lengths
  demanded of the device paths leave room for all that is stored.
\<close>

definition within :: "nat option \<Rightarrow> nat \<Rightarrow> hive \<Rightarrow> hive \<Rightarrow> bool" where
  "within dat n h h' \<longleftrightarrow>
     length h' = length h \<and>
     (\<forall>i. (\<forall>p. dat = Some p \<longrightarrow> i < p \<or> p + n \<le> i) \<longrightarrow> rd h' i = rd h i)"

lemma within_refl [simp, intro]: "within dat n h h"
  by (simp add: within_def)

lemma within_trans [trans]: "within dat n h h1 \<Longrightarrow> within dat n h1 h2 \<Longrightarrow> within dat n h h2"
  by (simp add: within_def)

lemma store_within:
  "store_at h dat ofs bs = Some h' \<Longrightarrow> ofs + length bs \<le> n \<Longrightarrow> within dat n h h'"
  by (auto simp: store_at_def within_def poke_length rd_poke_disjoint split: option.splits if_splits)

lemma store_bytes_within:
  "store_bytes h dat bs = Some h' \<Longrightarrow> list_all (\<lambda>(ofs, _). ofs < n) bs \<Longrightarrow> within dat n h h'"
proof (induction bs arbitrary: h)
  case (Cons a bs)
  obtain ofs b where a: "a = (ofs, b)" by fastforce
  then obtain h1 where h1: "store_at h dat ofs [b] = Some h1" "store_bytes h1 dat bs = Some h'"
    using Cons.prems(1) by (auto simp: bind_eq_Some_conv)
  have "within dat n h h1" using store_within [OF h1(1)] Cons.prems(2) a by simp
  also have "within dat n h1 h'" using Cons.IH [OF h1(2)] Cons.prems(2) by simp
  finally show ?case .
qed simp

lemma dp_wim_within: "dp_wim h dat = Some h' \<Longrightarrow> 0x41 \<le> n \<Longrightarrow> within dat n h h'"
  unfolding dp_wim_def
  by (auto simp: bind_eq_Some_conv GUID_BIN_RAMDISK_def
      intro!: within_trans [OF store_within store_bytes_within] simp del: store_bytes.simps)

lemma dp_vhd_within: "dp_vhd h dat = Some h' \<Longrightarrow> 0x73 \<le> n \<Longrightarrow> within dat n h h'"
  unfolding dp_vhd_def by (erule store_bytes_within) simp

lemma dp_disk_within:
  assumes "dp_disk h dat ofs args = Some h'" and "ofs + 0x38 \<le> n"
  shows "within dat n h h'"
proof -
  from assms(1) obtain u :: byte and h1 h2 i1 h3 h4 i2 where
    1: "store_at h dat ofs [if u \<noteq> 0 then 0x06 else 0x05] = Some h1" and
    2: "store_at h1 dat (ofs + 0x08) [0x48] = Some h2" and
    3: "peek (partid args) 0 16 = Some i1" "store_at h2 dat (ofs + 0x10) i1 = Some h3" and
    4: "store_at h3 dat (ofs + 0x24) [partmap args] = Some h4" and
    5: "peek (diskid args) 0 16 = Some i2" "store_at h4 dat (ofs + 0x28) i2 = Some h'"
    unfolding dp_disk_def by (simp only: bind_eq_Some_conv) blast
  have l: "length i1 = 16" "length i2 = 16" using 3(1) 5(1) by (auto dest: peek_length)
  have "within dat n h h1" by (rule store_within [OF 1]) (use assms(2) in simp)
  also have "within dat n h1 h2" by (rule store_within [OF 2]) (use assms(2) in simp)
  also have "within dat n h2 h3" by (rule store_within [OF 3(2)]) (use assms(2) l in simp)
  also have "within dat n h3 h4" by (rule store_within [OF 4]) (use assms(2) in simp)
  also have "within dat n h4 h'" by (rule store_within [OF 5(2)]) (use assms(2) l in simp)
  finally show ?thesis .
qed

lemma dp_path_within:
  "dp_path h dat ofs args = Some h' \<Longrightarrow> ofs + 0x48 + 2 * MAX_PATH \<le> n \<Longrightarrow> within dat n h h'"
  unfolding dp_path_def
  by (auto simp: bind_eq_Some_conv intro!: store_within dest!: utf8_to_ucs2_bound)

section \<open>Operations\<close>

lemma bcd_bind_Inr:
  "bcd_bind m f = Some (Inr y) \<longleftrightarrow> (\<exists>x. m = Some (Inr x) \<and> f x = Some (Inr y))"
proof (cases m)
  case (Some r)
  then show ?thesis by (cases r) (auto simp: bcd_bind_def)
qed (simp add: bcd_bind_def)

text \<open>The value an operation patches.\<close>

fun op_target :: "bcd_op \<Rightarrow> (u16 list \<times> u16 list) option" where
  "op_target (Patch_bool guid key val) = Some (guid, key)"
| "op_target (Patch_u64 guid key val) = Some (guid, key)"
| "op_target (Patch_sz guid key str) = Some (guid, key)"
| "op_target (Patch_szw guid key str) = Some (guid, key)"
| "op_target (Patch_dp type guid key) = Some (guid, key)"
| "op_target (Delete_key guid key) = None"

lemma patch_sz_within:
  assumes "bcd_find_hive h objects guid key = Some (Inr (dat, len))"
    and "bcd_patch_sz h objects guid key str = Some (Inr h')"
  shows "within dat (unat len) h h'"
proof -
  from assms obtain h1 ws where h1: "store_at h dat 0 (replicate (unat len) 0) = Some h1"
    and ws: "utf8_to_ucs2 (unat len div 2) str = Some ws" and h': "store_at h1 dat 0 (units ws) = Some h'"
    by (auto simp: bcd_patch_sz_def bcd_bind_Inr bind_eq_Some_conv)
  have "within dat (unat len) h h1" by (rule store_within [OF h1]) simp
  also have "within dat (unat len) h1 h'"
    by (rule store_within [OF h']) (use utf8_to_ucs2_bound [OF ws] in simp)
  finally show ?thesis .
qed

lemma wcslen_bound: "wcslen s = Some n \<Longrightarrow> n < length s"
  by (induction s arbitrary: n) (auto split: if_splits)

lemma patch_szw_within:
  assumes "bcd_find_hive h objects guid key = Some (Inr (dat, len))"
    and "bcd_patch_szw h objects guid key str = Some (Inr h')"
  shows "within dat (unat len) h h'"
proof -
  from assms obtain n h1 where n: "wcslen str = Some n" "n * 2 \<le> unat len"
    and h1: "store_at h dat 0 (replicate (unat len) 0) = Some h1"
    and h': "store_at h1 dat 0 (units (take n str)) = Some h'"
    by (auto simp: bcd_patch_szw_def bcd_bind_Inr bind_eq_Some_conv Let_def split: if_splits)
  have "within dat (unat len) h h1" by (rule store_within [OF h1]) simp
  also have "within dat (unat len) h1 h'"
    by (rule store_within [OF h']) (use n in simp)
  finally show ?thesis .
qed

lemma patch_dp_within:
  assumes f: "bcd_find_hive h objects guid key = Some (Inr (dat, len))"
    and p: "bcd_patch_dp h objects type guid key args = Some (Inr h')"
  shows "within dat (unat len) h h'"
proof -
  have lim: "\<not> len < k \<Longrightarrow> unat k \<le> unat len" for k by (simp add: word_less_nat_alt)
  from f p obtain h1 where h1: "store_at h dat 0 (replicate (unat len) 0) = Some h1"
    by (auto simp: bcd_patch_dp_def bcd_bind_Inr bind_eq_Some_conv)
  have "within dat (unat len) h h1" by (rule store_within [OF h1]) simp
  also have "within dat (unat len) h1 h'"
  proof -
    consider (wim) h2 h3 where "0x28a \<le> unat len" "dp_wim h1 dat = Some h2"
        "dp_disk h2 dat 0x44 args = Some h3" "dp_path h3 dat 0x44 args = Some h'"
      | (vhd) h2 h3 where "0x2bc \<le> unat len" "dp_vhd h1 dat = Some h2"
        "dp_disk h2 dat 0x76 args = Some h3" "dp_path h3 dat 0x76 args = Some h'"
      | (os) "0x58 \<le> unat len" "dp_disk h1 dat 0x10 args = Some h'"
      using f p h1 lim [of "0x28a"] lim [of "0x2bc"] lim [of "0x58"]
      by (auto simp: bcd_patch_dp_def bcd_bind_Inr bind_eq_Some_conv split: if_splits)
    then show ?thesis
    proof cases
      case wim
      have "within dat (unat len) h1 h2" by (rule dp_wim_within [OF wim(2)]) (use wim(1) in simp)
      also have "within dat (unat len) h2 h3" by (rule dp_disk_within [OF wim(3)]) (use wim(1) in simp)
      also have "within dat (unat len) h3 h'"
        by (rule dp_path_within [OF wim(4)]) (use wim(1) in \<open>simp add: MAX_PATH_def\<close>)
      finally show ?thesis .
    next
      case vhd
      have "within dat (unat len) h1 h2" by (rule dp_vhd_within [OF vhd(2)]) (use vhd(1) in simp)
      also have "within dat (unat len) h2 h3" by (rule dp_disk_within [OF vhd(3)]) (use vhd(1) in simp)
      also have "within dat (unat len) h3 h'"
        by (rule dp_path_within [OF vhd(4)]) (use vhd(1) in \<open>simp add: MAX_PATH_def\<close>)
      finally show ?thesis .
    next
      case os
      then show ?thesis by (auto intro!: dp_disk_within)
    qed
  qed
  finally show ?thesis .
qed

text \<open>C17: whatever a patch stores - a flag, a number, a converted string, a device path with its
  converted file name - lies inside the data of the value it found.\<close>

theorem run_op_within:
  assumes "op_target op = Some (guid, key)"
    and "bcd_find_hive h objects guid key = Some (Inr (dat, len))"
    and "run_op args objects op h = Some (Inr h')"
  shows "within dat (unat len) h h'"
proof (cases op)
  case (Patch_bool g k v)
  then show ?thesis using assms
    by (auto simp: bcd_patch_bool_def bcd_bind_Inr intro!: store_within split: if_splits)
next
  case (Patch_u64 g k v)
  then show ?thesis using assms
    by (auto simp: bcd_patch_u64_def bcd_bind_Inr intro!: store_within split: if_splits)
qed (use assms in \<open>auto intro: patch_sz_within patch_szw_within patch_dp_within\<close>)

section \<open>A hive with one value\<close>

text \<open>Key g, its key Elements, the element k and its one-byte value.\<close>

definition one_value :: bytes where
  "one_value = [
     176, 255, 255, 255, 110, 107, 32, 0, 0, 0, 0, 0, 0, 0, 0, 0, 0, 0, 0, 0, 0, 0, 0, 0,
     1, 0, 0, 0, 0, 0, 0, 0, 80, 0, 0, 0, 255, 255, 255, 255, 0, 0, 0, 0, 255, 255, 255, 255,
     0, 0, 0, 0, 0, 0, 0, 0, 0, 0, 0, 0, 0, 0, 0, 0, 0, 0, 0, 0, 0, 0, 0, 0,
     0, 0, 0, 0, 0, 0, 0, 0, 240, 255, 255, 255, 108, 102, 1, 0, 96, 0, 0, 0, 0, 0, 0, 0,
     168, 255, 255, 255, 110, 107, 32, 0, 0, 0, 0, 0, 0, 0, 0, 0, 0, 0, 0, 0, 0, 0, 0, 0,
     1, 0, 0, 0, 0, 0, 0, 0, 184, 0, 0, 0, 255, 255, 255, 255, 0, 0, 0, 0, 255, 255, 255, 255,
     0, 0, 0, 0, 0, 0, 0, 0, 0, 0, 0, 0, 0, 0, 0, 0, 0, 0, 0, 0, 0, 0, 0, 0,
     0, 0, 0, 0, 1, 0, 0, 0, 103, 0, 0, 0, 0, 0, 0, 0, 240, 255, 255, 255, 108, 102, 1, 0,
     200, 0, 0, 0, 0, 0, 0, 0, 168, 255, 255, 255, 110, 107, 32, 0, 0, 0, 0, 0, 0, 0, 0, 0,
     0, 0, 0, 0, 0, 0, 0, 0, 1, 0, 0, 0, 0, 0, 0, 0, 32, 1, 0, 0, 255, 255, 255, 255,
     0, 0, 0, 0, 255, 255, 255, 255, 0, 0, 0, 0, 0, 0, 0, 0, 0, 0, 0, 0, 0, 0, 0, 0,
     0, 0, 0, 0, 0, 0, 0, 0, 0, 0, 0, 0, 8, 0, 0, 0, 69, 108, 101, 109, 101, 110, 116, 115,
     240, 255, 255, 255, 108, 102, 1, 0, 48, 1, 0, 0, 0, 0, 0, 0, 168, 255, 255, 255, 110, 107, 32, 0,
     0, 0, 0, 0, 0, 0, 0, 0, 0, 0, 0, 0, 0, 0, 0, 0, 0, 0, 0, 0, 0, 0, 0, 0,
     255, 255, 255, 255, 255, 255, 255, 255, 1, 0, 0, 0, 136, 1, 0, 0, 0, 0, 0, 0, 0, 0, 0, 0,
     0, 0, 0, 0, 0, 0, 0, 0, 0, 0, 0, 0, 0, 0, 0, 0, 0, 0, 0, 0, 1, 0, 0, 0,
     107, 0, 0, 0, 0, 0, 0, 0, 248, 255, 255, 255, 144, 1, 0, 0, 224, 255, 255, 255, 118, 107, 7, 0,
     1, 0, 0, 128, 0, 0, 0, 0, 3, 0, 0, 0, 1, 0, 0, 0, 69, 108, 101, 109, 101, 110, 116, 0]"

lemma one_value_length: "length one_value = 432"
  by (simp add: one_value_def)

lemma one_value_words:
  "get32 one_value 0 = Some 4294967216" "get32 one_value 24 = Some 1"
  "get32 one_value 32 = Some 80" "get32 one_value 40 = Some 0"
  "get32 one_value 44 = Some 4294967295" "get32 one_value 96 = Some 4294967208"
  "get32 one_value 120 = Some 1" "get32 one_value 128 = Some 184"
  "get32 one_value 136 = Some 0" "get32 one_value 140 = Some 4294967295"
  "get32 one_value 200 = Some 4294967208" "get32 one_value 224 = Some 1"
  "get32 one_value 232 = Some 288" "get32 one_value 240 = Some 0"
  "get32 one_value 244 = Some 4294967295" "get32 one_value 304 = Some 4294967208"
  "get32 one_value 328 = Some 0" "get32 one_value 336 = Some 4294967295"
  "get32 one_value 344 = Some 1" "get32 one_value 348 = Some 392"
  "get32 one_value 80 = Some 4294967280" "get32 one_value 88 = Some 96"
  "get32 one_value 184 = Some 4294967280" "get32 one_value 192 = Some 200"
  "get32 one_value 288 = Some 4294967280" "get32 one_value 296 = Some 304"
  "get32 one_value 392 = Some 4294967288" "get32 one_value 396 = Some 400"
  "get32 one_value 400 = Some 4294967264" "get32 one_value 408 = Some 2147483649"
  "get32 one_value 412 = Some 0" "get32 one_value 416 = Some 3"
  by (simp_all add: get32_def peek_def one_value_def push_bit_eq_mult)

lemma one_value_halves:
  "get16 one_value 4 = Some 27502" "get16 one_value 6 = Some 32"
  "get16 one_value 76 = Some 0" "get16 one_value 100 = Some 27502"
  "get16 one_value 102 = Some 32" "get16 one_value 172 = Some 1"
  "get16 one_value 204 = Some 27502" "get16 one_value 206 = Some 32"
  "get16 one_value 276 = Some 8" "get16 one_value 308 = Some 27502"
  "get16 one_value 310 = Some 32" "get16 one_value 380 = Some 1"
  "get16 one_value 84 = Some 26220" "get16 one_value 86 = Some 1"
  "get16 one_value 188 = Some 26220" "get16 one_value 190 = Some 1"
  "get16 one_value 292 = Some 26220" "get16 one_value 294 = Some 1"
  "get16 one_value 404 = Some 27510" "get16 one_value 406 = Some 7"
  "get16 one_value 420 = Some 1"
  by (simp_all add: get16_def peek_def one_value_def push_bit_eq_mult)

lemma one_value_bytes:
  "rd one_value 176 = Some 103" "rd one_value 280 = Some 69"
  "rd one_value 281 = Some 108" "rd one_value 282 = Some 101"
  "rd one_value 283 = Some 109" "rd one_value 284 = Some 101"
  "rd one_value 285 = Some 110" "rd one_value 286 = Some 116"
  "rd one_value 287 = Some 115" "rd one_value 384 = Some 107"
  "rd one_value 424 = Some 69" "rd one_value 425 = Some 108"
  "rd one_value 426 = Some 101" "rd one_value 427 = Some 109"
  "rd one_value 428 = Some 101" "rd one_value 429 = Some 110"
  "rd one_value 430 = Some 116"
  by (simp_all add: rd_def one_value_length) (simp_all add: one_value_def)

lemmas one_value_fields = one_value_words one_value_halves one_value_bytes

lemmas step_eqs = same_name.simps search_children.simps search_values.simps

lemma one_value_leaf:
  "key_leaf (hive_of one_value) 4096 = Some (Inr (4100, 4180))"
  "key_leaf (hive_of one_value) 4192 = Some (Inr (4196, 4284))"
  "key_leaf (hive_of one_value) 4296 = Some (Inr (4300, 4388))"
  by (simp_all add: key_leaf_def key_node_def key_index_def eval_simps one_value_fields reg_consts)

lemma same_name_numeral:
  "same_name h name packed (numeral k) j namebit = do {
     c1 \<leftarrow> name_char h name packed j;
     c2 \<leftarrow> rd namebit j;
     if fold_case c1 \<noteq> fold_case c2 then Some False
     else same_name h name packed (pred_numeral k) (Suc j) namebit }"
  by (simp add: numeral_eq_Suc)

lemma rd_list: "rd (x # xs) 0 = Some x" "rd (x # xs) (Suc i) = rd xs i"
    "rd (x # xs) (numeral k) = rd xs (pred_numeral k)"
  by (simp_all add: rd_def numeral_eq_Suc)

lemma one_value_names:
  "child_matches (hive_of one_value) 96 [0x67] 1 = Some True"
  "child_matches (hive_of one_value) 200 (map of_char ''Elements'') 8 = Some True"
  "child_matches (hive_of one_value) 304 [0x6B] 1 = Some True"
  by (simp_all add: child_matches_def eval_simps one_value_fields reg_consts name_count_def
      name_char_def Let_def fold_case_def rd_list same_name_numeral)

lemma one_value_children:
  "find_child_key (hive_of one_value) 4096 [0x67] (length [0x67 :: u16]) = Some (Inr 4192)"
  "find_child_key (hive_of one_value) 4192 (map of_char ''Elements'') (length (map of_char ''Elements'' :: u16 list)) = Some (Inr 4296)"
  "find_child_key (hive_of one_value) 4296 [0x6B] (length [0x6B :: u16]) = Some (Inr 4400)"
proof -
  have len: "length [0x67 :: u16] = 1" "length [0x6B :: u16] = 1"
    "length (map of_char ''Elements'' :: u16 list) = 8" by simp_all
  show "find_child_key (hive_of one_value) 4096 [0x67] (length [0x67 :: u16]) = Some (Inr 4192)"
    "find_child_key (hive_of one_value) 4192 (map of_char ''Elements'') (length (map of_char ''Elements'' :: u16 list)) = Some (Inr 4296)"
    "find_child_key (hive_of one_value) 4296 [0x6B] (length [0x6B :: u16]) = Some (Inr 4400)"
    unfolding len
    by (simp_all add: find_child_key_def one_value_leaf eval_simps one_value_fields leaf_cell_def
        one_value_names [simplified])
qed

lemma one_value_keys:
  "reg_find_key (hive_of one_value) 4096 (wcs ''g'') = Some (Inr 4192)"
  "reg_find_key (hive_of one_value) 4192 BCD_REG_HKEY = Some (Inr 4296)"
  "reg_find_key (hive_of one_value) 4296 (wcs ''k'') = Some (Inr 4400)"
  using reg_find_key_walks [of "[map of_char ''g'']" "hive_of one_value" 4096 "[]"]
    reg_find_key_walks [of "[map of_char ''Elements'']" "hive_of one_value" 4192 "[]"]
    reg_find_key_walks [of "[map of_char ''k'']" "hive_of one_value" 4296 "[]"] one_value_children
  by (simp_all add: wcs_def BCD_REG_HKEY_def component_def)

lemma one_value_data:
  "bcd_find_hive (hive_of one_value) 4096 (wcs ''g'') (wcs ''k'') = Some (Inr (Some 4508, 1))"
proof -
  have n: "wcslen (wcs ''Element'') = Some 7" by code_simp
  have l: "value_list (hive_of one_value) 4400 (\<lambda>count. count = 0) = Some (Inr (1, 4492))"
    by (simp add: value_list_def key_node_def eval_simps one_value_fields reg_consts)
  have v: "value_node (hive_of one_value) 400 = Some (Inr 4500)"
    by (simp add: value_node_def eval_simps one_value_fields reg_consts)
  have m: "value_matches (hive_of one_value) 400 (wcs ''Element'') 7 = Some True"
    by (simp add: value_matches_def v eval_simps one_value_fields reg_consts name_count_def wcs_def
        name_char_def Let_def fold_case_def rd_list same_name_numeral)
  have "search_values (hive_of one_value) 4492 (Suc 0) 0 (wcs ''Element'') 7 = Some (Inr (Some 4508, 1, 3))"
    by (simp add: eval_simps one_value_fields m value_data_def reg_consts Let_def)
  then have "reg_query_value (hive_of one_value) 4400 BCD_REG_HVAL = Some (Inr (Some 4508, 1, 3))"
    by (simp add: reg_query_value_def BCD_REG_HVAL_def n l)
  then show ?thesis by (simp add: bcd_find_hive_def bcd_bind_def or_die_def one_value_keys)
qed

theorem run_op_within_witness:
  "\<exists>h'. run_op initial_args 4096 (Patch_bool (wcs ''g'') (wcs ''k'') 1) (hive_of one_value) = Some (Inr h') \<and>
     within (Some 4508) 1 (hive_of one_value) h'"
proof -
  obtain m where m: "poke one_value 412 [1] = Some m"
    by (simp add: poke_def one_value_length)
  obtain h' where h': "run_op initial_args 4096 (Patch_bool (wcs ''g'') (wcs ''k'') 1) (hive_of one_value)
      = Some (Inr h')"
    by (auto simp: bcd_patch_bool_def bcd_bind_def one_value_data store_at_def eval_simps m)
  then show ?thesis using run_op_within [OF _ one_value_data h'] by auto
qed

end
