(* ===== verification/BcdLength.thy ===== *)
theory BcdLength
  imports BcdSafe
begin

text \<open>
  Patching works in place: whatever is written into the configuration store, its size stays.
\<close>

section \<open>Opening\<close>

lemma check_header_length: "check_header h = Some (ok, h') \<Longrightarrow> length h' = length h"
proof -
  assume run: "check_header h = Some (ok, h')"
  have "length h2 = length h"
    if "(if a then put32 h 8 v else Some h) = Some h1" "(if b then put32 h1 508 w else Some h1) = Some h2"
    for a b v w h1 h2
    using that by (auto dest!: put32_length split: if_split_asm)
  then show "length h' = length h"
    using run by (auto simp: check_header_def bind_eq_Some_conv Let_def split: if_split_asm dest!: put32_length)
qed

lemma clear_volatile_length:
  shows "clear_volatile fuel h key = Some (Inr h') \<Longrightarrow> length h' = length h"
    and "clear_children fuel h lh stride i = Some (Inr h') \<Longrightarrow> length h' = length h"
proof (induction fuel arbitrary: h key h' lh stride i)
  case (Suc fuel)
  note IH = Suc.IH
  { case 1
    then show ?case
      by (auto simp only: clear_volatile.simps Let_def sum.inject option.inject elim!: bindE
          split: if_split_asm dest!: put32_length IH) }
  { case 2
    then show ?case
      by (auto simp only: clear_children.simps sum.inject option.inject sum.simps elim!: bindE
          split: if_split_asm sum.split_asm dest!: IH) }
qed simp_all

lemma reg_open_hive_length: "reg_open_hive fuel h = Some (Inr (e, h')) \<Longrightarrow> length h' = length h"
  unfolding reg_open_hive_def
  by (auto elim!: bindE split: if_split_asm sum.split_asm bool.split_asm
      dest!: check_header_length clear_volatile_length(1))

section \<open>Operations\<close>

lemma store_at_length: "store_at h dat ofs bs = Some h' \<Longrightarrow> length h' = length h"
  by (auto simp: store_at_def poke_length split: option.splits if_splits)

lemma store_bytes_length: "store_bytes h dat bs = Some h' \<Longrightarrow> length h' = length h"
  by (induction h dat bs arbitrary: h' rule: store_bytes.induct)
    (auto simp: bind_eq_Some_conv store_at_length)

lemma shift_entries_length: "shift_entries h lh n j = Some h' \<Longrightarrow> length h' = length h"
  by (induction h lh n j arbitrary: h' rule: shift_entries.induct) (auto simp: bind_eq_Some_conv poke_length)

lemmas sizes_kept = store_at_length store_bytes_length shift_entries_length put16_length put32_length

lemma reg_delete_key_length: "reg_delete_key h parent key = Some (e, h') \<Longrightarrow> length h' = length h"
  unfolding reg_delete_key_def
  by (auto elim!: bindE split: sum.split_asm option.split_asm dest!: sizes_kept)

lemma bcd_bind_Some: "bcd_bind m f = Some (Inr y) \<longleftrightarrow> (\<exists>x. m = Some (Inr x) \<and> f x = Some (Inr y))"
  by (auto simp: bcd_bind_def bind_eq_Some_conv split: sum.split_asm)

lemma dp_lengths:
  "dp_wim h dat = Some h' \<Longrightarrow> length h' = length h"
  "dp_vhd h dat = Some h' \<Longrightarrow> length h' = length h"
  "dp_disk h dat ofs args = Some h' \<Longrightarrow> length h' = length h"
  "dp_path h dat ofs args = Some h' \<Longrightarrow> length h' = length h"
  unfolding dp_wim_def dp_vhd_def dp_disk_def dp_path_def
  by (auto simp: bind_eq_Some_conv dest!: sizes_kept)

lemma run_op_length: "run_op args objects op h = Some (Inr h') \<Longrightarrow> length h' = length h"
  by (cases op)
    (auto simp: bcd_patch_bool_def bcd_patch_u64_def bcd_patch_sz_def bcd_patch_szw_def bcd_patch_dp_def
      bcd_delete_key_def bcd_bind_Some bind_eq_Some_conv Let_def split: if_split_asm
      dest!: sizes_kept dp_lengths reg_delete_key_length)

lemma run_ops_length: "run_ops args objects ops h = Some (Inr h') \<Longrightarrow> length h' = length h"
  by (induction ops arbitrary: h) (auto simp: bcd_bind_Some dest!: run_op_length)

lemma replace_from_length: "replace_from src dst is h = Some h' \<Longrightarrow> length h' = length h"
  by (induction src dst "is" h arbitrary: h' rule: replace_from.induct)
    (auto simp: bind_eq_Some_conv poke_length split: if_split_asm)

lemma bcd_patch_data_length:
  assumes "bcd_patch_data fuel efi args h = Some (Inr (Inr h'))"
  shows "length h' = length h"
proof -
  have s: "bcd_replace_suffix n a b x = Some y \<Longrightarrow> length y = length x" for n a b x y
    by (auto simp: bcd_replace_suffix_def dest: replace_from_length)
  show ?thesis
    using assms unfolding bcd_patch_data_def
    by (auto simp: bcd_bind_Some elim!: bindE split: sum.split_asm if_split_asm
        dest!: reg_open_hive_length run_ops_length s)
qed

end
