(* ===== verification/PayloadSafe.thy ===== *)
theory PayloadSafe
  imports Payload BcdLength
begin

text \<open>
  Writer, reader and virtual disk together: the files of an initrd are the files of the disk.
\<close>

section \<open>The table of files\<close>

text \<open>The entry a file gets, in a slot not used before, and the table the files lead to.\<close>

definition table_entry :: "bytes \<times> bytes \<Rightarrow> vfile" where
  "table_entry = (\<lambda>(nm, body). no_file\<lparr>
     file_name := take 31 nm @ 0 # replicate (31 - min (length nm) 31) 0,
     file_len := length body, file_xlen := length body, file_read := Some (read_mem_file body)\<rparr>)"

definition file_table :: "(bytes \<times> bytes) list \<Rightarrow> vfile list" where
  "file_table gs = map table_entry gs @ replicate (VDISK_MAX_FILES - length gs) no_file"

lemma max_files: "VDISK_MAX_FILES = 63"
  by (simp add: vdisk_layout)

lemma file_table_length: "length gs \<le> 63 \<Longrightarrow> length (file_table gs) = 63"
  by (simp add: file_table_def max_files)

lemma file_table_add:
  assumes "length gs < 63"
  shows "(file_table gs)[length gs := table_entry f] = file_table (gs @ [f])"
    and "file_table gs ! length gs = no_file"
proof -
  obtain k where k: "VDISK_MAX_FILES - length gs = Suc k" "VDISK_MAX_FILES - Suc (length gs) = k"
    using assms by (metis Suc_diff_Suc max_files)
  then show "(file_table gs)[length gs := table_entry f] = file_table (gs @ [f])"
    "file_table gs ! length gs = no_file"
    by (simp_all add: file_table_def list_update_append nth_append)
qed

text \<open>Adding a file with any name takes the next slot, or ends the program when there is none.\<close>

lemma vdisk_add_file_table:
  assumes "no_nul nm"
  shows "length gs < 63 \<Longrightarrow>
      vdisk_add_file (length gs, file_table gs) (nm @ 0 # x) (length body) (read_mem_file body) =
        Some (Inr (Suc (length gs), file_table (gs @ [(nm, body)])))"
    and "length gs = 63 \<Longrightarrow>
      vdisk_add_file (length gs, file_table gs) (nm @ 0 # x) n r = Some (Inl ())"
proof -
  assume l: "length gs < 63"
  have n: "file_name no_file = replicate 32 0" by (simp add: no_file_def)
  have r: "rd (file_table gs) (length gs) = Some no_file"
    using l file_table_length [of gs] file_table_add(2) [OF l] by (simp add: rd_def)
  have d: "drop (Suc (min (length nm) 31)) (replicate 32 (0 :: byte)) = replicate (31 - min (length nm) 31) 0"
    by simp
  have s: "vsnprintf type_sizes_lp64 (file_name no_file) 32 [37, 115, 0] [AStr (Some (nm @ 0 # x))] =
      Some (length nm, take 31 nm @ 0 # replicate (31 - min (length nm) 31) 0)"
    using snprintf_s [OF assms, of 32 "replicate 32 0" type_sizes_lp64 x] unfolding n by (simp add: d del: drop_replicate)
  show "vdisk_add_file (length gs, file_table gs) (nm @ 0 # x) (length body) (read_mem_file body) =
      Some (Inr (Suc (length gs), file_table (gs @ [(nm, body)])))"
    using l r s file_table_add(1) [OF l, of "(nm, body)"]
    by (simp add: vdisk_add_file_def max_files table_entry_def)
qed (simp add: vdisk_add_file_def max_files)

section \<open>The handler meets its contract\<close>

definition payload_of :: "(bytes \<times> bytes) list \<Rightarrow> (bytes \<times> nat) option \<Rightarrow> payload" where
  "payload_of gs b = \<lparr>vd_index = length gs, vd_files = file_table gs, bootmgr = b\<rparr>"

text \<open>The name of the boot manager: the program's, or the last component of the firmware's path.\<close>

definition boot_name :: "bool \<Rightarrow> u16 list \<Rightarrow> bytes \<Rightarrow> bool" where
  "boot_name efi boot_path nm \<longleftrightarrow> no_nul nm \<and> length nm < 32 \<and>
     (\<exists>arch x. efi_bootarch boot_path = Some (map ucast arch @ 0 # x) \<and> no_nul arch \<and> length arch < 32 \<and>
        nm = (if efi then arch else map of_char ''bootmgr.exe''))"

definition is_boot_file :: "bytes \<Rightarrow> bytes \<times> bytes \<Rightarrow> bool" where
  "is_boot_file boot = (\<lambda>(nm, _). map upper nm = map upper boot)"

definition add_spec ::
  "bytes \<Rightarrow> bytes \<Rightarrow> bytes \<Rightarrow> payload_death + payload \<Rightarrow> (payload_death + payload) \<times> int" where
  "add_spec boot nm body s =
     (case s of
        Inl e \<Rightarrow> (Inl e, -1)
      | Inr p \<Rightarrow>
          if vd_index p \<ge> 63 then (Inl Too_many_files, -1)
          else (Inr \<lparr>vd_index = Suc (vd_index p), vd_files = (vd_files p)[vd_index p := table_entry (nm, body)],
                     bootmgr = (if is_boot_file boot (nm, body) then Some (body, length body) else bootmgr p)\<rparr>, 0))"

definition payload_ok :: "payload_death + payload \<Rightarrow> bool" where
  "payload_ok s = (case s of Inl _ \<Rightarrow> True | Inr p \<Rightarrow> \<exists>gs b. p = payload_of gs b \<and> length gs \<le> 63)"

lemma add_spec_payload:
  "length gs < 63 \<Longrightarrow> add_spec boot nm body (Inr (payload_of gs b)) =
     (Inr (payload_of (gs @ [(nm, body)]) (if is_boot_file boot (nm, body) then Some (body, length body) else b)), 0)"
  by (simp add: add_spec_def payload_of_def file_table_add(1))

lemma narrow_wide: "ucast (ucast (b :: byte) :: u16) = b"
  by (rule bit_word_eqI) (auto simp: bit_simps dest: bit_imp_le_length)

lemma wide_no_nul: "no_nul (map ucast s :: u16 list) \<longleftrightarrow> no_nul (s :: bytes)"
proof -
  have "(ucast b :: u16) = 0 \<longleftrightarrow> b = 0" for b :: byte
    using narrow_wide [of b] by (metis unsigned_0)
  then show ?thesis by (auto simp: no_nul_def)
qed

lemma snprintf_ls:
  assumes "no_nul s" and "length s < 32"
  shows "\<exists>y. vsnprintf type_sizes_lp64 (replicate 32 0) 32 [37, 108, 115, 0]
     [AWStr (Some (map ucast s @ 0 # x))] = Some (length s, s @ 0 # y)"
proof -
  have "until_nul (map ucast s @ 0 # x :: u16 list) = Some (map ucast s)"
    using assms(1) by (simp add: until_nul_append wide_no_nul)
  then have "vcprintf type_sizes_lp64 [37, 108, 115, 0] [AWStr (Some (map ucast s @ 0 # x))] = Some (map scast s)"
    by (simp add: vcprintf.simps conversion_def narrow_wide comp_def)
  from vsnprintf_result [OF this, of 32 "replicate 32 0"] show ?thesis
    using assms(2) by (simp add: take_map [symmetric] map_ucast_scast del: map_map)
qed

lemma add_file_spec:
  assumes "boot_name efi boot_path boot" and "payload_ok s" and "no_nul nm"
    and "peek m (unat name) (length nm + 1) = Some (nm @ [0])"
    and "peek m (unat data) (unat len) = Some body"
  shows "add_file efi boot_path m name data len s = Some (add_spec boot nm body s)"
proof (cases s)
  case (Inr p)
  then obtain gs b where p: "p = payload_of gs b" "length gs \<le> 63" using assms(2) by (auto simp: payload_ok_def)
  obtain y where y: "drop (unat name) m = nm @ 0 # y" using peek_drop [OF assms(4)] by auto
  have body: "unat len = length body" "take (length body) (drop (unat data) m) = body"
    using assms(5) by (auto simp: peek_def split: if_splits)
  obtain arch x where arch: "efi_bootarch boot_path = Some (map ucast arch @ 0 # x)" "no_nul arch"
      "length arch < 32" "boot = (if efi then arch else map of_char ''bootmgr.exe'')"
    using assms(1) by (auto simp: boot_name_def)
  obtain z where z: "vsnprintf type_sizes_lp64 (replicate 32 0) 32 [37, 108, 115, 0]
      [AWStr (Some (map ucast arch @ 0 # x))] = Some (length arch, arch @ 0 # z)"
    using snprintf_ls [OF arch(2,3)] by blast
  have "\<exists>w. (if efi then arch @ 0 # z else BOOTMGR_EXE) = boot @ 0 # w"
    using arch(4) by (simp add: BOOTMGR_EXE_def)
  then obtain w where w: "(if efi then arch @ 0 # z else BOOTMGR_EXE) = boot @ 0 # w" by blast
  have bn: "no_nul boot" using assms(1) by (simp add: boot_name_def)
  obtain d where d: "strcasecmp (nm @ 0 # y) (boot @ 0 # w) = Some d" "d = 0 \<longleftrightarrow> is_boot_file boot (nm, body)"
    using strcasecmp_zero_iff [OF assms(3) bn, of y w] strcasecmp_returns [OF assms(3) bn, of y w]
    by (auto simp: is_boot_file_def)
  show ?thesis
  proof (cases "length gs = 63")
    case True
    then show ?thesis
      using vdisk_add_file_table(2) [OF assms(3) True, of y]
      by (simp add: add_file_def Inr p payload_of_def arch(1) z y add_spec_def Let_def)
  next
    case False
    then have l: "length gs < 63" using p(2) by simp
    show ?thesis
      using vdisk_add_file_table(1) [OF assms(3) l, of y body] add_spec_payload [OF l, of boot nm body b] d
      unfolding add_file_def Inr p(1) sum.case payload_of_def payload.simps
      by (simp add: arch(1) z y w body Let_def payload_of_def)
  qed
qed (simp add: add_file_def add_spec_def)

interpretation payload: file_handler "add_file efi boot_path" "add_spec boot"
    "\<lambda>s. boot_name efi boot_path boot \<and> payload_ok s"
proof unfold_locales
  fix s s' nm body
  assume inv: "boot_name efi boot_path boot \<and> payload_ok s" and added: "add_spec boot nm body s = (s', 0)"
  then obtain p where s: "s = Inr p" by (cases s) (auto simp: add_spec_def)
  then obtain gs b where p: "p = payload_of gs b" "length gs \<le> 63" using inv by (auto simp: payload_ok_def)
  then have "length gs < 63" using added by (auto simp: s add_spec_def payload_of_def split: if_splits)
  moreover from this obtain c where "s' = Inr (payload_of (gs @ [(nm, body)]) c)"
    using added add_spec_payload [of gs boot nm body b] by (auto simp: s p(1))
  ultimately show "boot_name efi boot_path boot \<and> payload_ok s'"
    using inv by (auto simp: payload_ok_def intro: exI [of _ "gs @ [(nm, body)]"])
qed (use add_file_spec in blast)

section \<open>The files of an archive\<close>

text \<open>The boot manager is the last file of its name.\<close>

definition boot_file :: "bytes \<Rightarrow> (bytes \<times> bytes) list \<Rightarrow> (bytes \<times> nat) option" where
  "boot_file boot fs = map_option (\<lambda>(_, body). (body, length body)) (find (is_boot_file boot) (rev fs))"

lemma find_snoc: "find P (xs @ [x]) = (case find P xs of None \<Rightarrow> if P x then Some x else None | Some y \<Rightarrow> Some y)"
  by (induction xs) simp_all

lemma run_payload:
  "length gs + length fs \<le> 63 \<Longrightarrow>
     run_files (add_spec boot) fs (Inr (payload_of gs b)) =
       (Inr (payload_of (gs @ fs) (case boot_file boot fs of None \<Rightarrow> b | Some f \<Rightarrow> Some f)), 0)"
proof (induction fs arbitrary: gs b)
  case Nil
  then show ?case by (simp add: boot_file_def)
next
  case (Cons f fs)
  obtain nm body where f: "f = (nm, body)" by (cases f)
  have "boot_file boot (f # fs) = (case boot_file boot fs of
      None \<Rightarrow> if is_boot_file boot f then Some (body, length body) else None | Some g \<Rightarrow> Some g)"
    by (simp add: boot_file_def f find_snoc split: option.splits)
  then show ?case
    using Cons by (auto simp: f add_spec_payload split: option.splits)
qed

section \<open>The disk holds the archive\<close>

lemma table_entry_holds: "no_nul nm \<Longrightarrow> holds_file (table_entry (nm, body)) body"
proof -
  assume nm: "no_nul nm"
  have "no_nul (take 31 nm)" using nm set_take_subset [of 31 nm] by (auto simp: no_nul_def)
  moreover have "length (take 31 nm) < 32" by simp
  ultimately show ?thesis
    using mem_file.file_reader_axioms [of body]
    by (auto simp: holds_file_def table_entry_def no_file_def)
qed

lemma no_file_holds: "holds_file no_file []"
proof -
  have "replicate 32 (0 :: byte) = [] @ 0 # replicate 31 0" by (simp add: eval_nat_numeral)
  then have "\<exists>s x. replicate 32 (0 :: byte) = s @ 0 # x \<and> no_nul s \<and> length s < 32"
    by (intro exI conjI) (assumption, simp_all add: no_nul_def)
  then show ?thesis by (simp add: holds_file_def no_file_def)
qed

lemma file_table_holds:
  assumes "length gs \<le> 63" and "\<forall>(nm, body) \<in> set gs. no_nul nm"
  shows "disk_files (file_table gs) (map snd gs @ replicate (63 - length gs) [])"
proof -
  have "holds_file (file_table gs ! i) ((map snd gs @ replicate (63 - length gs) []) ! i)" if "i < 63" for i
  proof (cases "i < length gs")
    case True
    moreover obtain nm body where "gs ! i = (nm, body)" "no_nul nm"
      using assms(2) nth_mem [OF True] by (cases "gs ! i") auto
    ultimately show ?thesis using table_entry_holds by (simp add: file_table_def nth_append)
  next
    case False
    then show ?thesis using that no_file_holds by (simp add: file_table_def nth_append max_files)
  qed
  then show ?thesis using assms(1) file_table_length [OF assms(1)] by (simp add: disk_files_def max_files)
qed

text \<open>The name a file is entered under, up to the terminator.\<close>

definition file_title :: "vfile \<Rightarrow> bytes" where
  "file_title f = takeWhile (\<lambda>c. c \<noteq> 0) (file_name f)"

lemma table_entry_title: "no_nul nm \<Longrightarrow> file_title (table_entry (nm, body)) = take 31 nm"
proof -
  assume "no_nul nm"
  then have "no_nul (take 31 nm)" using set_take_subset [of 31 nm] by (auto simp: no_nul_def)
  then have "\<forall>c \<in> set (take 31 nm). c \<noteq> 0" by (auto simp: no_nul_def)
  then show ?thesis by (simp add: file_title_def table_entry_def takeWhile_append2)
qed

definition bcd_name :: bytes where "bcd_name = map of_char ''BCD''"

lemma bcd_added:
  "vdisk_add_file (0, replicate VDISK_MAX_FILES no_file) (map of_char ''BCD'' @ [0]) (length raw) (read_mem_file raw) =
     Some (Inr (1, file_table [(bcd_name, raw)]))"
  using vdisk_add_file_table(1) [of bcd_name "[]" "[]" raw]
  by (simp add: bcd_name_def file_table_def no_nul_def)

lemma extracted:
  assumes "boot_name efi boot_path boot"
    and "drop d m = archive fs @ x" and "d \<le> length m"
    and "length m + 4 < 2 ^ LENGTH('w)" and "2 \<le> LENGTH('w::len)"
    and "\<forall>(mode, nm, body) \<in> set fs. no_nul nm \<and> length nm + 1 < 2 ^ 32 \<and> nm \<noteq> CPIO_TRAILER \<and> length body < 2 ^ 32"
    and "length fs < 63" and "length fs < fuel"
  shows "cpio_extract fuel (add_file efi boot_path) m (of_nat d :: 'w word) (of_nat (length (archive fs)))
      (Inr (payload_of [(bcd_name, raw)] None)) =
    Some (Inr (Inr (payload_of ((bcd_name, raw) # map snd fs) (boot_file boot (map snd fs))), 0))"
proof -
  have ok: "boot_name efi boot_path boot \<and> payload_ok (Inr (payload_of [(bcd_name, raw)] None))"
    using assms(1) by (auto simp: payload_ok_def intro: exI [of _ "[(bcd_name, raw)]"])
  have len: "length (archive fs) = length (concat (map archive_member fs)) + 124"
    by (simp add: archive_def name_part_length CPIO_TRAILER_def pad4_def)
  have m: "drop d m = concat (map archive_member fs) @ name_part 0 CPIO_TRAILER 0 @ x"
    using assms(2) by (simp add: archive_def)
  have run: "run_files (add_spec boot) (map snd fs) (Inr (payload_of [(bcd_name, raw)] None)) =
      (Inr (payload_of ((bcd_name, raw) # map snd fs) (boot_file boot (map snd fs))), 0)"
    using run_payload [of "[(bcd_name, raw)]" "map snd fs" boot None] assms(7)
    by (simp split: option.splits)
  have "iterate (Suc (length fs)) (cpio_pass (add_file efi boot_path) m)
      (of_nat d :: 'w word, of_nat (length (archive fs)), Inr (payload_of [(bcd_name, raw)] None)) =
    Some (Inr (run_files (add_spec boot) (map snd fs) (Inr (payload_of [(bcd_name, raw)] None))))"
    unfolding len by (rule payload.extract_members [OF m assms(3-6) ok])
  then have "iterate fuel (cpio_pass (add_file efi boot_path) m)
      (of_nat d :: 'w word, of_nat (length (archive fs)), Inr (payload_of [(bcd_name, raw)] None)) =
    Some (Inr (run_files (add_spec boot) (map snd fs) (Inr (payload_of [(bcd_name, raw)] None))))"
    by (rule iterate_more) (use assms(8) in simp)
  then show ?thesis unfolding cpio_extract_def run .
qed

lemma stored_in_place:
  assumes "length store = length raw"
  shows "do { f \<leftarrow> rd (file_table ((nm, raw) # gs)) 0;
              Some ((file_table ((nm, raw) # gs))[0 := f\<lparr>file_read := Some (read_mem_file store)\<rparr>]) } =
         Some (file_table ((nm, store) # gs))"
proof -
  have "(table_entry (nm, raw))\<lparr>file_read := Some (read_mem_file store)\<rparr> = table_entry (nm, store)"
    by (simp add: table_entry_def assms)
  then show ?thesis by (simp add: file_table_def rd_def)
qed

lemma table_after_store:
  "bcd_patch_data fuel efi args raw = Some (Inr (Inr store)) \<Longrightarrow>
   rd (file_table ((nm, raw) # gs)) 0 = Some f \<Longrightarrow>
   (file_table ((nm, raw) # gs))[0 := f\<lparr>file_read := Some (read_mem_file store)\<rparr>] = file_table ((nm, store) # gs)"
  using stored_in_place [OF bcd_patch_data_length, of fuel efi args raw store nm gs] by simp

lemma file_titles:
  assumes "\<forall>(nm, body) \<in> set gs. no_nul nm"
  shows "map file_title (take (length gs) (file_table gs)) = map (take 31 \<circ> fst) gs"
proof -
  have "file_title (table_entry g) = take 31 (fst g)" if "g \<in> set gs" for g
    using assms that table_entry_title by (cases g) auto
  moreover have "take (length gs) (file_table gs) = map table_entry gs" by (simp add: file_table_def)
  ultimately show ?thesis by simp
qed

lemma extract_initrd_unpacks:
  assumes "boot_name efi boot_path boot"
    and "drop d m = archive fs @ x" and "d \<le> length m"
    and "length m + 4 < 2 ^ LENGTH('w)" and "2 \<le> LENGTH('w::len)"
    and "\<forall>(mode, nm, body) \<in> set fs. no_nul nm \<and> length nm + 1 < 2 ^ 32 \<and> nm \<noteq> CPIO_TRAILER \<and> length body < 2 ^ 32"
    and "length fs < 63" and "length fs < fuel"
    and "boot_file boot (map snd fs) = Some f"
  shows "extract_initrd fuel efi boot_path args raw m (of_nat d :: 'w word) (of_nat (length (archive fs))) =
      map_option (\<lambda>r. case r of
          Inl _ \<Rightarrow> Inl ()
        | Inr (Inl e) \<Rightarrow> Inr (Inl (Bad_bcd e))
        | Inr (Inr store) \<Rightarrow> Inr (Inr (payload_of ((bcd_name, store) # map snd fs) (Some f))))
        (bcd_patch_data fuel efi args raw) \<and>
    disk_files (file_table ((bcd_name, store) # map snd fs))
      (store # map (snd \<circ> snd) fs @ replicate (62 - length fs) []) \<and>
    map file_title (take (Suc (length fs)) (file_table ((bcd_name, store) # map snd fs))) =
      bcd_name # map (take 31 \<circ> fst \<circ> snd) fs"
proof (intro conjI)
  let ?gs = "map snd fs" and ?all = "\<lambda>c. (bcd_name, c) # map snd fs"
  have p: "\<lparr>vd_index = 1, vd_files = file_table [(bcd_name, raw)], bootmgr = None\<rparr> = payload_of [(bcd_name, raw)] None"
    by (simp add: payload_of_def)
  obtain f0 where f0: "rd (file_table (?all raw)) 0 = Some f0" by (simp add: file_table_def rd_def)
  show "extract_initrd fuel efi boot_path args raw m (of_nat d :: 'w word) (of_nat (length (archive fs))) =
      map_option (\<lambda>r. case r of
          Inl _ \<Rightarrow> Inl ()
        | Inr (Inl e) \<Rightarrow> Inr (Inl (Bad_bcd e))
        | Inr (Inr store) \<Rightarrow> Inr (Inr (payload_of ((bcd_name, store) # map snd fs) (Some f))))
        (bcd_patch_data fuel efi args raw)"
    unfolding extract_initrd_def bcd_added bind.bind_lunit sum.case prod.case p extracted [OF assms(1-8), of raw]
      assms(9)
    using table_after_store [OF _ f0]
    by (cases "bcd_patch_data fuel efi args raw") (auto simp: payload_of_def f0 split: sum.split)
  have "no_nul bcd_name" by (simp add: bcd_name_def no_nul_def)
  then have nul: "\<forall>(nm, body) \<in> set (?all store). no_nul nm" using assms(6) by auto
  have "length (?all store) \<le> 63" using assms(7) by simp
  from file_table_holds [OF this nul]
  show "disk_files (file_table (?all store)) (store # map (snd \<circ> snd) fs @ replicate (62 - length fs) [])"
    by (simp only: list.map list.size length_map snd_conv map_map append_Cons) simp
  have "take 31 bcd_name = bcd_name" by (simp add: bcd_name_def)
  then show "map file_title (take (Suc (length fs)) (file_table (?all store))) =
      bcd_name # map (take 31 \<circ> fst \<circ> snd) fs"
    using file_titles [OF nul] by (simp add: comp_assoc)
qed

text \<open>C8:
  An initrd that is an archive of the writer's, with fewer than 63 files of which one has the name of
  the boot manager, is unpacked completely, in one pass per file, and the outcome is that of patching
  the configuration store. Whatever the patched store is, the virtual disk's table is then
  well-formed, its first file is the store, under its name, and the others are the archive's files in
  their order with their contents, under their names up to 31 characters. The boot manager is the
  last file of its name.
\<close>

theorem extract_initrd_files:
  assumes "boot_name efi boot_path boot"
    and "drop d m = archive fs @ x" and "d \<le> length m"
    and "length m + 4 < 2 ^ LENGTH('w)" and "2 \<le> LENGTH('w::len)"
    and "\<forall>(mode, nm, body) \<in> set fs. no_nul nm \<and> length nm + 1 < 2 ^ 32 \<and> nm \<noteq> CPIO_TRAILER \<and> length body < 2 ^ 32"
    and "length fs < 63" and "length fs < fuel"
    and "boot_file boot (map snd fs) = Some f"
  shows "extract_initrd fuel efi boot_path args raw m (of_nat d :: 'w word) (of_nat (length (archive fs))) =
      map_option (\<lambda>r. case r of
          Inl _ \<Rightarrow> Inl ()
        | Inr (Inl e) \<Rightarrow> Inr (Inl (Bad_bcd e))
        | Inr (Inr store) \<Rightarrow> Inr (Inr (payload_of ((bcd_name, store) # map snd fs) (Some f))))
        (bcd_patch_data fuel efi args raw) \<and>
    disk_files (file_table ((bcd_name, store) # map snd fs))
      (store # map (snd \<circ> snd) fs @ replicate (62 - length fs) []) \<and>
    map file_title (take (Suc (length fs)) (file_table ((bcd_name, store) # map snd fs))) =
      bcd_name # map (take 31 \<circ> fst \<circ> snd) fs"
  using extract_initrd_unpacks [OF assms] .

text \<open>An initrd with the boot manager alone.\<close>

definition boot_entry :: "u32 \<times> bytes \<times> bytes" where
  "boot_entry = (0x81a4, map of_char ''BOOTMGR.EXE'', [0x4d, 0x5a])"

definition x64_path :: "u16 list" where
  "x64_path = map (ucast \<circ> (of_char :: char \<Rightarrow> byte)) (CHR 0x5c # ''EFI'' @ CHR 0x5c # ''BOOT'' @ CHR 0x5c # ''BOOTX64.EFI'') @ [0]"

lemma x64_boot_name: "boot_name False x64_path (map of_char ''bootmgr.exe'')"
proof -
  have "efi_bootarch x64_path = Some (map ucast (map of_char ''BOOTX64.EFI'' :: bytes) @ 0 # [])"
    by code_simp
  moreover have "no_nul (map of_char ''BOOTX64.EFI'' :: bytes)" "no_nul (map of_char ''bootmgr.exe'' :: bytes)"
    by (simp_all add: no_nul_def)
  ultimately show ?thesis
    unfolding boot_name_def by (intro conjI exI [of _ "map of_char ''BOOTX64.EFI''"] exI [of _ "[]"]) simp_all
qed

theorem extract_initrd_files_witness:
  "\<forall>args raw. extract_initrd 2 False x64_path args raw (archive [boot_entry]) (0 :: u64) (of_nat (length (archive [boot_entry]))) =
      map_option (\<lambda>r. case r of
          Inl _ \<Rightarrow> Inl ()
        | Inr (Inl e) \<Rightarrow> Inr (Inl (Bad_bcd e))
        | Inr (Inr store) \<Rightarrow> Inr (Inr (payload_of [(bcd_name, store), snd boot_entry] (Some ([0x4d, 0x5a], 2)))))
        (bcd_patch_data 2 False args raw)"
proof (intro allI)
  fix args :: nt_args and raw :: hive
  have b: "boot_file (map of_char ''bootmgr.exe'') (map snd [boot_entry]) = Some ([0x4d, 0x5a], 2)"
    by (simp add: boot_file_def is_boot_file_def boot_entry_def upper_def toupper_def islower_def)
  have l: "length (archive [boot_entry]) + 4 < 2 ^ LENGTH(64)"
    by (simp add: archive_def archive_member_def name_part_def boot_entry_def CPIO_TRAILER_def pad4_def)
  have ok: "\<forall>(mode, nm, body) \<in> set [boot_entry].
      no_nul nm \<and> length nm + 1 < 2 ^ 32 \<and> nm \<noteq> CPIO_TRAILER \<and> length body < 2 ^ 32"
    by (simp add: boot_entry_def no_nul_def CPIO_TRAILER_def)
  have z: "(0 :: u64) = of_nat 0" by simp
  show "extract_initrd 2 False x64_path args raw (archive [boot_entry]) (0 :: u64) (of_nat (length (archive [boot_entry]))) =
      map_option (\<lambda>r. case r of
          Inl _ \<Rightarrow> Inl ()
        | Inr (Inl e) \<Rightarrow> Inr (Inl (Bad_bcd e))
        | Inr (Inr store) \<Rightarrow> Inr (Inr (payload_of [(bcd_name, store), snd boot_entry] (Some ([0x4d, 0x5a], 2)))))
        (bcd_patch_data 2 False args raw)"
    unfolding z
    by (rule extract_initrd_files [OF x64_boot_name, of 0 "archive [boot_entry]" "[boot_entry]" "[]",
          OF _ _ l _ ok _ _ b, of 2 args raw "[]", THEN conjunct1, unfolded list.map]) simp_all
qed

end
