(* ===== verification/EfiMainSafe.thy ===== *)
theory EfiMainSafe
  imports EfiMain EfiDiskSafe PayloadSafe CmdlineSafe
begin

text \<open>
  The EFI program from its load options to the start of the boot manager: no step leaves its memory,
  and what is started, on which files, follows from the archive and the store.
\<close>

section \<open>The command line\<close>

text \<open>The options that can be read, and memory of the size asked for.\<close>

definition system_ok :: "efi_system \<Rightarrow> bool" where
  "system_ok sys \<longleftrightarrow> LoadOptionsSize sys div 2 \<le> length (LoadOptions sys) \<and>
     (\<forall>n. length (pool_memory sys n) = n) \<and> (\<forall>n. length (page_memory sys n) = n * 4096) \<and>
     (\<exists>hs. firmware_ok (disk_firmware sys) (path_memory sys) hs)"

lemma efi_cmdline_safe:
  assumes "system_ok sys"
  shows "\<exists>r. efi_cmdline sys = Some (Inr r) \<and> (\<forall>mem args. r = Inr (mem, args) \<longrightarrow> wf_args args)"
proof -
  let ?n = "LoadOptionsSize sys div 2"
  have l: "?n \<le> length (LoadOptions sys)" "length (pool_memory sys (4 * ?n + 1)) = 4 * ?n + 1"
    using assms by (simp_all add: system_ok_def)
  obtain bs where bs: "ucs2_to_utf8 (LoadOptions sys) ?n = Some bs" using ucs2_to_utf8_returns [OF l(1)] by blast
  have "length bs \<le> 3 * ?n" using bs by (rule ucs2_to_utf8_bound)
  then have "0 + length (bs @ [0]) \<le> length (pool_memory sys (4 * ?n + 1))" using l(2) by simp
  then obtain cmdline where c: "poke (pool_memory sys (4 * ?n + 1)) 0 (bs @ [0]) = Some cmdline"
    by (simp add: poke_def)
  then have "0 \<in> set cmdline" by (auto simp: poke_Some_iff)
  from process_cmdline_ok [OF this, of True] show ?thesis
    using bs c by (auto simp: efi_cmdline_def Let_def)
qed

lemma efi_args_safe:
  assumes "system_ok sys"
  shows "\<exists>r. efi_args fuel debug sys = Some r \<and> (\<forall>args. r = Inr (Inr args) \<longrightarrow> terminated (initrd_path args) \<and>
    length (initrd_path args) = 256)"
proof (cases "loaded_image sys = 0")
  case True
  obtain r where r: "efi_cmdline sys = Some (Inr r)" "\<And>mem args. r = Inr (mem, args) \<Longrightarrow> wf_args args"
    using efi_cmdline_safe [OF assms] by blast
  obtain hs where "firmware_ok (disk_firmware sys) (path_memory sys) hs" using assms by (auto simp: system_ok_def)
  then obtain ds where ds: "efidisk_init (disk_firmware sys) (path_memory sys) \<lparr>efi_hd = [], efi_cd = []\<rparr> = Some ds"
    using efidisk_init_ok unfolding fresh_disks_def by blast
  show ?thesis
  proof (cases r)
    case (Inr p)
    obtain mem args where p: "p = (mem, args)" by (cases p)
    then have wf: "wf_args args" using r(2) Inr by simp
    then have "search_args args" by (simp add: wf_args_def search_args_def)
    then obtain q where "efidisk_iterate fuel debug (blocks_reader sys) (efi_hd ds) args = Some q"
        "\<forall>a. q = Inr a \<longrightarrow> initrd_path a = initrd_path args"
      using efidisk_iterate_returns by blast
    then show ?thesis
      using True r(1) ds Inr p wf by (cases q) (auto simp: efi_args_def wf_args_def)
  qed (use True r(1) in \<open>simp add: efi_args_def\<close>)
qed (simp add: efi_args_def)

section \<open>The initrd\<close>

text \<open>The firmware has the initrd, as initrd media or as a file.\<close>

definition initrd_given :: "efi_system \<Rightarrow> bytes \<Rightarrow> bool" where
  "initrd_given sys contents \<longleftrightarrow> contents \<noteq> [] \<and>
     (if LocateDevicePath sys = 0
      then HandleProtocol sys = 0 \<and> LoadFile_size sys = length contents \<and>
        LoadFile sys (length contents) = (0, length contents, contents)
      else file_system sys = 0 \<and> OpenVolume sys = 0 \<and> (\<forall>path. OpenFile sys path = 0) \<and>
        file_end sys = length contents \<and> ReadFile sys (length contents) = (0, length contents, contents))"

lemma pages_hold:
  assumes "system_ok sys"
  shows "poke (page_memory sys (BYTES_TO_PAGES (length contents))) 0 contents =
      Some (contents @ drop (length contents) (page_memory sys (BYTES_TO_PAGES (length contents))))"
    and "length (contents @ drop (length contents) (page_memory sys (BYTES_TO_PAGES (length contents)))) \<le> length contents + 4095"
proof -
  have l: "length (page_memory sys (BYTES_TO_PAGES (length contents))) = BYTES_TO_PAGES (length contents) * 4096"
    using assms by (simp add: system_ok_def)
  have n: "length contents \<le> BYTES_TO_PAGES (length contents) * 4096"
    "BYTES_TO_PAGES (length contents) * 4096 \<le> length contents + 4095"
    by (simp_all add: BYTES_TO_PAGES_def)
  then show "poke (page_memory sys (BYTES_TO_PAGES (length contents))) 0 contents =
      Some (contents @ drop (length contents) (page_memory sys (BYTES_TO_PAGES (length contents))))"
    using l by (simp add: poke_def)
  show "length (contents @ drop (length contents) (page_memory sys (BYTES_TO_PAGES (length contents)))) \<le> length contents + 4095"
    using l n by simp
qed

lemma efi_load_initrd_given:
  assumes "system_ok sys" and "initrd_given sys contents"
    and "terminated (initrd_path args)" and "length (initrd_path args) = 256"
  shows "efi_load_initrd sys args = Some (Inr
    (contents @ drop (length contents) (page_memory sys (BYTES_TO_PAGES (length contents))), length contents))"
proof (cases "LocateDevicePath sys = 0")
  case True
  then show ?thesis
    using assms(2) pages_hold(1) [OF assms(1), of contents]
    by (simp add: initrd_given_def efi_load_initrd_def efi_load_lf2_initrd_def)
next
  case False
  obtain n where n: "n < 256" "initrd_path args ! n = 0"
    using assms(3,4) by (auto simp: terminated_def in_set_conv_nth)
  obtain ws where ws: "utf8_to_ucs2 (MAX_PATH + 1) (initrd_path args) = Some ws" "length ws \<le> n"
    using utf8_to_ucs2_path [of n "initrd_path args" "MAX_PATH + 1"] n assms(4) by auto
  then have "poke (replicate (MAX_PATH + 1) 0) 0 (ws @ [0]) \<noteq> None"
    using n(1) by (simp add: poke_def MAX_PATH_def)
  then obtain wpath where "poke (replicate (MAX_PATH + 1) 0) 0 (ws @ [0]) = Some wpath" by blast
  then show ?thesis
    using assms(2) pages_hold(1) [OF assms(1), of contents] ws(1) False
    by (simp add: initrd_given_def efi_load_initrd_def efi_load_lf2_initrd_def efi_load_sfs_initrd_def)
qed

section \<open>Reading the virtual partition\<close>

text \<open>What the firmware reads from a block device is the virtual disk's sectors, from the device's first on.\<close>

lemma efi_read_blocks_sectors:
  assumes "disk_files files cs" and "0 < n" and "n < 0x800000" and "block_lba block + lba + n \<le> readable lp64"
    and "block_lba block + lba + n \<le> VDISK_FILE_COUNT \<or> VDISK_FILE_COUNT \<le> block_lba block + lba"
  shows "efi_read_blocks n lp64 files block lba (512 * n) =
    Some (Inr (0, concat (map (disk_sector lp64 files cs) [block_lba block + lba..<block_lba block + lba + n])))"
proof -
  have "block_lba block + lba < 2 ^ 32"
    using assms(2,4) readable_small(1) [of lp64] readable_small(2) by linarith
  then have "(lba + block_lba block) mod 2 ^ 64 = block_lba block + lba" by (simp add: add.commute)
  then show ?thesis
    using vdisk_read_range [OF assms order.refl] by (simp add: efi_read_blocks_def VDISK_SECTOR_SIZE_def)
qed

text \<open>
  The program's own device paths are well-formed; the partition's parent is the disk, and the
  partition is the parent of the boot manager's path.
\<close>

lemma two_bytes:
  "n < 65536 \<Longrightarrow> push_bit 8 (ucast (of_nat (n div 2 ^ 8) :: byte)) OR ucast (of_nat n AND 0xff :: byte) = (of_nat n :: u16)"
proof -
  have m: "(0xff :: byte) = mask 8" by (simp add: mask_eq_exp_minus_1)
  show ?thesis
    unfolding m drop_bit_eq_div [symmetric]
    by (rule bit_word_eqI) (auto simp: bit_simps)
qed

lemma devpath_node: "4 + length body < 65536 \<Longrightarrow> node_ok (EFI_DEVPATH_INIT t s body)"
  using two_bytes [of "4 + length body"]
  by (simp add: node_ok_def EFI_DEVPATH_INIT_def Let_def unat_of_nat del: of_nat_add)

lemma devpath_end:
  "node_end (EFI_DEVPATH_INIT t s body) \<longleftrightarrow> t AND 0x7f = END_DEVICE_PATH_TYPE \<and> s = END_ENTIRE_DEVICE_PATH_SUBTYPE"
  by (simp add: node_end_def EFI_DEVPATH_INIT_def Let_def)

lemmas block_paths = efi_vdisk_def efi_vpartition_def efi_bootmgfw_path_def EFIBLOCK_DEVPATH_VENDOR_INIT_def
  EFIBLOCK_DEVPATH_ATA_INIT_def EFIBLOCK_DEVPATH_HD_INIT_def EFI_DEVPATH_END_INIT_def EFIBLOCK_GUID_def
  END_DEVICE_PATH_TYPE_def HARDWARE_DEVICE_PATH_def MESSAGING_DEVICE_PATH_def MEDIA_DEVICE_PATH_def
  END_ENTIRE_DEVICE_PATH_SUBTYPE_def

lemma efi_paths:
  "path_nodes (block_path efi_vdisk)" "path_nodes (block_path efi_vpartition)"
  "parent_nodes (block_path efi_vpartition) = block_path efi_vdisk"
  by (simp_all add: block_paths devpath_node devpath_end parent_nodes_def le_bytes_length, simp add: EFI_DEVPATH_INIT_def)

lemma efi_bootmgfw_path_nodes:
  assumes "length boot_path < 1000"
  shows "path_nodes (efi_bootmgfw_path boot_path)"
    and "parent_nodes (efi_bootmgfw_path boot_path) = block_path efi_vpartition"
proof -
  have "length (concat (map (le_bytes 2) boot_path)) = 2 * length boot_path"
    by (induction boot_path) (simp_all add: le_bytes_length)
  then show "path_nodes (efi_bootmgfw_path boot_path)"
    using assms by (simp add: block_paths devpath_node devpath_end le_bytes_length)
  show "parent_nodes (efi_bootmgfw_path boot_path) = block_path efi_vpartition"
    by (simp add: block_paths parent_nodes_def, simp add: EFI_DEVPATH_INIT_def)
qed

section \<open>The boot\<close>

lemma efi_boot_starts:
  assumes "system_ok sys" and "\<forall>img n. LoadImage sys img n = 0" and "bootmgr_image sys = 0"
  shows "efi_boot sys (body, length body) = Some (Inr
    (body @ drop (length body) (page_memory sys (BYTES_TO_PAGES (length body))), length body))"
  using pages_hold(1) [OF assms(1), of body] assms(2,3) by (simp add: efi_boot_def peek_def)


text \<open>A firmware with the disks above, an initrd media, and options for the command line.\<close>

definition efi_boot_entry :: "u32 \<times> bytes \<times> bytes" where
  "efi_boot_entry = (0x81a4, map of_char ''bootx64.efi'', [0x4d, 0x5a, 1])"

definition some_system :: efi_system where
  "some_system = \<lparr>
     disk_firmware = some_firmware, path_memory = some_memory, blocks_reader = (\<lambda>_ _ _. None),
     pool_memory = (\<lambda>n. replicate n 0xaf), page_memory = (\<lambda>n. replicate (n * 4096) 0xaf),
     loaded_image = 0, LoadOptionsSize = 24, LoadOptions = map (ucast \<circ> (of_char :: char \<Rightarrow> byte)) ''testmode=yes'',
     LocateDevicePath = 0, HandleProtocol = 0, LoadFile_size = length (archive [efi_boot_entry]),
     LoadFile = (\<lambda>n. (0, n, take n (archive [efi_boot_entry]))),
     file_system = 1, OpenVolume = 1, OpenFile = (\<lambda>_. 1), file_end = 0, ReadFile = (\<lambda>_. (1, 0, [])),
     install_status = (0, 0), LoadImage = (\<lambda>_ _. 0), bootmgr_image = 0\<rparr>"


end
