(* ===== verification/PeLoader.thy ===== *)
theory PeLoader
  imports NtPrelude
begin

text \<open>
  The loader of PE executables (\<^verbatim>\<open>libnt/peloader.c\<close>): headers and sections of bootmgr are copied to the
  addresses the image asks for, followed by a copy of the file.
\<close>

section \<open>The file\<close>

definition MZ_HEADER_MAGIC :: u16 where "MZ_HEADER_MAGIC = 0x5a4d"
definition PE_HEADER_MAGIC :: u32 where "PE_HEADER_MAGIC = 0x00004550"

record coff_section =
  virtual_len :: nat
  virtual :: nat
  raw_len :: nat
  raw :: nat

definition coff_section_of :: "bytes \<Rightarrow> nat \<Rightarrow> coff_section option" where
  "coff_section_of data off = do {
     _ \<leftarrow> peek data off 8;
     v \<leftarrow> get32 data (off + 12);
     r \<leftarrow> get32 data (off + 16);
     ml \<leftarrow> get32 data (off + 8);
     p \<leftarrow> get32 data (off + 20);
     Some \<lparr>virtual_len = unat ml, virtual = unat v, raw_len = unat r, raw = unat p\<rparr> }"

record pe_optional_header =
  entry_rva :: u32
  image_base :: u32
  section_align :: u32
  header_len :: u32

definition pe_optional_header_of :: "bytes \<Rightarrow> nat \<Rightarrow> pe_optional_header option" where
  "pe_optional_header_of data off = do {
     ent \<leftarrow> get32 data (off + 16);
     base \<leftarrow> get32 data (off + 28);
     algn \<leftarrow> get32 data (off + 32);
     hl \<leftarrow> get32 data (off + 60);
     Some \<lparr>entry_rva = ent, image_base = base, section_align = algn, header_len = hl\<rparr> }"

section \<open>Loading\<close>

text \<open>
  The memory is the one from the image's base on, apart from the file; a read or write past its end is
  a fault. \<open>fini\<close> is the end of the image so far, an offset from the base.
\<close>

definition load_section :: "bytes \<Rightarrow> coff_section \<Rightarrow> bytes \<times> nat \<Rightarrow> (bytes \<times> nat) option" where
  "load_section data s = (\<lambda>(m, fini). do {
     m \<leftarrow> poke m (virtual s) (replicate (virtual_len s) 0);
     src \<leftarrow> peek data (raw s) (raw_len s);
     m \<leftarrow> poke m (virtual s) src;
     Some (m, if fini < virtual s + virtual_len s then virtual s + virtual_len s else fini) })"

fun load_sections :: "bytes \<Rightarrow> nat \<Rightarrow> nat \<Rightarrow> bytes \<times> nat \<Rightarrow> (bytes \<times> nat) option" where
  "load_sections data off 0 st = Some st"
| "load_sections data off (Suc n) st = do {
     s \<leftarrow> coff_section_of data off;
     st \<leftarrow> load_section data s st;
     load_sections data (off + 40) n st }"

record loaded_pe =
  pe_base :: u64
  pe_len :: u64
  pe_entry :: u64

datatype pe_error = Bad_MZ_magic | PE_header_outside_file | Bad_PE_magic

text \<open>
  The mask of the alignment is a 32-bit value: it also clears the upper half of the length.
\<close>

definition image_len :: "nat \<Rightarrow> u32 \<Rightarrow> u64" where
  "image_len fini algn = (of_nat fini + ucast algn - 1) AND ucast (NOT (algn - 1))"

definition load_pe :: "bytes \<Rightarrow> bytes \<Rightarrow> (pe_error + bytes \<times> loaded_pe) option" where
  "load_pe data m = do {
     mz \<leftarrow> get16 data 0;
     if mz \<noteq> MZ_HEADER_MAGIC then Some (Inl Bad_MZ_magic)
     else do {
       lfanew \<leftarrow> get32 data 60;
       let pehdr_offset = unat lfanew;
       if pehdr_offset > length data then Some (Inl PE_header_outside_file)
       else do {
         pe \<leftarrow> get32 data pehdr_offset;
         if pe \<noteq> PE_HEADER_MAGIC then Some (Inl Bad_PE_magic)
         else do {
           let opthdr_offset = pehdr_offset + 24;
           opthdr \<leftarrow> pe_optional_header_of data opthdr_offset;
           opthdr_len \<leftarrow> get16 data (pehdr_offset + 20);
           let section_offset = opthdr_offset + unat opthdr_len;
           header \<leftarrow> peek data 0 (unat (header_len opthdr));
           m \<leftarrow> poke m 0 header;
           num_sections \<leftarrow> get16 data (pehdr_offset + 6);
           (m, fini) \<leftarrow> load_sections data section_offset (unat num_sections) (m, unat (header_len opthdr));
           let len = image_len fini (section_align opthdr);
           m \<leftarrow> poke m (unat len) data;
           Some (Inr (m, \<lparr>pe_base = ucast (image_base opthdr), pe_len = len + of_nat (length data),
             pe_entry = ucast (image_base opthdr) + ucast (entry_rva opthdr)\<rparr>)) } } } }"

section \<open>Sections\<close>

fun section_table :: "bytes \<Rightarrow> nat \<Rightarrow> nat \<Rightarrow> coff_section list option" where
  "section_table data off 0 = Some []"
| "section_table data off (Suc n) = do {
     s \<leftarrow> coff_section_of data off;
     ss \<leftarrow> section_table data (off + 40) n;
     Some (s # ss) }"

definition extent :: "coff_section \<Rightarrow> nat" where
  "extent s = virtual s + max (virtual_len s) (raw_len s)"

definition fits :: "bytes \<Rightarrow> nat \<Rightarrow> coff_section \<Rightarrow> bool" where
  "fits data hi s \<longleftrightarrow> extent s \<le> hi \<and> raw s + raw_len s \<le> length data"

definition apart :: "coff_section \<Rightarrow> coff_section \<Rightarrow> bool" where
  "apart s t \<longleftrightarrow> extent s \<le> virtual t \<or> extent t \<le> virtual s"

text \<open>A section in memory: the data of the file, then zeros.\<close>

definition section_image :: "bytes \<Rightarrow> coff_section \<Rightarrow> bytes" where
  "section_image data s = take (virtual_len s)
     (take (raw_len s) (drop (raw s) data) @ replicate (virtual_len s - raw_len s) 0)"

definition section_loaded :: "bytes \<Rightarrow> bytes \<Rightarrow> coff_section \<Rightarrow> bool" where
  "section_loaded data m s \<longleftrightarrow> peek m (virtual s) (virtual_len s) = Some (section_image data s)"

lemma load_section_loads:
  assumes "fits data (length m) s"
  shows "\<exists>m'. load_section data s (m, fini) = Some (m', max fini (virtual s + virtual_len s)) \<and>
    length m' = length m \<and> section_loaded data m' s \<and>
    (\<forall>p n. p + n \<le> virtual s \<or> extent s \<le> p \<longrightarrow> peek m' p n = peek m p n)"
proof -
  let ?src = "take (raw_len s) (drop (raw s) data)"
  have l: "length ?src = raw_len s" using assms by (auto simp: fits_def min_def)
  have b: "virtual s + virtual_len s \<le> length m" "virtual s + raw_len s \<le> length m"
    using assms by (auto simp: fits_def extent_def)
  obtain m1 where m1: "poke m (virtual s) (replicate (virtual_len s) 0) = Some m1"
    using b(1) by (simp add: poke_def)
  have len1: "length m1 = length m" using m1 by (rule poke_length)
  obtain m2 where m2: "poke m1 (virtual s) ?src = Some m2"
    using b(2) l len1 by (simp add: poke_def)
  have len2: "length m2 = length m" using m2 len1 by (simp add: poke_length)
  have "load_section data s (m, fini) = Some (m2, max fini (virtual s + virtual_len s))"
    using assms m1 m2 by (simp add: load_section_def fits_def peek_def)
  moreover have "section_loaded data m2 s"
    unfolding section_loaded_def peek_Some_iff
  proof (intro conjI nth_equalityI)
    show "virtual s + virtual_len s \<le> length m2" using b(1) len2 by simp
    show "length (section_image data s) = length (take (virtual_len s) (drop (virtual s) m2))"
      using b(1) len2 l by (simp add: section_image_def)
    fix i
    assume "i < length (section_image data s)"
    then have i: "i < virtual_len s" by (simp add: section_image_def)
    then have "m2 ! (virtual s + i) = (if i < raw_len s then ?src ! i else 0)"
      using poke_nth [OF m2, of "virtual s + i"] poke_nth [OF m1, of "virtual s + i"] b len1 l assms
      by (auto simp: fits_def)
    then show "section_image data s ! i = take (virtual_len s) (drop (virtual s) m2) ! i"
      using i l b(1) len2 by (simp add: section_image_def nth_append)
  qed
  moreover have "peek m2 p n = peek m p n" if "p + n \<le> virtual s \<or> extent s \<le> p" for p n
  proof -
    have "p + n \<le> virtual s \<or> virtual s + length ?src \<le> p"
      "p + n \<le> virtual s \<or> virtual s + length (replicate (virtual_len s) (0 :: byte)) \<le> p"
      using that l by (auto simp: extent_def)
    then show ?thesis using peek_poke_disjoint [OF m1] peek_poke_disjoint [OF m2] by simp
  qed
  ultimately show ?thesis using len2 by blast
qed

lemma load_sections_load:
  assumes "section_table data off n = Some ss" and "list_all (fits data room) ss"
    and "sorted_wrt apart ss" and "room \<le> length m"
  shows "\<exists>m' hi. load_sections data off n (m, fini) = Some (m', hi) \<and> length m' = length m \<and>
    fini \<le> hi \<and> list_all (section_loaded data m') ss \<and> list_all (\<lambda>s. virtual s + virtual_len s \<le> hi) ss \<and>
    hi \<le> max fini room \<and>
    (\<forall>p k. list_all (\<lambda>s. p + k \<le> virtual s \<or> extent s \<le> p) ss \<longrightarrow> peek m' p k = peek m p k)"
  using assms
proof (induction n arbitrary: off ss m fini)
  case (Suc n)
  then obtain s ts where s: "coff_section_of data off = Some s" "section_table data (off + 40) n = Some ts"
      "ss = s # ts"
    by (auto simp: bind_eq_Some_conv)
  obtain m1 where m1: "load_section data s (m, fini) = Some (m1, max fini (virtual s + virtual_len s))"
      "length m1 = length m" "section_loaded data m1 s"
      "\<And>p n. p + n \<le> virtual s \<or> extent s \<le> p \<Longrightarrow> peek m1 p n = peek m p n"
    using load_section_loads [of data m s fini] Suc.prems(2,4) s(3) by (auto simp: fits_def)
  obtain m2 hi where m2: "load_sections data (off + 40) n (m1, max fini (virtual s + virtual_len s)) = Some (m2, hi)"
      "length m2 = length m" "max fini (virtual s + virtual_len s) \<le> hi" "list_all (section_loaded data m2) ts"
      "list_all (\<lambda>s. virtual s + virtual_len s \<le> hi) ts"
      "hi \<le> max (max fini (virtual s + virtual_len s)) room"
      "\<And>p k. list_all (\<lambda>s. p + k \<le> virtual s \<or> extent s \<le> p) ts \<Longrightarrow> peek m2 p k = peek m1 p k"
    using Suc.IH [OF s(2), of m1 "max fini (virtual s + virtual_len s)"] Suc.prems(2-4) s(3) m1(2) by auto
  have "list_all (\<lambda>t. virtual s + virtual_len s \<le> virtual t \<or> extent t \<le> virtual s) ts"
    using Suc.prems(3) s(3) by (auto simp: list_all_iff apart_def extent_def)
  then have "section_loaded data m2 s" using m1(3) m2(7) by (simp add: section_loaded_def)
  moreover have "virtual s + virtual_len s \<le> room"
    using Suc.prems(2) s(3) by (auto simp: fits_def extent_def)
  ultimately show ?case using s m1 m2 by auto
qed simp

section \<open>The length\<close>

lemma image_len_covers:
  assumes "algn = 2 ^ k" and "k < 32" and "fini + 2 ^ k \<le> 2 ^ 32"
  shows "fini \<le> unat (image_len fini algn)" and "unat (image_len fini algn) < fini + 2 ^ k"
proof -
  let ?x = "of_nat fini + ucast algn - 1 :: u64"
  have "unat (of_nat (2 ^ k) :: u32) = 2 ^ k"
    by (rule unat_of_nat_small) (use assms(2) power_strict_increasing [of k 32 "2 :: nat"] in simp)
  then have a: "unat algn = 2 ^ k" using assms(1) by simp
  have p: "0 < (2 :: nat) ^ k" by simp
  have x: "?x = of_nat (fini + 2 ^ k - 1)"
  proof -
    have "(ucast algn :: u64) = of_nat (2 ^ k)" unfolding a [symmetric] by simp
    moreover have "1 \<le> fini + 2 ^ k" using p by linarith
    then have "(of_nat (fini + 2 ^ k - 1) :: u64) = of_nat (fini + 2 ^ k) - of_nat 1" by (rule of_nat_diff)
    ultimately show ?thesis by (simp only: of_nat_add of_nat_1)
  qed
  have ux: "unat ?x = fini + 2 ^ k - 1"
    unfolding x by (rule unat_of_nat_small) (use assms(3) in simp)
  have "?x < 2 ^ 32" unfolding word_less_nat_alt ux using assms(3) p by (simp del: p)
  then have "bit ?x i \<Longrightarrow> i < 32" for i by (rule bit_less_exp)
  moreover have "algn - 1 = mask k" using assms(1) by (simp add: mask_eq_exp_minus_1)
  ultimately have "image_len fini algn = ?x AND NOT (mask k)"
    unfolding image_len_def by (intro bit_word_eqI) (auto simp: bit_simps)
  then have u: "unat (image_len fini algn) = (fini + 2 ^ k - 1) div 2 ^ k * 2 ^ k"
    using unat_and_not_mask [of ?x k] ux by simp
  have e: "(fini + 2 ^ k - 1) div 2 ^ k * 2 ^ k + (fini + 2 ^ k - 1) mod 2 ^ k = fini + 2 ^ k - 1"
    by (rule div_mult_mod_eq)
  have "(fini + 2 ^ k - 1) mod 2 ^ k < 2 ^ k" using p by simp
  then show "fini \<le> unat (image_len fini algn)" "unat (image_len fini algn) < fini + 2 ^ k"
    unfolding u using e p by linarith+
qed

section \<open>The image\<close>

text \<open>What a PE file says: its optional header and its sections.\<close>

definition pe_image_of :: "bytes \<Rightarrow> (pe_optional_header \<times> coff_section list) option" where
  "pe_image_of data = do {
     mz \<leftarrow> get16 data 0;
     lfanew \<leftarrow> get32 data 60;
     pe \<leftarrow> get32 data (unat lfanew);
     if mz = MZ_HEADER_MAGIC \<and> pe = PE_HEADER_MAGIC then do {
       opt \<leftarrow> pe_optional_header_of data (unat lfanew + 24);
       opt_len \<leftarrow> get16 data (unat lfanew + 20);
       n \<leftarrow> get16 data (unat lfanew + 6);
       ss \<leftarrow> section_table data (unat lfanew + 24 + unat opt_len) (unat n);
       Some (opt, ss) }
     else None }"

text \<open>
  An image that fits: headers and sections do not overlap and lie in the file and in the memory, which
  also has room for the copy of the file behind an alignment's worth of padding.
\<close>

definition image_fits :: "bytes \<Rightarrow> nat \<Rightarrow> nat \<Rightarrow> pe_optional_header \<Rightarrow> coff_section list \<Rightarrow> bool" where
  "image_fits data room k opt ss \<longleftrightarrow>
     k < 32 \<and> section_align opt = 2 ^ k \<and> room + 2 ^ k \<le> 2 ^ 32 \<and> unat (header_len opt) \<le> min (length data) room \<and>
     list_all (fits data room) ss \<and> sorted_wrt apart ss \<and> list_all (\<lambda>s. unat (header_len opt) \<le> virtual s) ss"

text \<open>Headers, sections and the copy of the file, in the order they are written.\<close>

lemma parts_loaded:
  assumes "image_fits data room k opt ss" and "section_table data off n = Some ss"
    and "room + 2 ^ k + length data \<le> length m"
  shows "\<exists>m1 m2 m3 fini. poke m 0 (take (unat (header_len opt)) data) = Some m1 \<and>
    load_sections data off n (m1, unat (header_len opt)) = Some (m2, fini) \<and>
    poke m2 (unat (image_len fini (section_align opt))) data = Some m3 \<and> length m3 = length m \<and>
    unat (image_len fini (section_align opt)) + length data \<le> length m \<and>
    peek m3 0 (unat (header_len opt)) = Some (take (unat (header_len opt)) data) \<and>
    list_all (section_loaded data m3) ss"
proof -
  let ?h = "unat (header_len opt)"
  note fit = assms(1) [unfolded image_fits_def]
  have h: "?h \<le> length data" "?h \<le> room" using fit by simp_all
  have lh: "length (take ?h data) = ?h" using h(1) by simp
  obtain m1 where m1: "poke m 0 (take ?h data) = Some m1"
    using h assms(3) by (simp add: poke_def)
  have len1: "length m1 = length m" using m1 by (rule poke_length)
  have "list_all (fits data room) ss" "sorted_wrt apart ss" "room \<le> length m1"
    using fit assms(3) len1 by simp_all
  from load_sections_load [OF assms(2) this, of ?h] obtain m2 fini where
    m2: "load_sections data off n (m1, ?h) = Some (m2, fini)"
      "length m2 = length m" "?h \<le> fini" "list_all (section_loaded data m2) ss"
      "list_all (\<lambda>s. virtual s + virtual_len s \<le> fini) ss" "fini \<le> room"
      "\<And>p k. list_all (\<lambda>s. p + k \<le> virtual s \<or> extent s \<le> p) ss \<Longrightarrow> peek m2 p k = peek m1 p k"
    using len1 h(2) by auto
  let ?len = "image_len fini (section_align opt)"
  have "fini + 2 ^ k \<le> 2 ^ 32" using fit m2(6) by linarith
  then have cover: "fini \<le> unat ?len" "unat ?len < fini + 2 ^ k"
    using image_len_covers [of "section_align opt" k fini] fit by blast+
  then have room: "unat ?len + length data \<le> length m" using m2(6) assms(3) by linarith
  then obtain m3 where m3: "poke m2 (unat ?len) data = Some m3" using m2(2) by (simp add: poke_def)
  have len3: "length m3 = length m" using poke_length [OF m3] m2(2) by simp
  have keep: "peek m3 p n = peek m2 p n" if "p + n \<le> fini" for p n
    using peek_poke_disjoint [OF m3] that cover(1) by simp
  have "peek m2 0 ?h = peek m1 0 ?h" using fit by (intro m2(7)) (auto simp: list_all_iff)
  then have "peek m3 0 ?h = Some (take ?h data)"
    using keep [of 0 ?h] m2(3) peek_poke_same [OF m1, unfolded lh] by simp
  moreover have "list_all (section_loaded data m3) ss"
    using m2(4,5) keep by (auto simp: list_all_iff section_loaded_def)
  ultimately show ?thesis using m1 m2(1) m3 len3 room by blast
qed

lemma pe_loads:
  assumes "pe_image_of data = Some (opt, ss)" and "image_fits data room k opt ss"
    and "room + 2 ^ k + length data \<le> length m" and "length m < 2 ^ 64"
  shows "\<exists>m' pe. load_pe data m = Some (Inr (m', pe)) \<and> length m' = length m \<and>
    pe_base pe = ucast (image_base opt) \<and> pe_entry pe = ucast (image_base opt) + ucast (entry_rva opt) \<and>
    peek m' 0 (unat (header_len opt)) = Some (take (unat (header_len opt)) data) \<and>
    list_all (section_loaded data m') ss \<and>
    peek m' (unat (pe_len pe) - length data) (length data) = Some data"
proof -
  let ?h = "unat (header_len opt)"
  obtain lfanew opt_len n where
    rd: "get16 data 0 = Some MZ_HEADER_MAGIC" "get32 data 60 = Some lfanew"
      "get32 data (unat lfanew) = Some PE_HEADER_MAGIC"
      "pe_optional_header_of data (unat lfanew + 24) = Some opt" "get16 data (unat lfanew + 20) = Some opt_len"
      "get16 data (unat lfanew + 6) = Some n"
    and ss: "section_table data (unat lfanew + 24 + unat opt_len) (unat n) = Some ss"
    using assms(1) by (auto simp: pe_image_of_def bind_eq_Some_conv split: if_splits)
  have off: "\<not> unat lfanew > length data" using rd(3) by (auto simp: get32_def peek_def split: if_splits)
  have head: "peek data 0 ?h = Some (take ?h data)"
    using assms(2) by (simp add: image_fits_def peek_def)
  obtain m1 m2 m3 fini where m1: "poke m 0 (take ?h data) = Some m1"
    and m2: "load_sections data (unat lfanew + 24 + unat opt_len) (unat n) (m1, ?h) = Some (m2, fini)"
    and m3: "poke m2 (unat (image_len fini (section_align opt))) data = Some m3" "length m3 = length m"
      "unat (image_len fini (section_align opt)) + length data \<le> length m"
      "peek m3 0 ?h = Some (take ?h data)" "list_all (section_loaded data m3) ss"
    using parts_loaded [OF assms(2) ss assms(3)] by blast
  let ?len = "image_len fini (section_align opt)"
  let ?pe = "\<lparr>pe_base = ucast (image_base opt), pe_len = ?len + of_nat (length data),
    pe_entry = ucast (image_base opt) + ucast (entry_rva opt)\<rparr>"
  have run: "load_pe data m = Some (Inr (m3, ?pe))"
    using rd off head m1 m2 m3(1) by (simp add: load_pe_def Let_def)
  have "unat (?len + of_nat (length data)) = unat ?len + length data"
    using m3(3) assms(4) by (simp add: unat_word_ariths unat_of_nat)
  then have raw: "peek m3 (unat (pe_len ?pe) - length data) (length data) = Some data"
    using peek_poke_same [OF m3(1)] by simp
  show ?thesis
    by (intro exI [of _ m3] exI [of _ ?pe] conjI run m3(2,4,5) raw) simp_all
qed

text \<open>C39:
  bootmgr is loaded as its headers ask: in memory are the headers, each section's data padded with
  zeros to its virtual length, and behind them, at the end of the length given out, the whole file;
  the base and the entry point are the image's, and no access leaves the file or the memory.
\<close>

theorem load_pe_loads:
  assumes "pe_image_of data = Some (opt, ss)" and "image_fits data room k opt ss"
    and "room + 2 ^ k + length data \<le> length m" and "length m < 2 ^ 64"
  shows "\<exists>m' pe. load_pe data m = Some (Inr (m', pe)) \<and> length m' = length m \<and>
    pe_base pe = ucast (image_base opt) \<and> pe_entry pe = ucast (image_base opt) + ucast (entry_rva opt) \<and>
    peek m' 0 (unat (header_len opt)) = Some (take (unat (header_len opt)) data) \<and>
    list_all (section_loaded data m') ss \<and>
    peek m' (unat (pe_len pe) - length data) (length data) = Some data"
  using assms by (rule pe_loads)

text \<open>An executable of two sections: the first shorter in the file than in memory, the second longer.\<close>

definition some_pe :: bytes where
  "some_pe = [0x4d, 0x5a] @ replicate 58 0 @ [64, 0, 0, 0] @
     [0x50, 0x45, 0, 0] @ [0x4c, 1, 2, 0] @ replicate 12 0 @ [64, 0, 0, 0] @
     replicate 16 0 @ [0x10, 1, 0, 0] @ replicate 8 0 @ [0, 0, 0x40, 0] @ [16, 0, 0, 0] @ replicate 24 0 @ [240, 0, 0, 0] @
     replicate 8 0x41 @ [8, 0, 0, 0] @ [240, 0, 0, 0] @ [4, 0, 0, 0] @ [236, 0, 0, 0] @ replicate 16 0 @
     replicate 8 0x42 @ [2, 0, 0, 0] @ [0, 1, 0, 0] @ [4, 0, 0, 0] @ [232, 0, 0, 0] @ replicate 16 0 @
     [1, 2, 3, 4, 5, 6, 7, 8]"

definition some_opt :: pe_optional_header where
  "some_opt = \<lparr>entry_rva = 0x110, image_base = 0x400000, section_align = 16, header_len = 240\<rparr>"

definition some_sections :: "coff_section list" where
  "some_sections =
     [\<lparr>virtual_len = 8, virtual = 240, raw_len = 4, raw = 236\<rparr>,
      \<lparr>virtual_len = 2, virtual = 256, raw_len = 4, raw = 232\<rparr>]"

theorem load_pe_loads_witness:
  "\<exists>m' pe. load_pe some_pe (replicate 600 0xcc) = Some (Inr (m', pe)) \<and> length m' = length (replicate 600 (0xcc :: byte)) \<and>
    pe_base pe = ucast (image_base some_opt) \<and> pe_entry pe = ucast (image_base some_opt) + ucast (entry_rva some_opt) \<and>
    peek m' 0 (unat (header_len some_opt)) = Some (take (unat (header_len some_opt)) some_pe) \<and>
    list_all (section_loaded some_pe m') some_sections \<and>
    peek m' (unat (pe_len pe) - length some_pe) (length some_pe) = Some some_pe"
proof (rule load_pe_loads)
  show "pe_image_of some_pe = Some (some_opt, some_sections)" by code_simp
  show "image_fits some_pe 300 4 some_opt some_sections"
    by (simp add: image_fits_def some_opt_def some_sections_def fits_def extent_def apart_def some_pe_def)
  show "300 + 2 ^ 4 + length some_pe \<le> length (replicate 600 (0xcc :: byte))" by (simp add: some_pe_def)
  show "length (replicate 600 (0xcc :: byte)) < 2 ^ 64" by simp
qed

end
