(* ===== verification/BiosMain.thy ===== *)
theory BiosMain
  imports Int13 Payload PeLoader Paging CmdlineArgs "HOL-Library.Signed_Division"
begin

text \<open>
  The BIOS build's main program (\<^verbatim>\<open>kern/main.c\<close>): from the command line and the disks to the start of
  bootmgr, and what bootmgr is given (\<^verbatim>\<open>include/bootapp.h\<close>).
\<close>

section \<open>Memory\<close>

text \<open>An address goes through the page tables where paging is in use; the others are physical.\<close>

definition address :: "machine \<Rightarrow> nat \<Rightarrow> nat option" where
  "address m a = (if paging m then translate m a else Some a)"

fun load_memory :: "machine \<Rightarrow> nat \<Rightarrow> nat \<Rightarrow> bytes option" where
  "load_memory m a 0 = Some []"
| "load_memory m a (Suc n) = do {
     p \<leftarrow> address m a;
     bs \<leftarrow> load_memory m (a + 1) n;
     Some (mem m p # bs) }"

fun store_memory :: "machine \<Rightarrow> nat \<Rightarrow> bytes \<Rightarrow> machine option" where
  "store_memory m a [] = Some m"
| "store_memory m a (b # bs) = do {
     p \<leftarrow> address m a;
     store_memory (m\<lparr>mem := (mem m)(p := b)\<rparr>) (a + 1) bs }"

section \<open>What bootmgr is given\<close>

text \<open>Page numbers are computed with signed addresses, and division rounds towards zero.\<close>

definition page_start :: "u32 \<Rightarrow> u32" where
  "page_start a = word_of_int (sint a sdiv int PAGE_SIZE)"

definition page_end :: "u32 \<Rightarrow> u32" where
  "page_end a = word_of_int (sint (a + of_nat PAGE_SIZE - 1) sdiv int PAGE_SIZE)"

definition page_len :: "u32 \<Rightarrow> u32 \<Rightarrow> u32" where
  "page_len start stop = page_end stop - page_start start"

text \<open>The descriptors, one behind the other. A region is its first page and the number of its pages.\<close>

definition BOOTAPP_SIGNATURE :: bytes where "BOOTAPP_SIGNATURE = map of_char ''BOOT APP''"
definition BOOTAPP_VERSION :: u32 where "BOOTAPP_VERSION = 2"
definition BOOTAPP_ARCH_I386 :: u32 where "BOOTAPP_ARCH_I386 = 0x014c"
definition BOOTAPP_MEMORY_VERSION :: u32 where "BOOTAPP_MEMORY_VERSION = 1"
definition BOOTAPP_ENTRY_SIGNATURE :: bytes where "BOOTAPP_ENTRY_SIGNATURE = map of_char ''BTAPENT'' @ [0]"
definition BOOTAPP_ENTRY_FLAGS :: u32 where "BOOTAPP_ENTRY_FLAGS = 0x21"
definition BOOTAPP_POINTLESS_VERSION :: u32 where "BOOTAPP_POINTLESS_VERSION = 1"
definition NUM_REGIONS :: u32 where "NUM_REGIONS = 3"

record boot_app =
  app_pe_base :: u32
  app_pe_len :: u32
  app_regions :: "(u64 \<times> u64) list"
  app_num_regions :: u32

definition bootapp_descriptor :: "u32 \<Rightarrow> u32 \<Rightarrow> bytes" where
  "bootapp_descriptor base len =
     BOOTAPP_SIGNATURE @ le_bytes 4 BOOTAPP_VERSION @ le_bytes 4 (460 :: u32) @ le_bytes 4 BOOTAPP_ARCH_I386 @
     replicate 4 0 @ le_bytes 4 base @ replicate 4 0 @ le_bytes 4 len @ le_bytes 4 (60 :: u32) @
     le_bytes 4 (200 :: u32) @ le_bytes 4 (354 :: u32) @ le_bytes 4 (424 :: u32) @ le_bytes 4 (432 :: u32) @
     replicate 4 0"

definition bootapp_memory_descriptor :: "u32 \<Rightarrow> bytes" where
  "bootapp_memory_descriptor num =
     le_bytes 4 BOOTAPP_MEMORY_VERSION @ le_bytes 4 (20 :: u32) @ le_bytes 4 num @ le_bytes 4 (40 :: u32) @
     le_bytes 4 (8 :: u32)"

definition bootapp_memory_region :: "u64 \<times> u64 \<Rightarrow> bytes" where
  "bootapp_memory_region = (\<lambda>(start_page, num_pages).
     replicate 8 0 @ le_bytes 8 start_page @ replicate 8 0 @ le_bytes 8 num_pages @ replicate 8 0)"

definition bootapp_entry_descriptor :: bytes where
  "bootapp_entry_descriptor = BOOTAPP_ENTRY_SIGNATURE @ le_bytes 4 BOOTAPP_ENTRY_FLAGS @ replicate 16 0 @ replicate 16 0"

definition bootapp_entry_wtf1_descriptor :: bytes where
  "bootapp_entry_wtf1_descriptor =
     le_bytes 4 (0x11000001 :: u32) @ le_bytes 4 (24 :: u32) @ le_bytes 4 (16 + 70 :: u32) @ replicate 12 0"

definition bootapp_entry_wtf2_descriptor :: bytes where
  "bootapp_entry_wtf2_descriptor = replicate 16 0"

definition bootapp_entry_wtf3_descriptor :: bytes where
  "bootapp_entry_wtf3_descriptor =
     le_bytes 4 (6 :: u32) @ replicate 4 0 @ le_bytes 4 (70 :: u32) @ replicate 4 0 @
     le_bytes 4 (of_nat (VDISK_VBR_LBA * VDISK_SECTOR_SIZE) :: u32) @ replicate 16 0 @ le_bytes 4 (1 :: u32) @
     le_bytes 4 VDISK_MBR_SIGNATURE @ replicate 26 0"

definition bootapps :: "u32 \<Rightarrow> boot_app \<Rightarrow> bytes" where
  "bootapps callback app =
     bootapp_descriptor (app_pe_base app) (app_pe_len app) @ bootapp_memory_descriptor (app_num_regions app) @
     concat (map bootapp_memory_region (app_regions app)) @ bootapp_entry_descriptor @
     bootapp_entry_wtf1_descriptor @ bootapp_entry_wtf2_descriptor @ bootapp_entry_wtf3_descriptor @
     bootapp_entry_wtf3_descriptor @ le_bytes 4 callback @ replicate 4 0 @ le_bytes 4 BOOTAPP_POINTLESS_VERSION @
     replicate 24 0"

section \<open>The surroundings\<close>

text \<open>
  What the program finds: the command line's memory, the BIOS's services and memory, the machine, the
  initrd, and its own addresses. The memory that the callbacks reach is what the search of the disks
  has left. bootmgr is loaded into \<open>pe_room\<close> bytes from its base on; more would be a fault.
\<close>

record 'w bios_system =
  cmdline_memory :: bytes
  disk_int13 :: "'w int13"
  disk_bios :: "'w firmware"
  real_memory :: "'w firmware \<Rightarrow> 'w real"
  memory_map :: e820_bios
  map_buffer :: memmap
  has_pae :: bool
  pd_address :: nat
  pdpt_address :: u32
  start_machine :: machine
  start_state :: paging_state
  initrd_start :: u32
  initrd_length :: u32
  pe_room :: nat
  own_start :: u32
  own_end :: u32
  callback_address :: u32

datatype bios_death = Cmdline_death death | Payload_death payload_death | Pe_death pe_error

section \<open>The program\<close>

text \<open>
  The steps up to the initrd's place below 2GB. \<open>Inl ()\<close> is a loop that has not come to its end within
  the fuel.
\<close>

type_synonym 'w bios_state = "nt_args \<times> 'w firmware \<times> machine \<times> paging_state \<times> u32"

definition bios_setup :: "nat \<Rightarrow> bool \<Rightarrow> 'w bios_system \<Rightarrow> (unit + (bios_death + 'w bios_state)) option" where
  "bios_setup fuel debug sys = do {
     r \<leftarrow> process_cmdline (length (cmdline_memory sys)) False (cmdline_memory sys);
     (case r of
        Inl _ \<Rightarrow> Some (Inl ())
      | Inr (Inl e) \<Rightarrow> Some (Inr (Inl (Cmdline_death e)))
      | Inr (Inr (_, args)) \<Rightarrow> do {
          fw \<leftarrow> biosdisk_init (disk_bios sys);
          r \<leftarrow> biosdisk_iterate fuel debug (disk_int13 sys) args fw;
          (case r of
             Inr (Some (args, fw)) \<Rightarrow> do {
               m \<leftarrow> init_paging (has_pae sys) (pd_address sys) (start_machine sys);
               let (m, state) = enable_paging (pdpt_address sys) m (start_state sys);
               r \<leftarrow> relocate_memory_low fuel (memory_map sys) (map_buffer sys) m (initrd_start sys) (initrd_length sys);
               Some (map_sum id (\<lambda>(initrd, m). Inr (args, fw, m, state, initrd)) r) }
           | _ \<Rightarrow> Some (Inl ())) }) }"

text \<open>Where a PE file wants to be.\<close>

definition wanted_base :: "bytes \<Rightarrow> nat" where
  "wanted_base data =
     (case do { lfanew \<leftarrow> get32 data 60; pe_optional_header_of data (unat lfanew + 24) } of
        Some opt \<Rightarrow> unat (image_base opt) | None \<Rightarrow> 0)"

definition bios_load_pe ::
  "nat \<Rightarrow> machine \<Rightarrow> bytes \<Rightarrow> (pe_error + machine \<times> loaded_pe) option" where
  "bios_load_pe space m data = do {
     before \<leftarrow> load_memory m (wanted_base data) space;
     r \<leftarrow> load_pe data before;
     (case r of
        Inl e \<Rightarrow> Some (Inl e)
      | Inr (after, pe) \<Rightarrow> map_option (\<lambda>m. Inr (m, pe)) (store_memory m (wanted_base data) after)) }"

text \<open>The lengths and addresses of the loaded image are 32-bit values here.\<close>

definition boot_app_of :: "'w bios_system \<Rightarrow> loaded_pe \<Rightarrow> u32 \<Rightarrow> u64 \<Rightarrow> boot_app" where
  "boot_app_of sys pe initrd initrd_phys =
     (let base = ucast (pe_base pe); len = ucast (pe_len pe)
      in \<lparr>app_pe_base = base, app_pe_len = len,
          app_regions =
            [(ucast (page_start (own_start sys)), ucast (page_len (own_start sys) (own_end sys))),
             (ucast (page_start base), ucast (page_len base (base + len))),
             (initrd_phys div of_nat PAGE_SIZE, ucast (page_len initrd (initrd + initrd_length sys)))],
          app_num_regions = (if initrd_phys \<ge> ADDR_4GB then NUM_REGIONS - 1 else NUM_REGIONS)\<rparr>)"

text \<open>
  The program ends with an error, or it enters bootmgr: with the descriptors, on the machine and the
  real-mode memory it leaves, with the callbacks' drive and files.
\<close>

datatype 'w bios_run = Bios_dies bios_death | Bios_enters u32 boot_app machine "'w real" u32 "vfile list"

definition bios_main ::
  "nat \<Rightarrow> bool \<Rightarrow> u16 list \<Rightarrow> hive \<Rightarrow> 'w bios_system \<Rightarrow> (unit + 'w bios_run) option" where
  "bios_main fuel debug boot_path bcd_raw sys = do {
     r \<leftarrow> bios_setup fuel debug sys;
     (case r of
        Inl _ \<Rightarrow> Some (Inl ())
      | Inr (Inl e) \<Rightarrow> Some (Inr (Bios_dies e))
      | Inr (Inr (args, fw, m, state, initrd)) \<Rightarrow> do {
          contents \<leftarrow> load_memory m (unat initrd) (unat (initrd_length sys));
          r \<leftarrow> extract_initrd fuel False boot_path args bcd_raw contents (0 :: u32) (initrd_length sys);
          (case r of
             Inl _ \<Rightarrow> Some (Inl ())
           | Inr (Inl e) \<Rightarrow> Some (Inr (Bios_dies (Payload_death e)))
           | Inr (Inr p) \<Rightarrow> do {
               (drive, real) \<leftarrow> initialise_int13 (real_memory sys fw);
               (data, data_len) \<leftarrow> bootmgr p;
               r \<leftarrow> bios_load_pe (pe_room sys) m (take data_len data);
               (case r of
                  Inl e \<Rightarrow> Some (Inr (Bios_dies (Pe_death e)))
                | Inr (m, pe) \<Rightarrow> do {
                    r \<leftarrow> relocate_memory_high fuel (memory_map sys) (map_buffer sys) m initrd (initrd_length sys);
                    Some (map_sum id (\<lambda>(initrd_phys, m).
                      Bios_enters (ucast (pe_entry pe)) (boot_app_of sys pe initrd initrd_phys)
                        (disable_paging m state) real drive (vd_files p)) r) }) }) }) }"

end
