(* ===== verification/BiosMainSafe.thy ===== *)
theory BiosMainSafe
  imports BiosMain BiosdiskSafe PayloadSafe CmdlineSafe
begin

text \<open>
  The BIOS program from its command line to the start of bootmgr: no step leaves its memory, and what is
  entered, in which memory and on which files, follows from the archive, the executable in it and the
  store.
\<close>

section \<open>Memory\<close>

definition flat :: "machine \<Rightarrow> bool" where
  "flat m \<longleftrightarrow> (paging m \<longrightarrow> identity m)"

lemma flat_address: "flat m \<Longrightarrow> a < 2 ^ 32 \<Longrightarrow> address m a = Some a"
  using identity_translate [of m a] by (simp add: flat_def address_def)

lemma address_mem [simp]: "address (m\<lparr>mem := f\<rparr>) a = address m a"
  by (simp add: address_def)

lemma flat_mem [simp]: "flat (m\<lparr>mem := f\<rparr>) = flat m"
  by (simp add: flat_def identity_def)

lemma load_memory_at:
  assumes "\<And>k. k < n \<Longrightarrow> map_option (mem m) (address m (a + k)) = Some (bs ! k)" and "length bs = n"
  shows "load_memory m a n = Some bs"
  using assms
proof (induction n arbitrary: a bs)
  case (Suc n)
  obtain b bs' where bs: "bs = b # bs'" using Suc.prems(2) by (cases bs) simp_all
  have "load_memory m (a + 1) n = Some bs'"
    using Suc.prems(1) [of "Suc k" for k] Suc.prems(2) bs by (intro Suc.IH) simp_all
  moreover obtain p where "address m a = Some p" "mem m p = b" using Suc.prems(1) [of 0] bs by auto
  ultimately show ?case by (simp add: bs)
qed simp

lemma load_memory_flat:
  assumes "flat m" and "a + n \<le> 2 ^ 32"
  shows "load_memory m a n = Some (map (mem m) [a..<a + n])"
  by (rule load_memory_at) (use assms flat_address [OF assms(1)] in auto)

definition overwritten :: "nat \<Rightarrow> bytes \<Rightarrow> (nat \<Rightarrow> byte) \<Rightarrow> nat \<Rightarrow> byte" where
  "overwritten a bs f x = (if a \<le> x \<and> x < a + length bs then bs ! (x - a) else f x)"

lemma store_memory_flat:
  assumes "flat m" and "a + length bs \<le> 2 ^ 32"
  shows "store_memory m a bs = Some (m\<lparr>mem := overwritten a bs (mem m)\<rparr>)"
  using assms
proof (induction bs arbitrary: m a)
  case Nil
  have "overwritten a [] (mem m) = mem m" by (rule ext) (auto simp: overwritten_def)
  then show ?case by simp
next
  case (Cons b bs)
  let ?m = "m\<lparr>mem := (mem m)(a := b)\<rparr>"
  have "address m a = Some a" using flat_address Cons.prems by simp
  moreover have "store_memory ?m (a + 1) bs = Some (?m\<lparr>mem := overwritten (a + 1) bs (mem ?m)\<rparr>)"
    by (rule Cons.IH) (use Cons.prems in simp_all)
  moreover have "overwritten (a + 1) bs ((mem m)(a := b)) = overwritten a (b # bs) (mem m)"
    by (rule ext) (auto simp: overwritten_def nth_Cons' Suc_diff_Suc)
  ultimately show ?case by simp
qed

section \<open>Steps of the program\<close>

lemma relocate_low_result:
  "\<exists>r. relocate_memory_low fuel bios s m data len = Some r \<and> (\<forall>start m'. r = Inr (start, m') \<longrightarrow>
     (\<exists>f. m' = m\<lparr>mem := f\<rparr>) \<and> (\<forall>k < unat len. mem m' (unat start + k) = mem m (unat data + k)))"
proof -
  obtain r where r: "iterate fuel (region_pass fuel bios (\<lambda>e. place_low e len)) (False, s) = Some r"
    using iterate_no_fault [of "region_pass fuel bios (\<lambda>e. place_low e len)" fuel "(False, s)"]
      region_pass_some by blast
  have "\<exists>f. m = m\<lparr>mem := f\<rparr>" by (rule exI [of _ "mem m"]) simp
  then show ?thesis using r by (cases r) (auto simp: relocate_memory_low_def split: placement.split)
qed

lemma map_page_keeps: "map_page m v p = Some m' \<Longrightarrow> paging m' = paging m \<and> cpu m' = cpu m"
  by (auto simp: map_page_def bind_eq_Some_conv split: if_splits)

lemma map_pages_keeps: "map_pages m as = Some m' \<Longrightarrow> paging m' = paging m \<and> cpu m' = cpu m"
proof (induction as arbitrary: m)
  case (Cons a as)
  then obtain m1 where "map_page m a (of_nat a) = Some m1" "map_pages m1 as = Some m'" by (auto elim!: bindE)
  then show ?case using map_page_keeps Cons.IH by metis
qed simp

lemma copy_virtual_keeps: "copy_virtual m d s n = Some m' \<Longrightarrow> paging m' = paging m \<and> cpu m' = cpu m"
  by (induction m d s n rule: copy_virtual.induct) (auto simp: bind_eq_Some_conv)

lemma relocate_pages_keeps: "relocate_pages m data dest n = Some m' \<Longrightarrow> paging m' = paging m \<and> cpu m' = cpu m"
proof (induction m data dest n rule: relocate_pages.induct)
  case (1 m data dest len)
  show ?case
  proof (cases "len = 0")
    case True
    then show ?thesis using "1.prems" by (simp add: relocate_pages.simps)
  next
    case False
    let ?o = "unat data mod PAGE_SIZE_2MB"
    let ?n = "if PAGE_SIZE_2MB - ?o > len then len else PAGE_SIZE_2MB - ?o"
    obtain m1 m2 m3 where m: "map_page m COPY_WINDOW (dest AND NOT 0x1fffff) = Some m1"
      "copy_virtual m1 (COPY_WINDOW + ?o) (unat data) ?n = Some m2"
      "map_page m2 (unat data - ?o) (dest AND NOT 0x1fffff) = Some m3"
      "relocate_pages m3 (data + of_nat ?n) (dest + of_nat ?n) (len - ?n) = Some m'"
      using "1.prems" False by (subst (asm) relocate_pages.simps) (auto simp: Let_def elim!: bindE)
    have "paging m' = paging m3 \<and> cpu m' = cpu m3"
      by (rule "1.IH" [OF False refl refl m(1-4)])
    then show ?thesis
      using map_page_keeps [OF m(1)] copy_virtual_keeps [OF m(2)] map_page_keeps [OF m(3)] by simp
  qed
qed

lemma relocate_high_keeps:
  assumes "relocate_memory_high fuel bios s m data len = Some (Inr (start, m'))"
  shows "paging m' = paging m \<and> cpu m' = cpu m"
proof (cases "paging m")
  case True
  then obtain r where r: "iterate fuel (region_pass fuel bios (\<lambda>e. place_high e data len)) (False, s) = Some r"
    using assms by (auto simp: relocate_memory_high_def elim!: bindE)
  then obtain p where p: "r = Inr p" using assms True by (cases r) (simp_all add: relocate_memory_high_def)
  show ?thesis
  proof (cases p)
    case (At q)
    then obtain m1 where "relocate_pages m data q (unat len) = Some m1" "map_page m1 COPY_WINDOW (of_nat COPY_WINDOW) = Some m'"
      using assms True r p by (auto simp: relocate_memory_high_def elim!: bindE)
    then show ?thesis using relocate_pages_keeps map_page_keeps by metis
  qed (use assms True r p in \<open>simp_all add: relocate_memory_high_def\<close>)
qed (use assms in \<open>simp add: relocate_memory_high_def\<close>)

lemma init_paging_keeps:
  assumes "init_paging on addr m = Some m'" and "\<not> paging m" and "length (pd m) = 2048"
  shows "flat m' \<and> cpu m' = cpu m \<and> mem m' = mem m"
proof (cases on)
  case True
  obtain m1 where "init_paging True addr m = Some m1" "identity m1" "mem m1 = mem m"
    using init_paging_identity [OF assms(3), of addr] by blast
  moreover from this(1) have "cpu m1 = cpu m" by (auto simp: init_paging_def elim!: bindE dest: map_pages_keeps)
  ultimately show ?thesis using assms(1) True by (simp add: flat_def)
qed (use assms in \<open>simp add: init_paging_def flat_def\<close>)

section \<open>Up to the initrd's place\<close>

text \<open>
  The surroundings keep to their interfaces: a terminated command line, a BIOS that leaves the scratch
  memory its size, paging not yet in use, regions that do not wrap, and real-mode memory with the
  BIOS's data area.
\<close>

definition bios_ok :: "'w bios_system \<Rightarrow> bool" where
  "bios_ok sys \<longleftrightarrow> 0 \<in> set (cmdline_memory sys) \<and> keeps_scratch (disk_int13 sys) \<and>
     90 \<le> length (scratch (disk_bios sys)) \<and> \<not> paging (start_machine sys) \<and> length (pd (start_machine sys)) = 2048 \<and>
     (\<forall>ebx buf. good_region (reply_buf (memory_map sys ebx buf))) \<and>
     (\<forall>fw. INT13_DRIVE_COUNT < length (low (real_memory sys fw)))"

lemma bios_setup_safe:
  assumes "bios_ok sys"
  shows "\<exists>r. bios_setup fuel debug sys = Some r \<and> (\<forall>args fw m state initrd. r = Inr (Inr (args, fw, m, state, initrd)) \<longrightarrow>
    flat m \<and> (paging m \<longrightarrow> state = cpu (start_machine sys)) \<and> (\<not> paging m \<longrightarrow> cpu m = cpu (start_machine sys)) \<and>
    (\<forall>k < unat (initrd_length sys). mem m (unat initrd + k) = mem (start_machine sys) (unat (initrd_start sys) + k)))"
proof -
  note ok = assms [unfolded bios_ok_def]
  obtain r where r: "process_cmdline (length (cmdline_memory sys)) False (cmdline_memory sys) = Some (Inr r)"
    "\<And>mem args. r = Inr (mem, args) \<Longrightarrow> wf_args args"
    using process_cmdline_ok ok by blast
  show ?thesis
  proof (cases r)
    case (Inl e)
    then show ?thesis using r(1) by (simp add: bios_setup_def)
  next
    case (Inr p)
    obtain mem0 args where p: "p = (mem0, args)" by (cases p)
    then have wf: "search_args args" using r(2) Inr by (simp add: wf_args_def search_args_def)
    obtain fw where fw: "biosdisk_init (disk_bios sys) = Some fw" "length (scratch fw) = length (scratch (disk_bios sys))"
      using ok by (auto simp: biosdisk_init_def poke_def)
    have "90 \<le> length (scratch fw)" using ok fw(2) by linarith
    then obtain q where q: "biosdisk_iterate fuel debug (disk_int13 sys) args fw = Some (Inr q)"
      using disk_walk_safe wf ok by blast
    show ?thesis
    proof (cases q)
      case None
      then show ?thesis using r(1) Inr p fw(1) q by (simp add: bios_setup_def)
    next
      case (Some af)
      obtain args1 fw1 where af: "af = (args1, fw1)" by (cases af)
      obtain m1 where m1: "init_paging (has_pae sys) (pd_address sys) (start_machine sys) = Some m1"
        using ok init_paging_identity [of "start_machine sys" "pd_address sys"]
        by (cases "has_pae sys") (auto simp: init_paging_def)
      then have i: "flat m1" "cpu m1 = cpu (start_machine sys)" "mem m1 = mem (start_machine sys)"
        using init_paging_keeps ok by blast+
      obtain m2 state where e: "enable_paging (pdpt_address sys) m1 (start_state sys) = (m2, state)"
        by (cases "enable_paging (pdpt_address sys) m1 (start_state sys)")
      then have m2: "flat m2" "mem m2 = mem m1" "paging m2 \<longrightarrow> state = cpu m1" "\<not> paging m2 \<longrightarrow> cpu m2 = cpu m1"
        using i(1) by (auto simp: enable_paging_def Let_def flat_def identity_def maps_page_def split: if_splits)
      obtain z where z: "relocate_memory_low fuel (memory_map sys) (map_buffer sys) m2 (initrd_start sys) (initrd_length sys) = Some z"
        "\<And>start m'. z = Inr (start, m') \<Longrightarrow> (\<exists>f. m' = m2\<lparr>mem := f\<rparr>) \<and>
          (\<forall>k < unat (initrd_length sys). mem m' (unat start + k) = mem m2 (unat (initrd_start sys) + k))"
        using relocate_low_result by blast
      have "bios_setup fuel debug sys = Some (map_sum id (\<lambda>(initrd, m). Inr (args1, fw1, m, state, initrd)) z)"
        using r(1) Inr p fw(1) q Some af m1 e z(1) by (simp add: bios_setup_def)
      then show ?thesis using z(2) m2 i by (cases z) fastforce+
    qed
  qed
qed

section \<open>bootmgr in memory\<close>

text \<open>The memory from an address on, as the physical memory has it.\<close>

definition memory_at :: "machine \<Rightarrow> nat \<Rightarrow> nat \<Rightarrow> bytes" where
  "memory_at m a n = map (mem m) [a..<a + n]"

text \<open>The executable stands at its base: headers, sections, and the copy of the file at the end.\<close>

definition pe_in_memory ::
  "machine \<Rightarrow> nat \<Rightarrow> bytes \<Rightarrow> pe_optional_header \<Rightarrow> coff_section list \<Rightarrow> nat \<Rightarrow> bool" where
  "pe_in_memory m space data opt ss len \<longleftrightarrow>
     (let img = memory_at m (unat (image_base opt)) space
      in peek img 0 (unat (header_len opt)) = Some (take (unat (header_len opt)) data) \<and>
         list_all (section_loaded data img) ss \<and> peek img (len - length data) (length data) = Some data)"

lemma wanted_base_pe: "pe_image_of data = Some (opt, ss) \<Longrightarrow> wanted_base data = unat (image_base opt)"
  by (auto simp: pe_image_of_def wanted_base_def bind_eq_Some_conv split: if_splits)

lemma memory_at_stored: "length bs = n \<Longrightarrow> memory_at (m\<lparr>mem := overwritten a bs f\<rparr>) a n = bs"
  by (rule nth_equalityI) (simp_all add: memory_at_def overwritten_def)

lemma bios_load_pe_loads:
  assumes "flat m" and "pe_image_of data = Some (opt, ss)" and "image_fits data hi k opt ss"
    and "hi + 2 ^ k + length data \<le> space" and "unat (image_base opt) + space < 2 ^ 32"
  shows "\<exists>f pe. bios_load_pe space m data = Some (Inr (m\<lparr>mem := f\<rparr>, pe)) \<and>
    pe_in_memory (m\<lparr>mem := f\<rparr>) space data opt ss (unat (pe_len pe)) \<and> unat (pe_len pe) \<le> space \<and>
    pe_base pe = ucast (image_base opt) \<and> pe_entry pe = ucast (image_base opt) + ucast (entry_rva opt) \<and>
    (\<forall>a. a < unat (image_base opt) \<or> unat (image_base opt) + space \<le> a \<longrightarrow> f a = mem m a)"
proof -
  let ?a = "unat (image_base opt)"
  obtain bs where bs: "load_memory m ?a space = Some bs" "length bs = space"
    using load_memory_flat [OF assms(1), of ?a space] assms(5) by auto
  have "space < 2 ^ 64" using assms(5) by simp
  then obtain after pe where pe: "load_pe data bs = Some (Inr (after, pe))" "length after = space"
    "pe_base pe = ucast (image_base opt)" "pe_entry pe = ucast (image_base opt) + ucast (entry_rva opt)"
    "peek after 0 (unat (header_len opt)) = Some (take (unat (header_len opt)) data)"
    "list_all (section_loaded data after) ss"
    "peek after (unat (pe_len pe) - length data) (length data) = Some data"
    using pe_loads [OF assms(2,3), of bs] assms(4) bs(2) by auto
  let ?f = "overwritten ?a after (mem m)"
  have "bios_load_pe space m data = Some (Inr (m\<lparr>mem := ?f\<rparr>, pe))"
    using bs(1) pe(1,2) store_memory_flat [OF assms(1), of ?a after] assms(5) wanted_base_pe [OF assms(2)]
    by (simp add: bios_load_pe_def)
  moreover have "pe_in_memory (m\<lparr>mem := ?f\<rparr>) space data opt ss (unat (pe_len pe))"
    using pe(5-7) memory_at_stored [OF pe(2)] by (simp add: pe_in_memory_def)
  moreover have "unat (pe_len pe) \<le> space"
    using pe(2,7) by (auto simp: peek_def split: if_splits)
  ultimately show ?thesis using pe(2-4)
    by (intro exI [of _ ?f] exI [of _ pe]) (simp add: overwritten_def)
qed

lemma pe_in_memory_same:
  assumes "pe_in_memory m space data opt ss len"
    and "\<And>a. a < unat (image_base opt) + space \<Longrightarrow> mem m' a = mem m a"
  shows "pe_in_memory m' space data opt ss len"
proof -
  have "memory_at m' (unat (image_base opt)) space = memory_at m (unat (image_base opt)) space"
    using assms(2) by (simp add: memory_at_def)
  then show ?thesis using assms(1) by (simp add: pe_in_memory_def)
qed

section \<open>The boot\<close>

text \<open>
  bootmgr as it is entered: its entry point and the descriptors' base and length are the image's, the
  image stands in memory, the files of the virtual disk are the store and the archive's, the
  processor's registers are those the program found, the drive is the one behind the BIOS's and the
  BIOS counts it, and the archive, where it may have been moved to, still reads at its address when the
  callbacks enable paging again.
\<close>

definition entered ::
  "'w bios_system \<Rightarrow> 'w firmware \<Rightarrow> u32 \<Rightarrow> bytes \<Rightarrow> bytes \<Rightarrow> pe_optional_header \<Rightarrow> coff_section list \<Rightarrow> (bytes \<times> bytes) list \<Rightarrow>
     'w bios_run \<Rightarrow> bool"
where
  "entered sys fw initrd contents body opt ss gs r = (case r of
     Bios_dies e \<Rightarrow> False
   | Bios_enters entry app m real drv files \<Rightarrow>
       entry = image_base opt + entry_rva opt \<and> app_pe_base app = image_base opt \<and>
       pe_in_memory m (pe_room sys) body opt ss (unat (app_pe_len app)) \<and>
       files = file_table gs \<and> cpu m = cpu (start_machine sys) \<and>
       initialise_int13 (real_memory sys fw) = Some (drv, real) \<and>
       load_memory (fst (enable_paging (pdpt_address sys) m (start_state sys))) (unat initrd) (length contents) = Some contents)"

lemma ucast_back: "(ucast (ucast (w :: u32) :: u64) :: u32) = w"
  by (rule bit_word_eqI) (simp add: bit_simps)

lemma ucast_sum: "(ucast (ucast (a :: u32) + ucast (b :: u32) :: u64) :: u32) = a + b"
proof -
  have "(ucast (x + y :: u64) :: u32) = ucast x + ucast y" for x y
  proof transfer
    fix x y :: int
    have "take_bit 32 (take_bit 64 x + take_bit 64 y) = take_bit 32 (x + y)"
      using take_bit_add [of 32 "take_bit 64 x" "take_bit 64 y"] take_bit_add [of 32 x y] by (simp add: min_def)
    then show "take_bit LENGTH(32) (take_bit LENGTH(64) (x + y)) =
        take_bit LENGTH(32) (take_bit LENGTH(64) x + take_bit LENGTH(64) y)" by (simp add: min_def)
  qed
  then show ?thesis by (simp add: ucast_back)
qed

lemma moved_reads:
  assumes "moved_high bios m m' data len start" and "flat m" and "paging m" and "paging m' = paging m"
    and "unat data + unat len < 2 ^ 32" and "k < unat len"
  shows "map_option (mem m') (address m' (unat data + k)) = Some (mem m (unat data + k))"
proof -
  have "read_virtual m' (unat data + k) = read_virtual m (unat data + k)"
    using assms(1,6) by (auto simp: moved_high_def)
  moreover have "translate m (unat data + k) = Some (unat data + k)"
    using assms(2,3,5,6) identity_translate [of m "unat data + k"] by (simp add: flat_def)
  ultimately show ?thesis using assms(3,4) by (simp add: read_virtual_def address_def)
qed

text \<open>The last steps, from the loaded executable on.\<close>

lemma relocate_high_enters:
  assumes "bios_ok sys" and "flat m" and "paging m \<longrightarrow> state = cpu (start_machine sys)"
    and "\<not> paging m \<longrightarrow> cpu m = cpu (start_machine sys)"
    and "fits_32 initrd (initrd_length sys)"
    and "\<forall>k < unat (initrd_length sys). mem m (unat initrd + k) = contents ! k"
    and "length contents = unat (initrd_length sys)"
    and "pe_in_memory m (pe_room sys) body opt ss (unat (pe_len pe))" and "unat (image_base opt) + pe_room sys < 2 ^ 32"
  shows "\<exists>r. relocate_memory_high fuel (memory_map sys) (map_buffer sys) m initrd (initrd_length sys) = Some r \<and>
    (\<forall>phys m1. r = Inr (phys, m1) \<longrightarrow>
       (let m2 = disable_paging m1 state in cpu m2 = cpu (start_machine sys) \<and>
          pe_in_memory m2 (pe_room sys) body opt ss (unat (pe_len pe)) \<and>
          load_memory (fst (enable_paging (pdpt_address sys) m2 (start_state sys))) (unat initrd) (length contents) = Some contents))"
proof -
  have lim: "unat initrd + unat (initrd_length sys) < 2 ^ 32" using assms(5) by (simp add: fits_32_def)
  have step: "cpu m2 = cpu (start_machine sys) \<and> pe_in_memory m2 (pe_room sys) body opt ss (unat (pe_len pe)) \<and>
      load_memory (fst (enable_paging (pdpt_address sys) m2 (start_state sys))) (unat initrd) (length contents) = Some contents"
    if keep: "paging m1 = paging m" "cpu m1 = cpu m" and low: "\<And>a. a < 2 ^ 32 - 1 \<Longrightarrow> mem m1 a = mem m a"
      and data: "\<And>k. k < unat (initrd_length sys) \<Longrightarrow>
        map_option (mem m1) (address m1 (unat initrd + k)) = Some (mem m (unat initrd + k))"
      and m2: "m2 = disable_paging m1 state" for m1 m2
  proof -
    have "mem m2 = mem m1" "cpu m2 = cpu (start_machine sys)"
      using keep assms(3,4) m2 by (auto simp: disable_paging_def Let_def)
    moreover have "pe_in_memory m2 (pe_room sys) body opt ss (unat (pe_len pe))"
      using pe_in_memory_same [OF assms(8), of m2] low \<open>mem m2 = mem m1\<close> assms(9) by simp
    moreover have "mem (fst (enable_paging p m2 st)) = mem m1 \<and> address (fst (enable_paging p m2 st)) = address m1" for p st
      using m2 by (auto simp: enable_paging_def disable_paging_def Let_def address_def translate_def fun_eq_iff)
    then have "load_memory (fst (enable_paging p m2 st)) (unat initrd) (length contents) = Some contents" for p st
      using data assms(6,7) by (intro load_memory_at) simp_all
    ultimately show ?thesis by blast
  qed
  show ?thesis
  proof (cases "paging m")
    case False
    have "address m (unat initrd + k) = Some (unat initrd + k)" for k using False by (simp add: address_def)
    then show ?thesis using False step [of m "disable_paging m state"] by (simp add: relocate_memory_high_def Let_def)
  next
    case True
    then have i: "identity m" using assms(2) by (simp add: flat_def)
    have good: "\<forall>ebx buf. good_region (reply_buf (memory_map sys ebx buf))" using assms(1) by (simp add: bios_ok_def)
    obtain r where r: "relocate_memory_high fuel (memory_map sys) (map_buffer sys) m initrd (initrd_length sys) = Some r"
      "case r of Inl _ \<Rightarrow> True | Inr (start, m') \<Rightarrow> m' = m \<and> start = scast initrd \<or>
        moved_high (memory_map sys) m m' initrd (initrd_length sys) start"
      using relocate_high_moves [OF i assms(5) good] by blast
    have "let m2 = disable_paging m1 state in cpu m2 = cpu (start_machine sys) \<and>
          pe_in_memory m2 (pe_room sys) body opt ss (unat (pe_len pe)) \<and>
          load_memory (fst (enable_paging (pdpt_address sys) m2 (start_state sys))) (unat initrd) (length contents) = Some contents"
      if eq: "r = Inr (phys, m1)" for phys m1
    proof -
      have keep: "paging m1 = paging m" "cpu m1 = cpu m" using relocate_high_keeps r(1) eq by blast+
      consider (stay) "m1 = m" | (high) "moved_high (memory_map sys) m m1 initrd (initrd_length sys) phys" using r(2) eq by auto
      then have both: "(\<forall>a < 2 ^ 32 - 1. mem m1 a = mem m a) \<and> (\<forall>k < unat (initrd_length sys).
          map_option (mem m1) (address m1 (unat initrd + k)) = Some (mem m (unat initrd + k)))"
      proof cases
        case stay
        then show ?thesis using flat_address [OF assms(2)] lim by simp
      next
        case high
        then have "mem m1 a = mem m a" if "a < 2 ^ 32 - 1" for a using that unfolding moved_high_def by simp
        then show ?thesis using moved_reads [OF high assms(2) True keep(1) lim] by blast
      qed
      show ?thesis unfolding Let_def
      proof (rule step [OF keep _ _ refl])
        show "mem m1 a = mem m a" if "a < 2 ^ 32 - 1" for a using both that by blast
        show "map_option (mem m1) (address m1 (unat initrd + k)) = Some (mem m (unat initrd + k))"
          if "k < unat (initrd_length sys)" for k using both that by blast
      qed
    qed
    then show ?thesis using r(1) by blast
  qed
qed


lemma bios_setup_initrd:
  assumes "bios_setup fuel debug sys = Some (Inr (Inr (args, fw, m, state, initrd)))"
  shows "\<exists>m2. relocate_memory_low fuel (memory_map sys) (map_buffer sys) m2 (initrd_start sys) (initrd_length sys) =
    Some (Inr (initrd, m))"
proof -
  obtain r where r: "process_cmdline (length (cmdline_memory sys)) False (cmdline_memory sys) = Some (Inr (Inr r))"
    using assms unfolding bios_setup_def by (auto elim!: bindE split: sum.split_asm)
  obtain cmd args0 where c: "r = (cmd, args0)" by (cases r)
  obtain fw0 where fw: "biosdisk_init (disk_bios sys) = Some fw0" using assms r c by (auto simp: bios_setup_def elim!: bindE)
  obtain args1 fw1 where i: "biosdisk_iterate fuel debug (disk_int13 sys) args0 fw0 = Some (Inr (Some (args1, fw1)))"
    using assms r c fw by (auto simp: bios_setup_def elim!: bindE split: sum.split_asm option.split_asm)
  obtain m1 where m1: "init_paging (has_pae sys) (pd_address sys) (start_machine sys) = Some m1"
    using assms r c fw i by (auto simp: bios_setup_def elim!: bindE)
  obtain m2 s2 where e: "enable_paging (pdpt_address sys) m1 (start_state sys) = (m2, s2)"
    by (cases "enable_paging (pdpt_address sys) m1 (start_state sys)")
  obtain z where "relocate_memory_low fuel (memory_map sys) (map_buffer sys) m2 (initrd_start sys) (initrd_length sys) = Some z"
    using assms r c fw i m1 e by (auto simp: bios_setup_def elim!: bindE)
  then show ?thesis using assms r c fw i m1 e by (cases z) (auto simp: bios_setup_def)
qed

text \<open>A BIOS without disks and with the regions above; the archive has the executable above, at 2046MB.\<close>

definition bios_entry :: "u32 \<times> bytes \<times> bytes" where
  "bios_entry = (0x81a4, map of_char ''bootmgr.exe'', some_pe)"

definition some_bios :: "unit bios_system" where
  "some_bios = \<lparr>
     cmdline_memory = map of_char ''testmode=yes'' @ [0], disk_int13 = no_disks,
     disk_bios = \<lparr>scratch = replicate 65536 0, hidden = ()\<rparr>,
     real_memory = (\<lambda>_. \<lparr>low = replicate 0x500 0, world = ()\<rparr>),
     memory_map = small_bios, map_buffer = (empty_entry, 0), has_pae = True, pd_address = 0x30000,
     pdpt_address = 0x2f000,
     start_machine = bare_machine\<lparr>mem := overwritten 0x7fe01000 (archive [bios_entry]) (\<lambda>_. 0)\<rparr>,
     start_state = \<lparr>cr0 = 0, cr3 = 0, cr4 = 0\<rparr>, initrd_start = 0x7fe01000,
     initrd_length = of_nat (length (archive [bios_entry])), pe_room = 600, own_start = 0x8000, own_end = 0x30000,
     callback_address = 0x9000\<rparr>"


section \<open>The descriptors\<close>

text \<open>The offsets in the first descriptor lead to the others, and its length is that of them all.\<close>

lemma bootapps_layout:
  assumes "app_regions app = [a, b, c]"
  shows "length (bootapps callback app) = 460"
    and "get32 (bootapps callback app) 12 = Some 460"
    and "get32 (bootapps callback app) 36 = Some 60"
    and "peek (bootapps callback app) 60 20 = Some (bootapp_memory_descriptor (app_num_regions app))"
    and "peek (bootapps callback app) 80 120 = Some (bootapp_memory_region a @ bootapp_memory_region b @ bootapp_memory_region c)"
    and "get32 (bootapps callback app) 40 = Some 200" and "peek (bootapps callback app) 200 44 = Some bootapp_entry_descriptor"
    and "get32 (bootapps callback app) 44 = Some 354" and "peek (bootapps callback app) 354 70 = Some bootapp_entry_wtf3_descriptor"
    and "get32 (bootapps callback app) 48 = Some 424" and "get32 (bootapps callback app) 424 = Some callback"
    and "get32 (bootapps callback app) 52 = Some 432" and "get32 (bootapps callback app) 432 = Some BOOTAPP_POINTLESS_VERSION"
proof -
  have l: "length (bootapp_descriptor x y) = 60" "length (bootapp_memory_descriptor n) = 20"
    "length (bootapp_memory_region r) = 40" "length bootapp_entry_descriptor = 44"
    "length bootapp_entry_wtf1_descriptor = 24" "length bootapp_entry_wtf2_descriptor = 16"
    "length bootapp_entry_wtf3_descriptor = 70" for x y n r
    by (simp_all add: bootapp_descriptor_def BOOTAPP_SIGNATURE_def bootapp_memory_descriptor_def
        bootapp_memory_region_def bootapp_entry_descriptor_def BOOTAPP_ENTRY_SIGNATURE_def
        bootapp_entry_wtf1_descriptor_def bootapp_entry_wtf2_descriptor_def bootapp_entry_wtf3_descriptor_def
        split: prod.split)
  have all: "bootapps callback app = bootapp_descriptor (app_pe_base app) (app_pe_len app) @
      bootapp_memory_descriptor (app_num_regions app) @ bootapp_memory_region a @ bootapp_memory_region b @
      bootapp_memory_region c @ bootapp_entry_descriptor @ bootapp_entry_wtf1_descriptor @ bootapp_entry_wtf2_descriptor @
      bootapp_entry_wtf3_descriptor @ bootapp_entry_wtf3_descriptor @ le_bytes 4 callback @ replicate 4 0 @
      le_bytes 4 BOOTAPP_POINTLESS_VERSION @ replicate 24 0"
    using assms by (simp add: bootapps_def)
  show "length (bootapps callback app) = 460" by (simp add: all l)
  have d: "get32 (bootapps callback app) n = get32 (bootapp_descriptor (app_pe_base app) (app_pe_len app)) n" if "n + 4 \<le> 60" for n
    using that by (simp add: get32_def peek_def all l)
  show "get32 (bootapps callback app) 12 = Some 460" "get32 (bootapps callback app) 36 = Some 60"
    "get32 (bootapps callback app) 40 = Some 200" "get32 (bootapps callback app) 44 = Some 354"
    "get32 (bootapps callback app) 48 = Some 424" "get32 (bootapps callback app) 52 = Some 432"
    by (subst d, simp, simp add: bootapp_descriptor_def BOOTAPP_SIGNATURE_def get32_def peek_def le_word_le_bytes)+
  show "peek (bootapps callback app) 60 20 = Some (bootapp_memory_descriptor (app_num_regions app))"
    "peek (bootapps callback app) 80 120 = Some (bootapp_memory_region a @ bootapp_memory_region b @ bootapp_memory_region c)"
    "peek (bootapps callback app) 200 44 = Some bootapp_entry_descriptor"
    "peek (bootapps callback app) 354 70 = Some bootapp_entry_wtf3_descriptor"
    by (simp_all add: peek_def all l)
  show "get32 (bootapps callback app) 424 = Some callback"
    "get32 (bootapps callback app) 432 = Some BOOTAPP_POINTLESS_VERSION"
    by (simp_all add: get32_def peek_def all l le_word_le_bytes)
qed

text \<open>
  Above 2GB addresses are negative numbers: the page number of 2GB is not 0x80000, and an initrd that
  stays there is taken to lie above 4GB, so that its region is left out of the memory descriptor.
\<close>

lemma page_start_high: "page_start 0x80000000 = 0xfff80000"
  by code_simp

lemma high_initrd_left_out:
  assumes "relocate_memory_high fuel bios s m 0x80000000 len = Some (Inr (phys, m))" and "\<not> paging m"
  shows "app_num_regions (boot_app_of sys pe 0x80000000 phys) = 2"
proof -
  have "phys = scast (0x80000000 :: u32)" using assms by (simp add: relocate_memory_high_def)
  moreover have "ADDR_4GB \<le> scast (0x80000000 :: u32)" by code_simp
  ultimately show ?thesis by (simp add: boot_app_of_def Let_def NUM_REGIONS_def)
qed

end
