(* ===== verification/Console.thy ===== *)
theory Console
  imports Biosdisk
begin

text \<open>
  The services the program calls without being asked for a result: the console (\<^verbatim>\<open>posix/stdio.c\<close>, the
  console variants of \<^verbatim>\<open>posix/vsprintf.c\<close>), fatal errors (\<^verbatim>\<open>kern/die.c\<close>), the stack cookie
  (\<^verbatim>\<open>kern/cookie.c\<close>) and the firmware's allocators (\<^verbatim>\<open>kern/efi.c\<close>).
\<close>

section \<open>The console\<close>

text \<open>
  The firmware is a record of functions on its state; \<open>on_efi\<close> says which one the program found. A reset
  of the system either happens, in a last state, or comes back. The debug port is one of the machines the
  code is built for; on others it does nothing.
\<close>

record 'w services =
  on_efi :: bool
  debug_port :: "byte \<Rightarrow> 'w \<Rightarrow> 'w"
  interrupt_call :: "regs \<Rightarrow> 'w \<Rightarrow> regs \<times> 'w"
  output_string :: "u16 list \<Rightarrow> 'w \<Rightarrow> 'w"
  read_key :: "'w \<Rightarrow> u16 \<times> 'w"
  reset_system :: "'w \<Rightarrow> 'w + 'w"
  reboot :: "'w \<Rightarrow> 'w"

definition teletype :: "u32 \<Rightarrow> regs" where
  "teletype c = no_regs\<lparr>interrupt := 0x10, eax := 0x0e00 OR c, ebx := 7\<rparr>"

definition put_one :: "'w services \<Rightarrow> u32 \<Rightarrow> 'w \<Rightarrow> 'w" where
  "put_one sv c w =
     (let w = debug_port sv (ucast c) w
      in if on_efi sv then output_string sv [ucast c, 0] w else snd (interrupt_call sv (teletype c) w))"

function putchar :: "'w services \<Rightarrow> u32 \<Rightarrow> 'w \<Rightarrow> 'w" where
  "putchar sv c w = put_one sv c (if c = 10 then putchar sv 13 w else w)"
  by pat_completeness auto
termination
  by (relation "measure (\<lambda>(_, c, _). if c = 10 then 1 else 0)") simp_all

declare putchar.simps [simp del]

definition getchar :: "'w services \<Rightarrow> 'w \<Rightarrow> u32 \<times> 'w" where
  "getchar sv w =
     (if on_efi sv then map_prod ucast id (read_key sv w)
      else map_prod (\<lambda>r. eax r AND 0xff) id (interrupt_call sv (no_regs\<lparr>interrupt := 0x16\<rparr>) w))"

text \<open>The characters of a format reach the console one by one; the length is that of all of them.\<close>

definition vprintf :: "'w services \<Rightarrow> nat list \<Rightarrow> bytes \<Rightarrow> arg list \<Rightarrow> 'w \<Rightarrow> (nat \<times> 'w) option" where
  "vprintf sv sizes fmt args w = do {
     cs \<leftarrow> vcprintf sizes fmt args;
     Some (length cs, fold (putchar sv) cs w) }"

section \<open>Fatal errors\<close>

text \<open>
  The outcome is the state the system is reset in. A reset that comes back leads to the end of the
  function, which must not be reached.
\<close>

definition die :: "'w services \<Rightarrow> nat list \<Rightarrow> bytes \<Rightarrow> arg list \<Rightarrow> 'w \<Rightarrow> 'w option" where
  "die sv sizes fmt args w = do {
     (_, w) \<leftarrow> vprintf sv sizes fmt args w;
     (_, w) \<leftarrow> vprintf sv sizes (map of_char ''Press a key to reboot...'' @ [0]) [] w;
     let (_, w) = getchar sv w;
     (_, w) \<leftarrow> vprintf sv sizes [10, 0] [] w;
     if on_efi sv then
       (case reset_system sv w of
          Inl w \<Rightarrow> Some w
        | Inr w \<Rightarrow> do {
            (_, w) \<leftarrow> vprintf sv sizes (map of_char ''Failed to reboot'' @ [10, 0]) [] w;
            None })
     else Some (reboot sv w) }"

text \<open>The cookie is made of a time stamp; a copy that runs over it stops at its first byte.\<close>

definition make_cookie :: "'a::len word \<Rightarrow> 'a word" where
  "make_cookie raw = push_bit 8 raw"

definition stack_chk_fail :: "'w services \<Rightarrow> nat list \<Rightarrow> 'w \<Rightarrow> 'w option" where
  "stack_chk_fail sv sizes w = die sv sizes (map of_char ''Stack check failed'' @ [10, 0]) [] w"

section \<open>Allocation\<close>

text \<open>The firmware delivers a status and an address. \<open>Inl\<close> is the end of the program.\<close>

record 'w allocator =
  allocate_pool :: "u64 \<Rightarrow> 'w \<Rightarrow> (u64 \<times> u64) \<times> 'w"
  free_pool :: "u64 \<Rightarrow> 'w \<Rightarrow> 'w"
  allocate_pages :: "u64 \<Rightarrow> u32 \<Rightarrow> 'w \<Rightarrow> (u64 \<times> u64) \<times> 'w"
  free_pages :: "u64 \<Rightarrow> u64 \<Rightarrow> 'w \<Rightarrow> 'w"

definition no_memory :: "'w services \<Rightarrow> nat list \<Rightarrow> 'w \<Rightarrow> 'w option" where
  "no_memory sv sizes w = die sv sizes (map of_char ''Could not allocate memory.'' @ [10, 0]) [] w"

definition efi_malloc :: "'w services \<Rightarrow> nat list \<Rightarrow> 'w allocator \<Rightarrow> u64 \<Rightarrow> 'w \<Rightarrow> ('w + u64 \<times> 'w) option" where
  "efi_malloc sv sizes al n w =
     (let ((efirc, ptr), w) = allocate_pool al n w
      in if efirc \<noteq> 0 \<or> ptr = 0 then map_option Inl (no_memory sv sizes w) else Some (Inr (ptr, w)))"

definition efi_free :: "'w allocator \<Rightarrow> u64 \<Rightarrow> 'w \<Rightarrow> 'w" where
  "efi_free al ptr w = free_pool al ptr w"

definition efi_allocate_pages ::
  "'w services \<Rightarrow> nat list \<Rightarrow> 'w allocator \<Rightarrow> u64 \<Rightarrow> u32 \<Rightarrow> 'w \<Rightarrow> ('w + u64 \<times> 'w) option" where
  "efi_allocate_pages sv sizes al pages type w =
     (let ((efirc, addr), w) = allocate_pages al pages type w
      in if efirc \<noteq> 0 then map_option Inl (no_memory sv sizes w) else Some (Inr (addr, w)))"

definition efi_free_pages :: "'w allocator \<Rightarrow> u64 \<Rightarrow> u64 \<Rightarrow> 'w \<Rightarrow> 'w" where
  "efi_free_pages al ptr pages w = free_pages al ptr pages w"


section \<open>What reaches the console\<close>

text \<open>Every line feed has a carriage return before it, and nothing else is added or lost.\<close>

definition crlf :: "u32 list \<Rightarrow> u32 list" where
  "crlf cs = concat (map (\<lambda>c. if c = 10 then [13, 10] else [c]) cs)"

lemma putchar_crlf: "putchar sv c w = fold (put_one sv) (crlf [c]) w"
  by (simp add: putchar.simps [of sv 10] putchar.simps [of sv 13] putchar.simps [of sv c] crlf_def)

lemma printed: "fold (putchar sv) cs w = fold (put_one sv) (crlf cs) w"
proof (induction cs arbitrary: w)
  case (Cons c cs)
  then show ?case by (simp add: putchar_crlf) (simp add: crlf_def)
qed (simp add: crlf_def)

lemma vcprintf_plain: "0 \<notin> set s \<Longrightarrow> 37 \<notin> set s \<Longrightarrow> vcprintf sizes (s @ [0]) args = Some (map scast s)"
  by (induction s) (auto simp: vcprintf.simps)

lemma vprintf_calls:
  assumes "vcprintf sizes fmt args = Some cs" and "\<not> on_efi sv" and "\<And>b w. debug_port sv b w = w"
  shows "vprintf sv sizes fmt args w = Some (length cs, fold (\<lambda>c w. snd (interrupt_call sv (teletype c) w)) (crlf cs) w)"
proof -
  have "put_one sv = (\<lambda>c w. snd (interrupt_call sv (teletype c) w))"
    using assms(2,3) by (intro ext) (simp add: put_one_def)
  then show ?thesis using assms(1) by (simp add: vprintf_def printed)
qed

text \<open>
  A character above 0x7f is a negative \<^verbatim>\<open>char\<close>: its sign reaches the upper half of \<^verbatim>\<open>ax\<close>, and the BIOS is
  asked for function 0xff instead of the output of a character.
\<close>

lemma teletype_bytes:
  "eax (teletype (scast (b :: byte))) = (if b \<le> 0x7f then 0x0e00 + ucast b else 0xffffff00 + ucast b)"
proof -
  have "\<forall>n \<in> set [0..<256]. eax (teletype (scast (of_nat n :: byte))) =
      (if (of_nat n :: byte) \<le> 0x7f then 0x0e00 + of_nat n else 0xffffff00 + of_nat n)"
    by code_simp
  from bspec [OF this, of "unat b"] show ?thesis using unat_bound [of b] by simp
qed

text \<open>On a BIOS a fatal error ends in a reboot. On EFI a reset that comes back leads behind the end of the function.\<close>

lemma vprintf_some: "vcprintf sizes fmt args = Some cs \<Longrightarrow> \<exists>n w'. vprintf sv sizes fmt args w = Some (n, w')"
  by (simp add: vprintf_def)

lemma literal_printed:
  assumes "\<forall>c \<in> set s. c \<noteq> 0 \<and> c \<noteq> 37"
  obtains n w' where "vprintf sv sizes (s @ [0]) [] w = Some (n, w')"
  using assms vprintf_some [OF vcprintf_plain [of s]] by fastforce

lemma bind_lost: "Option.bind x (\<lambda>(_, w). None) = None"
  by (cases x) auto

lemma die_ends:
  assumes "vcprintf sizes fmt args = Some cs"
  shows "\<exists>w'. die sv sizes fmt args w =
     (if on_efi sv then (case reset_system sv w' of Inl w \<Rightarrow> Some w | Inr w \<Rightarrow> None) else Some (reboot sv w'))"
proof -
  have prompt: "\<forall>c \<in> set (map of_char ''Press a key to reboot...'' :: bytes). c \<noteq> 0 \<and> c \<noteq> 37" by code_simp
  obtain n1 w1 where 1: "vprintf sv sizes fmt args w = Some (n1, w1)" using vprintf_some [OF assms, of sv w] by blast
  obtain n2 w2 where 2: "vprintf sv sizes (map of_char ''Press a key to reboot...'' @ [0]) [] w1 = Some (n2, w2)"
    by (rule literal_printed [OF prompt])
  obtain c w3 where 3: "getchar sv w2 = (c, w3)" by (cases "getchar sv w2")
  obtain n4 w4 where 4: "vprintf sv sizes [10, 0] [] w3 = Some (n4, w4)"
    using literal_printed [of "[10]" sv sizes w3] by auto
  show ?thesis
    by (intro exI [of _ w4])
       (simp add: die_def 1 2 3 4 bind_lost del: map_append list.map split: sum.split)
qed

lemma cookie_low_byte: "8 \<le> LENGTH('a) \<Longrightarrow> take_bit 8 (make_cookie (raw :: 'a::len word)) = 0"
  by (rule bit_word_eqI) (auto simp: make_cookie_def bit_simps)

end
