(* ===== verification/Regview.thy ===== *)
theory Regview
  imports RegLookup Charset
begin

text \<open>
  The viewer of registry hives (\<^verbatim>\<open>utils/regview.c\<close>): the keys and values of one key, and where its
  buffers are too small.
\<close>

definition MAX_REG_NAME :: nat where "MAX_REG_NAME = 256"

text \<open>What is printed, line by line.\<close>

datatype view_line = Root_line u32 | Key_line bytes | Value_line bytes u32

text \<open>\<open>wkey\<close> and the other arrays hold anything at first.\<close>

definition get_hkey :: "u16 list \<Rightarrow> hive \<Rightarrow> hkey \<Rightarrow> bytes \<Rightarrow> hkey reg" where
  "get_hkey wkey h parent name = do {
     ws \<leftarrow> utf8_to_ucs2 MAX_REG_NAME name;
     wkey \<leftarrow> poke wkey 0 (ws @ [0]);
     reg_find_key h parent wkey }"

definition name_text :: "u16 list \<Rightarrow> bytes \<Rightarrow> (bytes \<times> bytes) option" where
  "name_text wname name = do {
     bs \<leftarrow> ucs2_to_utf8 wname MAX_REG_NAME;
     name \<leftarrow> poke name 0 (bs @ [0]);
     Some (name, takeWhile (\<lambda>c. c \<noteq> 0) name) }"

text \<open>One entry; the state is the index, the two arrays and what has been printed.\<close>

type_synonym view = "nat \<times> u16 list \<times> bytes \<times> view_line list"

definition view_entry ::
  "(bytes \<Rightarrow> view_line) \<Rightarrow> reg_err \<Rightarrow> nat \<Rightarrow> u16 list \<Rightarrow> bytes \<Rightarrow> view_line list \<Rightarrow> (view + view) option" where
  "view_entry line err i wname name out = do {
     c \<leftarrow> rd wname 0;
     (name, out) \<leftarrow>
       (if c = 0 then Some (name, out)
        else do {
          (name, shown) \<leftarrow> name_text wname name;
          Some (name, out @ [line shown]) });
     let s = (i + 1, wname, name, out);
     Some (if err = REG_ERR_NONE then Inl s else Inr s) }"

definition key_pass :: "hive \<Rightarrow> hkey \<Rightarrow> view \<Rightarrow> (view + view) option" where
  "key_pass h key = (\<lambda>(i, wname, name, out). do {
     wname \<leftarrow> wr wname 0 0;
     (err, wname) \<leftarrow> reg_enum_keys h key i wname MAX_REG_NAME;
     view_entry Key_line err i wname name out })"

text \<open>A value whose type was not delivered has no name either.\<close>

definition value_pass :: "hive \<Rightarrow> hkey \<Rightarrow> view \<Rightarrow> (view + view) option" where
  "value_pass h key = (\<lambda>(i, wname, name, out). do {
     wname \<leftarrow> wr wname 0 0;
     (err, wname, value_type) \<leftarrow> reg_enum_values h key i wname MAX_REG_NAME;
     view_entry (\<lambda>shown. Value_line shown (case value_type of Some t \<Rightarrow> t | None \<Rightarrow> 0)) err i wname name out })"

definition print_keys ::
  "nat \<Rightarrow> hive \<Rightarrow> hkey \<Rightarrow> u16 list \<Rightarrow> bytes \<Rightarrow> view_line list \<Rightarrow> (unit + view_line list) option" where
  "print_keys fuel h key wname name out = do {
     r \<leftarrow> iterate fuel (key_pass h key) (0, wname, name, out);
     (case r of
        Inl _ \<Rightarrow> Some (Inl ())
      | Inr (_, wname, name, out) \<Rightarrow> do {
          r \<leftarrow> iterate fuel (value_pass h key) (0, wname, name, out);
          Some (case r of Inl _ \<Rightarrow> Inl () | Inr (_, _, _, out) \<Rightarrow> Inr out) }) }"

text \<open>The program: a file that cannot be read, or is empty, ends it, as a hive that is not well-formed does.\<close>

datatype regview_error = Bad_arguments | No_file | Not_opened | Key_not_found

definition load_regf :: "(bytes \<Rightarrow> bytes option) \<Rightarrow> bytes \<Rightarrow> bytes option" where
  "load_regf read path = (case read path of None \<Rightarrow> None | Some data \<Rightarrow> if data = [] then None else Some data)"

definition regview ::
  "nat \<Rightarrow> (bytes \<Rightarrow> bytes option) \<Rightarrow> bytes list \<Rightarrow> u16 list \<Rightarrow> u16 list \<Rightarrow> bytes \<Rightarrow>
     (unit + (regview_error + view_line list)) option" where
  "regview fuel read args wkey wname name =
     (case args of
        [] \<Rightarrow> Some (Inr (Inl Bad_arguments))
      | regf # more \<Rightarrow>
          (case load_regf read regf of
             None \<Rightarrow> Some (Inr (Inl No_file))
           | Some data \<Rightarrow> do {
               r \<leftarrow> reg_open_hive fuel data;
               (case r of
                  Inl _ \<Rightarrow> Some (Inl ())
                | Inr (err, h) \<Rightarrow>
                    if err \<noteq> REG_ERR_NONE then Some (Inr (Inl Not_opened))
                    else do {
                      root \<leftarrow> reg_find_root h;
                      (case more of
                         [] \<Rightarrow> map_option (map_sum id Inr) (print_keys fuel h root wname name [Root_line root])
                       | p # _ \<Rightarrow> do {
                           r \<leftarrow> get_hkey wkey h root p;
                           (case r of
                              Inl _ \<Rightarrow> Some (Inr (Inl Key_not_found))
                            | Inr key \<Rightarrow>
                                map_option (map_sum id Inr) (print_keys fuel h key wname name [Root_line root])) }) }) }))"

section \<open>The buffers\<close>

text \<open>
  The conversion takes all 256 elements of the array, whatever the length of the name in it: unless it
  meets a surrogate, it writes at least 256 bytes, and the terminator lies behind the buffer.
\<close>

lemma converted_length:
  assumes "ucs2_to_utf8 ws n = Some bs" and "\<forall>w \<in> set (take n ws). \<not> (0xD800 \<le> w \<and> w \<le> 0xDFFF)"
  shows "n \<le> length bs"
  using assms
proof (induction ws n arbitrary: bs rule: ucs2_to_utf8.induct)
  case (3 w src n)
  then show ?case by (fastforce split: if_splits)
qed simp_all

lemma name_text_overruns:
  assumes "length name = MAX_REG_NAME" and "\<forall>w \<in> set (take MAX_REG_NAME wname). \<not> (0xD800 \<le> w \<and> w \<le> 0xDFFF)"
  shows "name_text wname name = None"
proof (cases "ucs2_to_utf8 wname MAX_REG_NAME")
  case (Some bs)
  have "\<not> length bs + 1 \<le> length name" using converted_length [OF Some assms(2)] assms(1) by simp
  then show ?thesis using Some by (simp add: name_text_def poke_def)
qed (simp add: name_text_def)

text \<open>So listing a key that has a subkey overruns the buffer with the first one.\<close>

theorem print_keys_overruns:
  assumes "length wname = MAX_REG_NAME" and "length name = MAX_REG_NAME"
    and "reg_enum_keys h key 0 (wname[0 := 0]) MAX_REG_NAME = Some (err, found)" and "rd found 0 = Some c" and "c \<noteq> 0"
    and "\<forall>w \<in> set found. \<not> (0xD800 \<le> w \<and> w \<le> 0xDFFF)"
  shows "print_keys (Suc fuel) h key wname name out = None"
proof -
  have "wr wname 0 0 = Some (wname[0 := 0])" using assms(1) by (simp add: wr_def MAX_REG_NAME_def)
  moreover have "name_text found name = None"
    using name_text_overruns assms(2,6) by (meson in_set_takeD)
  ultimately have "key_pass h key (0, wname, name, out) = None"
    using assms(3-5) by (simp add: key_pass_def view_entry_def)
  then show ?thesis by (simp add: print_keys_def iterate_fault)
qed

text \<open>A path of at least 256 characters fills the array of the key's path, and its terminator lies behind it.\<close>

lemma decode_plain:
  assumes "\<forall>w \<in> set ws. w \<noteq> 0 \<and> w \<le> 0x7F"
  shows "utf8_to_ucs2 (length ws) (map ucast ws @ rest) = map_option ((@) ws) (utf8_to_ucs2 0 rest)"
  using assms
proof (induction ws)
  case Nil
  then show ?case by (cases "utf8_to_ucs2 0 rest") simp_all
next
  case (Cons w ws)
  then show ?case using decode_unit1 [of w "length ws" "map ucast ws @ rest"]
    by (cases "utf8_to_ucs2 0 rest") simp_all
qed

lemma get_hkey_overruns:
  assumes "\<forall>w \<in> set (ws :: u16 list). w \<noteq> 0 \<and> w \<le> 0x7F" and "length ws = MAX_REG_NAME" and "length wkey = MAX_REG_NAME"
  shows "get_hkey wkey h parent (map ucast ws @ rest) = None"
  using assms(2,3) decode_plain [OF assms(1), of rest]
  by (cases "utf8_to_ucs2 0 rest") (simp_all add: get_hkey_def poke_def)

end
