(* ===== verification/Bin2c.thy ===== *)
theory Bin2c
  imports Printf
begin

text \<open>
  The build's conversion of a file into an array of the C language (\<^verbatim>\<open>utils/bin2c.c\<close>), and that the array
  read back is the file.
\<close>

text \<open>The formats of \<^verbatim>\<open>fprintf\<close> that the tool uses: a byte with two digits, and a signed number.\<close>

definition byte_text :: "byte \<Rightarrow> bytes" where
  "byte_text b = [48, 120, hex_char (ucast (drop_bit 4 b)) OR 0x20, hex_char (ucast (b AND 15)) OR 0x20]"

definition int_text :: "u32 \<Rightarrow> bytes" where
  "int_text n = (if sint n < 0 then 45 # dec_list (word_of_int (- sint n)) else dec_list (ucast n))"

fun array_items :: "bool \<Rightarrow> nat \<Rightarrow> bytes \<Rightarrow> bytes" where
  "array_items need_comma i [] = []"
| "array_items need_comma i (b # buf) =
     (if need_comma then [44, 32] else []) @ (if i mod 11 = 0 then [10, 32, 32] else []) @ byte_text b @
     array_items True (i + 1) buf"

datatype bin2c_error = Bad_usage | Cannot_read | Read_failed

text \<open>
  The arguments are the names of the files, of the array and, perhaps, an attribute. The size is a 32-bit
  number, and a file of size 0 counts as one that cannot be read. The result is the output's name and text.
\<close>

definition bin2c :: "(bytes \<Rightarrow> bytes option) \<Rightarrow> bytes list \<Rightarrow> bin2c_error + bytes \<times> bytes" where
  "bin2c read args =
     (case args of
        f_input # f_output # ident # more \<Rightarrow>
          (case read f_input of
             None \<Rightarrow> Inl Cannot_read
           | Some contents \<Rightarrow>
               let file_size = (of_nat (length contents) :: u32); buf = take (unat file_size) contents
               in if file_size = 0 then Inl Read_failed
                  else Inr (f_output,
                    map of_char ''unsigned char '' @ ident @ map of_char ''[] '' @
                    (case more of attr # _ \<Rightarrow> attr | [] \<Rightarrow> []) @ map of_char '' = {'' @ array_items False 0 buf @
                    [10, 125, 59, 10, 10] @ map of_char ''unsigned int '' @ ident @ map of_char ''_len = '' @
                    int_text file_size @ [59, 10]))
      | _ \<Rightarrow> Inl Bad_usage)"

section \<open>Reading the array\<close>

text \<open>The values of an initialiser up to its closing brace: each is a \<^verbatim>\<open>0x\<close> and two digits.\<close>

fun array_values :: "bytes \<Rightarrow> bytes" where
  "array_values [] = []"
| "array_values (c # r) =
     (if c = 125 then []
      else if c = 48 then
        (case r of
           x # h # l # r' \<Rightarrow> of_nat (digits_value 16 [h, l]) # array_values r'
         | _ \<Rightarrow> [])
      else array_values r)"

definition after_brace :: "bytes \<Rightarrow> bytes" where
  "after_brace text = drop 1 (dropWhile (\<lambda>c. c \<noteq> 123) text)"

lemma unat_byte_up: "unat (ucast (x :: byte) :: u64) = unat x"
  using unat_bound [of x] by (simp add: unsigned_ucast_eq take_bit_eq_mod)

lemma unat_digit_down: "unat x < 16 \<Longrightarrow> unat (ucast (x :: u64) :: u32) = unat x"
  by (simp add: unsigned_ucast_eq take_bit_eq_mod)

lemma byte_text_value:
  "digits_value 16 [hex_char (ucast (drop_bit 4 b)) OR 0x20, hex_char (ucast (b AND 15)) OR 0x20] = unat (b :: byte)"
proof -
  let ?h = "ucast (drop_bit 4 b) :: u64" and ?l = "ucast (b AND 15) :: u64"
  have h: "unat ?h = unat b div 16" by (simp only: unat_byte_up unat_drop_bit_eq drop_bit_nat_def) simp
  have "b AND 15 = take_bit 4 b" by (simp add: take_bit_eq_mask mask_eq_exp_minus_1)
  then have l: "unat ?l = unat b mod 16"
    by (simp only: unat_byte_up unsigned_take_bit_eq take_bit_nat_def) simp
  have "strtoul_digit (hex_char ?h OR 0x20) = ucast ?h" "strtoul_digit (hex_char ?l OR 0x20) = ucast ?l"
    using h l unat_bound [of b] by (intro hex_char_digit; simp)+
  then have "digits_value 16 [hex_char ?h OR 0x20, hex_char ?l OR 0x20] =
      unat (ucast ?h :: u32) * 16 + unat (ucast ?l :: u32)"
    by (simp only: digits_value_def foldl.simps mult_zero_left add_0)
  also have "\<dots> = unat b div 16 * 16 + unat b mod 16"
    using unat_digit_down [of ?h] unat_digit_down [of ?l] h l unat_bound [of b] by simp
  finally show ?thesis by simp
qed

lemma array_values_items: "array_values (array_items need_comma i bs @ 10 # 125 # r) = bs"
proof (induction bs arbitrary: need_comma i)
  case (Cons b bs)
  have "array_values (byte_text b @ array_items True (i + 1) bs @ 10 # 125 # r) = b # bs"
    using Cons by (simp add: byte_text_def byte_text_value del: hex_char_def)
  then show ?case by simp
qed simp

lemma after_brace_skips: "123 \<notin> set pre \<Longrightarrow> after_brace (pre @ 123 # text) = text"
  by (induction pre) (auto simp: after_brace_def)

lemma int_text_value:
  assumes "n < 2 ^ 31"
  shows "digits_value 10 (int_text (of_nat n)) = n"
proof -
  have "sint (of_nat n :: u32) = int n"
    using assms by (simp add: signed_of_nat signed_take_bit_int_eq_self)
  then show ?thesis using assms by (simp add: int_text_def dec_list_value unsigned_ucast_eq unat_of_nat take_bit_eq_mod)
qed



text \<open>The length of a longer file is printed as a negative number.\<close>

lemma long_file_length: "hd (int_text 0x80000000) = 45"
  by (simp add: int_text_def)

end
