(* ===== verification/ElfPe.thy ===== *)
theory ElfPe
  imports NtPrelude
begin

text \<open>
  The build's conversion of an ELF image into a PE executable (\<^verbatim>\<open>utils/elf2efi.c\<close>), in its 64-bit
  build: the checks of the ELF file, sections, relocations and the PE file that is written.
\<close>

section \<open>The ELF file\<close>

text \<open>
  The file is the list of its bytes; a read behind its end is a fault. The structures are those of the
  ELF format for 64 bits, as far as they are used.
\<close>

definition EM_386 :: u16 where "EM_386 = 3"
definition EM_ARM :: u16 where "EM_ARM = 40"
definition EM_X86_64 :: u16 where "EM_X86_64 = 62"
definition EM_AARCH64 :: u16 where "EM_AARCH64 = 183"
definition EM_LOONGARCH :: u16 where "EM_LOONGARCH = 258"

definition SHT_PROGBITS :: u32 where "SHT_PROGBITS = 1"
definition SHT_STRTAB :: u32 where "SHT_STRTAB = 3"
definition SHT_RELA :: u32 where "SHT_RELA = 4"
definition SHT_NOBITS :: u32 where "SHT_NOBITS = 8"
definition SHT_REL :: u32 where "SHT_REL = 9"
definition SHF_WRITE :: u64 where "SHF_WRITE = 1"
definition SHF_ALLOC :: u64 where "SHF_ALLOC = 2"
definition SHF_EXECINSTR :: u64 where "SHF_EXECINSTR = 4"
definition PT_LOAD :: u32 where "PT_LOAD = 1"
definition SHN_ABS :: u16 where "SHN_ABS = 0xfff1"

record elf_ehdr =
  e_machine :: u16
  e_entry :: u64
  e_phoff :: u64
  e_shoff :: u64
  e_phentsize :: u16
  e_phnum :: u16
  e_shentsize :: u16
  e_shnum :: u16
  e_shstrndx :: u16

definition elf_ehdr_of :: "bytes \<Rightarrow> elf_ehdr option" where
  "elf_ehdr_of f = do {
     machine \<leftarrow> get16 f 18; entry \<leftarrow> get64 f 24; phoff \<leftarrow> get64 f 32; shoff \<leftarrow> get64 f 40;
     phentsize \<leftarrow> get16 f 54; phnum \<leftarrow> get16 f 56; shentsize \<leftarrow> get16 f 58; shnum \<leftarrow> get16 f 60;
     shstrndx \<leftarrow> get16 f 62;
     Some \<lparr>e_machine = machine, e_entry = entry, e_phoff = phoff, e_shoff = shoff, e_phentsize = phentsize,
       e_phnum = phnum, e_shentsize = shentsize, e_shnum = shnum, e_shstrndx = shstrndx\<rparr> }"

record elf_shdr =
  sh_name :: u32
  sh_type :: u32
  sh_flags :: u64
  sh_addr :: u64
  sh_offset :: u64
  sh_size :: u64
  sh_link :: u32

definition elf_shdr_of :: "bytes \<Rightarrow> u64 \<Rightarrow> elf_shdr option" where
  "elf_shdr_of f offset = do {
     let p = unat offset;
     name \<leftarrow> get32 f p; type \<leftarrow> get32 f (p + 4); flags \<leftarrow> get64 f (p + 8); addr \<leftarrow> get64 f (p + 16);
     off \<leftarrow> get64 f (p + 24); sz \<leftarrow> get64 f (p + 32); link \<leftarrow> get32 f (p + 40);
     Some \<lparr>sh_name = name, sh_type = type, sh_flags = flags, sh_addr = addr, sh_offset = off, sh_size = sz,
       sh_link = link\<rparr> }"

record elf_phdr =
  p_type :: u32
  p_vaddr :: u64
  p_paddr :: u64
  p_memsz :: u64

definition elf_phdr_of :: "bytes \<Rightarrow> u64 \<Rightarrow> elf_phdr option" where
  "elf_phdr_of f offset = do {
     let p = unat offset;
     type \<leftarrow> get32 f p; vaddr \<leftarrow> get64 f (p + 16); paddr \<leftarrow> get64 f (p + 24); memsz \<leftarrow> get64 f (p + 40);
     Some \<lparr>p_type = type, p_vaddr = vaddr, p_paddr = paddr, p_memsz = memsz\<rparr> }"

text \<open>What ends the tool, by the message.\<close>

datatype elf_error =
  Invalid_header | Program_headers_outside | Section_header_outside nat | Section_outside nat | Bad_link nat
  | Invalid_string_section | Not_a_string_table | Not_terminated | Invalid_string_offset
  | No_segment | Unknown_machine | Unrecognised_section | Symbol_out_of_range | Unrecognised_reloc u32
  | Unsupported_reloc_size | Headers_too_long | Misaligned_section | Assertion_failed

text \<open>The product of the index and the size of an entry is computed in 32 bits, the sum in 64.\<close>

definition shdr_offset :: "elf_ehdr \<Rightarrow> nat \<Rightarrow> u64" where
  "shdr_offset eh i = e_shoff eh + ucast (of_nat i * ucast (e_shentsize eh) :: u32)"

fun check_sections :: "bytes \<Rightarrow> elf_ehdr \<Rightarrow> nat list \<Rightarrow> (elf_error + unit) option" where
  "check_sections f eh [] = Some (Inr ())"
| "check_sections f eh (i # is) =
     (let offset = shdr_offset eh i; len = of_nat (length f)
      in if len < offset + 64 then Some (Inl (Section_header_outside i))
         else do {
           sh \<leftarrow> elf_shdr_of f offset;
           if sh_type sh \<noteq> SHT_NOBITS \<and> (len < sh_offset sh \<or> len - sh_offset sh < sh_size sh)
           then Some (Inl (Section_outside i))
           else if sh_link sh \<ge> ucast (e_shnum eh) then Some (Inl (Bad_link i))
           else check_sections f eh is })"

definition elf_ident :: bytes where
  "elf_ident = [0x7f, 0x45, 0x4c, 0x46, 2, 1]"

definition read_elf_file :: "bytes \<Rightarrow> (elf_error + elf_ehdr) option" where
  "read_elf_file f =
     (if length f < 64 \<or> take 6 f \<noteq> elf_ident then Some (Inl Invalid_header)
      else do {
        eh \<leftarrow> elf_ehdr_of f;
        let len = (of_nat (length f) :: u64);
        if len < e_phoff eh \<or> len - e_phoff eh < ucast (ucast (e_phnum eh) * ucast (e_phentsize eh) :: u32)
        then Some (Inl Program_headers_outside)
        else map_option (map_sum id (\<lambda>_. eh)) (check_sections f eh [0..<unat (e_shnum eh)]) })"

text \<open>A string is given by its position; its text ends before the next zero byte.\<close>

definition elf_string :: "bytes \<Rightarrow> elf_ehdr \<Rightarrow> u16 \<Rightarrow> u64 \<Rightarrow> (elf_error + nat) option" where
  "elf_string f eh sect offset =
     (if sect \<ge> e_shnum eh then Some (Inl Invalid_string_section)
      else do {
        sh \<leftarrow> elf_shdr_of f (shdr_offset eh (unat sect));
        if sh_type sh \<noteq> SHT_STRTAB then Some (Inl Not_a_string_table)
        else do {
          c \<leftarrow> rd f (unat (sh_offset sh + sh_size sh - 1));
          if c \<noteq> 0 then Some (Inl Not_terminated)
          else if offset \<ge> sh_size sh then Some (Inl Invalid_string_offset)
          else Some (Inr (unat (sh_offset sh + offset))) } })"

definition text_at :: "bytes \<Rightarrow> nat \<Rightarrow> bytes option" where
  "text_at f p = (if 0 \<in> set (drop p f) then Some (takeWhile (\<lambda>c. c \<noteq> 0) (drop p f)) else None)"

fun lma_from :: "bytes \<Rightarrow> elf_ehdr \<Rightarrow> elf_shdr \<Rightarrow> nat list \<Rightarrow> (elf_error + u64) option" where
  "lma_from f eh sh [] = Some (Inl No_segment)"
| "lma_from f eh sh (i # is) = do {
     ph \<leftarrow> elf_phdr_of f (e_phoff eh + ucast (of_nat i * ucast (e_phentsize eh) :: u32));
     if p_type ph = PT_LOAD \<and> p_vaddr ph \<le> sh_addr sh \<and> sh_addr sh - p_vaddr ph + sh_size sh \<le> p_memsz ph
     then Some (Inr (p_paddr ph + (sh_addr sh - p_vaddr ph)))
     else lma_from f eh sh is }"

definition elf_lma :: "bytes \<Rightarrow> elf_ehdr \<Rightarrow> elf_shdr \<Rightarrow> (elf_error + u64) option" where
  "elf_lma f eh sh = lma_from f eh sh [0..<unat (e_phnum eh)]"

section \<open>The PE file\<close>

definition EFI_FILE_ALIGN :: u64 where "EFI_FILE_ALIGN = 0x200"
definition EFI_IMAGE_ALIGN :: u64 where "EFI_IMAGE_ALIGN = 0x1000"
definition PTRD_AUTO :: u32 where "PTRD_AUTO = 0xffffffff"

definition efi_file_align :: "u64 \<Rightarrow> u64" where
  "efi_file_align offset = (offset + EFI_FILE_ALIGN - 1) AND NOT (EFI_FILE_ALIGN - 1)"

definition efi_image_align :: "u64 \<Rightarrow> u64" where
  "efi_image_align offset = (offset + EFI_IMAGE_ALIGN - 1) AND NOT (EFI_IMAGE_ALIGN - 1)"

text \<open>The fields of the headers that vary, and those of a section.\<close>

record pe_header =
  Machine :: u16
  NumberOfSections :: u16
  SizeOfCode :: u32
  SizeOfInitializedData :: u32
  SizeOfUninitializedData :: u32
  AddressOfEntryPoint :: u32
  BaseOfCode :: u32
  ImageBase :: u64
  SizeOfImage :: u32
  SizeOfHeaders :: u32
  Subsystem :: u16
  reloc_directory :: "u32 \<times> u32"
  debug_directory :: "u32 \<times> u32"

record pe_section =
  Name :: bytes
  VirtualSize :: u32
  VirtualAddress :: u32
  SizeOfRawData :: u32
  PointerToRawData :: u32
  Characteristics :: u32
  hidden_section :: bool
  section_contents :: bytes

definition EFI_IMAGE_SCN_CNT_CODE :: u32 where "EFI_IMAGE_SCN_CNT_CODE = 0x20"
definition EFI_IMAGE_SCN_CNT_INITIALIZED_DATA :: u32 where "EFI_IMAGE_SCN_CNT_INITIALIZED_DATA = 0x40"
definition EFI_IMAGE_SCN_CNT_UNINITIALIZED_DATA :: u32 where "EFI_IMAGE_SCN_CNT_UNINITIALIZED_DATA = 0x80"
definition EFI_IMAGE_SCN_MEM_DISCARDABLE :: u32 where "EFI_IMAGE_SCN_MEM_DISCARDABLE = 0x02000000"
definition EFI_IMAGE_SCN_MEM_NOT_PAGED :: u32 where "EFI_IMAGE_SCN_MEM_NOT_PAGED = 0x08000000"
definition EFI_IMAGE_SCN_MEM_EXECUTE :: u32 where "EFI_IMAGE_SCN_MEM_EXECUTE = 0x20000000"
definition EFI_IMAGE_SCN_MEM_READ :: u32 where "EFI_IMAGE_SCN_MEM_READ = 0x40000000"
definition EFI_IMAGE_SCN_MEM_WRITE :: u32 where "EFI_IMAGE_SCN_MEM_WRITE = 0x80000000"

text \<open>The header starts with room for the headers of 264 bytes, and an image of a page.\<close>

definition efi_pe_header :: pe_header where
  "efi_pe_header = \<lparr>Machine = 0, NumberOfSections = 0, SizeOfCode = 0, SizeOfInitializedData = 0,
     SizeOfUninitializedData = 0, AddressOfEntryPoint = 0, BaseOfCode = 0, ImageBase = 0,
     SizeOfImage = 0x1000, SizeOfHeaders = 264, Subsystem = 0, reloc_directory = (0, 0), debug_directory = (0, 0)\<rparr>"

definition set_machine :: "elf_ehdr \<Rightarrow> pe_header \<Rightarrow> elf_error + pe_header" where
  "set_machine eh pe =
     (if e_machine eh = EM_386 then Inr (pe\<lparr>Machine := 0x014c\<rparr>)
      else if e_machine eh = EM_X86_64 then Inr (pe\<lparr>Machine := 0x8664\<rparr>)
      else if e_machine eh = EM_ARM then Inr (pe\<lparr>Machine := 0x01c2\<rparr>)
      else if e_machine eh = EM_AARCH64 then Inr (pe\<lparr>Machine := 0xaa64\<rparr>)
      else if e_machine eh = EM_LOONGARCH then Inr (pe\<lparr>Machine := 0x6264\<rparr>)
      else Inl Unknown_machine)"

section \<open>Sections\<close>

text \<open>
  A section becomes the section of the executable and the updated header. Of the fields for the start
  and the size of its kind, the build has no start of data.
\<close>

definition section_kind :: "elf_shdr \<Rightarrow> u32 option" where
  "section_kind sh =
     (if sh_type sh = SHT_PROGBITS \<and> sh_flags sh AND SHF_WRITE \<noteq> 0 then
        Some (EFI_IMAGE_SCN_CNT_INITIALIZED_DATA OR EFI_IMAGE_SCN_MEM_NOT_PAGED OR EFI_IMAGE_SCN_MEM_READ OR
              EFI_IMAGE_SCN_MEM_WRITE)
      else if sh_type sh = SHT_PROGBITS \<and> sh_flags sh AND SHF_EXECINSTR \<noteq> 0 then
        Some (EFI_IMAGE_SCN_CNT_CODE OR EFI_IMAGE_SCN_MEM_NOT_PAGED OR EFI_IMAGE_SCN_MEM_EXECUTE OR
              EFI_IMAGE_SCN_MEM_READ)
      else if sh_type sh = SHT_PROGBITS then
        Some (EFI_IMAGE_SCN_CNT_INITIALIZED_DATA OR EFI_IMAGE_SCN_MEM_NOT_PAGED OR EFI_IMAGE_SCN_MEM_READ)
      else if sh_type sh = SHT_NOBITS then
        Some (EFI_IMAGE_SCN_CNT_UNINITIALIZED_DATA OR EFI_IMAGE_SCN_MEM_NOT_PAGED OR EFI_IMAGE_SCN_MEM_READ OR
              EFI_IMAGE_SCN_MEM_WRITE)
      else None)"

definition count_section :: "elf_shdr \<Rightarrow> u32 \<Rightarrow> pe_header \<Rightarrow> pe_header" where
  "count_section sh start pe =
     (let memsz = ucast (sh_size sh);
          pe = pe\<lparr>NumberOfSections := NumberOfSections pe + 1, SizeOfHeaders := SizeOfHeaders pe + 40\<rparr>
      in if sh_type sh = SHT_NOBITS then pe\<lparr>SizeOfUninitializedData := SizeOfUninitializedData pe + memsz\<rparr>
         else if sh_flags sh AND SHF_WRITE \<noteq> 0 \<or> sh_flags sh AND SHF_EXECINSTR = 0
         then pe\<lparr>SizeOfInitializedData := SizeOfInitializedData pe + memsz\<rparr>
         else pe\<lparr>BaseOfCode := (if BaseOfCode pe = 0 \<or> start < BaseOfCode pe then start else BaseOfCode pe),
                 SizeOfCode := SizeOfCode pe + memsz\<rparr>)"

definition section_pointer ::
  "bool \<Rightarrow> bytes \<Rightarrow> elf_ehdr \<Rightarrow> elf_shdr \<Rightarrow> (elf_error + u32 \<times> bool) option" where
  "section_pointer hybrid f eh sh =
     (if sh_type sh \<noteq> SHT_PROGBITS then Some (Inr (0, False))
      else if hybrid then map_option (map_sum id (\<lambda>lma. (ucast lma, (ucast lma :: u32) = 0))) (elf_lma f eh sh)
      else Some (Inr (PTRD_AUTO, False)))"

definition process_section ::
  "bool \<Rightarrow> bytes \<Rightarrow> elf_ehdr \<Rightarrow> elf_shdr \<Rightarrow> pe_header \<Rightarrow> (elf_error + pe_section \<times> pe_header) option" where
  "process_section hybrid f eh sh pe = do {
     r \<leftarrow> elf_string f eh (e_shstrndx eh) (ucast (sh_name sh));
     (case r of
        Inl e \<Rightarrow> Some (Inl e)
      | Inr p \<Rightarrow> do {
          nm \<leftarrow> text_at f p;
          let filesz = (if sh_type sh = SHT_PROGBITS then efi_file_align (sh_size sh) else 0);
          r \<leftarrow> section_pointer hybrid f eh sh;
          (case r of
             Inl e \<Rightarrow> Some (Inl e)
           | Inr (ptr, hid) \<Rightarrow>
               (case section_kind sh of
                  None \<Rightarrow> Some (Inl Unrecognised_section)
                | Some flags \<Rightarrow> do {
                    let hid = (hid \<or> hybrid \<and> 2 < length nm \<and> drop (length nm - 2) nm = [0x31, 0x36]);
                    let contents = replicate (unat filesz) 0;
                    contents \<leftarrow> (if sh_type sh = SHT_PROGBITS
                      then do { src \<leftarrow> peek f (unat (sh_offset sh)) (unat (sh_size sh)); poke contents 0 src }
                      else Some contents);
                    let start = ucast (sh_addr sh);
                    let pe = (if hid then pe else count_section sh start pe);
                    let fini = ucast (efi_image_align (ucast start + sh_size sh));
                    let pe = (if fini > SizeOfImage pe then pe\<lparr>SizeOfImage := fini\<rparr> else pe);
                    Some (Inr (\<lparr>Name = take 8 nm @ replicate (8 - length nm) 0, VirtualSize = ucast (sh_size sh),
                      VirtualAddress = start, SizeOfRawData = ucast filesz, PointerToRawData = ptr,
                      Characteristics = flags, hidden_section = hid, section_contents = contents\<rparr>, pe)) })) }) }"

section \<open>Relocations\<close>

text \<open>
  The table of relocations: a block for each page, with its array of entries, of which some are used.
\<close>

record pe_relocs =
  start_rva :: u64
  used_relocs :: nat
  relocs :: "u16 list"

definition reloc_flags :: "nat \<Rightarrow> u16 option" where
  "reloc_flags sz = (if sz = 8 then Some 0xa000 else if sz = 4 then Some 0x3000 else if sz = 2 then Some 0x2000 else None)"

definition store_reloc :: "u16 \<Rightarrow> pe_relocs \<Rightarrow> pe_relocs option" where
  "store_reloc reloc r = do {
     rs \<leftarrow> (if used_relocs r < length (relocs r) then Some (relocs r)
            else do {
              let total_relocs = (if length (relocs r) \<noteq> 0 then length (relocs r) * 2 else 256);
              old \<leftarrow> peek (relocs r) 0 (used_relocs r);
              poke (replicate total_relocs 0) 0 old });
     rs \<leftarrow> wr rs (used_relocs r) reloc;
     Some (r\<lparr>relocs := rs, used_relocs := used_relocs r + 1\<rparr>) }"

fun store_in_block :: "u64 \<Rightarrow> u16 \<Rightarrow> pe_relocs list \<Rightarrow> pe_relocs list option option" where
  "store_in_block start reloc [] = Some None"
| "store_in_block start reloc (r # rs) =
     (if start_rva r = start then map_option (\<lambda>r. Some (r # rs)) (store_reloc reloc r)
      else map_option (map_option ((#) r)) (store_in_block start reloc rs))"

definition generate_pe_reloc :: "pe_relocs list \<Rightarrow> u64 \<Rightarrow> nat \<Rightarrow> (elf_error + pe_relocs list) option" where
  "generate_pe_reloc tab rva sz =
     (let start = rva AND NOT 0xfff; reloc = ucast (rva AND 0xfff)
      in case reloc_flags sz of
           None \<Rightarrow> Some (Inl Unsupported_reloc_size)
         | Some flags \<Rightarrow> do {
             r \<leftarrow> store_in_block start (reloc OR flags) tab;
             (case r of
                Some tab \<Rightarrow> Some (Inr tab)
              | None \<Rightarrow> map_option (\<lambda>r. Inr (r # tab))
                  (store_reloc (reloc OR flags) \<lparr>start_rva = start, used_relocs = 0, relocs = []\<rparr>)) })"

text \<open>The same function measures the table, without a buffer, and writes it.\<close>

fun output_pe_reltab :: "pe_relocs list \<Rightarrow> bytes option \<Rightarrow> nat \<Rightarrow> (bytes option \<times> nat) option" where
  "output_pe_reltab [] buffer total_size = Some (buffer, total_size)"
| "output_pe_reltab (r # rs) buffer total_size = do {
     let num_relocs = (used_relocs r + 1) div 2 * 2;
     let sz = 8 + num_relocs * 2;
     buffer \<leftarrow> (case buffer of
         None \<Rightarrow> Some None
       | Some b \<Rightarrow> do {
           b \<leftarrow> put32 b total_size (ucast (start_rva r));
           b \<leftarrow> put32 b (total_size + 4) (of_nat sz);
           es \<leftarrow> peek (relocs r) 0 num_relocs;
           b \<leftarrow> poke b (total_size + 8) (concat (map (le_bytes 2) es));
           Some (Some b) });
     output_pe_reltab rs buffer (total_size + sz) }"

text \<open>Machine and type of a relocation in one number, which has room for 16 bits of the type.\<close>

definition ELF_MREL :: "u16 \<Rightarrow> u32 \<Rightarrow> u32" where
  "ELF_MREL mach type = ucast mach OR push_bit 16 type"

definition relocs_none :: "u32 list" where
  "relocs_none = [ELF_MREL EM_386 0, ELF_MREL EM_ARM 0, ELF_MREL EM_X86_64 0, ELF_MREL EM_AARCH64 0,
     ELF_MREL EM_AARCH64 256, ELF_MREL EM_LOONGARCH 0]"

definition relocs_abs4 :: "u32 list" where
  "relocs_abs4 = [ELF_MREL EM_386 1, ELF_MREL EM_ARM 2]"

definition relocs_abs8 :: "u32 list" where
  "relocs_abs8 = [ELF_MREL EM_X86_64 1, ELF_MREL EM_AARCH64 257, ELF_MREL EM_LOONGARCH 2]"

definition relocs_relative :: "u32 list" where
  "relocs_relative =
     ELF_MREL EM_386 2 #
     map (ELF_MREL EM_ARM) [28, 3, 10, 30, 40] @
     map (ELF_MREL EM_X86_64) [2, 4, 41, 42] @
     map (ELF_MREL EM_AARCH64) [283, 282, 274, 275, 277, 278, 284, 285, 286, 299] @
     map (ELF_MREL EM_LOONGARCH) [64, 65, 66, 71, 72, 75, 76, 103, 100]"

definition process_reloc ::
  "bool \<Rightarrow> bytes \<Rightarrow> elf_ehdr \<Rightarrow> elf_shdr \<Rightarrow> u64 \<Rightarrow> u32 \<Rightarrow> nat \<Rightarrow> pe_relocs list \<Rightarrow> (elf_error + pe_relocs list) option"
where
  "process_reloc hybrid f eh sh syms nsyms rel tab = do {
     r_offset \<leftarrow> get64 f rel;
     r_info \<leftarrow> get64 f (rel + 8);
     let type = ucast r_info;
     let s = (ucast (drop_bit 32 r_info) :: u32);
     let mrel = ELF_MREL (e_machine eh) type;
     let offset = sh_addr sh + r_offset;
     if s \<ge> nsyms then Some (Inl Symbol_out_of_range)
     else do {
       shndx \<leftarrow> get16 f (unat syms + unat s * 24 + 6);
       if shndx = SHN_ABS then Some (Inr tab)
       else if mrel \<in> set relocs_none then Some (Inr tab)
       else if mrel \<in> set relocs_abs4 then generate_pe_reloc tab offset 4
       else if mrel \<in> set relocs_abs8 then generate_pe_reloc tab offset 8
       else if mrel \<in> set relocs_relative then Some (Inr tab)
       else if mrel = ELF_MREL EM_X86_64 10 \<and> hybrid then Some (Inr tab)
       else Some (Inl (Unrecognised_reloc type)) } }"

fun reloc_loop ::
  "(nat \<Rightarrow> pe_relocs list \<Rightarrow> (elf_error + pe_relocs list) option) \<Rightarrow> nat \<Rightarrow> nat \<Rightarrow> nat \<Rightarrow> pe_relocs list \<Rightarrow>
     (elf_error + pe_relocs list) option"
where
  "reloc_loop step 0 rel stride tab = Some (Inr tab)"
| "reloc_loop step (Suc n) rel stride tab = do {
     r \<leftarrow> step rel tab;
     (case r of Inl e \<Rightarrow> Some (Inl e) | Inr tab \<Rightarrow> reloc_loop step n (rel + stride) stride tab) }"

text \<open>The numbers of symbols and relocations are 32-bit values.\<close>

definition process_relocs ::
  "bool \<Rightarrow> bytes \<Rightarrow> elf_ehdr \<Rightarrow> elf_shdr \<Rightarrow> nat \<Rightarrow> pe_relocs list \<Rightarrow> (elf_error + pe_relocs list) option" where
  "process_relocs hybrid f eh sh stride tab = do {
     symtab \<leftarrow> elf_shdr_of f (shdr_offset eh (unat (sh_link sh)));
     let nsyms = ucast (sh_size symtab div 24);
     let nrels = (ucast (sh_size sh div of_nat stride) :: u32);
     reloc_loop (process_reloc hybrid f eh sh (sh_offset symtab) nsyms) (unat nrels) (unat (sh_offset sh)) stride tab }"

section \<open>The image\<close>

definition lowest_address :: "pe_section list \<Rightarrow> u64" where
  "lowest_address ss = foldl (\<lambda>base s. if \<not> hidden_section s \<and> base > ucast (VirtualAddress s)
     then ucast (VirtualAddress s) else base) (- 1) ss"

definition update_image_base ::
  "pe_header \<Rightarrow> pe_section list \<Rightarrow> pe_relocs list \<Rightarrow> pe_header \<times> pe_section list \<times> pe_relocs list" where
  "update_image_base pe ss tab =
     (let base = lowest_address ss - EFI_IMAGE_ALIGN
      in (pe\<lparr>ImageBase := base, AddressOfEntryPoint := AddressOfEntryPoint pe - ucast base,
             BaseOfCode := BaseOfCode pe - ucast base, SizeOfImage := SizeOfImage pe - ucast base\<rparr>,
          map (\<lambda>s. s\<lparr>VirtualAddress := VirtualAddress s - ucast base\<rparr>) ss,
          map (\<lambda>r. r\<lparr>start_rva := start_rva r - base\<rparr>) tab))"

definition create_reloc_section :: "pe_header \<Rightarrow> pe_relocs list \<Rightarrow> (pe_section \<times> pe_header) option" where
  "create_reloc_section pe tab = do {
     (_, memsz) \<leftarrow> output_pe_reltab tab None 0;
     let filesz = efi_file_align (of_nat memsz);
     (contents, _) \<leftarrow> output_pe_reltab tab (Some (replicate (unat filesz) 0)) 0;
     contents \<leftarrow> contents;
     let va = SizeOfImage pe;
     Some (\<lparr>Name = map of_char ''.reloc'' @ [0, 0], VirtualSize = of_nat memsz, VirtualAddress = va,
         SizeOfRawData = ucast filesz, PointerToRawData = PTRD_AUTO,
         Characteristics = EFI_IMAGE_SCN_CNT_INITIALIZED_DATA OR EFI_IMAGE_SCN_MEM_DISCARDABLE OR
           EFI_IMAGE_SCN_MEM_NOT_PAGED OR EFI_IMAGE_SCN_MEM_READ,
         hidden_section = False, section_contents = contents\<rparr>,
       pe\<lparr>NumberOfSections := NumberOfSections pe + 1, SizeOfHeaders := SizeOfHeaders pe + 40,
          SizeOfImage := SizeOfImage pe + ucast (efi_image_align (of_nat memsz)),
          reloc_directory := (va, of_nat memsz)\<rparr>) }"

text \<open>The debug data: a directory entry, a signature and the name of the file, up to 31 characters.\<close>

definition debug_contents :: "u32 \<Rightarrow> bytes \<Rightarrow> bytes" where
  "debug_contents va filename =
     concat (map (le_bytes 4) [0, 0x10d1a884, 0, 2, 56, va + 28, va + 28, 0x53445352, 0, 0, 0, 0, 0 :: u32]) @
     take 31 filename @ replicate (32 - length (take 31 filename)) 0"

definition create_debug_section :: "pe_header \<Rightarrow> bytes \<Rightarrow> pe_section \<times> pe_header" where
  "create_debug_section pe filename =
     (let va = ucast (efi_file_align (ucast (SizeOfHeaders pe + 84))) - 84
      in (\<lparr>Name = map of_char ''.debug'' @ [0, 0], VirtualSize = 84, VirtualAddress = va, SizeOfRawData = 84,
            PointerToRawData = va, Characteristics = 0, hidden_section = True,
            section_contents = debug_contents va filename\<rparr>,
          pe\<lparr>SizeOfHeaders := va + 84, debug_directory := (va, 28)\<rparr>))"

section \<open>Writing\<close>

definition pe_header_bytes :: "pe_header \<Rightarrow> bytes" where
  "pe_header_bytes pe =
     [0x4d, 0x5a] @ replicate 58 0 @ le_bytes 4 (64 :: u32) @
     [0x50, 0x45, 0, 0] @ le_bytes 2 (Machine pe) @ le_bytes 2 (NumberOfSections pe) @
     le_bytes 4 (0x10d1a884 :: u32) @ replicate 8 0 @ le_bytes 2 (176 :: u16) @ le_bytes 2 (0x2022 :: u16) @
     le_bytes 2 (0x20b :: u16) @ [42, 42] @ le_bytes 4 (SizeOfCode pe) @ le_bytes 4 (SizeOfInitializedData pe) @
     le_bytes 4 (SizeOfUninitializedData pe) @ le_bytes 4 (AddressOfEntryPoint pe) @ le_bytes 4 (BaseOfCode pe) @
     le_bytes 8 (ImageBase pe) @ le_bytes 4 (0x1000 :: u32) @ le_bytes 4 (0x200 :: u32) @ replicate 4 0 @
     le_bytes 2 (1 :: u16) @ replicate 10 0 @ le_bytes 4 (SizeOfImage pe) @ le_bytes 4 (SizeOfHeaders pe) @
     replicate 4 0 @ le_bytes 2 (Subsystem pe) @ le_bytes 2 (0x100 :: u16) @ replicate 36 0 @
     le_bytes 4 (8 :: u32) @ replicate 40 0 @
     le_bytes 4 (fst (reloc_directory pe)) @ le_bytes 4 (snd (reloc_directory pe)) @
     le_bytes 4 (fst (debug_directory pe)) @ le_bytes 4 (snd (debug_directory pe)) @ replicate 8 0"

definition section_header_bytes :: "pe_section \<Rightarrow> bytes" where
  "section_header_bytes s =
     Name s @ le_bytes 4 (VirtualSize s) @ le_bytes 4 (VirtualAddress s) @ le_bytes 4 (SizeOfRawData s) @
     le_bytes 4 (PointerToRawData s) @ replicate 12 0 @ le_bytes 4 (Characteristics s)"

text \<open>A write behind the end of the file leaves a gap of zeros.\<close>

definition write_at :: "nat \<Rightarrow> bytes \<Rightarrow> bytes \<Rightarrow> bytes" where
  "write_at pos bs f = take pos (f @ replicate (pos - length f) 0) @ bs @ drop (pos + length bs) f"

definition header_limit :: "pe_section list \<Rightarrow> u64" where
  "header_limit ss = foldl (\<lambda>hdrmax s. if PointerToRawData s \<noteq> PTRD_AUTO \<and> SizeOfRawData s > 0 \<and>
       \<not> hidden_section s \<and> hdrmax > ucast (PointerToRawData s)
     then ucast (PointerToRawData s) else hdrmax) (- 1) ss"

fun assign_pointers :: "u64 \<Rightarrow> pe_section list \<Rightarrow> pe_section list" where
  "assign_pointers fposmax [] = []"
| "assign_pointers fposmax (s # ss) =
     (let fpos = (if PointerToRawData s = PTRD_AUTO then fposmax else ucast (PointerToRawData s));
          s = s\<lparr>PointerToRawData := ucast fpos\<rparr>;
          fpos = efi_file_align (fpos + ucast (SizeOfRawData s))
      in s # assign_pointers (if fpos > fposmax then fpos else fposmax) ss)"

fun write_sections :: "pe_section list \<Rightarrow> bytes \<Rightarrow> (elf_error + bytes) option" where
  "write_sections [] out = Some (Inr out)"
| "write_sections (s # ss) out =
     (if PointerToRawData s AND 0x1ff \<noteq> 0 \<and> \<not> hidden_section s then Some (Inl Misaligned_section)
      else if SizeOfRawData s = 0 then write_sections ss out
      else do {
        bs \<leftarrow> peek (section_contents s) 0 (unat (SizeOfRawData s));
        write_sections ss (write_at (unat (PointerToRawData s)) bs out) })"

definition visible :: "pe_section list \<Rightarrow> pe_section list" where
  "visible ss = filter (\<lambda>s. \<not> hidden_section s) ss"

definition write_pe_file :: "pe_header \<Rightarrow> pe_section list \<Rightarrow> (elf_error + bytes) option" where
  "write_pe_file pe ss =
     (let hdrmax = header_limit ss;
          size0 = (if hdrmax \<noteq> - 1 \<and> ucast (SizeOfHeaders pe) < hdrmax then ucast hdrmax else SizeOfHeaders pe);
          pe = pe\<lparr>SizeOfHeaders := ucast (efi_file_align (ucast size0))\<rparr>;
          fpos = ucast (SizeOfHeaders pe)
      in if fpos > hdrmax then Some (Inl Headers_too_long)
         else do {
           let ss = assign_pointers fpos ss;
           r \<leftarrow> write_sections ss [];
           (case r of
              Inl e \<Rightarrow> Some (Inl e)
            | Inr out \<Rightarrow>
                let headers = pe_header_bytes pe @ concat (map section_header_bytes (visible ss))
                in if length (visible ss) \<noteq> unat (NumberOfSections pe) then Some (Inl Assertion_failed)
                   else Some (Inr (write_at 0 headers out))) })"

section \<open>The conversion\<close>

type_synonym elf_conversion = "pe_section list \<times> pe_relocs list \<times> pe_header"

definition convert_section ::
  "bool \<Rightarrow> bytes \<Rightarrow> elf_ehdr \<Rightarrow> nat \<Rightarrow> elf_conversion \<Rightarrow> (elf_error + elf_conversion) option" where
  "convert_section hybrid f eh i = (\<lambda>(ss, tab, pe). do {
     sh \<leftarrow> elf_shdr_of f (shdr_offset eh i);
     if sh_flags sh AND SHF_ALLOC \<noteq> 0 then do {
       r \<leftarrow> process_section hybrid f eh sh pe;
       Some (map_sum id (\<lambda>(s, pe). (ss @ [s], tab, pe)) r) }
     else if sh_type sh = SHT_REL \<or> sh_type sh = SHT_RELA then do {
       r \<leftarrow> process_relocs hybrid f eh sh (if sh_type sh = SHT_REL then 16 else 24) tab;
       Some (map_sum id (\<lambda>tab. (ss, tab, pe)) r) }
     else Some (Inr (ss, tab, pe)) })"

fun convert_sections ::
  "bool \<Rightarrow> bytes \<Rightarrow> elf_ehdr \<Rightarrow> nat list \<Rightarrow> elf_conversion \<Rightarrow> (elf_error + elf_conversion) option" where
  "convert_sections hybrid f eh [] st = Some (Inr st)"
| "convert_sections hybrid f eh (i # is) st = do {
     r \<leftarrow> convert_section hybrid f eh i st;
     (case r of Inl e \<Rightarrow> Some (Inl e) | Inr st \<Rightarrow> convert_sections hybrid f eh is st) }"

definition elf2pe :: "bool \<Rightarrow> u16 \<Rightarrow> bytes \<Rightarrow> bytes \<Rightarrow> (elf_error + bytes) option" where
  "elf2pe hybrid subsys filename f = do {
     r \<leftarrow> read_elf_file f;
     (case r of
        Inl e \<Rightarrow> Some (Inl e)
      | Inr eh \<Rightarrow>
          (case set_machine eh efi_pe_header of
             Inl e \<Rightarrow> Some (Inl e)
           | Inr pe \<Rightarrow> do {
               let pe = pe\<lparr>AddressOfEntryPoint := ucast (e_entry eh), Subsystem := subsys\<rparr>;
               r \<leftarrow> convert_sections hybrid f eh [0..<unat (e_shnum eh)] ([], [], pe);
               (case r of
                  Inl e \<Rightarrow> Some (Inl e)
                | Inr (ss, tab, pe) \<Rightarrow> do {
                    let (pe, ss, tab) = update_image_base pe ss tab;
                    (reloc, pe) \<leftarrow> create_reloc_section pe tab;
                    let (debug, pe) = create_debug_section pe filename;
                    write_pe_file pe (ss @ [reloc, debug]) }) })) }"

section \<open>The tool\<close>

text \<open>
  The options as \<^verbatim>\<open>getopt_long\<close> delivers them, and \<^verbatim>\<open>strtoul\<close> as a function to the value and the rest of
  the text. The program ends with a status, or it converts a file.
\<close>

datatype elf_option = Subsystem_option bytes | Hybrid_option | Help_option | Unknown_option

record elf_options =
  opt_subsystem :: u32
  opt_hybrid :: bool

fun parse_options :: "(bytes \<Rightarrow> u64 \<times> bytes) \<Rightarrow> elf_option list \<Rightarrow> elf_options \<Rightarrow> nat + elf_options" where
  "parse_options strtoul [] opts = Inr opts"
| "parse_options strtoul (Subsystem_option arg # cs) opts =
     (let (v, rest) = strtoul arg
      in if rest \<noteq> [] \<or> arg = [] then Inl 2
         else parse_options strtoul cs (opts\<lparr>opt_subsystem := ucast v\<rparr>))"
| "parse_options strtoul (Hybrid_option # cs) opts = parse_options strtoul cs (opts\<lparr>opt_hybrid := True\<rparr>)"
| "parse_options strtoul (Help_option # cs) opts = Inl 0"
| "parse_options strtoul (Unknown_option # cs) opts = Inl 2"

datatype elf2efi_end = Exits nat | Fails elf_error | Converts bytes bytes

definition elf2efi ::
  "(bytes \<Rightarrow> u64 \<times> bytes) \<Rightarrow> (bytes \<Rightarrow> bytes) \<Rightarrow> (bytes \<Rightarrow> bytes) \<Rightarrow> elf_option list \<Rightarrow> bytes list \<Rightarrow> elf2efi_end option"
where
  "elf2efi strtoul basename read parsed names =
     (case parse_options strtoul parsed \<lparr>opt_subsystem = 10, opt_hybrid = False\<rparr> of
        Inl code \<Rightarrow> Some (Exits code)
      | Inr opts \<Rightarrow>
          (case names of
             [infile, outfile] \<Rightarrow>
               map_option (case_sum Fails (Converts outfile))
                 (elf2pe (opt_hybrid opts) (ucast (opt_subsystem opts)) (basename outfile) (read infile))
           | _ \<Rightarrow> Some (Exits 2)))"

end
