(* ===== verification/ElfPeRelocs.thy ===== *)
theory ElfPeRelocs
  imports ElfPe "HOL-Library.Multiset"
begin

text \<open>
  The relocations of the executable: the relocation section, read the way a loader reads it, holds
  exactly the relocations that were generated, each once, whatever the order of their pages.
\<close>

section \<open>Reading base relocations\<close>

text \<open>
  The loader's reading of a relocation section: blocks with the address of a page and their length, and
  entries of a type and an offset, where type 0 is padding.
\<close>

definition fixup :: "u32 \<Rightarrow> u16 \<Rightarrow> u32 \<times> u16" where
  "fixup va e = (va + ucast (e AND 0xfff), drop_bit 12 e)"

definition block_fixups :: "u32 \<Rightarrow> u16 list \<Rightarrow> (u32 \<times> u16) list" where
  "block_fixups va es = map (fixup va) (filter (\<lambda>e. drop_bit 12 e \<noteq> 0) es)"

fun entries_of :: "bytes \<Rightarrow> u16 list" where
  "entries_of (a # b # bs) = le_word [a, b] # entries_of bs"
| "entries_of _ = []"

function read_reltab :: "bytes \<Rightarrow> (u32 \<times> u16) list option" where
  "read_reltab b =
     (if b = [] then Some []
      else do {
        va \<leftarrow> get32 b 0;
        sz \<leftarrow> get32 b 4;
        if unat sz < 8 \<or> length b < unat sz then None
        else do {
          rest \<leftarrow> read_reltab (drop (unat sz) b);
          Some (block_fixups va (entries_of (take (unat sz - 8) (drop 8 b))) @ rest) } })"
  by pat_completeness auto
termination by (relation "measure length") auto

declare read_reltab.simps [simp del]

definition table_fixups :: "pe_relocs list \<Rightarrow> (u32 \<times> u16) list" where
  "table_fixups tab =
     concat (map (\<lambda>r. block_fixups (ucast (start_rva r)) (take (used_relocs r) (relocs r))) tab)"

lemma block_fixups_append: "block_fixups va (xs @ ys) = block_fixups va xs @ block_fixups va ys"
  by (simp add: block_fixups_def)

lemma block_fixups_zeros: "set es \<subseteq> {0} \<Longrightarrow> block_fixups va es = []"
  by (auto simp: block_fixups_def filter_empty_conv)

lemma block_fixups_shift:
  "block_fixups (va - b) es = map (\<lambda>(a, t). (a - b, t)) (block_fixups va es)"
  by (simp add: block_fixups_def fixup_def)

section \<open>The table in memory\<close>

text \<open>A block has room for an even number of entries, and those behind the used ones are zero.\<close>

definition block_ok :: "pe_relocs \<Rightarrow> bool" where
  "block_ok r \<longleftrightarrow> even (length (relocs r)) \<and> used_relocs r \<le> length (relocs r) \<and> 0 < used_relocs r \<and>
     set (drop (used_relocs r) (relocs r)) \<subseteq> {0}"

definition used_total :: "pe_relocs list \<Rightarrow> nat" where
  "used_total tab = sum_list (map used_relocs tab)"

lemma store_reloc_spec:
  assumes "even (length (relocs r))" and "used_relocs r \<le> length (relocs r)"
    and "set (drop (used_relocs r) (relocs r)) \<subseteq> {0}"
  shows "\<exists>r'. store_reloc e r = Some r' \<and> block_ok r' \<and> start_rva r' = start_rva r \<and>
     used_relocs r' = used_relocs r + 1 \<and>
     take (used_relocs r') (relocs r') = take (used_relocs r) (relocs r) @ [e]"
proof -
  obtain big where s: "store_reloc e r = Some (r\<lparr>relocs := big[used_relocs r := e], used_relocs := used_relocs r + 1\<rparr>)"
    and big: "used_relocs r < length big" "even (length big)" "take (used_relocs r) big = take (used_relocs r) (relocs r)"
      "set (drop (used_relocs r) big) \<subseteq> {0}"
  proof (cases "used_relocs r < length (relocs r)")
    case True
    then show ?thesis using assms by (intro that [of "relocs r"]) (simp_all add: store_reloc_def wr_def)
  next
    case False
    then have u: "used_relocs r = length (relocs r)" using assms by simp
    obtain n where n: "n = (if length (relocs r) \<noteq> 0 then length (relocs r) * 2 else 256)" "even n"
      "length (relocs r) < n" using assms(1) by simp
    have p: "peek (relocs r) 0 (used_relocs r) = Some (relocs r)" using u by (simp add: peek_def)
    have k: "poke (replicate n 0) 0 (relocs r) = Some (relocs r @ replicate (n - length (relocs r)) 0)"
      using n(3) by (simp add: poke_def)
    have w: "wr (relocs r @ replicate (n - length (relocs r)) 0) (used_relocs r) e =
        Some ((relocs r @ replicate (n - length (relocs r)) 0)[used_relocs r := e])"
      using n(3) u by (simp add: wr_def)
    have "store_reloc e r = Some (r\<lparr>relocs := (relocs r @ replicate (n - length (relocs r)) 0)[used_relocs r := e],
        used_relocs := used_relocs r + 1\<rparr>)"
      using False by (simp only: store_reloc_def n(1) [symmetric] Let_def p k w if_False Option.bind.bind_lunit)
    then show ?thesis using u n assms(1) by (intro that [of "relocs r @ replicate (n - length (relocs r)) 0"]) simp_all
  qed
  have "set (drop 1 (drop (used_relocs r) big)) \<subseteq> {0}"
    by (rule order_trans [OF set_drop_subset big(4)])
  then have "set (drop (used_relocs r + 1) (big[used_relocs r := e])) \<subseteq> {0}" by simp
  moreover have "take (used_relocs r + 1) (big[used_relocs r := e]) = take (used_relocs r) (relocs r) @ [e]"
    using big(1,3) by (simp add: take_Suc_conv_app_nth)
  ultimately show ?thesis using big(1,2) unfolding s block_ok_def
    by (intro exI [of _ "r\<lparr>relocs := big[used_relocs r := e], used_relocs := used_relocs r + 1\<rparr>"] conjI) simp_all
qed

text \<open>A relocation is put into the block of its page, or there is none.\<close>

lemma store_in_block_spec:
  assumes "\<forall>r \<in> set tab. block_ok r"
  shows "store_in_block start e tab = Some None \<or>
     (\<exists>tab'. store_in_block start e tab = Some (Some tab') \<and> (\<forall>r \<in> set tab'. block_ok r) \<and>
        used_total tab' = used_total tab + 1 \<and>
        mset (table_fixups tab') = mset (table_fixups tab) + mset (block_fixups (ucast start) [e]))"
  using assms
proof (induction tab)
  case (Cons r rs)
  show ?case
  proof (cases "start_rva r = start")
    case True
    have ok: "block_ok r" using Cons.prems by simp
    obtain r' where "store_reloc e r = Some r'" "block_ok r'" "start_rva r' = start_rva r"
      "used_relocs r' = used_relocs r + 1" "take (used_relocs r') (relocs r') = take (used_relocs r) (relocs r) @ [e]"
      using store_reloc_spec [of r e] ok unfolding block_ok_def by metis
    then show ?thesis using True Cons.prems
      by (auto simp: table_fixups_def used_total_def block_fixups_append)
  next
    case False
    show ?thesis using Cons.IH Cons.prems False by (auto simp: table_fixups_def used_total_def)
  qed
qed simp

definition reloc_type :: "nat \<Rightarrow> u16" where
  "reloc_type sz = (if sz = 8 then 10 else if sz = 4 then 3 else 2)"

lemma reloc_entry:
  assumes "reloc_flags sz = Some flags"
  shows "block_fixups (ucast (rva AND NOT 0xfff)) [ucast (rva AND 0xfff) OR flags] =
     [(ucast (rva :: u64), reloc_type sz)]"
proof -
  have m: "(0xfff :: 'a::len word) = mask 12" by (simp add: mask_eq_exp_minus_1)
  have f: "drop_bit 12 flags = reloc_type sz" "flags AND 0xfff = 0" "reloc_type sz \<noteq> 0"
    using assms by (auto simp: reloc_flags_def reloc_type_def split: if_splits)
  have "drop_bit 12 (ucast (rva AND 0xfff) :: u16) = 0"
    by (rule bit_word_eqI) (auto simp: m bit_simps)
  then have t: "drop_bit 12 (ucast (rva AND 0xfff) OR flags) = reloc_type sz" using f by (simp add: drop_bit_or)
  have "((ucast (rva AND 0xfff) :: u16) AND 0xfff) = ucast (rva AND 0xfff)"
    by (rule bit_word_eqI) (auto simp: m bit_simps)
  then have o: "(ucast (rva AND 0xfff) OR flags) AND 0xfff = (ucast (rva AND 0xfff) :: u16)"
    using f by (simp add: bit.conj_disj_distrib2)
  have "(ucast (rva AND NOT 0xfff) :: u32) + ucast (ucast (rva AND 0xfff) :: u16) =
      ucast (rva AND NOT 0xfff) OR ucast (ucast (rva AND 0xfff) :: u16)"
    by (rule disjunctive_add_eq_or) (rule bit_word_eqI, auto simp: m bit_simps)
  also have "\<dots> = ucast rva"
    by (rule bit_word_eqI) (auto simp: m bit_simps)
  finally show ?thesis using f t o by (simp add: block_fixups_def fixup_def)
qed

lemma generate_pe_reloc_spec:
  assumes ok: "\<forall>r \<in> set tab. block_ok r" and sz: "reloc_flags sz = Some flags"
  shows "\<exists>tab'. generate_pe_reloc tab rva sz = Some (Inr tab') \<and> (\<forall>r \<in> set tab'. block_ok r) \<and>
     used_total tab' = used_total tab + 1 \<and>
     mset (table_fixups tab') = mset (table_fixups tab) + {#(ucast rva, reloc_type sz)#}"
proof -
  let ?start = "rva AND NOT 0xfff" and ?e = "ucast (rva AND 0xfff) OR flags"
  have e: "block_fixups (ucast ?start) [?e] = [(ucast rva, reloc_type sz)]" by (rule reloc_entry [OF sz])
  consider (none) "store_in_block ?start ?e tab = Some None"
    | (some) tab' where "store_in_block ?start ?e tab = Some (Some tab')" "\<forall>r \<in> set tab'. block_ok r"
      "used_total tab' = used_total tab + 1"
      "mset (table_fixups tab') = mset (table_fixups tab) + mset (block_fixups (ucast ?start) [?e])"
    using store_in_block_spec [OF ok, of ?start ?e] by blast
  then show ?thesis
  proof cases
    case none
    obtain r where r: "store_reloc ?e \<lparr>start_rva = ?start, used_relocs = 0, relocs = []\<rparr> = Some r" "block_ok r"
      "start_rva r = ?start" "used_relocs r = 1" "take (used_relocs r) (relocs r) = [?e]"
      using store_reloc_spec [of "\<lparr>start_rva = ?start, used_relocs = 0, relocs = []\<rparr>" ?e] by auto
    have "generate_pe_reloc tab rva sz = Some (Inr (r # tab))"
      using none r(1) by (simp add: generate_pe_reloc_def sz)
    moreover have "table_fixups (r # tab) = (ucast rva, reloc_type sz) # table_fixups tab"
      using r(3,5) e by (simp add: table_fixups_def)
    ultimately show ?thesis using ok r(2,4) by (simp add: used_total_def)
  next
    case some
    then show ?thesis using e by (simp add: generate_pe_reloc_def sz)
  qed
qed

section \<open>The table in the file\<close>

definition padded :: "pe_relocs \<Rightarrow> nat" where
  "padded r = (used_relocs r + 1) div 2 * 2"

definition block_bytes :: "pe_relocs \<Rightarrow> bytes" where
  "block_bytes r = le_bytes 4 (ucast (start_rva r) :: u32) @ le_bytes 4 (of_nat (8 + padded r * 2) :: u32) @
     concat (map (le_bytes 2) (take (padded r) (relocs r)))"

lemma length_entry_bytes [simp]: "length (concat (map (le_bytes 2) es)) = 2 * length es"
  by (induction es) auto

lemma entries_of_bytes: "entries_of (concat (map (le_bytes 2) es)) = (es :: u16 list)"
proof (induction es)
  case (Cons e es)
  have "le_bytes 2 e = [ucast e, ucast (drop_bit 8 e)]" by (simp add: numeral_eq_Suc)
  moreover have "le_word (le_bytes 2 e) = e" by (rule le_word_le_bytes) simp
  ultimately show ?case using Cons.IH by simp
qed simp

lemma padded_room: "block_ok r \<Longrightarrow> padded r \<le> length (relocs r) \<and> used_relocs r \<le> padded r"
  by (auto simp: block_ok_def padded_def elim!: evenE) 

lemma length_block_bytes: "block_ok r \<Longrightarrow> length (block_bytes r) = 8 + padded r * 2"
  using padded_room [of r] by (simp add: block_bytes_def)

lemma reltab_size: "output_pe_reltab tab None n = Some (None, n + sum_list (map (\<lambda>r. 8 + padded r * 2) tab))"
  by (induction tab arbitrary: n) (simp_all add: padded_def Let_def)

text \<open>The table is written behind what is in the buffer, and the rest of the buffer stays.\<close>

lemma poke_append:
  "n = length pre \<Longrightarrow> k = length ys \<Longrightarrow> k \<le> length suf \<Longrightarrow> poke (pre @ suf) n ys = Some (pre @ ys @ drop k suf)"
  by (simp add: poke_def)

lemma output_block:
  assumes "block_ok r" and "8 + padded r * 2 \<le> length suf"
  shows "\<exists>b1 b2. put32 (pre @ suf) (length pre) (ucast (start_rva r)) = Some b1 \<and>
     put32 b1 (length pre + 4) (of_nat (8 + padded r * 2)) = Some b2 \<and>
     peek (relocs r) 0 (padded r) = Some (take (padded r) (relocs r)) \<and>
     poke b2 (length pre + 8) (concat (map (le_bytes 2) (take (padded r) (relocs r)))) =
       Some (pre @ block_bytes r @ drop (8 + padded r * 2) suf)"
proof -
  let ?va = "le_bytes 4 (ucast (start_rva r) :: u32)" and ?sz = "le_bytes 4 (of_nat (8 + padded r * 2) :: u32)"
  let ?es = "take (padded r) (relocs r)"
  have room: "padded r \<le> length (relocs r)" using padded_room [OF assms(1)] by simp
  have "put32 (pre @ suf) (length pre) (ucast (start_rva r)) = Some (pre @ ?va @ drop 4 suf)"
    unfolding put32_def by (rule poke_append) (use assms(2) in simp_all)
  moreover have "put32 (pre @ ?va @ drop 4 suf) (length pre + 4) (of_nat (8 + padded r * 2)) =
      Some ((pre @ ?va) @ ?sz @ drop 4 (drop 4 suf))"
    unfolding put32_def append.assoc [symmetric, of pre] by (rule poke_append) (use assms(2) in simp_all)
  moreover have "poke ((pre @ ?va @ ?sz) @ drop 8 suf) (length pre + 8) (concat (map (le_bytes 2) ?es)) =
      Some ((pre @ ?va @ ?sz) @ concat (map (le_bytes 2) ?es) @ drop (padded r * 2) (drop 8 suf))"
    by (rule poke_append) (use assms(2) room in simp_all)
  moreover have "peek (relocs r) 0 (padded r) = Some ?es" using room by (simp add: peek_def)
  ultimately show ?thesis by (simp add: block_bytes_def add.commute)
qed

lemma output_reltab_spec:
  assumes "\<forall>r \<in> set tab. block_ok r" and "sum_list (map (\<lambda>r. 8 + padded r * 2) tab) \<le> length suf"
  shows "output_pe_reltab tab (Some (pre @ suf)) (length pre) =
     Some (Some (pre @ concat (map block_bytes tab) @ drop (sum_list (map (\<lambda>r. 8 + padded r * 2) tab)) suf),
           length pre + sum_list (map (\<lambda>r. 8 + padded r * 2) tab))"
  using assms
proof (induction tab arbitrary: pre suf)
  case (Cons r tab)
  let ?n = "8 + padded r * 2"
  obtain b1 b2 where b: "put32 (pre @ suf) (length pre) (ucast (start_rva r)) = Some b1"
    "put32 b1 (length pre + 4) (of_nat ?n) = Some b2"
    "peek (relocs r) 0 (padded r) = Some (take (padded r) (relocs r))"
    "poke b2 (length pre + 8) (concat (map (le_bytes 2) (take (padded r) (relocs r)))) =
       Some (pre @ block_bytes r @ drop ?n suf)"
    using output_block [of r suf pre] Cons.prems by auto
  have "output_pe_reltab (r # tab) (Some (pre @ suf)) (length pre) =
      output_pe_reltab tab (Some ((pre @ block_bytes r) @ drop ?n suf)) (length (pre @ block_bytes r))"
    using b Cons.prems(1)
    by (simp only: output_pe_reltab.simps padded_def [symmetric] Let_def option.case Option.bind.bind_lunit
        length_append length_block_bytes list.set_intros append.assoc)
  also have "\<dots> = Some (Some ((pre @ block_bytes r) @ concat (map block_bytes tab) @
        drop (sum_list (map (\<lambda>r. 8 + padded r * 2) tab)) (drop ?n suf)),
      length (pre @ block_bytes r) + sum_list (map (\<lambda>r. 8 + padded r * 2) tab))"
    by (rule Cons.IH) (use Cons.prems in auto)
  finally show ?case using Cons.prems(1) by (simp add: length_block_bytes add.commute add.left_commute)
qed simp

text \<open>The reader takes the blocks off the written table one by one.\<close>

lemma read_block:
  assumes "block_ok r" and "8 + padded r * 2 < 2 ^ 32" and rest: "read_reltab b = Some fs"
  shows "read_reltab (block_bytes r @ b) =
     Some (block_fixups (ucast (start_rva r)) (take (used_relocs r) (relocs r)) @ fs)"
proof -
  let ?n = "8 + padded r * 2" and ?es = "take (padded r) (relocs r)"
  have u: "unat (of_nat ?n :: u32) = ?n" by (rule unat_of_nat_small [where ?'a = 32]) (use assms(2) in simp)
  have len: "length (block_bytes r) = ?n" using assms(1) by (rule length_block_bytes)
  have va: "get32 (block_bytes r @ b) 0 = Some (ucast (start_rva r))"
    by (simp add: get32_def peek_def block_bytes_def le_word_le_bytes)
  have sz: "get32 (block_bytes r @ b) 4 = Some (of_nat ?n)"
    by (simp add: get32_def peek_def block_bytes_def le_word_le_bytes del: of_nat_add of_nat_mult)
  have es: "take (?n - 8) (drop 8 (block_bytes r @ b)) = concat (map (le_bytes 2) ?es)"
    using padded_room [OF assms(1)] by (simp add: block_bytes_def)
  have "take (padded r - used_relocs r) (drop (used_relocs r) (relocs r)) = drop (used_relocs r) ?es"
    by (simp add: drop_take)
  moreover have "?es = take (used_relocs r) (relocs r) @ drop (used_relocs r) ?es"
    using padded_room [OF assms(1)] append_take_drop_id [of "used_relocs r" ?es] by (simp add: min_def)
  moreover have "set (drop (used_relocs r) ?es) \<subseteq> {0}"
    using assms(1) set_take_subset [of "padded r - used_relocs r" "drop (used_relocs r) (relocs r)"]
    by (auto simp: block_ok_def drop_take)
  ultimately have f: "block_fixups va ?es = block_fixups va (take (used_relocs r) (relocs r))" for va
    using block_fixups_append block_fixups_zeros by (metis append_Nil2)
  have ne: "(block_bytes r @ b = []) = False" using len by auto
  have skip: "drop ?n (block_bytes r @ b) = b" using len by simp
  have guard: "(?n < 8 \<or> length (block_bytes r @ b) < ?n) = False" using len by simp
  have "read_reltab (block_bytes r @ b) = Some (block_fixups (ucast (start_rva r)) ?es @ fs)"
    using guard
    by (subst read_reltab.simps)
       (simp only: ne if_False va sz Option.bind.bind_lunit u es entries_of_bytes skip rest)
  then show ?thesis by (simp add: f)
qed

lemma read_written:
  assumes "\<forall>r \<in> set tab. block_ok r" and "sum_list (map (\<lambda>r. 8 + padded r * 2) tab) < 2 ^ 32"
  shows "read_reltab (concat (map block_bytes tab)) = Some (table_fixups tab)"
  using assms
proof (induction tab)
  case Nil
  then show ?case by (simp add: table_fixups_def read_reltab.simps)
next
  case (Cons r tab)
  have "read_reltab (block_bytes r @ concat (map block_bytes tab)) =
      Some (block_fixups (ucast (start_rva r)) (take (used_relocs r) (relocs r)) @ table_fixups tab)"
    by (rule read_block) (use Cons in auto)
  then show ?case by (simp add: table_fixups_def)
qed

lemma reltab_small:
  assumes "\<forall>r \<in> set tab. block_ok r"
  shows "sum_list (map (\<lambda>r. 8 + padded r * 2) tab) \<le> 12 * used_total tab"
  using assms
proof (induction tab)
  case (Cons r tab)
  have "8 + padded r * 2 \<le> 12 * used_relocs r"
    using Cons.prems by (auto simp: padded_def block_ok_def)
  then show ?case using Cons by (simp add: used_total_def)
qed (simp add: used_total_def)

section \<open>The relocation section\<close>

text \<open>The relocations of a file, generated one after the other.\<close>

fun generate_relocs :: "(u64 \<times> nat) list \<Rightarrow> pe_relocs list \<Rightarrow> (elf_error + pe_relocs list) option" where
  "generate_relocs [] tab = Some (Inr tab)"
| "generate_relocs ((rva, sz) # qs) tab = do {
     r \<leftarrow> generate_pe_reloc tab rva sz;
     (case r of Inl e \<Rightarrow> Some (Inl e) | Inr tab \<Rightarrow> generate_relocs qs tab) }"

lemma generate_relocs_spec:
  assumes "\<forall>r \<in> set tab. block_ok r" and "\<forall>(rva, sz) \<in> set qs. sz \<in> {2, 4, 8}"
  shows "\<exists>tab'. generate_relocs qs tab = Some (Inr tab') \<and> (\<forall>r \<in> set tab'. block_ok r) \<and>
     used_total tab' = used_total tab + length qs \<and>
     mset (table_fixups tab') = mset (table_fixups tab) + mset (map (\<lambda>(rva, sz). (ucast rva, reloc_type sz)) qs)"
  using assms
proof (induction qs arbitrary: tab)
  case (Cons q qs)
  obtain rva sz where q: "q = (rva, sz)" by (cases q)
  have "\<exists>flags. reloc_flags sz = Some flags" using Cons.prems(2) q by (auto simp: reloc_flags_def)
  then obtain t where t: "generate_pe_reloc tab rva sz = Some (Inr t)" "\<forall>r \<in> set t. block_ok r"
    "used_total t = used_total tab + 1"
    "mset (table_fixups t) = mset (table_fixups tab) + {#(ucast rva, reloc_type sz)#}"
    using generate_pe_reloc_spec [OF Cons.prems(1)] by blast
  then show ?case using Cons.IH [of t] Cons.prems(2) by (auto simp: q)
qed simp

lemma ucast_diff_down: "(ucast (a - b :: u64) :: u32) = ucast a - ucast b"
proof transfer
  fix a b :: int
  have "take_bit 32 (take_bit 64 a - take_bit 64 b) = take_bit 32 (a - b)"
    using take_bit_diff [of 32 "take_bit 64 a" "take_bit 64 b"] take_bit_diff [of 32 a b] by (simp add: min_def)
  then show "take_bit LENGTH(32) (take_bit LENGTH(64) (a - b)) =
      take_bit LENGTH(32) (take_bit LENGTH(64) a - take_bit LENGTH(64) b)" by (simp add: min_def)
qed

lemma block_ok_moved: "block_ok (r\<lparr>start_rva := x\<rparr>) = block_ok r"
  by (simp add: block_ok_def)

lemma table_fixups_moved:
  "table_fixups (map (\<lambda>r. r\<lparr>start_rva := start_rva r - b\<rparr>) tab) = map (\<lambda>(a, t). (a - ucast b, t)) (table_fixups tab)"
proof (induction tab)
  case (Cons r tab)
  have "(ucast (start_rva r - b) :: u32) = ucast (start_rva r) - ucast b" by (rule ucast_diff_down)
  then show ?case using Cons by (simp add: table_fixups_def block_fixups_shift)
qed (simp add: table_fixups_def)

lemma efi_file_align_nat:
  assumes "unat x + 511 < 2 ^ 64"
  shows "unat (efi_file_align x) = (unat x + 511) div 512 * 512"
proof -
  have m: "EFI_FILE_ALIGN - 1 = mask 9" by (simp add: EFI_FILE_ALIGN_def mask_eq_exp_minus_1)
  have "x + EFI_FILE_ALIGN - 1 = x + 511" by (simp add: EFI_FILE_ALIGN_def)
  moreover have "unat (x + 511) = unat x + 511" using assms by (simp add: unat_word_ariths)
  ultimately show ?thesis unfolding efi_file_align_def m by (simp only: unat_and_not_mask) simp
qed

lemma file_align_covers:
  assumes "unat x + 511 < 2 ^ 64"
  shows "unat x \<le> unat (efi_file_align x)" and "unat (efi_file_align x) \<le> unat x + 511"
    and "unat (efi_file_align x) mod 512 = 0"
  unfolding efi_file_align_nat [OF assms] by auto

lemma file_align_id:
  assumes "unat x + 511 < 2 ^ 64" and "unat x mod 512 = 0"
  shows "efi_file_align x = x"
proof -
  obtain k where k: "unat x = k * 512" using assms(2) by (metis mod_0_imp_dvd dvd_def mult.commute)
  have "unat (efi_file_align x) = unat x" unfolding efi_file_align_nat [OF assms(1)] k by simp
  then show ?thesis by (simp only: word_unat_eq_iff)
qed

text \<open>Whatever the table, its section is created, and holds what the loader reads as the table.\<close>

lemma create_reloc_section_spec:
  assumes ok: "\<forall>r \<in> set tab. block_ok r" and small: "12 * used_total tab < 2 ^ 31"
  shows "\<exists>s pe'. create_reloc_section pe tab = Some (s, pe') \<and>
     pe' = pe\<lparr>NumberOfSections := NumberOfSections pe + 1, SizeOfHeaders := SizeOfHeaders pe + 40,
       SizeOfImage := SizeOfImage pe'  , reloc_directory := (VirtualAddress s, VirtualSize s)\<rparr> \<and>
     VirtualAddress s = SizeOfImage pe \<and> PointerToRawData s = PTRD_AUTO \<and> \<not> hidden_section s \<and>
     length (Name s) = 8 \<and> unat (SizeOfRawData s) mod 512 = 0 \<and> unat (VirtualSize s) \<le> unat (SizeOfRawData s) \<and>
     length (section_contents s) = unat (SizeOfRawData s) \<and> unat (SizeOfRawData s) \<le> 12 * used_total tab + 511 \<and>
     read_reltab (take (unat (VirtualSize s)) (section_contents s)) = Some (table_fixups tab)"
proof -
  let ?n = "sum_list (map (\<lambda>r. 8 + padded r * 2) tab)" and ?e = "concat (map block_bytes tab)"
  let ?fs = "efi_file_align (of_nat ?n)"
  have n: "?n \<le> 12 * used_total tab" using ok by (rule reltab_small)
  then have n31: "?n < 2 ^ 31" using small by linarith
  have u64: "unat (of_nat ?n :: u64) = ?n" by (rule unat_of_nat_small [where ?'a = 64]) (use n31 in simp)
  have u32: "unat (of_nat ?n :: u32) = ?n" by (rule unat_of_nat_small [where ?'a = 32]) (use n31 in simp)
  have fs: "?n \<le> unat ?fs" "unat ?fs \<le> ?n + 511" "unat ?fs mod 512 = 0"
    using file_align_covers [of "of_nat ?n"] n31 u64 by simp_all
  have raw: "unat (ucast ?fs :: u32) = unat ?fs"
    using fs(2) n31 by (simp add: unsigned_ucast_eq take_bit_nat_eq_self)
  have e: "length ?e = ?n" using ok by (induction tab) (simp_all add: length_block_bytes)
  have "output_pe_reltab tab (Some (replicate (unat ?fs) 0)) 0 =
      Some (Some (?e @ drop ?n (replicate (unat ?fs) 0)), ?n)"
    using output_reltab_spec [OF ok, of "replicate (unat ?fs) 0" "[]"] fs(1) by simp
  moreover have "output_pe_reltab tab None 0 = Some (None, ?n)" using reltab_size [of tab 0] by simp
  moreover have "read_reltab ?e = Some (table_fixups tab)" using n31 by (intro read_written [OF ok]) simp
  ultimately show ?thesis using fs raw u32 e n
    by (simp add: create_reloc_section_def Let_def)
qed

end

