(* ===== verification/ElfPeFile.thy ===== *)
theory ElfPeFile
  imports ElfPeRelocs
begin

text \<open>
  The executable that is written: where the sections stand in the file, what the headers say of them,
  and the conversion of a whole ELF file without the placement of a hybrid binary.
\<close>

section \<open>Where sections are written\<close>

definition raw_bytes :: "pe_section \<Rightarrow> bytes" where
  "raw_bytes s = take (unat (SizeOfRawData s)) (section_contents s)"

lemma ucast_32_id: "(ucast (ucast (w :: u32) :: u64) :: u32) = w"
  by (rule bit_word_eqI) (simp add: bit_simps)

text \<open>A section that the tool places itself, or one without data.\<close>

definition placeable :: "pe_section \<Rightarrow> bool" where
  "placeable s \<longleftrightarrow> \<not> hidden_section s \<and> length (Name s) = 8 \<and> unat (SizeOfRawData s) mod 512 = 0 \<and>
     unat (SizeOfRawData s) \<le> length (section_contents s) \<and>
     (PointerToRawData s = PTRD_AUTO \<or> PointerToRawData s = 0 \<and> SizeOfRawData s = 0)"

definition raw_total :: "pe_section list \<Rightarrow> nat" where
  "raw_total ss = sum_list (map (\<lambda>s. unat (SizeOfRawData s)) ss)"

lemma raw_bytes_length: "placeable s \<Longrightarrow> length (raw_bytes s) = unat (SizeOfRawData s)"
  by (simp add: raw_bytes_def placeable_def)

lemma raw_total_length: "\<forall>s \<in> set ss. placeable s \<Longrightarrow> length (concat (map raw_bytes ss)) = raw_total ss"
  by (induction ss) (simp_all add: raw_bytes_length raw_total_def)

lemma unat_ucast_low: "unat (x :: u64) < 2 ^ 32 \<Longrightarrow> unat (ucast x :: u32) = unat x"
  by (simp add: unsigned_ucast_eq take_bit_nat_eq_self)

lemma unat_ucast_high: "unat (ucast (x :: u32) :: u64) = unat x"
proof -
  have "unat x < 2 ^ 64" using unat_bound [of x] by simp
  then show ?thesis by (simp add: unsigned_ucast_eq take_bit_nat_eq_self)
qed

lemma sector_aligned: "unat (x :: u32) mod 512 = 0 \<Longrightarrow> x AND 0x1ff = 0"
proof -
  assume "unat x mod 512 = 0"
  then have "unat (x AND mask 9) = 0" by (simp add: unat_and_mask)
  moreover have "mask 9 = (0x1ff :: u32)" by (simp add: mask_eq_exp_minus_1)
  ultimately show ?thesis by (simp add: unat_eq_0)
qed

text \<open>The position behind a section that is placed at the end of the file.\<close>

lemma next_position:
  assumes "unat p mod 512 = 0" and "unat (r :: u32) mod 512 = 0" and "unat p + unat r < 2 ^ 32"
  shows "efi_file_align (p + ucast r) = p + ucast r" and "unat (p + ucast r) = unat p + unat r"
    and "p \<le> p + ucast r" and "unat (p + ucast r) mod 512 = 0"
proof -
  show u: "unat (p + ucast r) = unat p + unat r" using assms(3) by (simp add: unat_word_ariths unat_ucast_high)
  then show m: "unat (p + ucast r) mod 512 = 0" using assms(1,2) by (metis add_0 mod_add_eq mod_0)
  show "efi_file_align (p + ucast r) = p + ucast r" by (rule file_align_id [OF _ m]) (use assms(3) u in simp)
  show "p \<le> p + ucast r" using u by (simp add: word_le_nat_alt)
qed

text \<open>
  One section of the list: where it is put, the position for those behind it, and the same section with
  its pointer.
\<close>

definition placed :: "u64 \<Rightarrow> pe_section \<Rightarrow> pe_section" where
  "placed p s = (if PointerToRawData s = PTRD_AUTO then s\<lparr>PointerToRawData := ucast p\<rparr> else s)"

lemma assign_placeable:
  assumes "placeable s" and "unat p mod 512 = 0" and "unat p + unat (SizeOfRawData s) < 2 ^ 32"
  shows "assign_pointers p (s # ss) = placed p s # assign_pointers (p + ucast (SizeOfRawData s)) ss"
proof (cases "PointerToRawData s = PTRD_AUTO")
  case True
  have n: "efi_file_align (p + ucast (SizeOfRawData s)) = p + ucast (SizeOfRawData s)"
    "p \<le> p + ucast (SizeOfRawData s)"
    using next_position [of p "SizeOfRawData s"] assms by (auto simp: placeable_def)
  show ?thesis using True n by (auto simp: placed_def Let_def)
next
  case False
  then have z: "PointerToRawData s = 0" "SizeOfRawData s = 0" using assms(1) by (auto simp: placeable_def)
  have "efi_file_align 0 = 0" by (rule file_align_id) simp_all
  moreover have "s\<lparr>PointerToRawData := 0\<rparr> = s" using z(1) by simp
  ultimately show ?thesis using False z by (simp add: placed_def Let_def)
qed

declare assign_pointers.simps(2) [simp del]

lemma placed_aligned:
  assumes "placeable s" and "unat p mod 512 = 0" and "unat p < 2 ^ 32"
  shows "PointerToRawData (placed p s) AND 0x1ff = 0"
  using assms sector_aligned [of "ucast p"] unat_ucast_low [OF assms(3)]
  by (auto simp: placed_def placeable_def)

lemma placed_same [simp]:
  "SizeOfRawData (placed p s) = SizeOfRawData s" "section_contents (placed p s) = section_contents s"
  "hidden_section (placed p s) = hidden_section s" "VirtualAddress (placed p s) = VirtualAddress s"
  "VirtualSize (placed p s) = VirtualSize s" "Name (placed p s) = Name s"
  "Characteristics (placed p s) = Characteristics s"
  by (simp_all add: placed_def)

text \<open>
  The sections are written one behind the other from the first position; nothing is written when they
  have no data.
\<close>

lemma write_placeable:
  assumes "\<forall>s \<in> set ss. placeable s" and "unat p mod 512 = 0" and "unat p + raw_total ss < 2 ^ 32"
    and "length out \<le> unat p"
  shows "write_sections (assign_pointers p (ss @ rest)) out =
     write_sections (assign_pointers (p + of_nat (raw_total ss)) rest)
       (if raw_total ss = 0 then out else out @ replicate (unat p - length out) 0 @ concat (map raw_bytes ss))"
  using assms
proof (induction ss arbitrary: p out)
  case Nil
  then show ?case by (simp add: raw_total_def)
next
  case (Cons s ss)
  let ?r = "SizeOfRawData s" and ?q = "p + ucast (SizeOfRawData s)"
  have s: "placeable s" using Cons.prems(1) by simp
  have tot: "raw_total (s # ss) = unat ?r + raw_total ss" by (simp add: raw_total_def)
  have fit: "unat p + unat ?r < 2 ^ 32" using Cons.prems(3) tot by simp
  have q: "unat ?q = unat p + unat ?r" "unat ?q mod 512 = 0"
    using next_position [of p ?r] Cons.prems(2) fit s by (auto simp: placeable_def)
  have pos: "?q + of_nat (raw_total ss) = p + of_nat (raw_total (s # ss))"
    by (simp add: tot add.assoc)
  have al: "PointerToRawData (placed p s) AND 0x1ff = 0"
    using placed_aligned [OF s Cons.prems(2)] fit by simp
  have as: "assign_pointers p (s # ss @ rest) = placed p s # assign_pointers ?q (ss @ rest)"
    using assign_placeable [OF s Cons.prems(2) fit] by simp
  show ?case
  proof (cases "?r = 0")
    case True
    have "write_sections (assign_pointers ?q (ss @ rest)) out =
        write_sections (assign_pointers (?q + of_nat (raw_total ss)) rest)
          (if raw_total ss = 0 then out else out @ replicate (unat ?q - length out) 0 @ concat (map raw_bytes ss))"
      by (rule Cons.IH) (use Cons.prems q tot in auto)
    then show ?thesis using True al pos tot q(1) by (simp add: as raw_bytes_def)
  next
    case False
    then have auto: "PointerToRawData s = PTRD_AUTO" using s by (auto simp: placeable_def)
    have ptr: "unat (PointerToRawData (placed p s)) = unat p"
      using fit unat_ucast_low [of p] by (simp add: placed_def auto)
    have src: "peek (section_contents s) 0 (unat ?r) = Some (raw_bytes s)"
      using s by (simp add: peek_def raw_bytes_def placeable_def)
    let ?out = "out @ replicate (unat p - length out) 0 @ raw_bytes s"
    have w: "write_at (unat p) (raw_bytes s) out = ?out" using Cons.prems(4) by (simp add: write_at_def)
    have l: "length ?out = unat ?q" using q(1) raw_bytes_length [OF s] Cons.prems(4) by simp
    have "write_sections (assign_pointers ?q (ss @ rest)) ?out =
        write_sections (assign_pointers (?q + of_nat (raw_total ss)) rest)
          (if raw_total ss = 0 then ?out else ?out @ replicate (unat ?q - length ?out) 0 @ concat (map raw_bytes ss))"
      by (rule Cons.IH) (use Cons.prems q tot l in auto)
    moreover have "raw_total ss = 0 \<Longrightarrow> concat (map raw_bytes ss) = []"
      using raw_total_length [of ss] Cons.prems(1) by simp
    moreover have "unat ?r \<noteq> 0" using False by (simp add: unat_eq_0)
    ultimately show ?thesis using False al pos tot l
      by (simp add: as src ptr w del: concat_eq_Nil_conv)
  qed
qed

text \<open>In the file, the data of each section stand where its pointer says.\<close>

lemma placed_contents:
  assumes "\<forall>s \<in> set ss. placeable s" and "unat p mod 512 = 0" and "unat p + raw_total ss < 2 ^ 32"
    and "length pre = unat p"
  shows "list_all2 (\<lambda>s s'. (\<exists>q. s' = placed q s) \<and> (PointerToRawData s = PTRD_AUTO \<longrightarrow>
       peek (pre @ concat (map raw_bytes ss)) (unat (PointerToRawData s')) (unat (SizeOfRawData s)) = Some (raw_bytes s)))
     ss (assign_pointers p ss)"
  using assms
proof (induction ss arbitrary: p pre)
  case (Cons s ss)
  let ?r = "SizeOfRawData s" and ?q = "p + ucast (SizeOfRawData s)"
  have s: "placeable s" using Cons.prems(1) by simp
  have tot: "raw_total (s # ss) = unat ?r + raw_total ss" by (simp add: raw_total_def)
  have fit: "unat p + unat ?r < 2 ^ 32" using Cons.prems(3) tot by simp
  have q: "unat ?q = unat p + unat ?r" "unat ?q mod 512 = 0"
    using next_position [of p ?r] Cons.prems(2) fit s by (auto simp: placeable_def)
  have as: "assign_pointers p (s # ss) = placed p s # assign_pointers ?q ss"
    by (rule assign_placeable [OF s Cons.prems(2) fit])
  have here: "peek (pre @ concat (map raw_bytes (s # ss))) (unat (PointerToRawData (placed p s))) (unat ?r) = Some (raw_bytes s)"
    if "PointerToRawData s = PTRD_AUTO"
  proof -
    have "unat (PointerToRawData (placed p s)) = length pre"
      using that fit unat_ucast_low [of p] Cons.prems(4) by (simp add: placed_def)
    then show ?thesis using raw_bytes_length [OF s] by (simp add: peek_def)
  qed
  note rest = Cons.IH [of ?q "pre @ raw_bytes s"]
  show ?case using rest Cons.prems q tot raw_bytes_length [OF s] here by (auto simp: as)
qed simp

section \<open>The whole file\<close>

lemma header_length: "length (pe_header_bytes pe) = 264"
  by (simp add: pe_header_bytes_def)

lemma section_header_length: "length (Name s) = 8 \<Longrightarrow> length (section_header_bytes s) = 40"
  by (simp add: section_header_bytes_def)

lemma header_limit_none:
  assumes "\<forall>s \<in> set ss. placeable s \<or> hidden_section s"
  shows "header_limit ss = - 1"
proof -
  have "foldl (\<lambda>hdrmax s. if PointerToRawData s \<noteq> PTRD_AUTO \<and> SizeOfRawData s > 0 \<and>
       \<not> hidden_section s \<and> hdrmax > ucast (PointerToRawData s)
     then ucast (PointerToRawData s) else hdrmax) m ss = m" for m :: u64
    using assms by (induction ss) (auto simp: placeable_def)
  then show ?thesis by (simp add: header_limit_def)
qed

lemma assign_length: "length (assign_pointers p ss) = length ss"
  by (induction ss arbitrary: p) (simp_all add: assign_pointers.simps(2) Let_def)

lemma assign_append:
  assumes "\<forall>s \<in> set ss. placeable s" and "unat p mod 512 = 0" and "unat p + raw_total ss < 2 ^ 32"
  shows "assign_pointers p (ss @ rest) = assign_pointers p ss @ assign_pointers (p + of_nat (raw_total ss)) rest"
  using assms
proof (induction ss arbitrary: p)
  case (Cons s ss)
  have s: "placeable s" using Cons.prems(1) by simp
  have tot: "raw_total (s # ss) = unat (SizeOfRawData s) + raw_total ss" by (simp add: raw_total_def)
  have fit: "unat p + unat (SizeOfRawData s) < 2 ^ 32" using Cons.prems(3) tot by simp
  have q: "unat (p + ucast (SizeOfRawData s)) = unat p + unat (SizeOfRawData s)"
    "unat (p + ucast (SizeOfRawData s)) mod 512 = 0"
    using next_position [of p "SizeOfRawData s"] Cons.prems(2) fit s by (auto simp: placeable_def)
  show ?case
    using Cons.IH [of "p + ucast (SizeOfRawData s)"] Cons.prems q tot
      assign_placeable [OF s Cons.prems(2) fit, of ss] assign_placeable [OF s Cons.prems(2) fit, of "ss @ rest"]
    by (simp add: add.assoc)
qed (simp add: raw_total_def)

lemma write_headers:
  assumes "length h \<le> va" and "va + length d = p" and "if r = [] then out = [] else out = replicate p 0 @ r"
  shows "write_at 0 h (write_at va d out) = h @ replicate (va - length h) 0 @ d @ r"
  using assms by (cases "r = []") (auto simp: write_at_def min_def)

lemma placed_visible:
  assumes "list_all2 (\<lambda>s s'. (\<exists>q. s' = placed q s) \<and> P s s') us ts" and "\<forall>s \<in> set us. placeable s"
  shows "list_all (\<lambda>s. \<not> hidden_section s \<and> length (Name s) = 8) ts"
  using assms
proof (induction us ts rule: list_all2_induct)
  case (Cons s ss t ts)
  then obtain q where "t = placed q s" by blast
  moreover have "placeable s" using Cons.prems by simp
  ultimately show ?case using Cons.IH Cons.prems by (simp add: placeable_def)
qed simp

lemma table_length:
  "list_all (\<lambda>s. \<not> hidden_section s \<and> length (Name s) = 8) ts \<Longrightarrow>
     length (concat (map section_header_bytes ts)) = 40 * length ts \<and> visible ts = ts"
  by (induction ts) (simp_all add: section_header_length visible_def)

lemma visible_placed:
  assumes "\<forall>s \<in> set ss. placeable s" and "unat p mod 512 = 0" and "unat p + raw_total ss < 2 ^ 32"
  shows "visible (assign_pointers p ss) = assign_pointers p ss" and
    "length (concat (map section_header_bytes (assign_pointers p ss))) = 40 * length ss"
proof -
  have len: "length (replicate (unat p) (0 :: byte)) = unat p" by simp
  note table_length [OF placed_visible [OF placed_contents [OF assms len] assms(1)]]
  then show "visible (assign_pointers p ss) = assign_pointers p ss" and
    "length (concat (map section_header_bytes (assign_pointers p ss))) = 40 * length ss"
    by (simp_all only: assign_length simp_thms)
qed

definition debug_at_end :: "pe_header \<Rightarrow> pe_section \<Rightarrow> bool" where
  "debug_at_end pe d \<longleftrightarrow> hidden_section d \<and> SizeOfRawData d = 84 \<and> length (section_contents d) = 84 \<and>
     unat (PointerToRawData d) + 84 = unat (SizeOfHeaders pe) \<and> unat (SizeOfHeaders pe) mod 512 = 0"

text \<open>
  The file is the headers, the table of sections with their pointers, a gap up to the debug data at the
  end of the headers, and the data of the sections in their order.
\<close>

lemma write_pe_file_spec:
  assumes ok: "\<forall>s \<in> set ss. placeable s" and d: "debug_at_end pe d"
    and fit: "unat (SizeOfHeaders pe) + raw_total ss < 2 ^ 31"
    and n: "NumberOfSections pe = of_nat (length ss)" "length ss < 2 ^ 16"
    and room: "264 + 40 * length ss \<le> unat (PointerToRawData d)"
  shows "write_pe_file pe (ss @ [d]) = Some (Inr (pe_header_bytes pe @
      concat (map section_header_bytes (assign_pointers (ucast (SizeOfHeaders pe)) ss)) @
      replicate (unat (PointerToRawData d) - (264 + 40 * length ss)) 0 @ section_contents d @
      concat (map raw_bytes ss)))"
proof -
  let ?p = "ucast (SizeOfHeaders pe) :: u64" and ?va = "unat (PointerToRawData d)"
  let ?r = "concat (map raw_bytes ss)" and ?ss = "assign_pointers (ucast (SizeOfHeaders pe)) ss"
  let ?h = "pe_header_bytes pe @ concat (map section_header_bytes ?ss)"
  have p: "unat ?p = unat (SizeOfHeaders pe)" by (rule unat_ucast_high)
  have m: "unat ?p mod 512 = 0" using d p by (simp add: debug_at_end_def)
  have f32: "unat ?p + raw_total ss < 2 ^ 32" using fit p by simp
  have "header_limit (ss @ [d]) = - 1" using ok d by (intro header_limit_none) (auto simp: debug_at_end_def)
  moreover have al: "efi_file_align ?p = ?p" by (rule file_align_id [OF _ m]) (use fit p in simp)
  moreover have "\<not> ?p > - 1" by (simp add: word_n1_ge not_less)
  moreover have u: "(ucast ?p :: u32) = SizeOfHeaders pe" by (rule ucast_32_id)
  moreover have "pe\<lparr>SizeOfHeaders := SizeOfHeaders pe\<rparr> = pe" by simp
  moreover have "PointerToRawData d \<noteq> PTRD_AUTO"
    using d fit by (auto simp: debug_at_end_def PTRD_AUTO_def)
  then have "assign_pointers q [d] = [d]" for q
    by (simp add: assign_pointers.simps Let_def ucast_32_id)
  then have as: "assign_pointers ?p (ss @ [d]) = ?ss @ [d]"
    using assign_append [OF ok m f32, of "[d]"] by simp
  have v: "visible (?ss @ [d]) = ?ss" using visible_placed [OF ok m f32] d
    by (simp add: visible_def debug_at_end_def)
  have hl: "length ?h = 264 + 40 * length ss" using visible_placed [OF ok m f32] by (simp add: header_length)
  have "length (section_contents d) = 84" using d by (simp add: debug_at_end_def)
  then have "write_sections [d] out = Some (Inr (write_at ?va (section_contents d) out))" for out
    using d by (simp add: debug_at_end_def peek_def)
  then have w: "write_sections (?ss @ [d]) [] = Some (Inr (write_at ?va (section_contents d)
      (if raw_total ss = 0 then [] else replicate (unat ?p) 0 @ ?r)))"
    using write_placeable [OF ok m f32, of "[]" "[d]"] as \<open>\<And>q. assign_pointers q [d] = [d]\<close> by simp
  have "write_at 0 ?h (write_at ?va (section_contents d) (if raw_total ss = 0 then [] else replicate (unat ?p) 0 @ ?r)) =
      ?h @ replicate (?va - length ?h) 0 @ section_contents d @ ?r"
  proof (rule write_headers)
    show "length ?h \<le> ?va" using room hl by simp
    show "?va + length (section_contents d) = unat ?p" using d p by (simp add: debug_at_end_def)
    have "(raw_total ss = 0) = (?r = [])" using raw_total_length [OF ok] length_0_conv [of ?r] by simp
    then show "if ?r = [] then (if raw_total ss = 0 then [] else replicate (unat ?p) 0 @ ?r) = []
        else (if raw_total ss = 0 then [] else replicate (unat ?p) 0 @ ?r) = replicate (unat ?p) 0 @ ?r"
      by (simp del: concat_eq_Nil_conv)
  qed
  moreover have "length ?ss = unat (NumberOfSections pe)"
    using n unat_of_nat_small [where ?'a = 16, of "length ss"] by (simp add: assign_length)
  ultimately show ?thesis using hl
    by (simp add: write_pe_file_def Let_def as w v)
qed

section \<open>What becomes of the ELF file\<close>

text \<open>The section of the executable that is made of a section of the ELF file.\<close>

definition section_made :: "bytes \<Rightarrow> elf_shdr \<Rightarrow> pe_section \<Rightarrow> bool" where
  "section_made f sh s \<longleftrightarrow>
     VirtualSize s = ucast (sh_size sh) \<and> VirtualAddress s = ucast (sh_addr sh) \<and>
     section_kind sh = Some (Characteristics s) \<and> \<not> hidden_section s \<and> length (Name s) = 8 \<and>
     (if sh_type sh = SHT_PROGBITS
      then PointerToRawData s = PTRD_AUTO \<and> SizeOfRawData s = ucast (efi_file_align (sh_size sh)) \<and>
        length (section_contents s) = unat (efi_file_align (sh_size sh)) \<and>
        unat (sh_size sh) \<le> length (section_contents s) \<and>
        peek f (unat (sh_offset sh)) (unat (sh_size sh)) = Some (take (unat (sh_size sh)) (section_contents s))
      else PointerToRawData s = 0 \<and> SizeOfRawData s = 0)"

definition header_extended :: "nat \<Rightarrow> pe_header \<Rightarrow> pe_header \<Rightarrow> bool" where
  "header_extended n pe pe' \<longleftrightarrow>
     NumberOfSections pe' = NumberOfSections pe + of_nat n \<and> SizeOfHeaders pe' = SizeOfHeaders pe + of_nat (40 * n) \<and>
     Machine pe' = Machine pe \<and> AddressOfEntryPoint pe' = AddressOfEntryPoint pe \<and> Subsystem pe' = Subsystem pe"

lemma header_extended_refl: "header_extended 0 pe pe"
  by (simp add: header_extended_def)

lemma header_extended_trans:
  "header_extended m pe pe' \<Longrightarrow> header_extended n pe' pe'' \<Longrightarrow> header_extended (m + n) pe pe''"
  by (simp add: header_extended_def distrib_left)

lemma count_section_header: "header_extended 1 pe (count_section sh start pe)"
  by (simp add: header_extended_def count_section_def Let_def)

lemma copied_contents:
  assumes "poke (replicate n 0) 0 src = Some c" and "length src = k"
  shows "length c = n \<and> k \<le> n \<and> take k c = src"
  using assms by (auto simp: poke_def split: if_split_asm)

lemma section_pointer_auto:
  "section_pointer False f eh sh = Some (Inr (if sh_type sh = SHT_PROGBITS then PTRD_AUTO else 0, False))"
  by (simp add: section_pointer_def)

lemma process_section_made:
  assumes "process_section False f eh sh pe = Some (Inr (s, pe'))"
  shows "section_made f sh s \<and> header_extended 1 pe pe'"
proof -
  obtain r where r: "elf_string f eh (e_shstrndx eh) (ucast (sh_name sh)) = Some r"
    using assms unfolding process_section_def by (rule bindE)
  obtain p where p: "r = Inr p" using assms r by (cases r) (simp_all add: process_section_def)
  obtain nm where nm: "text_at f p = Some nm" using assms r p by (cases "text_at f p") (simp_all add: process_section_def)
  obtain flags where flags: "section_kind sh = Some flags"
    using assms r p nm by (cases "section_kind sh") (simp_all add: process_section_def section_pointer_auto)
  let ?n = "unat (if sh_type sh = SHT_PROGBITS then efi_file_align (sh_size sh) else 0)"
  let ?copy = "if sh_type sh = SHT_PROGBITS
    then do { src \<leftarrow> peek f (unat (sh_offset sh)) (unat (sh_size sh)); poke (replicate ?n 0) 0 src }
    else Some (replicate ?n 0)"
  obtain c where c: "?copy = Some c"
    using assms r p nm flags by (cases ?copy) (simp_all add: process_section_def section_pointer_auto Let_def)
  have header: "header_extended 1 pe (let pe = count_section sh start pe in if x > SizeOfImage pe then pe\<lparr>SizeOfImage := x\<rparr> else pe)"
    for start x using count_section_header [of pe sh start] by (simp add: header_extended_def Let_def)
  have res: "s = \<lparr>Name = take 8 nm @ replicate (8 - length nm) 0, VirtualSize = ucast (sh_size sh),
      VirtualAddress = ucast (sh_addr sh), SizeOfRawData = ucast (if sh_type sh = SHT_PROGBITS then efi_file_align (sh_size sh) else 0),
      PointerToRawData = (if sh_type sh = SHT_PROGBITS then PTRD_AUTO else 0), Characteristics = flags,
      hidden_section = False, section_contents = c\<rparr> \<and> header_extended 1 pe pe'"
    using assms c header r p nm flags
    by (simp only: process_section_def section_pointer_auto Let_def Option.bind.bind_lunit sum.case option.case
        prod.case simp_thms if_False option.inject sum.inject prod.inject) blast
  show ?thesis
  proof (cases "sh_type sh = SHT_PROGBITS")
    case True
    then obtain src where src: "peek f (unat (sh_offset sh)) (unat (sh_size sh)) = Some src"
      "poke (replicate (unat (efi_file_align (sh_size sh))) 0) 0 src = Some c"
      using c by (auto elim!: bindE)
    show ?thesis using copied_contents [OF src(2) peek_length [OF src(1)]] res src(1) flags True
      by (simp add: section_made_def)
  qed (use res flags in \<open>simp add: section_made_def\<close>)
qed

lemma low_bits_cleared: "unat (ucast ((x :: u64) AND NOT (mask 9)) :: u32) mod 512 = 0"
proof -
  have "(ucast (x AND NOT (mask 9)) :: u32) AND mask 9 = 0" by (rule bit_word_eqI) (auto simp: bit_simps)
  then show ?thesis using unat_and_mask [of "ucast (x AND NOT (mask 9)) :: u32" 9] by simp
qed

lemma made_placeable:
  assumes "section_made f sh s" and "length (section_contents s) < 2 ^ 31"
  shows "placeable s"
proof (cases "sh_type sh = SHT_PROGBITS")
  case True
  have "EFI_FILE_ALIGN - 1 = mask 9" by (simp add: EFI_FILE_ALIGN_def mask_eq_exp_minus_1)
  then have "unat (ucast (efi_file_align (sh_size sh)) :: u32) mod 512 = 0"
    unfolding efi_file_align_def by (simp only: low_bits_cleared)
  then show ?thesis using assms True unat_ucast_low [of "efi_file_align (sh_size sh)"]
    by (simp add: section_made_def placeable_def)
qed (use assms in \<open>simp add: section_made_def placeable_def\<close>)

text \<open>
  The relocations of the ELF file that a loader of the executable has to apply: the absolute ones of
  symbols that move with the image, in the order of the file.
\<close>

definition reloc_request :: "elf_ehdr \<Rightarrow> u16 \<Rightarrow> u32 \<Rightarrow> u64 \<Rightarrow> (u64 \<times> nat) list" where
  "reloc_request eh shndx type offset =
     (if shndx = SHN_ABS then []
      else if ELF_MREL (e_machine eh) type \<in> set relocs_abs4 then [(offset, 4)]
      else if ELF_MREL (e_machine eh) type \<in> set relocs_abs8 then [(offset, 8)]
      else [])"

definition request_at :: "bytes \<Rightarrow> elf_ehdr \<Rightarrow> elf_shdr \<Rightarrow> u64 \<Rightarrow> nat \<Rightarrow> (u64 \<times> nat) list" where
  "request_at f eh sh syms rel =
     (case (get64 f rel, get64 f (rel + 8)) of
        (Some r_offset, Some r_info) \<Rightarrow>
          (case get16 f (unat syms + unat (ucast (drop_bit 32 r_info) :: u32) * 24 + 6) of
             Some shndx \<Rightarrow> reloc_request eh shndx (ucast r_info) (sh_addr sh + r_offset)
           | None \<Rightarrow> [])
      | _ \<Rightarrow> [])"

definition section_requests :: "bytes \<Rightarrow> elf_ehdr \<Rightarrow> elf_shdr \<Rightarrow> nat \<Rightarrow> (u64 \<times> nat) list" where
  "section_requests f eh sh stride =
     (case elf_shdr_of f (shdr_offset eh (unat (sh_link sh))) of
        Some symtab \<Rightarrow> concat (map (\<lambda>i. request_at f eh sh (sh_offset symtab) (unat (sh_offset sh) + i * stride))
          [0..<unat (ucast (sh_size sh div of_nat stride) :: u32)])
      | None \<Rightarrow> [])"

definition header_requests :: "bytes \<Rightarrow> elf_ehdr \<Rightarrow> elf_shdr \<Rightarrow> (u64 \<times> nat) list" where
  "header_requests f eh sh =
     (if sh_flags sh AND SHF_ALLOC \<noteq> 0 then []
      else if sh_type sh = SHT_REL then section_requests f eh sh 16
      else if sh_type sh = SHT_RELA then section_requests f eh sh 24
      else [])"

definition elf_sections :: "bytes \<Rightarrow> elf_ehdr \<Rightarrow> nat list \<Rightarrow> elf_shdr list" where
  "elf_sections f eh is = concat (map (\<lambda>i. case elf_shdr_of f (shdr_offset eh i) of Some sh \<Rightarrow> [sh] | None \<Rightarrow> []) is)"

definition loaded_sections :: "bytes \<Rightarrow> elf_ehdr \<Rightarrow> nat list \<Rightarrow> elf_shdr list" where
  "loaded_sections f eh is = filter (\<lambda>sh. sh_flags sh AND SHF_ALLOC \<noteq> 0) (elf_sections f eh is)"

definition file_requests :: "bytes \<Rightarrow> elf_ehdr \<Rightarrow> nat list \<Rightarrow> (u64 \<times> nat) list" where
  "file_requests f eh is = concat (map (header_requests f eh) (elf_sections f eh is))"

lemma request_sizes: "\<forall>(rva, sz) \<in> set (file_requests f eh is). sz \<in> {2, 4, 8}"
  by (auto simp: file_requests_def header_requests_def section_requests_def request_at_def reloc_request_def
      split: if_split_asm option.split_asm)

lemma absolute_not_ignored:
  "m \<in> set relocs_none \<Longrightarrow> m \<notin> set relocs_abs4" "m \<in> set relocs_none \<Longrightarrow> m \<notin> set relocs_abs8"
  by (auto simp: relocs_none_def relocs_abs4_def relocs_abs8_def ELF_MREL_def EM_386_def EM_ARM_def EM_X86_64_def
      EM_AARCH64_def EM_LOONGARCH_def)

lemma process_reloc_request:
  assumes "process_reloc False f eh sh syms nsyms rel tab = Some (Inr tab')"
  shows "generate_relocs (request_at f eh sh syms rel) tab = Some (Inr tab')"
proof -
  obtain off where off: "get64 f rel = Some off" using assms unfolding process_reloc_def by (rule bindE)
  obtain info where info: "get64 f (rel + 8) = Some info" using assms off by (cases "get64 f (rel + 8)") (simp_all add: process_reloc_def)
  obtain shndx where shndx: "get16 f (unat syms + unat (ucast (drop_bit 32 info) :: u32) * 24 + 6) = Some shndx"
    using assms off info
    by (cases "get16 f (unat syms + unat (ucast (drop_bit 32 info) :: u32) * 24 + 6)")
       (simp_all add: process_reloc_def Let_def split: if_split_asm)
  let ?m = "ELF_MREL (e_machine eh) (ucast info)" and ?o = "sh_addr sh + off"
  have one: "generate_relocs [(rva, sz)] tab = generate_pe_reloc tab rva sz" for rva sz
    by (cases "generate_pe_reloc tab rva sz") (auto split: sum.split)
  have "generate_relocs (reloc_request eh shndx (ucast info) ?o) tab = Some (Inr tab')"
    using assms off info shndx absolute_not_ignored [of ?m]
    by (auto simp: process_reloc_def Let_def reloc_request_def one simp del: generate_relocs.simps(2)
        split: if_split_asm)
  then show ?thesis by (simp add: request_at_def off info shndx)
qed

lemma generate_relocs_append:
  "generate_relocs xs tab = Some (Inr t) \<Longrightarrow> generate_relocs (xs @ ys) tab = generate_relocs ys t"
proof (induction xs tab rule: generate_relocs.induct)
  case (2 rva sz qs tab)
  then obtain r where r: "generate_pe_reloc tab rva sz = Some r" by (auto elim!: bindE)
  then show ?case using 2 by (cases r) simp_all
qed simp

lemma reloc_loop_requests:
  assumes "\<And>rel tab t. step rel tab = Some (Inr t) \<Longrightarrow> generate_relocs (req rel) tab = Some (Inr t)"
    and "reloc_loop step n rel stride tab = Some (Inr tab')"
  shows "generate_relocs (concat (map (\<lambda>i. req (rel + i * stride)) [0..<n])) tab = Some (Inr tab')"
  using assms(2)
proof (induction n arbitrary: rel tab)
  case (Suc n)
  obtain r where r: "step rel tab = Some r" using Suc.prems by (auto elim!: bindE)
  then obtain t where t: "step rel tab = Some (Inr t)" "reloc_loop step n (rel + stride) stride t = Some (Inr tab')"
    using Suc.prems by (cases r) simp_all
  have "concat (map (\<lambda>i. req (rel + i * stride)) [0..<Suc n]) =
      req rel @ concat (map (\<lambda>i. req (rel + stride + i * stride)) [0..<n])"
    by (simp add: upt_conv_Cons map_Suc_upt [symmetric] comp_def add.assoc del: upt_Suc)
  then show ?case using generate_relocs_append [OF assms(1) [OF t(1)]] Suc.IH [OF t(2)] by simp
qed simp

lemma process_relocs_requests:
  assumes "process_relocs False f eh sh stride tab = Some (Inr tab')"
  shows "generate_relocs (section_requests f eh sh stride) tab = Some (Inr tab')"
proof -
  obtain symtab where s: "elf_shdr_of f (shdr_offset eh (unat (sh_link sh))) = Some symtab"
    using assms unfolding process_relocs_def by (rule bindE)
  show ?thesis unfolding section_requests_def s option.case
    by (rule reloc_loop_requests [OF process_reloc_request]) (use assms s in \<open>auto simp: process_relocs_def Let_def\<close>)
qed

lemma convert_section_spec:
  assumes "convert_section False f eh i (ss, tab, pe) = Some (Inr (ss', tab', pe'))"
  shows "\<exists>new. ss' = ss @ new \<and> list_all2 (section_made f) (loaded_sections f eh [i]) new \<and>
     generate_relocs (file_requests f eh [i]) tab = Some (Inr tab') \<and> header_extended (length new) pe pe'"
proof -
  obtain sh where sh: "elf_shdr_of f (shdr_offset eh i) = Some sh"
    using assms by (auto simp: convert_section_def elim!: bindE)
  show ?thesis
  proof (cases "sh_flags sh AND SHF_ALLOC \<noteq> 0")
    case True
    then obtain r where "process_section False f eh sh pe = Some r" using assms sh
      by (auto simp: convert_section_def elim!: bindE)
    then obtain s where s: "process_section False f eh sh pe = Some (Inr (s, pe'))" "ss' = ss @ [s]" "tab' = tab"
      using assms sh True by (cases r) (auto simp: convert_section_def)
    then show ?thesis using process_section_made [OF s(1)] sh True
      by (simp add: loaded_sections_def elf_sections_def file_requests_def header_requests_def)
  next
    case False
    note simps = loaded_sections_def elf_sections_def file_requests_def header_requests_def header_extended_refl
    consider (reloc) stride where "process_relocs False f eh sh stride tab = Some (Inr tab')" "ss' = ss" "pe' = pe"
        "header_requests f eh sh = section_requests f eh sh stride"
      | (other) "tab' = tab" "ss' = ss" "pe' = pe" "header_requests f eh sh = []"
    proof (cases "sh_type sh = SHT_REL \<or> sh_type sh = SHT_RELA")
      case True
      let ?k = "if sh_type sh = SHT_REL then 16 else 24"
      obtain r where r: "process_relocs False f eh sh ?k tab = Some r" using assms sh False True
        by (auto simp: convert_section_def elim!: bindE)
      then have "r = Inr tab'" "ss' = ss" "pe' = pe" using assms sh False True
        by (cases r; auto simp: convert_section_def)+
      then show thesis using r True False by (intro that(1) [of ?k]) (auto simp: header_requests_def)
    next
      case t: False
      then show thesis using assms sh False by (intro that(2)) (auto simp: convert_section_def header_requests_def)
    qed
    then show ?thesis
    proof cases
      case reloc
      then show ?thesis using process_relocs_requests [OF reloc(1)] sh False by (simp add: simps)
    next
      case other
      then show ?thesis using sh False by (simp add: simps)
    qed
  qed
qed

lemma file_requests_Cons: "file_requests f eh (i # is) = file_requests f eh [i] @ file_requests f eh is"
  by (simp add: file_requests_def elf_sections_def)

lemma loaded_sections_Cons: "loaded_sections f eh (i # is) = loaded_sections f eh [i] @ loaded_sections f eh is"
  by (simp add: loaded_sections_def elf_sections_def)

lemma convert_sections_spec:
  assumes "convert_sections False f eh is (ss, tab, pe) = Some (Inr (ss', tab', pe'))"
  shows "\<exists>new. ss' = ss @ new \<and> list_all2 (section_made f) (loaded_sections f eh is) new \<and>
     generate_relocs (file_requests f eh is) tab = Some (Inr tab') \<and> header_extended (length new) pe pe'"
  using assms
proof (induction "is" arbitrary: ss tab pe)
  case Nil
  then show ?case by (simp add: loaded_sections_def file_requests_def elf_sections_def header_extended_refl)
next
  case (Cons i "is")
  obtain r where r: "convert_section False f eh i (ss, tab, pe) = Some r" using Cons.prems by (auto elim!: bindE)
  then obtain ss1 tab1 pe1 where c: "convert_section False f eh i (ss, tab, pe) = Some (Inr (ss1, tab1, pe1))"
    "convert_sections False f eh is (ss1, tab1, pe1) = Some (Inr (ss', tab', pe'))"
    using Cons.prems by (cases r) auto
  obtain n1 where n1: "ss1 = ss @ n1" "list_all2 (section_made f) (loaded_sections f eh [i]) n1"
    "generate_relocs (file_requests f eh [i]) tab = Some (Inr tab1)" "header_extended (length n1) pe pe1"
    using convert_section_spec [OF c(1)] by blast
  obtain n2 where n2: "ss' = ss1 @ n2" "list_all2 (section_made f) (loaded_sections f eh is) n2"
    "generate_relocs (file_requests f eh is) tab1 = Some (Inr tab')" "header_extended (length n2) pe1 pe'"
    using Cons.IH [OF c(2)] by blast
  show ?case
  proof (intro exI [of _ "n1 @ n2"] conjI)
    show "ss' = ss @ n1 @ n2" using n1(1) n2(1) by simp
    show "list_all2 (section_made f) (loaded_sections f eh (i # is)) (n1 @ n2)"
      by (subst loaded_sections_Cons) (rule list_all2_appendI [OF n1(2) n2(2)])
    show "generate_relocs (file_requests f eh (i # is)) tab = Some (Inr tab')"
      by (subst file_requests_Cons) (simp only: generate_relocs_append [OF n1(3)] n2(3))
    show "header_extended (length (n1 @ n2)) pe pe'" using header_extended_trans [OF n1(4) n2(4)] by simp
  qed
qed

section \<open>The conversion\<close>

lemma create_debug_spec:
  assumes "create_debug_section pe fn = (d, pe')" and "unat (SizeOfHeaders pe) < 2 ^ 30"
  shows "debug_at_end pe' d" and "unat (SizeOfHeaders pe) \<le> unat (PointerToRawData d)"
    and "unat (SizeOfHeaders pe') \<le> unat (SizeOfHeaders pe) + 595"
    and "pe' = pe\<lparr>SizeOfHeaders := SizeOfHeaders pe', debug_directory := debug_directory pe'\<rparr>"
proof -
  let ?x = "ucast (SizeOfHeaders pe + 84) :: u64"
  let ?a = "ucast (efi_file_align ?x) :: u32"
  have "unat (SizeOfHeaders pe + 84) = unat (SizeOfHeaders pe) + 84" using assms(2) by (simp add: unat_word_ariths)
  then have x: "unat ?x = unat (SizeOfHeaders pe) + 84" by (simp only: unat_ucast_high)
  have al: "unat ?x \<le> unat (efi_file_align ?x)" "unat (efi_file_align ?x) \<le> unat ?x + 511"
    "unat (efi_file_align ?x) mod 512 = 0"
    using file_align_covers [of ?x] x assms(2) by simp_all
  have a: "unat ?a = unat (efi_file_align ?x)" by (rule unat_ucast_low) (use al(2) x assms(2) in simp)
  have "84 \<le> ?a" using a al(1) x by (simp add: word_le_nat_alt)
  then have va: "unat (?a - 84) = unat ?a - 84" by (simp add: unat_sub)
  have d: "PointerToRawData d = ?a - 84" "SizeOfHeaders pe' = ?a" "SizeOfRawData d = 84" "hidden_section d"
    "length (section_contents d) = 84"
    using assms(1) by (auto simp: create_debug_section_def Let_def debug_contents_def)
  show "debug_at_end pe' d" using d va a al x by (simp add: debug_at_end_def)
  show "unat (SizeOfHeaders pe) \<le> unat (PointerToRawData d)" using d(1) va a al(1) x by simp
  show "unat (SizeOfHeaders pe') \<le> unat (SizeOfHeaders pe) + 595" using d(2) a al(2) x by simp
  show "pe' = pe\<lparr>SizeOfHeaders := SizeOfHeaders pe', debug_directory := debug_directory pe'\<rparr>"
    using assms(1) by (auto simp: create_debug_section_def Let_def)
qed

definition written :: "bytes \<Rightarrow> bytes \<Rightarrow> u64 \<Rightarrow> elf_shdr \<Rightarrow> pe_section \<Rightarrow> bool" where
  "written f out base sh s \<longleftrightarrow>
     VirtualAddress s = ucast (sh_addr sh) - ucast base \<and> VirtualSize s = ucast (sh_size sh) \<and>
     section_kind sh = Some (Characteristics s) \<and>
     (sh_type sh = SHT_PROGBITS \<longrightarrow> (\<exists>data. peek f (unat (sh_offset sh)) (unat (sh_size sh)) = Some data \<and>
        peek out (unat (PointerToRawData s)) (unat (sh_size sh)) = Some data))"

lemma peek_prefix: "peek xs p n = Some ys \<Longrightarrow> m \<le> n \<Longrightarrow> peek xs p m = Some (take m ys)"
  by (auto simp: peek_def min_def split: if_split_asm)

lemma made_written:
  assumes "section_made f sh s" and "s1 = s\<lparr>VirtualAddress := VirtualAddress s - ucast base\<rparr>"
    and "s' = placed q s1" and "placeable s"
    and "PointerToRawData s1 = PTRD_AUTO \<longrightarrow>
      peek out (unat (PointerToRawData s')) (unat (SizeOfRawData s1)) = Some (raw_bytes s1)"
    and "length (section_contents s) < 2 ^ 31"
  shows "written f out base sh s'"
proof -
  have "\<exists>data. peek f (unat (sh_offset sh)) (unat (sh_size sh)) = Some data \<and>
      peek out (unat (PointerToRawData s')) (unat (sh_size sh)) = Some data"
    if t: "sh_type sh = SHT_PROGBITS"
  proof -
    have m: "PointerToRawData s = PTRD_AUTO" "SizeOfRawData s = ucast (efi_file_align (sh_size sh))"
      "length (section_contents s) = unat (efi_file_align (sh_size sh))"
      "unat (sh_size sh) \<le> length (section_contents s)"
      "peek f (unat (sh_offset sh)) (unat (sh_size sh)) = Some (take (unat (sh_size sh)) (section_contents s))"
      using assms(1) t by (simp_all add: section_made_def)
    have r: "unat (SizeOfRawData s) = length (section_contents s)"
      using m(2,3) assms(6) unat_ucast_low [of "efi_file_align (sh_size sh)"] by simp
    then have "peek out (unat (PointerToRawData s')) (unat (SizeOfRawData s)) = Some (section_contents s)"
      using assms(2,5) m(1) by (simp add: raw_bytes_def)
    then have "peek out (unat (PointerToRawData s')) (unat (sh_size sh)) = Some (take (unat (sh_size sh)) (section_contents s))"
      by (rule peek_prefix) (use r m(4) in simp)
    then show ?thesis using m(5) by blast
  qed
  then show ?thesis using assms(1-3) by (simp add: written_def section_made_def)
qed

text \<open>
  The end of a section header is computed modulo \<open>2 ^ 64\<close>: with a table of sections at the end of the
  address space the check of the file's length passes, and the header is read outside the file.
\<close>

lemma section_header_wraps:
  assumes "64 \<le> length f" and "length f < 2 ^ 63" and "take 6 f = elf_ident" and "elf_ehdr_of f = Some eh"
    and "e_phoff eh = 0" and "e_phnum eh = 0" and "e_shoff eh = - 64" and "0 < unat (e_shnum eh)"
  shows "read_elf_file f = None"
proof -
  have "[0..<unat (e_shnum eh)] = 0 # [1..<unat (e_shnum eh)]" using assms(8) by (simp add: upt_conv_Cons)
  moreover have o: "shdr_offset eh 0 = - 64" using assms(7) by (simp add: shdr_offset_def)
  moreover have "unat (- 64 :: u64) = 2 ^ 64 - 64" by simp
  then have "elf_shdr_of f (- 64) = None" using assms(2) by (simp add: elf_shdr_of_def get32_def peek_def)
  ultimately have "check_sections f eh [0..<unat (e_shnum eh)] = None" by simp
  then show ?thesis using assms(1,3-6) by (simp add: read_elf_file_def)
qed

end
