(* ===== verification/ElfPeConvert.thy ===== *)
theory ElfPeConvert
  imports ElfPeFile
begin

text \<open>
  The conversion of an ELF file as a whole: from a file whose sections can be converted the tool writes an
  executable, and that has the sections, the relocations and the headers the ELF file asks for.
\<close>

definition same_identity :: "pe_header \<Rightarrow> pe_header \<Rightarrow> bool" where
  "same_identity pe pe' \<longleftrightarrow> Machine pe' = Machine pe \<and> AddressOfEntryPoint pe' = AddressOfEntryPoint pe \<and>
     ImageBase pe' = ImageBase pe \<and> Subsystem pe' = Subsystem pe"

definition finish :: "pe_header \<Rightarrow> pe_section list \<Rightarrow> pe_relocs list \<Rightarrow> bytes \<Rightarrow> (elf_error + bytes) option" where
  "finish pe ss tab filename = do {
     (reloc, pe) \<leftarrow> create_reloc_section pe tab;
     let (debug, pe) = create_debug_section pe filename;
     write_pe_file pe (ss @ [reloc, debug]) }"

lemma reloc_placed:
  assumes "list_all2 (\<lambda>s s'. (\<exists>q. s' = placed q s) \<and> P s s') (ss @ [r]) ts"
  shows "\<exists>ts' q. ts = ts' @ [placed q r] \<and> list_all2 (\<lambda>s s'. (\<exists>q. s' = placed q s) \<and> P s s') ss ts' \<and> P r (placed q r)"
  using assms by (auto simp: list_all2_append1 list_all2_Cons1)

lemma finish_writes:
  assumes ok: "\<forall>s \<in> set ss. placeable s" and tab: "\<forall>r \<in> set tab. block_ok r"
    and hdr: "SizeOfHeaders pe = of_nat (264 + 40 * length ss)" "NumberOfSections pe = of_nat (length ss)"
    and n: "length ss < 0xffff" and fit: "raw_total ss + 12 * used_total tab < 2 ^ 30"
  shows "\<exists>out pe' ss' reloc. finish pe ss tab filename = Some (Inr out) \<and>
     take (264 + 40 * (length ss + 1)) out = pe_header_bytes pe' @ concat (map section_header_bytes (ss' @ [reloc])) \<and>
     list_all2 (\<lambda>s s'. (\<exists>q. s' = placed q s) \<and> (PointerToRawData s = PTRD_AUTO \<longrightarrow>
       peek out (unat (PointerToRawData s')) (unat (SizeOfRawData s)) = Some (raw_bytes s))) ss ss' \<and>
     Option.bind (peek out (unat (PointerToRawData reloc)) (unat (VirtualSize reloc))) read_reltab = Some (table_fixups tab) \<and>
     reloc_directory pe' = (VirtualAddress reloc, VirtualSize reloc) \<and> unat (NumberOfSections pe') = length ss + 1 \<and>
     same_identity pe pe'"
proof -
  have small: "12 * used_total tab < 2 ^ 31" using fit by simp
  obtain r pe2 where r: "create_reloc_section pe tab = Some (r, pe2)"
    "pe2 = pe\<lparr>NumberOfSections := NumberOfSections pe + 1, SizeOfHeaders := SizeOfHeaders pe + 40,
       SizeOfImage := SizeOfImage pe2, reloc_directory := (VirtualAddress r, VirtualSize r)\<rparr>"
    "PointerToRawData r = PTRD_AUTO" "\<not> hidden_section r" "length (Name r) = 8" "unat (SizeOfRawData r) mod 512 = 0"
    "unat (VirtualSize r) \<le> unat (SizeOfRawData r)" "length (section_contents r) = unat (SizeOfRawData r)"
    "unat (SizeOfRawData r) \<le> 12 * used_total tab + 511"
    "read_reltab (take (unat (VirtualSize r)) (section_contents r)) = Some (table_fixups tab)"
    using create_reloc_section_spec [OF tab small, of pe] by (elim exE conjE) (rule that; assumption)
  obtain d pe3 where d: "create_debug_section pe2 filename = (d, pe3)" by (cases "create_debug_section pe2 filename")
  have h2: "SizeOfHeaders pe2 = of_nat (264 + 40 * (length ss + 1))"
    "NumberOfSections pe2 = of_nat (length ss + 1)" "reloc_directory pe2 = (VirtualAddress r, VirtualSize r)"
    "same_identity pe pe2"
    by (subst r(2), simp add: hdr same_identity_def)+
  have u2: "unat (SizeOfHeaders pe2) = 264 + 40 * (length ss + 1)"
    unfolding h2(1) by (rule unat_of_nat_small [where ?'a = 32]) (use n in simp)
  have "unat (SizeOfHeaders pe2) < 2 ^ 30" using u2 n by simp
  note dbg = create_debug_spec [OF d this]
  have h3: "NumberOfSections pe3 = of_nat (length ss + 1)" "reloc_directory pe3 = (VirtualAddress r, VirtualSize r)"
    "same_identity pe pe3"
    by (subst dbg(4), use h2(2-4) in \<open>simp add: same_identity_def\<close>)+
  have ok': "\<forall>s \<in> set (ss @ [r]). placeable s" using ok r(3-8) by (auto simp: placeable_def)
  have tot: "raw_total (ss @ [r]) = raw_total ss + unat (SizeOfRawData r)" by (simp add: raw_total_def)
  have f31: "unat (SizeOfHeaders pe3) + raw_total (ss @ [r]) < 2 ^ 31" using dbg(3) u2 n tot fit r(9) by simp
  have room: "264 + 40 * length (ss @ [r]) \<le> unat (PointerToRawData d)" using dbg(2) u2 by simp
  let ?p = "ucast (SizeOfHeaders pe3) :: u64" and ?ts = "assign_pointers (ucast (SizeOfHeaders pe3)) (ss @ [r])"
  let ?pre = "pe_header_bytes pe3 @ concat (map section_header_bytes ?ts) @
      replicate (unat (PointerToRawData d) - (264 + 40 * length (ss @ [r]))) 0 @ section_contents d"
  let ?out = "?pre @ concat (map raw_bytes (ss @ [r]))"
  have w: "write_pe_file pe3 ((ss @ [r]) @ [d]) = Some (Inr ?out)"
    using write_pe_file_spec [OF ok' dbg(1) f31 _ _ room] h3(1) n by simp
  have p: "unat ?p = unat (SizeOfHeaders pe3)" by (rule unat_ucast_high)
  have m: "unat ?p mod 512 = 0" "unat ?p + raw_total (ss @ [r]) < 2 ^ 32"
    using p dbg(1) f31 by (simp_all add: debug_at_end_def)
  note v = visible_placed [OF ok' m]
  have lpre: "length ?pre = unat ?p"
    using dbg(1) room p v(2) by (simp add: header_length debug_at_end_def)
  obtain ts q where ts: "?ts = ts @ [placed q r]"
    "list_all2 (\<lambda>s s'. (\<exists>q. s' = placed q s) \<and> (PointerToRawData s = PTRD_AUTO \<longrightarrow>
       peek ?out (unat (PointerToRawData s')) (unat (SizeOfRawData s)) = Some (raw_bytes s))) ss ts"
    "PointerToRawData r = PTRD_AUTO \<longrightarrow>
       peek ?out (unat (PointerToRawData (placed q r))) (unat (SizeOfRawData r)) = Some (raw_bytes r)"
    using reloc_placed [OF placed_contents [OF ok' m lpre]] by blast
  have raw: "raw_bytes r = section_contents r" using r(8) by (simp add: raw_bytes_def)
  have rp: "peek ?out (unat (PointerToRawData (placed q r))) (unat (SizeOfRawData r)) = Some (section_contents r)"
    using ts(3) r(3) raw by (simp only: simp_thms)
  have "peek ?out (unat (PointerToRawData (placed q r))) (unat (VirtualSize (placed q r))) =
      Some (take (unat (VirtualSize r)) (section_contents r))"
    unfolding placed_same by (rule peek_prefix [OF rp r(7)])
  then have rel: "Option.bind (peek ?out (unat (PointerToRawData (placed q r))) (unat (VirtualSize (placed q r)))) read_reltab =
      Some (table_fixups tab)" using r(10) by simp
  have start: "take (264 + 40 * (length ss + 1)) ?out =
      pe_header_bytes pe3 @ concat (map section_header_bytes (ts @ [placed q r]))"
    unfolding ts(1) [symmetric] using v(2) by (simp add: header_length)
  have fin: "finish pe ss tab filename = Some (Inr ?out)" using r(1) d w by (simp add: finish_def)
  have cnt: "unat (NumberOfSections pe3) = length ss + 1"
    unfolding h3(1) by (rule unat_of_nat_small [where ?'a = 16]) (use n in simp)
  have dir: "reloc_directory pe3 = (VirtualAddress (placed q r), VirtualSize (placed q r))" using h3(2) by simp
  show ?thesis by (intro exI conjI) (rule fin start ts(2) rel dir cnt h3(3))+
qed

section \<open>The theorem\<close>

definition rebased :: "u64 \<Rightarrow> pe_section \<Rightarrow> pe_section" where
  "rebased base s = s\<lparr>VirtualAddress := VirtualAddress s - ucast base\<rparr>"

lemma rebased_placeable: "placeable (rebased base s) = placeable s"
  by (simp add: rebased_def placeable_def)

lemma rebased_total: "raw_total (map (rebased base) ss) = raw_total ss"
  by (induction ss) (simp_all add: raw_total_def rebased_def)

lemma raw_total_contents: "\<forall>s \<in> set ss. placeable s \<Longrightarrow> raw_total ss \<le> sum_list (map (length \<circ> section_contents) ss)"
  by (induction ss) (auto simp: raw_total_def placeable_def)

lemma all_written:
  assumes "list_all2 (section_made f) shs ss" and "\<forall>s \<in> set ss. length (section_contents s) < 2 ^ 31"
    and "list_all2 (\<lambda>s s'. (\<exists>q. s' = placed q s) \<and> (PointerToRawData s = PTRD_AUTO \<longrightarrow>
       peek out (unat (PointerToRawData s')) (unat (SizeOfRawData s)) = Some (raw_bytes s))) (map (rebased base) ss) ts"
  shows "list_all2 (written f out base) shs ts"
  using assms
proof (induction shs ss arbitrary: ts rule: list_all2_induct)
  case (Cons sh shs s ss)
  obtain t ts' where t: "ts = t # ts'" using Cons.prems(2) by (cases ts) simp_all
  obtain q where q: "t = placed q (rebased base s)" using Cons.prems(2) t by auto
  have "placeable s" using Cons.hyps(1) Cons.prems(1) by (auto intro: made_placeable)
  then have "written f out base sh t"
    using made_written [OF Cons.hyps(1) rebased_def q] Cons.prems t by auto
  then show ?case using Cons.IH [of ts'] Cons.prems t by simp
qed simp

lemma loaded_count: "length (loaded_sections f eh is) \<le> length is"
proof (induction "is")
  case (Cons i "is")
  have "length (loaded_sections f eh [i]) \<le> 1"
    by (auto simp: loaded_sections_def elf_sections_def split: option.split)
  then show ?case using Cons by (subst loaded_sections_Cons) simp
qed (simp add: loaded_sections_def elf_sections_def)


section \<open>An example\<close>

text \<open>
  A small file: its strings, a section of code at 0x2000, a symbol of that section, and an absolute
  relocation of the first address.
\<close>

definition small_elf :: bytes where
  "small_elf =
     elf_ident @ replicate 12 0 @ le_bytes 2 (62 :: u16) @ replicate 4 0 @ le_bytes 8 (0x2000 :: u64) @ replicate 8 0 @
     le_bytes 8 (64 :: u64) @ replicate 10 0 @ le_bytes 2 (64 :: u16) @ le_bytes 2 (4 :: u16) @ [0, 0] @
     le_bytes 4 (0 :: u32) @ le_bytes 4 SHT_STRTAB @ replicate 16 0 @ le_bytes 8 (320 :: u64) @ le_bytes 8 (1 :: u64) @ replicate 24 0 @
     le_bytes 4 (0 :: u32) @ le_bytes 4 SHT_PROGBITS @ le_bytes 8 (SHF_ALLOC OR SHF_EXECINSTR) @ le_bytes 8 (0x2000 :: u64) @
       le_bytes 8 (321 :: u64) @ le_bytes 8 (8 :: u64) @ replicate 24 0 @
     le_bytes 4 (0 :: u32) @ le_bytes 4 (2 :: u32) @ replicate 16 0 @ le_bytes 8 (329 :: u64) @ le_bytes 8 (24 :: u64) @ replicate 24 0 @
     le_bytes 4 (0 :: u32) @ le_bytes 4 SHT_RELA @ replicate 16 0 @ le_bytes 8 (353 :: u64) @ le_bytes 8 (24 :: u64) @
       le_bytes 4 (2 :: u32) @ replicate 20 0 @
     [0] @ [1, 2, 3, 4, 5, 6, 7, 8] @
     replicate 6 0 @ le_bytes 2 (1 :: u16) @ replicate 16 0 @
     le_bytes 8 (0x2000 :: u64) @ le_bytes 8 (1 :: u64) @ replicate 8 0"

lemma le_word_zeros [simp]: "le_word (replicate n 0) = 0"
  by (induction n) simp_all

lemmas small_eval = elf_shdr_of_def elf_ehdr_of_def get16_def get32_def get64_def peek_def rd_def small_elf_def elf_ident_def
  SHT_STRTAB_def SHT_PROGBITS_def SHT_RELA_def SHF_ALLOC_def SHF_EXECINSTR_def eval_simps Let_def

definition small_ehdr :: elf_ehdr where
  "small_ehdr = \<lparr>e_machine = 62, e_entry = 0x2000, e_phoff = 0, e_shoff = 64, e_phentsize = 0, e_phnum = 0,
     e_shentsize = 64, e_shnum = 4, e_shstrndx = 0\<rparr>"

definition small_pe :: pe_header where
  "small_pe = efi_pe_header\<lparr>Machine := 0x8664\<rparr>"

lemma small_machine: "set_machine small_ehdr efi_pe_header = Inr small_pe"
  by code_simp

definition small_shdr :: "u32 \<Rightarrow> u64 \<Rightarrow> u64 \<Rightarrow> u64 \<Rightarrow> u64 \<Rightarrow> u32 \<Rightarrow> elf_shdr" where
  "small_shdr t flags addr off sz link = \<lparr>sh_name = 0, sh_type = t, sh_flags = flags, sh_addr = addr, sh_offset = off,
     sh_size = sz, sh_link = link\<rparr>"

lemma small_shdrs:
  "elf_shdr_of small_elf 64 = Some (small_shdr 3 0 0 320 1 0)"
  "elf_shdr_of small_elf 128 = Some (small_shdr 1 6 0x2000 321 8 0)"
  "elf_shdr_of small_elf 192 = Some (small_shdr 2 0 0 329 24 0)"
  "elf_shdr_of small_elf 256 = Some (small_shdr 4 0 0 353 24 2)"
  by (simp_all add: small_eval small_shdr_def)

lemma small_length: "length small_elf = 377" by (simp add: small_eval)

lemma small_first: "take 6 small_elf = elf_ident" "elf_ehdr_of small_elf = Some small_ehdr"
  by (simp_all add: small_eval small_ehdr_def)

lemma small_bytes:
  "peek small_elf 321 8 = Some [1, 2, 3, 4, 5, 6, 7, 8]" "get64 small_elf 353 = Some 0x2000" "get64 small_elf 361 = Some 1"
  by (simp_all add: small_eval)

lemma small_symbol: "get16 small_elf 335 = Some 1" 
  by code_simp

lemma small_name: "rd small_elf 320 = Some 0" "text_at small_elf 320 = Some []" 
  by (simp_all add: rd_def text_at_def small_length nth_via_drop) (simp_all add: small_eval nth_append)

lemma small_ehdr_fields: "e_machine small_ehdr = 62" "e_entry small_ehdr = 0x2000" "e_phoff small_ehdr = 0" "e_shoff small_ehdr = 64"
  "e_phentsize small_ehdr = 0" "e_phnum small_ehdr = 0" "e_shentsize small_ehdr = 64" "e_shnum small_ehdr = 4"
  "e_shstrndx small_ehdr = 0"
  by (simp_all add: small_ehdr_def)

lemma small_shdr_fields: "sh_name (small_shdr t flags addr off sz link) = 0" "sh_type (small_shdr t flags addr off sz link) = t"
  "sh_flags (small_shdr t flags addr off sz link) = flags" "sh_addr (small_shdr t flags addr off sz link) = addr"
  "sh_offset (small_shdr t flags addr off sz link) = off" "sh_size (small_shdr t flags addr off sz link) = sz"
  "sh_link (small_shdr t flags addr off sz link) = link"
  by (simp_all add: small_shdr_def)

lemma small_index: "shdr_offset small_ehdr 0 = 64" "shdr_offset small_ehdr (Suc 0) = 128"
  "shdr_offset small_ehdr 2 = 192" "shdr_offset small_ehdr 3 = 256"
  by (simp_all add: shdr_offset_def small_ehdr_fields)

lemma small_count: "[0..<4] = [0, Suc 0, 2, 3]"
  by code_simp

lemmas small_facts = small_index small_shdrs small_length small_bytes small_symbol small_name small_ehdr_fields small_shdr_fields
  SHF_ALLOC_def SHT_REL_def SHT_RELA_def SHT_PROGBITS_def SHT_NOBITS_def SHF_WRITE_def SHF_EXECINSTR_def SHT_STRTAB_def

lemma small_checked: "check_sections small_elf small_ehdr [0, Suc 0, 2, 3] = Some (Inr ())"
  by (simp add: small_facts Let_def)

lemma small_read: "read_elf_file small_elf = Some (Inr small_ehdr)"
  unfolding read_elf_file_def small_first small_length
  by (simp add: small_ehdr_fields small_count small_checked del: check_sections.simps)

lemma small_request: "reloc_request small_ehdr 1 1 0x2000 = [(0x2000, 8)]" by code_simp

lemma small_requests: "file_requests small_elf small_ehdr [0, Suc 0, 2, 3] = [(0x2000, 8)]"
  by (simp add: file_requests_def elf_sections_def header_requests_def section_requests_def small_facts
     request_at_def small_request)

definition small_text :: pe_section where
  "small_text = \<lparr>Name = replicate 8 0, VirtualSize = 8, VirtualAddress = 0x2000, SizeOfRawData = 512,
     PointerToRawData = PTRD_AUTO, Characteristics = 0x68000020, hidden_section = False,
     section_contents = [1, 2, 3, 4, 5, 6, 7, 8] @ replicate 504 0\<rparr>"

lemma small_kind: "section_kind (small_shdr 1 6 0x2000 321 8 0) = Some 0x68000020"
  by code_simp

lemma small_aligned: "efi_file_align 8 = 512" "efi_image_align 0x2008 = 0x3000"
  by code_simp+

lemma small_section: "\<exists>pe'. process_section False small_elf small_ehdr (small_shdr 1 6 0x2000 321 8 0) pe = Some (Inr (small_text, pe'))"
  by (simp add: process_section_def elf_string_def small_facts section_pointer_auto small_kind small_aligned poke_def)
     (simp add: Let_def small_text_def small_aligned)

lemma small_reloc:
  assumes "generate_pe_reloc tab 0x2000 8 = Some (Inr t)"
  shows "process_relocs False small_elf small_ehdr (small_shdr 4 0 0 353 24 2) 24 tab = Some (Inr t)"
proof -
  have "ELF_MREL 62 1 \<notin> set relocs_none" "ELF_MREL 62 1 \<notin> set relocs_abs4" "ELF_MREL 62 1 \<in> set relocs_abs8"
    by code_simp+
  then show ?thesis using assms
    by (simp add: process_relocs_def process_reloc_def small_facts SHN_ABS_def Let_def)
qed

lemma small_conv: "\<exists>tab pe. convert_sections False small_elf small_ehdr [0..<unat (e_shnum small_ehdr)]
      ([], [], small_pe\<lparr>AddressOfEntryPoint := ucast (e_entry small_ehdr), Subsystem := 10\<rparr>) = Some (Inr ([small_text], tab, pe))"
proof -
  obtain tab where "generate_pe_reloc [] 0x2000 8 = Some (Inr tab)"
    using generate_pe_reloc_spec [where tab = "[]" and sz = 8 and rva = "0x2000"] by (auto simp: reloc_flags_def)
  moreover obtain pe where "process_section False small_elf small_ehdr (small_shdr 1 6 0x2000 321 8 0)
      (small_pe\<lparr>AddressOfEntryPoint := ucast (e_entry small_ehdr), Subsystem := 10\<rparr>) = Some (Inr (small_text, pe))"
    using small_section by blast
  ultimately show ?thesis
    by (simp add: convert_section_def small_facts small_count small_reloc)
qed


end
